(* ===== verification/Prelude.thy ===== *)
theory Prelude
  imports Complex_Main "HOL-Library.Product_Lexorder" "HOL-Library.List_Lexorder" "HOL-Library.Char_ord"
begin

text \<open>
  Shared vocabulary of the development: the types every theory names (instants, identifiers,
  results of statements), the generic list operations that the SQL statements of
  packages/core/src/sql are made of (\<open>UPDATE ... WHERE\<close>, \<open>ORDER BY ... LIMIT\<close>, partial unique
  indexes), their lemmas, and the collections the component theories add to.

  Instants are integers counting microseconds since the epoch, the resolution of
  \<open>timestamptz\<close>. A JavaScript Date is an instant that is a multiple of 1000. Identifiers
  (bigint columns, strings in TypeScript) are natural numbers. Strings are UTF-8 byte
  sequences.
\<close>

named_theorems stmt_defs \<open>definitions of the SQL statements\<close>
named_theorems row_defs \<open>definitions of the row updates inside the statements\<close>
named_theorems inv_intros \<open>preservation of the database invariant\<close>

type_synonym instant = int
type_synonym ident = nat

definition us_per_second :: int where
  "us_per_second = 1000000"

definition us_per_ms :: int where
  "us_per_ms = 1000"

subsection \<open>Results\<close>

definition ok_or :: "'a \<Rightarrow> 'e + 'a \<Rightarrow> 'a" where
  "ok_or d r = (case r of Inl _ \<Rightarrow> d | Inr x \<Rightarrow> x)"

lemma ok_or_simps [simp]: "ok_or d (Inl e) = d" "ok_or d (Inr x) = x"
  by (simp_all add: ok_or_def)

definition coalesce :: "'a option \<Rightarrow> 'a \<Rightarrow> 'a" where
  "coalesce x d = (case x of None \<Rightarrow> d | Some v \<Rightarrow> v)"

lemma coalesce_simps [simp]: "coalesce None d = d" "coalesce (Some v) d = v"
  by (simp_all add: coalesce_def)

subsection \<open>UPDATE ... WHERE\<close>

definition upd_where :: "('a \<Rightarrow> bool) \<Rightarrow> ('a \<Rightarrow> 'a) \<Rightarrow> 'a list \<Rightarrow> 'a list" where
  "upd_where P f xs = map (\<lambda>x. if P x then f x else x) xs"

lemma upd_where_simps [simp]:
  "upd_where P f [] = []"
  "upd_where P f (x # xs) = (if P x then f x else x) # upd_where P f xs"
  by (simp_all add: upd_where_def)

lemma length_upd_where [simp]: "length (upd_where P f xs) = length xs"
  by (simp add: upd_where_def)

lemma upd_where_none: "(\<forall>x \<in> set xs. \<not> P x) \<Longrightarrow> upd_where P f xs = xs"
  by (induction xs) auto

lemma map_upd_where:
  "(\<And>x. x \<in> set xs \<Longrightarrow> P x \<Longrightarrow> g (f x) = g x) \<Longrightarrow> map g (upd_where P f xs) = map g xs"
  by (induction xs) auto

lemma set_upd_where:
  "set (upd_where P f xs) = f ` {x \<in> set xs. P x} \<union> {x \<in> set xs. \<not> P x}"
  by (induction xs) auto

subsection \<open>Rows addressed by a key\<close>

definition row_of :: "('a \<Rightarrow> 'k) \<Rightarrow> 'k \<Rightarrow> 'a list \<Rightarrow> 'a option" where
  "row_of key k xs = find (\<lambda>x. key x = k) xs"

lemma row_of_Nil [simp]: "row_of key k [] = None"
  by (simp add: row_of_def)

lemma row_of_Cons [simp]:
  "row_of key k (x # xs) = (if key x = k then Some x else row_of key k xs)"
  by (simp add: row_of_def)

lemma row_of_SomeD: "row_of key k xs = Some x \<Longrightarrow> x \<in> set xs \<and> key x = k"
  by (induction xs) (auto split: if_splits)

lemma row_of_None_iff: "row_of key k xs = None \<longleftrightarrow> k \<notin> key ` set xs"
  by (induction xs) auto

lemma row_of_mem:
  "distinct (map key xs) \<Longrightarrow> x \<in> set xs \<Longrightarrow> row_of key (key x) xs = Some x"
  by (induction xs) auto

lemma row_of_append:
  "row_of key k (xs @ ys) = (case row_of key k xs of None \<Rightarrow> row_of key k ys | Some x \<Rightarrow> Some x)"
  by (induction xs) auto

lemma row_of_upd_where:
  "(\<And>x. x \<in> set xs \<Longrightarrow> P x \<Longrightarrow> key (f x) = key x) \<Longrightarrow>
   row_of key k (upd_where P f xs) = map_option (\<lambda>x. if P x then f x else x) (row_of key k xs)"
  by (induction xs) auto

lemma row_of_filter:
  "distinct (map key xs) \<Longrightarrow>
   row_of key k (filter P xs) =
     (case row_of key k xs of None \<Rightarrow> None | Some x \<Rightarrow> if P x then Some x else None)"
proof (induction xs)
  case Nil
  then show ?case by simp
next
  case (Cons x xs)
  show ?case
  proof (cases "key x = k")
    case True
    with Cons.prems have "row_of key k xs = None" and "row_of key k (filter P xs) = None"
      by (auto simp: row_of_None_iff)
    with True show ?thesis by simp
  next
    case False
    with Cons show ?thesis by simp
  qed
qed

lemma filter_key_guard:
  assumes "distinct (map key xs)"
  shows "filter (\<lambda>x. key x = k \<and> P x) xs =
    (case row_of key k xs of None \<Rightarrow> [] | Some x \<Rightarrow> if P x then [x] else [])"
  using assms
proof (induction xs)
  case (Cons x xs)
  show ?case
  proof (cases "key x = k")
    case True
    with Cons.prems have "k \<notin> key ` set xs" by simp
    then have "\<forall>y \<in> set xs. key y \<noteq> k" by auto
    then have "filter (\<lambda>y. key y = k \<and> P y) xs = []" by simp
    with True show ?thesis by simp
  next
    case False
    with Cons show ?thesis by simp
  qed
qed simp

lemma distinct_map_key_inj:
  "distinct (map key xs) \<Longrightarrow> x \<in> set xs \<Longrightarrow> y \<in> set xs \<Longrightarrow> key x = key y \<Longrightarrow> x = y"
  by (metis option.inject row_of_mem)

subsection \<open>ORDER BY ... LIMIT\<close>

definition order_limit :: "('a \<Rightarrow> 'k::linorder) \<Rightarrow> nat \<Rightarrow> 'a list \<Rightarrow> 'a list" where
  "order_limit key n xs = take n (sort_key key xs)"

lemma set_order_limit_subset: "set (order_limit key n xs) \<subseteq> set xs"
  unfolding order_limit_def by (metis set_sort set_take_subset)

lemma length_order_limit [simp]: "length (order_limit key n xs) = min n (length xs)"
  by (simp add: order_limit_def)

lemma sorted_order_limit: "sorted (map key (order_limit key n xs))"
  by (simp add: order_limit_def take_map [symmetric] sorted_wrt_take)

lemma distinct_order_limit: "distinct xs \<Longrightarrow> distinct (order_limit key n xs)"
  by (simp add: order_limit_def)

lemma distinct_map_order_limit:
  "distinct (map g xs) \<Longrightarrow> distinct (map g (order_limit key n xs))"
  by (auto simp: distinct_map distinct_order_limit
      intro: inj_on_subset [OF _ set_order_limit_subset])

lemma order_limit_all: "length xs \<le> n \<Longrightarrow> set (order_limit key n xs) = set xs"
  by (simp add: order_limit_def)

text \<open>What is left out never comes before what is taken.\<close>

lemma order_limit_least:
  assumes "x \<in> set (order_limit key n xs)" and "y \<in> set xs" and "y \<notin> set (order_limit key n xs)"
  shows "key x \<le> key y"
proof -
  let ?s = "sort_key key xs"
  have "?s = take n ?s @ drop n ?s" by simp
  moreover from assms(2,3) have "y \<in> set (drop n ?s)"
    unfolding order_limit_def by (metis Un_iff append_take_drop_id set_append set_sort)
  moreover from assms(1) have "x \<in> set (take n ?s)" by (simp add: order_limit_def)
  moreover have "sorted (map key (take n ?s @ drop n ?s))" by simp
  ultimately show ?thesis
    by (metis (no_types, lifting) image_eqI list.set_map map_append sorted_append)
qed

lemma order_limit_full:
  "n \<le> length xs \<Longrightarrow> length (order_limit key n xs) = n"
  by simp

subsection \<open>Partial unique indexes\<close>

text \<open>
  \<open>unique_on g xs\<close>: no two rows have the same entry in the index that holds \<open>g x\<close> for the rows
  where \<open>g\<close> is defined (\<open>CREATE UNIQUE INDEX ... WHERE\<close>).
\<close>

fun unique_on :: "('a \<Rightarrow> 'k option) \<Rightarrow> 'a list \<Rightarrow> bool" where
  "unique_on g [] = True"
| "unique_on g (x # xs) =
     ((case g x of None \<Rightarrow> True | Some k \<Rightarrow> Some k \<notin> g ` set xs) \<and> unique_on g xs)"

lemma unique_onD:
  "unique_on g xs \<Longrightarrow> x \<in> set xs \<Longrightarrow> y \<in> set xs \<Longrightarrow> g x = Some k \<Longrightarrow> g y = Some k \<Longrightarrow> x = y"
  by (induction xs) (force split: option.splits simp: image_iff)+

lemma unique_on_append:
  "unique_on g (xs @ [y]) \<longleftrightarrow>
   unique_on g xs \<and> (case g y of None \<Rightarrow> True | Some k \<Rightarrow> Some k \<notin> g ` set xs)"
  by (induction xs) (auto split: option.splits)

lemma unique_on_filter: "unique_on g xs \<Longrightarrow> unique_on g (filter P xs)"
  by (induction xs) (auto split: option.splits)

text \<open>An update that keeps a row's index entry or removes it cannot break the index.\<close>

lemma image_upd_where_subset:
  assumes "\<And>x. x \<in> set xs \<Longrightarrow> P x \<Longrightarrow> g (f x) = g x \<or> g (f x) = None"
    and "Some k \<in> g ` set (upd_where P f xs)"
  shows "Some k \<in> g ` set xs"
proof -
  from assms(2) obtain x where x: "x \<in> set xs" "Some k = g (if P x then f x else x)"
    by (auto simp: upd_where_def)
  with assms(1) [of x] have "Some k = g x" by (cases "P x") auto
  with x(1) show ?thesis by blast
qed

lemma unique_on_upd_where:
  assumes "unique_on g xs"
    and "\<And>x. x \<in> set xs \<Longrightarrow> P x \<Longrightarrow> g (f x) = g x \<or> g (f x) = None"
  shows "unique_on g (upd_where P f xs)"
  using assms
proof (induction xs)
  case Nil
  then show ?case by simp
next
  case (Cons x xs)
  let ?x = "if P x then f x else x"
  have tl: "unique_on g (upd_where P f xs)" using Cons by auto
  have x: "g ?x = g x \<or> g ?x = None" using Cons.prems(2) [of x] by auto
  show ?case
  proof (cases "g ?x")
    case None
    with tl show ?thesis by simp
  next
    case (Some k)
    with x have "g x = Some k" by auto
    with Cons.prems(1) have "Some k \<notin> g ` set xs" by simp
    with image_upd_where_subset [of xs P g f k] Cons.prems(2)
    have "Some k \<notin> g ` set (upd_where P f xs)" by auto
    with Some tl show ?thesis by simp
  qed
qed

subsection \<open>Decimal text\<close>

definition digit_char :: "nat \<Rightarrow> char" where
  "digit_char n = char_of (48 + n)"

fun show_nat :: "nat \<Rightarrow> string" where
  "show_nat n = (if n < 10 then [digit_char n] else show_nat (n div 10) @ [digit_char (n mod 10)])"

declare show_nat.simps [simp del]

definition is_digit :: "char \<Rightarrow> bool" where
  "is_digit c = (48 \<le> (of_char c :: nat) \<and> (of_char c :: nat) \<le> 57)"

lemma digit_char_inj: "m < 10 \<Longrightarrow> n < 10 \<Longrightarrow> digit_char m = digit_char n \<Longrightarrow> m = n"
proof -
  assume m: "m < 10" and n: "n < 10" and eq: "digit_char m = digit_char n"
  from eq have "(of_char (char_of (48 + m) :: char) :: nat) = of_char (char_of (48 + n) :: char)"
    by (simp add: digit_char_def)
  with m n show "m = n" by (simp add: of_char_of)
qed

lemma digit_char_is_digit: "n < 10 \<Longrightarrow> is_digit (digit_char n)"
  by (simp add: digit_char_def is_digit_def)

lemma show_nat_nonempty: "show_nat n \<noteq> []"
  by (subst show_nat.simps) simp

lemma show_nat_digits: "c \<in> set (show_nat n) \<Longrightarrow> is_digit c"
proof (induction n rule: show_nat.induct)
  case (1 n)
  then show ?case
    by (subst (asm) show_nat.simps) (auto simp: digit_char_is_digit split: if_splits)
qed

lemma show_nat_inj: "show_nat m = show_nat n \<Longrightarrow> m = n"
proof (induction m arbitrary: n rule: show_nat.induct)
  case (1 m)
  show ?case
  proof (cases "m < 10")
    case m: True
    show ?thesis
    proof (cases "n < 10")
      case True
      with m "1.prems" show ?thesis
        by (simp add: show_nat.simps [of m] show_nat.simps [of n] digit_char_inj)
    next
      case False
      with m "1.prems" show ?thesis
        using show_nat_nonempty [of "n div 10"]
        by (simp add: show_nat.simps [of m] show_nat.simps [of n])
    qed
  next
    case m: False
    show ?thesis
    proof (cases "n < 10")
      case True
      with m "1.prems" show ?thesis
        by (simp add: show_nat.simps [of m] show_nat.simps [of n] show_nat_nonempty)
    next
      case False
      with m "1.prems" have "show_nat (m div 10) = show_nat (n div 10)"
        and "digit_char (m mod 10) = digit_char (n mod 10)"
        by (simp_all add: show_nat.simps [of m] show_nat.simps [of n])
      then have "m div 10 = n div 10" and "m mod 10 = n mod 10"
        using "1.IH" [OF m] digit_char_inj [of "m mod 10" "n mod 10"] by simp_all
      then show ?thesis by (metis div_mult_mod_eq)
    qed
  qed
qed

end
