(* ===== verification/Job_Types.thy ===== *)
theory Job_Types
  imports Prelude
begin

text \<open>
  The domain types of packages/core/src/types.ts, and the rows of the tables of
  packages/core/migrations/001_initial_schema.sql (mirrored by packages/core/src/sql/rows.ts).
  A string literal union is a datatype with one constructor per literal, a row is a record with
  one field per column, a nullable column is an option.
\<close>

subsection \<open>JSON values\<close>

text \<open>
  \<open>JNum\<close> carries the text JavaScript prints for the number, so that a serialised value is
  determined without floating point.
\<close>

datatype json =
    JNull
  | JBool bool
  | JNum string
  | JStr string
  | JArr "json list"
  | JObj "(string \<times> json) list"

subsection \<open>Enumerations\<close>

datatype job_state = Available | Running | Succeeded | Dead | Cancelled

definition JOB_STATES :: "job_state list" where
  "JOB_STATES = [Available, Running, Succeeded, Dead, Cancelled]"

definition TERMINAL_STATES :: "job_state list" where
  "TERMINAL_STATES = [Succeeded, Dead, Cancelled]"

datatype dead_reason = Attempts_exhausted | Lease_expired | Non_retryable_error | Reason_cancelled

datatype jitter_strategy = Full | Equal | No_jitter

datatype catchup_policy = Skip_missed | Run_once

datatype error_kind = Handler_error | Timeout | Kind_lease_expired | Validation_kind | No_handler

text \<open>
  Postgres orders an enum by declaration order; \<open>ORDER BY queue, state\<close> relies on it.
\<close>

primrec state_index :: "job_state \<Rightarrow> nat" where
  "state_index Available = 0"
| "state_index Running = 1"
| "state_index Succeeded = 2"
| "state_index Dead = 3"
| "state_index Cancelled = 4"

lemma state_index_inj: "state_index s = state_index t \<Longrightarrow> s = t"
  by (cases s; cases t) auto

instantiation job_state :: linorder
begin

definition less_eq_job_state :: "job_state \<Rightarrow> job_state \<Rightarrow> bool" where
  "less_eq_job_state s t = (state_index s \<le> state_index t)"

definition less_job_state :: "job_state \<Rightarrow> job_state \<Rightarrow> bool" where
  "less_job_state s t = (state_index s < state_index t)"

instance
  by standard (auto simp: less_eq_job_state_def less_job_state_def dest: state_index_inj)

end

lemma JOB_STATES_complete: "set JOB_STATES = UNIV"
  by (auto simp: JOB_STATES_def intro: job_state.exhaust)

lemma JOB_STATES_sorted: "sorted JOB_STATES \<and> distinct JOB_STATES"
  by (simp add: JOB_STATES_def less_eq_job_state_def)

subsection \<open>Job rows\<close>

record job_error =
  e_attempt :: int
  e_at :: instant
  e_kind :: error_kind
  e_name :: "string option"
  e_message :: "string option"
  e_stack :: "string option"
  e_worker_id :: "string option"

record job =
  j_id :: ident
  j_queue :: string
  j_type :: string
  j_state :: job_state
  j_payload :: json
  j_metadata :: "json option"
  j_priority :: int
  j_attempt :: int
  j_max_attempts :: int
  j_lease_seconds :: int
  j_run_at :: instant
  j_enqueued_at :: instant
  j_started_at :: "instant option"
  j_finished_at :: "instant option"
  j_lease_expires_at :: "instant option"
  j_cancel_requested_at :: "instant option"
  j_worker_id :: "string option"
  j_idempotency_key :: "string option"
  j_unique_key :: "string option"
  j_dead_reason :: "dead_reason option"
  j_errors :: "job_error list"
  j_trace_context :: "string option"
  j_schedule_id :: "ident option"
  j_updated_at :: instant

text \<open>The subset of a job the claim statement returns (\<open>ClaimedJob\<close>).\<close>

record claimed_job =
  c_id :: ident
  c_queue :: string
  c_type :: string
  c_payload :: json
  c_metadata :: "json option"
  c_attempt :: int
  c_max_attempts :: int
  c_lease_seconds :: int
  c_lease_expires_at :: "instant option"
  c_trace_context :: "string option"
  c_enqueued_at :: instant

subsection \<open>Other rows\<close>

record queue_config =
  qc_queue :: string
  qc_paused :: bool
  qc_max_attempts :: "int option"
  qc_lease_seconds :: "int option"
  qc_priority_aging :: bool
  qc_aging_threshold_s :: "int option"
  qc_concurrency_limit :: "int option"
  qc_retain_succeeded :: int
  qc_retain_dead :: int
  qc_updated_at :: instant

record schedule =
  s_id :: ident
  s_name :: string
  s_queue :: string
  s_type :: string
  s_payload :: json
  s_cron :: string
  s_timezone :: string
  s_catchup_policy :: catchup_policy
  s_enabled :: bool
  s_next_run_at :: instant
  s_last_run_at :: "instant option"
  s_last_job_id :: "ident option"
  s_updated_at :: instant

record audit_entry =
  a_actor :: string
  a_action :: string
  a_target :: "string option"
  a_detail :: "json option"
  a_created_at :: instant

record api_key =
  k_id :: ident
  k_name :: string
  k_hash :: "nat list"
  k_prefix :: string
  k_scopes :: "string list"
  k_queues :: "string list option"
  k_expires_at :: "instant option"
  k_revoked_at :: "instant option"
  k_last_used_at :: "instant option"
  k_created_at :: instant

subsection \<open>Client-facing types\<close>

record enqueue_options =
  o_priority :: "int option"
  o_runAt :: "instant option option"
  o_delaySeconds :: "rat option"
  o_maxAttempts :: "int option"
  o_leaseSeconds :: "int option"
  o_idempotencyKey :: "string option"
  o_uniqueKey :: "string option"
  o_metadata :: "json option"
  o_traceContext :: "string option"

record enqueue_result =
  er_id :: "ident option"
  er_deduplicated :: bool

end
