(* ===== verification/State_Machine.thy ===== *)
theory State_Machine
  imports Job_Types
begin

text \<open>
  packages/core/src/engine/state-machine.ts: the transition table, the maps derived from it and
  the guards. The descriptions of the table are documentation text and are left out of the rows;
  the derived maps (\<open>PERMITTED\<close>, \<open>REASONS\<close>) are the functions that compute them.
\<close>

datatype transition_reason =
    R_enqueue | R_claim | R_succeed | R_retry | R_exhaust | R_non_retryable
  | R_reap_retry | R_reap_exhaust | R_cancel | R_cancel_ack | R_operator_retry | R_replay

record transition =
  t_from :: job_state
  t_to :: job_state
  t_reason :: transition_reason

definition TRANSITIONS :: "transition list" where
  "TRANSITIONS =
    [\<lparr>t_from = Available, t_to = Running, t_reason = R_claim\<rparr>,
     \<lparr>t_from = Available, t_to = Cancelled, t_reason = R_cancel\<rparr>,
     \<lparr>t_from = Running, t_to = Succeeded, t_reason = R_succeed\<rparr>,
     \<lparr>t_from = Running, t_to = Available, t_reason = R_retry\<rparr>,
     \<lparr>t_from = Running, t_to = Dead, t_reason = R_exhaust\<rparr>,
     \<lparr>t_from = Running, t_to = Dead, t_reason = R_non_retryable\<rparr>,
     \<lparr>t_from = Running, t_to = Available, t_reason = R_reap_retry\<rparr>,
     \<lparr>t_from = Running, t_to = Dead, t_reason = R_reap_exhaust\<rparr>,
     \<lparr>t_from = Running, t_to = Cancelled, t_reason = R_cancel_ack\<rparr>,
     \<lparr>t_from = Dead, t_to = Available, t_reason = R_replay\<rparr>,
     \<lparr>t_from = Available, t_to = Available, t_reason = R_operator_retry\<rparr>]"

text \<open>
  \<open>PERMITTED\<close>: a Map from state to an insertion-ordered Set; adding an element twice keeps the
  first position.
\<close>

definition set_add :: "'a list \<Rightarrow> 'a \<Rightarrow> 'a list" where
  "set_add xs x = (if x \<in> set xs then xs else xs @ [x])"

definition PERMITTED :: "job_state \<Rightarrow> job_state list option" where
  "PERMITTED s =
     (if s \<in> set JOB_STATES
      then Some (fold (\<lambda>t acc. if t_from t = s then set_add acc (t_to t) else acc) TRANSITIONS [])
      else None)"

definition REASONS :: "(job_state \<times> job_state \<times> transition_reason) list" where
  "REASONS = map (\<lambda>t. (t_from t, t_to t, t_reason t)) TRANSITIONS"

definition isTerminal :: "job_state \<Rightarrow> bool" where
  "isTerminal s \<longleftrightarrow> s \<in> set TERMINAL_STATES"

definition isClaimable :: "job_state \<Rightarrow> bool" where
  "isClaimable s \<longleftrightarrow> s = Available"

definition permittedTargets :: "job_state \<Rightarrow> job_state list" where
  "permittedTargets s = coalesce (PERMITTED s) []"

definition canTransition :: "job_state \<Rightarrow> job_state \<Rightarrow> bool" where
  "canTransition s t = (case PERMITTED s of None \<Rightarrow> False | Some ts \<Rightarrow> t \<in> set ts)"

text \<open>\<open>InvalidTransitionError\<close> carries both states and the permitted targets.\<close>

datatype transition_error = Invalid_transition job_state job_state "job_state list"

definition assertTransition :: "job_state \<Rightarrow> job_state \<Rightarrow> transition_error + unit" where
  "assertTransition s t =
     (if \<not> canTransition s t then Inl (Invalid_transition s t (permittedTargets s)) else Inr ())"

definition assertTransitionReason ::
  "job_state \<Rightarrow> job_state \<Rightarrow> transition_reason \<Rightarrow> transition_error + unit" where
  "assertTransitionReason s t r =
     (if (s, t, r) \<notin> set REASONS then Inl (Invalid_transition s t (permittedTargets s)) else Inr ())"

subsection \<open>Rendering\<close>

primrec state_name :: "job_state \<Rightarrow> string" where
  "state_name Available = ''available''"
| "state_name Running = ''running''"
| "state_name Succeeded = ''succeeded''"
| "state_name Dead = ''dead''"
| "state_name Cancelled = ''cancelled''"

primrec reason_name :: "transition_reason \<Rightarrow> string" where
  "reason_name R_enqueue = ''enqueue''"
| "reason_name R_claim = ''claim''"
| "reason_name R_succeed = ''succeed''"
| "reason_name R_retry = ''retry''"
| "reason_name R_exhaust = ''exhaust''"
| "reason_name R_non_retryable = ''non_retryable''"
| "reason_name R_reap_retry = ''reap_retry''"
| "reason_name R_reap_exhaust = ''reap_exhaust''"
| "reason_name R_cancel = ''cancel''"
| "reason_name R_cancel_ack = ''cancel_ack''"
| "reason_name R_operator_retry = ''operator_retry''"
| "reason_name R_replay = ''replay''"

definition mermaid_lines :: "string list" where
  "mermaid_lines =
     [''stateDiagram-v2'', ''  [*] --> available : enqueue'']
     @ map (\<lambda>t. ''  '' @ state_name (t_from t) @ '' --> '' @ state_name (t_to t) @ '' : ''
               @ reason_name (t_reason t)) TRANSITIONS
     @ map (\<lambda>s. ''  '' @ state_name s @ '' --> [*]'') TERMINAL_STATES"

fun join_lines :: "string list \<Rightarrow> string" where
  "join_lines [] = ''''"
| "join_lines [l] = l"
| "join_lines (l # ls) = l @ ''\<newline>'' @ join_lines ls"

definition toMermaid :: string where
  "toMermaid = join_lines mermaid_lines"

subsection \<open>What the table says\<close>

lemmas machine_defs = TRANSITIONS_def PERMITTED_def permittedTargets_def canTransition_def
  JOB_STATES_def TERMINAL_STATES_def set_add_def isTerminal_def isClaimable_def REASONS_def

lemma permittedTargets_table:
  "permittedTargets Available = [Running, Cancelled, Available]"
  "permittedTargets Running = [Succeeded, Available, Dead, Cancelled]"
  "permittedTargets Succeeded = []"
  "permittedTargets Dead = [Available]"
  "permittedTargets Cancelled = []"
  by (simp_all add: machine_defs)

lemma canTransition_simps [simp]:
  "canTransition Available t = (t \<in> {Running, Cancelled, Available})"
  "canTransition Running t = (t \<in> {Succeeded, Available, Dead, Cancelled})"
  "canTransition Succeeded t = False"
  "canTransition Dead t = (t = Available)"
  "canTransition Cancelled t = False"
  by (auto simp: machine_defs)

lemma canTransition_permitted: "canTransition s t \<longleftrightarrow> t \<in> set (permittedTargets s)"
  by (cases s) (simp_all add: machine_defs)

lemma canTransition_table:
  "canTransition s t \<longleftrightarrow> (\<exists>r. (s, t, r) \<in> set REASONS)"
  by (cases s) (auto simp: REASONS_def TRANSITIONS_def)

lemma reason_determines: "(s, t, r) \<in> set REASONS \<Longrightarrow> (s', t', r) \<in> set REASONS \<Longrightarrow> s = s' \<and> t = t'"
  by (auto simp: machine_defs)

text \<open>No way out of \<open>succeeded\<close> and \<open>cancelled\<close>; the terminal state \<open>dead\<close> has one: replay.\<close>

lemma only_replay_leaves_terminal:
  "isTerminal s \<Longrightarrow> (s, t, r) \<in> set REASONS \<Longrightarrow> s = Dead \<and> t = Available \<and> r = R_replay"
  by (auto simp: machine_defs)

lemma running_only_from_available:
  "canTransition s Running \<longleftrightarrow> isClaimable s"
  by (cases s) (simp_all add: machine_defs)

lemma dead_cancelled_reachable:
  "canTransition Available Cancelled" "canTransition Running Dead" "\<not> canTransition Available Dead"
  "\<not> canTransition Available Succeeded"
  by (simp_all add: machine_defs)

end
