(* ===== verification/Schema.thy ===== *)
theory Schema
  imports Job_Types
begin

text \<open>
  The database of packages/core/migrations/001_initial_schema.sql: its tables, the CHECK
  constraints and partial unique indexes of \<open>job\<close>, and the primitives the SQL statements are
  composed of (\<open>UPDATE\<close>, \<open>DELETE\<close>, \<open>INSERT ... ON CONFLICT DO NOTHING\<close>).

  A statement is a function from the database to an error or to its result rows with the new
  database. A failed statement has no new database: the caller continues with the old one, as a
  rolled-back implicit transaction does (a gap left in an identity sequence by a failed insert is
  not modelled). Row locks held by other transactions are the set of locked ids the statements
  with SKIP LOCKED take as an argument.
\<close>

datatype pg_error =
    Unique_violation
  | Check_violation
  | Foreign_key_violation
  | Numeric_out_of_range
  | No_partition
  | Invalid_partition

text \<open>The bounds of a partition are the ISO date literals of its definition.\<close>

record partition =
  p_name :: string
  p_from :: string
  p_to :: string

record archived_job =
  ar_job :: job
  ar_archived_at :: instant

record db =
  db_jobs :: "job list"
  db_job_seq :: ident
  db_config :: "queue_config list"
  db_schedules :: "schedule list"
  db_schedule_seq :: ident
  db_archive :: "archived_job list"
  db_partitions :: "partition list"
  db_audit :: "audit_entry list"
  db_keys :: "api_key list"
  db_key_seq :: ident
  db_notified :: "string list"

definition empty_db :: db where
  "empty_db = \<lparr>db_jobs = [], db_job_seq = 1, db_config = [], db_schedules = [],
     db_schedule_seq = 1, db_archive = [], db_partitions = [], db_audit = [], db_keys = [],
     db_key_seq = 1, db_notified = []\<rparr>"

type_synonym 'r stmt = "db \<Rightarrow> pg_error + 'r \<times> db"

subsection \<open>Column types and CHECK constraints\<close>

definition is_smallint :: "int \<Rightarrow> bool" where
  "is_smallint n \<longleftrightarrow> -32768 \<le> n \<and> n \<le> 32767"

definition is_integer :: "int \<Rightarrow> bool" where
  "is_integer n \<longleftrightarrow> -2147483648 \<le> n \<and> n \<le> 2147483647"

definition terminal_state :: "job_state \<Rightarrow> bool" where
  "terminal_state s \<longleftrightarrow> s \<in> {Succeeded, Dead, Cancelled}"

definition active_state :: "job_state \<Rightarrow> bool" where
  "active_state s \<longleftrightarrow> s \<in> {Available, Running}"

lemma terminal_state_simps [simp]:
  "\<not> terminal_state Available" "\<not> terminal_state Running" "terminal_state Succeeded"
  "terminal_state Dead" "terminal_state Cancelled"
  by (simp_all add: terminal_state_def)

lemma active_state_simps [simp]:
  "active_state Available" "active_state Running" "\<not> active_state Succeeded"
  "\<not> active_state Dead" "\<not> active_state Cancelled"
  by (simp_all add: active_state_def)

lemma active_not_terminal: "active_state s \<longleftrightarrow> \<not> terminal_state s"
  by (cases s) simp_all

definition job_checks :: "job \<Rightarrow> bool" where
  "job_checks j \<longleftrightarrow>
     0 \<le> j_attempt j \<and> j_attempt j \<le> j_max_attempts j \<and>
     1 \<le> j_max_attempts j \<and> j_max_attempts j \<le> 1000 \<and>
     0 < j_lease_seconds j \<and>
     (j_state j = Running \<longrightarrow> j_lease_expires_at j \<noteq> None \<and> j_worker_id j \<noteq> None) \<and>
     (j_state j = Dead \<longrightarrow> j_dead_reason j \<noteq> None) \<and>
     (terminal_state (j_state j) \<longrightarrow> j_finished_at j \<noteq> None)"

definition config_checks :: "queue_config \<Rightarrow> bool" where
  "config_checks q \<longleftrightarrow>
     (\<forall>m \<in> set_option (qc_max_attempts q). 1 \<le> m \<and> m \<le> 1000) \<and>
     (\<forall>l \<in> set_option (qc_lease_seconds q). 0 < l \<and> is_integer l) \<and>
     (\<forall>c \<in> set_option (qc_concurrency_limit q). 0 < c \<and> is_integer c) \<and>
     (\<forall>a \<in> set_option (qc_aging_threshold_s q). 0 < a \<and> is_integer a)"

subsection \<open>Partial unique indexes of job\<close>

definition idem_slot :: "job \<Rightarrow> (string \<times> string) option" where
  "idem_slot j = map_option (Pair (j_queue j)) (j_idempotency_key j)"

definition active_slot :: "job \<Rightarrow> (string \<times> string) option" where
  "active_slot j =
     (if active_state (j_state j) then map_option (Pair (j_queue j)) (j_unique_key j) else None)"

definition index_ok :: "job list \<Rightarrow> bool" where
  "index_ok js \<longleftrightarrow> unique_on idem_slot js \<and> unique_on active_slot js"

definition conflicts :: "job list \<Rightarrow> job \<Rightarrow> bool" where
  "conflicts js j \<longleftrightarrow>
     (idem_slot j \<noteq> None \<and> idem_slot j \<in> idem_slot ` set js) \<or>
     (active_slot j \<noteq> None \<and> active_slot j \<in> active_slot ` set js)"

lemma index_ok_append: "index_ok (js @ [j]) \<longleftrightarrow> index_ok js \<and> \<not> conflicts js j"
  by (auto simp: index_ok_def conflicts_def unique_on_append split: option.splits)

lemma index_ok_filter: "index_ok js \<Longrightarrow> index_ok (filter P js)"
  by (simp add: index_ok_def unique_on_filter)

lemma index_ok_upd_where:
  assumes "index_ok js"
    and "\<And>j. j \<in> set js \<Longrightarrow> P j \<Longrightarrow> idem_slot (f j) = idem_slot j"
    and "\<And>j. j \<in> set js \<Longrightarrow> P j \<Longrightarrow> active_slot (f j) = active_slot j \<or> active_slot (f j) = None"
  shows "index_ok (upd_where P f js)"
  using assms by (simp add: index_ok_def unique_on_upd_where)

subsection \<open>Statement primitives\<close>

definition update_jobs :: "(job \<Rightarrow> bool) \<Rightarrow> (job \<Rightarrow> job) \<Rightarrow> job list stmt" where
  "update_jobs P f d =
     (let hit = filter P (db_jobs d); js = upd_where P f (db_jobs d)
      in if list_ex (\<lambda>j. \<not> job_checks (f j)) hit then Inl Check_violation
         else if \<not> index_ok js then Inl Unique_violation
         else Inr (map f hit, d\<lparr>db_jobs := js\<rparr>))"

definition delete_jobs :: "(job \<Rightarrow> bool) \<Rightarrow> job list stmt" where
  "delete_jobs P d =
     Inr (filter P (db_jobs d), d\<lparr>db_jobs := filter (\<lambda>j. \<not> P j) (db_jobs d)\<rparr>)"

text \<open>
  The trigger \<open>pgjobq_notify_enqueue\<close>, run after each inserted row; \<open>channel_of\<close> is the channel
  name it computes.
\<close>

definition channel_of :: "string \<Rightarrow> string" where
  "channel_of q = ''pgjobq_'' @ q"

definition pgjobq_notify_enqueue :: "instant \<Rightarrow> job \<Rightarrow> string list" where
  "pgjobq_notify_enqueue now j =
     (if j_state j = Available \<and> j_run_at j \<le> now then [channel_of (j_queue j)] else [])"

text \<open>
  One row of \<open>INSERT INTO job ... ON CONFLICT DO NOTHING\<close>: column ranges and CHECKs raise, a
  conflict with either unique index skips the row (its identity value is spent all the same), a
  dangling schedule raises.
\<close>

definition insert_row :: "instant \<Rightarrow> (ident \<Rightarrow> job) \<Rightarrow> job option stmt" where
  "insert_row now mk d =
     (let j = mk (db_job_seq d); d1 = d\<lparr>db_job_seq := Suc (db_job_seq d)\<rparr>
      in if \<not> (is_smallint (j_priority j) \<and> is_smallint (j_max_attempts j)
               \<and> is_integer (j_lease_seconds j)) then Inl Numeric_out_of_range
         else if \<not> job_checks j then Inl Check_violation
         else if conflicts (db_jobs d) j then Inr (None, d1)
         else if \<not> (case j_schedule_id j of None \<Rightarrow> True
                     | Some s \<Rightarrow> s \<in> s_id ` set (db_schedules d)) then Inl Foreign_key_violation
         else Inr (Some j, d1\<lparr>db_jobs := db_jobs d @ [j],
                            db_notified := db_notified d @ pgjobq_notify_enqueue now j\<rparr>))"

text \<open>\<open>RETURNING\<close>: the columns a statement hands back of the rows it touched.\<close>

definition returning :: "('a \<Rightarrow> 'b) \<Rightarrow> 'a list stmt \<Rightarrow> 'b list stmt" where
  "returning g s d = (case s d of Inl e \<Rightarrow> Inl e | Inr (rs, d') \<Rightarrow> Inr (map g rs, d'))"

lemma returning_Inr:
  "returning g s d = Inr (rs, d') \<longleftrightarrow> (\<exists>ss. s d = Inr (ss, d') \<and> rs = map g ss)"
  by (auto simp: returning_def split: sum.splits prod.splits)

lemma returning_Inl: "returning g s d = Inl e \<longleftrightarrow> s d = Inl e"
  by (auto simp: returning_def split: sum.splits prod.splits)

text \<open>\<open>make_interval(secs => x)\<close> rounds to microseconds.\<close>

definition make_interval_secs :: "rat \<Rightarrow> int" where
  "make_interval_secs x = round (x * 1000000)"

lemma make_interval_secs_int [simp]: "make_interval_secs (of_int n) = n * 1000000"
  by (metis make_interval_secs_def of_int_mult of_int_numeral round_of_int)

lemma make_interval_secs_nonneg: "0 \<le> x \<Longrightarrow> 0 \<le> make_interval_secs x"
  unfolding make_interval_secs_def using round_mono [of 0 "x * 1000000"] by simp

subsection \<open>The database invariant\<close>

definition archive_ids :: "db \<Rightarrow> ident list" where
  "archive_ids d = map (j_id \<circ> ar_job) (db_archive d)"

definition db_inv :: "db \<Rightarrow> bool" where
  "db_inv d \<longleftrightarrow>
     distinct (map j_id (db_jobs d)) \<and>
     (\<forall>j \<in> set (db_jobs d). j_id j < db_job_seq d) \<and>
     (\<forall>j \<in> set (db_jobs d). job_checks j) \<and>
     index_ok (db_jobs d) \<and>
     (\<forall>j \<in> set (db_jobs d). \<forall>s \<in> set_option (j_schedule_id j). s \<in> s_id ` set (db_schedules d)) \<and>
     distinct (map qc_queue (db_config d)) \<and>
     (\<forall>q \<in> set (db_config d). config_checks q) \<and>
     distinct (map s_id (db_schedules d)) \<and>
     distinct (map s_name (db_schedules d)) \<and>
     (\<forall>s \<in> set (db_schedules d). s_id s < db_schedule_seq d) \<and>
     distinct (archive_ids d) \<and>
     (\<forall>i \<in> set (archive_ids d). i < db_job_seq d) \<and>
     set (archive_ids d) \<inter> j_id ` set (db_jobs d) = {}"

abbreviation job_at :: "db \<Rightarrow> ident \<Rightarrow> job option" where
  "job_at d i \<equiv> row_of j_id i (db_jobs d)"

lemma db_inv_empty: "db_inv empty_db"
  by (simp add: db_inv_def empty_db_def index_ok_def archive_ids_def)

lemma db_inv_jobD:
  "db_inv d \<Longrightarrow> job_at d i = Some j \<Longrightarrow> job_checks j \<and> j_id j = i \<and> j \<in> set (db_jobs d)"
  by (auto simp: db_inv_def dest: row_of_SomeD)

lemma db_inv_distinct: "db_inv d \<Longrightarrow> distinct (map j_id (db_jobs d))"
  by (simp add: db_inv_def)

lemma db_inv_job_at: "db_inv d \<Longrightarrow> j \<in> set (db_jobs d) \<Longrightarrow> job_at d (j_id j) = Some j"
  by (simp add: db_inv_distinct row_of_mem)

subsection \<open>Picking rows for a bounded batch\<close>

text \<open>
  \<open>SELECT id FROM job WHERE P ORDER BY ord LIMIT n\<close>, the common table expression in front of
  every bounded update and delete. Its callers address the picked rows by id.
\<close>

definition pick :: "(job \<Rightarrow> 'k::linorder) \<Rightarrow> nat \<Rightarrow> (job \<Rightarrow> bool) \<Rightarrow> job list \<Rightarrow> ident list" where
  "pick ord n P js = map j_id (order_limit ord n (filter P js))"

lemma pick_subset: "set (pick ord n P js) \<subseteq> j_id ` {j \<in> set js. P j}"
  using set_order_limit_subset by (fastforce simp: pick_def)

lemma pick_length [simp]: "length (pick ord n P js) = min n (length (filter P js))"
  by (simp add: pick_def)

lemma pick_distinct: "distinct (map j_id js) \<Longrightarrow> distinct (pick ord n P js)"
  unfolding pick_def by (intro distinct_map_order_limit) (simp add: distinct_map_filter)

lemma pick_sound:
  assumes "distinct (map j_id js)" and "j \<in> set js" and "j_id j \<in> set (pick ord n P js)"
  shows "P j"
proof -
  from pick_subset assms(3) obtain k where k: "k \<in> set js" "P k" "j_id k = j_id j"
    by fastforce
  with distinct_map_key_inj [OF assms(1,2)] show ?thesis by metis
qed

lemma pick_all:
  assumes "length (filter P js) \<le> n"
  shows "set (pick ord n P js) = j_id ` {j \<in> set js. P j}"
  using order_limit_all [OF assms, of ord] by (simp add: pick_def)

lemma filter_picked_length:
  assumes "distinct (map j_id js)"
  shows "length (filter (\<lambda>j. j_id j \<in> set (pick ord n P js)) js) = min n (length (filter P js))"
proof -
  let ?is = "pick ord n P js"
  let ?f = "filter (\<lambda>j. j_id j \<in> set ?is) js"
  have "distinct (map j_id ?f)" using assms by (simp add: distinct_map_filter)
  then have "length ?f = card (set (map j_id ?f))" by (metis distinct_card length_map)
  also have "set (map j_id ?f) = set ?is" using pick_subset [of ord n P js] by auto
  also have "card (set ?is) = length ?is" by (rule distinct_card [OF pick_distinct [OF assms]])
  finally show ?thesis by simp
qed

subsection \<open>What the primitives do\<close>

text \<open>
  A row update keeps the identity of its row when it leaves alone the columns no statement of the
  program ever sets.
\<close>

definition keeps_identity :: "(job \<Rightarrow> job) \<Rightarrow> bool" where
  "keeps_identity f \<longleftrightarrow>
     (\<forall>j. j_id (f j) = j_id j \<and> j_queue (f j) = j_queue j \<and> j_type (f j) = j_type j \<and>
          j_payload (f j) = j_payload j \<and> j_max_attempts (f j) = j_max_attempts j \<and>
          j_lease_seconds (f j) = j_lease_seconds j \<and>
          j_idempotency_key (f j) = j_idempotency_key j \<and> j_unique_key (f j) = j_unique_key j \<and>
          j_schedule_id (f j) = j_schedule_id j)"

lemma keeps_identityD:
  assumes "keeps_identity f"
  shows "j_id (f j) = j_id j" "j_queue (f j) = j_queue j" "j_type (f j) = j_type j"
    "j_payload (f j) = j_payload j" "j_max_attempts (f j) = j_max_attempts j"
    "j_lease_seconds (f j) = j_lease_seconds j" "j_schedule_id (f j) = j_schedule_id j"
    "idem_slot (f j) = idem_slot j"
  using assms by (auto simp: keeps_identity_def idem_slot_def)

lemma update_jobs_InrD:
  assumes "update_jobs P f d = Inr (rs, d')"
  shows "rs = map f (filter P (db_jobs d))" "d' = d\<lparr>db_jobs := upd_where P f (db_jobs d)\<rparr>"
    "\<forall>j \<in> set (db_jobs d). P j \<longrightarrow> job_checks (f j)" "index_ok (upd_where P f (db_jobs d))"
  using assms by (auto simp: update_jobs_def Let_def list_ex_iff split: if_splits)

lemma update_jobs_Inr:
  "\<forall>j \<in> set (db_jobs d). P j \<longrightarrow> job_checks (f j) \<Longrightarrow> index_ok (upd_where P f (db_jobs d)) \<Longrightarrow>
   update_jobs P f d = Inr (map f (filter P (db_jobs d)), d\<lparr>db_jobs := upd_where P f (db_jobs d)\<rparr>)"
  by (auto simp: update_jobs_def Let_def list_ex_iff)

lemma update_jobs_none:
  assumes "db_inv d" and "\<forall>j \<in> set (db_jobs d). \<not> P j"
  shows "update_jobs P f d = Inr ([], d)"
proof -
  have "filter P (db_jobs d) = []" using assms(2) by simp
  moreover have "upd_where P f (db_jobs d) = db_jobs d" using assms(2) by (simp add: upd_where_none)
  ultimately show ?thesis
    using assms(1) by (simp add: update_jobs_def db_inv_def)
qed

lemma update_jobs_job_at:
  assumes "update_jobs P f d = Inr (rs, d')" and "keeps_identity f"
  shows "job_at d' i = map_option (\<lambda>j. if P j then f j else j) (job_at d i)"
  using update_jobs_InrD(2) [OF assms(1)] assms(2)
  by (simp add: row_of_upd_where keeps_identityD)

lemma update_jobs_inv:
  assumes inv: "db_inv d" and upd: "update_jobs P f d = Inr (rs, d')" and keep: "keeps_identity f"
  shows "db_inv d'"
proof -
  note D = update_jobs_InrD [OF upd]
  have ids: "map j_id (db_jobs d') = map j_id (db_jobs d)"
    using keep by (simp add: D(2) map_upd_where keeps_identityD)
  then have idset: "j_id ` set (db_jobs d') = j_id ` set (db_jobs d)"
    by (metis list.set_map)
  have row: "\<exists>j0 \<in> set (db_jobs d). j = j0 \<or> P j0 \<and> j = f j0" if "j \<in> set (db_jobs d')" for j
    using that by (auto simp: D(2) upd_where_def)
  have "\<forall>j \<in> set (db_jobs d'). job_checks j"
    using row D(3) inv by (fastforce simp: db_inv_def)
  moreover have "\<forall>j \<in> set (db_jobs d'). j_id j < db_job_seq d'"
    using row inv by (fastforce simp: db_inv_def D(2) keeps_identityD [OF keep])
  moreover have "\<forall>j \<in> set (db_jobs d'). \<forall>s \<in> set_option (j_schedule_id j).
      s \<in> s_id ` set (db_schedules d')"
    using row inv by (fastforce simp: db_inv_def D(2) keeps_identityD [OF keep])
  ultimately show ?thesis
    using inv ids idset D(4) by (simp add: db_inv_def D(2) archive_ids_def)
qed

lemma delete_jobs_inv:
  assumes "db_inv d" and "delete_jobs P d = Inr (rs, d')"
  shows "db_inv d'"
proof -
  have "distinct (map j_id (filter (\<lambda>j. \<not> P j) (db_jobs d)))"
    using assms(1) by (simp add: db_inv_def distinct_map_filter)
  moreover have "set (archive_ids d) \<inter> j_id ` set (filter (\<lambda>j. \<not> P j) (db_jobs d)) = {}"
    using assms(1) unfolding db_inv_def by fastforce
  moreover have "d' = d\<lparr>db_jobs := filter (\<lambda>j. \<not> P j) (db_jobs d)\<rparr>"
    using assms(2) by (simp add: delete_jobs_def)
  ultimately show ?thesis
    using assms(1) by (simp add: db_inv_def index_ok_filter archive_ids_def) blast
qed

lemma insert_row_cases:
  assumes "insert_row now mk d = Inr (r, d')"
  obtains (Skipped) "r = None" "conflicts (db_jobs d) (mk (db_job_seq d))"
      "d' = d\<lparr>db_job_seq := Suc (db_job_seq d)\<rparr>"
    | (Inserted) j where "j = mk (db_job_seq d)" "r = Some j" "\<not> conflicts (db_jobs d) j"
      "job_checks j" "\<forall>s \<in> set_option (j_schedule_id j). s \<in> s_id ` set (db_schedules d)"
      "d' = d\<lparr>db_job_seq := Suc (db_job_seq d), db_jobs := db_jobs d @ [j],
              db_notified := db_notified d @ pgjobq_notify_enqueue now j\<rparr>"
  using assms by (auto simp: insert_row_def Let_def split: if_splits option.splits)

lemma insert_row_inv:
  assumes inv: "db_inv d" and ins: "insert_row now mk d = Inr (r, d')"
    and mk: "j_id (mk (db_job_seq d)) = db_job_seq d"
  shows "db_inv d'"
  using ins
proof (cases rule: insert_row_cases)
  case Skipped
  then show ?thesis using inv by (auto simp: db_inv_def archive_ids_def less_SucI)
next
  case (Inserted j)
  have fresh: "db_job_seq d \<notin> j_id ` set (db_jobs d)" "db_job_seq d \<notin> set (archive_ids d)"
    using inv by (auto simp: db_inv_def)
  have "index_ok (db_jobs d @ [j])" using inv Inserted by (simp add: index_ok_append db_inv_def)
  then show ?thesis
    using inv Inserted fresh mk by (auto simp: db_inv_def archive_ids_def less_SucI)
qed

end
