(* ===== verification/Lifecycle.thy ===== *)
theory Lifecycle
  imports State_Machine Schema
begin

text \<open>
  The abstract life of one job, the specification the statements refine: its state, its attempt
  count, who owns it and whether its cancellation was requested. Every statement of the program
  moves every job by one labelled step of \<open>life_step\<close> (most jobs by \<open>L_stutter\<close>). The contract is
  the locale \<open>job_stmt\<close>; each statement theory interprets it.
\<close>

record life =
  l_state :: job_state
  l_attempt :: int
  l_max :: int
  l_owner :: "string option"
  l_cancel :: bool

definition life_of :: "job \<Rightarrow> life" where
  "life_of j = \<lparr>l_state = j_state j, l_attempt = j_attempt j, l_max = j_max_attempts j,
     l_owner = (if j_state j = Running then j_worker_id j else None),
     l_cancel = (j_cancel_requested_at j \<noteq> None)\<rparr>"

definition life_at :: "db \<Rightarrow> ident \<Rightarrow> life option" where
  "life_at d i = map_option life_of (job_at d i)"

datatype life_label =
    L_stutter
  | L_enqueue
  | L_claim string
  | L_heartbeat string int
  | L_succeed string int
  | L_retry string int
  | L_exhaust string int
  | L_non_retryable string int
  | L_cancel_ack string int
  | L_release string int
  | L_reap_retry
  | L_reap_exhaust
  | L_cancel
  | L_request_cancel
  | L_operator_retry
  | L_replay
  | L_delete

definition owned_by :: "string \<Rightarrow> int \<Rightarrow> life \<Rightarrow> bool" where
  "owned_by w a x \<longleftrightarrow> l_state x = Running \<and> l_owner x = Some w \<and> l_attempt x = a"

inductive life_step :: "life option \<Rightarrow> life_label \<Rightarrow> life option \<Rightarrow> bool" where
  Stutter: "life_step x L_stutter x"
| Enqueue: "1 \<le> m \<Longrightarrow> life_step None L_enqueue
     (Some \<lparr>l_state = Available, l_attempt = 0, l_max = m, l_owner = None, l_cancel = False\<rparr>)"
| Claim: "l_state x = Available \<Longrightarrow> l_attempt x < l_max x \<Longrightarrow> life_step (Some x) (L_claim w)
     (Some (x\<lparr>l_state := Running, l_attempt := l_attempt x + 1, l_owner := Some w\<rparr>))"
| Heartbeat: "owned_by w a x \<Longrightarrow> life_step (Some x) (L_heartbeat w a) (Some x)"
| Succeed: "owned_by w a x \<Longrightarrow> life_step (Some x) (L_succeed w a)
     (Some (x\<lparr>l_state := Succeeded, l_owner := None\<rparr>))"
| Retry: "owned_by w a x \<Longrightarrow> a < l_max x \<Longrightarrow> life_step (Some x) (L_retry w a)
     (Some (x\<lparr>l_state := Available, l_owner := None\<rparr>))"
| Exhaust: "owned_by w a x \<Longrightarrow> a = l_max x \<Longrightarrow> life_step (Some x) (L_exhaust w a)
     (Some (x\<lparr>l_state := Dead, l_owner := None\<rparr>))"
| Non_retryable: "owned_by w a x \<Longrightarrow> life_step (Some x) (L_non_retryable w a)
     (Some (x\<lparr>l_state := Dead, l_owner := None\<rparr>))"
| Cancel_ack: "owned_by w a x \<Longrightarrow> l_cancel x \<Longrightarrow> life_step (Some x) (L_cancel_ack w a)
     (Some (x\<lparr>l_state := Cancelled, l_owner := None\<rparr>))"
| Release: "owned_by w a x \<Longrightarrow> life_step (Some x) (L_release w a)
     (Some (x\<lparr>l_state := Available, l_owner := None\<rparr>))"
| Reap_retry: "l_state x = Running \<Longrightarrow> l_attempt x < l_max x \<Longrightarrow> life_step (Some x) L_reap_retry
     (Some (x\<lparr>l_state := Available, l_owner := None\<rparr>))"
| Reap_exhaust: "l_state x = Running \<Longrightarrow> l_attempt x = l_max x \<Longrightarrow>
     life_step (Some x) L_reap_exhaust (Some (x\<lparr>l_state := Dead, l_owner := None\<rparr>))"
| Cancel: "l_state x = Available \<Longrightarrow> life_step (Some x) L_cancel (Some (x\<lparr>l_state := Cancelled\<rparr>))"
| Request_cancel: "l_state x = Running \<Longrightarrow> life_step (Some x) L_request_cancel
     (Some (x\<lparr>l_cancel := True\<rparr>))"
| Operator_retry: "l_state x = Available \<Longrightarrow> life_step (Some x) L_operator_retry (Some x)"
| Replay: "l_state x = Dead \<Longrightarrow> life_step (Some x) L_replay
     (Some (x\<lparr>l_state := Available, l_attempt := 0\<rparr>))"
| Delete: "life_step (Some x) L_delete None"

inductive_cases life_step_NoneE: "life_step None l y"
inductive_cases life_step_SomeE: "life_step (Some x) l y"

text \<open>The reason of the transition table a label stands for; a release has none.\<close>

fun reason_of :: "life_label \<Rightarrow> transition_reason option" where
  "reason_of L_enqueue = Some R_enqueue"
| "reason_of (L_claim w) = Some R_claim"
| "reason_of (L_succeed w a) = Some R_succeed"
| "reason_of (L_retry w a) = Some R_retry"
| "reason_of (L_exhaust w a) = Some R_exhaust"
| "reason_of (L_non_retryable w a) = Some R_non_retryable"
| "reason_of (L_cancel_ack w a) = Some R_cancel_ack"
| "reason_of L_reap_retry = Some R_reap_retry"
| "reason_of L_reap_exhaust = Some R_reap_exhaust"
| "reason_of L_cancel = Some R_cancel"
| "reason_of L_operator_retry = Some R_operator_retry"
| "reason_of L_replay = Some R_replay"
| "reason_of _ = None"

text \<open>Every state change is one the transition table permits.\<close>

lemma life_step_permitted:
  assumes "life_step (Some x) l (Some y)" and "l_state x \<noteq> l_state y"
  shows "canTransition (l_state x) (l_state y)"
  using assms by (elim life_step_SomeE) (simp_all add: owned_by_def)

lemma life_step_reason:
  assumes "life_step (Some x) l (Some y)" and "reason_of l = Some r"
  shows "(l_state x, l_state y, r) \<in> set REASONS"
  using assms by (elim life_step_SomeE) (auto simp: owned_by_def REASONS_def TRANSITIONS_def)

lemma life_step_unexplained:
  assumes "life_step (Some x) l (Some y)" and "l_state x \<noteq> l_state y" and "reason_of l = None"
  shows "\<exists>w a. l = L_release w a"
  using assms by (auto elim!: life_step_SomeE)

lemma life_step_max: "life_step (Some x) l (Some y) \<Longrightarrow> l_max y = l_max x"
  by (auto elim!: life_step_SomeE)

text \<open>Only a claim raises the attempt, by one; only a replay lowers it.\<close>

lemma life_step_attempt:
  assumes "life_step (Some x) l (Some y)" and "l \<noteq> L_replay"
  shows "l_attempt x \<le> l_attempt y \<and> (l_attempt x \<noteq> l_attempt y \<longrightarrow>
     (\<exists>w. l = L_claim w) \<and> l_attempt y = l_attempt x + 1)"
  using assms by (auto elim!: life_step_SomeE)

text \<open>A running job changes hands only by leaving the running state first.\<close>

lemma life_step_owner:
  assumes "life_step (Some x) l (Some y)" and "l_state x = Running" and "l_state y = Running"
  shows "l_owner y = l_owner x \<and> l_attempt y = l_attempt x"
  using assms by (auto elim!: life_step_SomeE)

lemma life_step_cancel_needs_request:
  assumes "life_step (Some x) l (Some y)" and "l_state x = Running" and "l_state y = Cancelled"
  shows "l_cancel x \<and> (\<exists>w a. l = L_cancel_ack w a \<and> owned_by w a x)"
  using assms by (auto elim!: life_step_SomeE simp: owned_by_def)

subsection \<open>The contract of a statement\<close>

text \<open>Ids are never reused: a row that is new has an id the sequence had not reached.\<close>

definition grows :: "db \<Rightarrow> db \<Rightarrow> bool" where
  "grows d d' \<longleftrightarrow> db_job_seq d \<le> db_job_seq d' \<and>
     (\<forall>j \<in> set (db_jobs d'). j_id j \<in> j_id ` set (db_jobs d) \<or> db_job_seq d \<le> j_id j)"

lemma grows_refl [simp]: "grows d d"
  by (simp add: grows_def)

lemma grows_trans: "grows d d1 \<Longrightarrow> grows d1 d2 \<Longrightarrow> grows d d2"
  unfolding grows_def by (fastforce intro: order_trans)

lemma grows_same_ids:
  "db_job_seq d' = db_job_seq d \<Longrightarrow> j_id ` set (db_jobs d') \<subseteq> j_id ` set (db_jobs d) \<Longrightarrow> grows d d'"
  by (auto simp: grows_def)

lemma grows_absent:
  "grows d d' \<Longrightarrow> i < db_job_seq d \<Longrightarrow> job_at d i = None \<Longrightarrow> job_at d' i = None"
  by (fastforce simp: grows_def row_of_None_iff)

lemma grows_update:
  assumes "update_jobs P f d = Inr (rs, d')" and "keeps_identity f"
  shows "grows d d'"
  unfolding update_jobs_InrD(2) [OF assms(1)]
  by (rule grows_same_ids) (auto simp: set_upd_where keeps_identityD [OF assms(2)])

lemma grows_delete: "delete_jobs P d = Inr (rs, d') \<Longrightarrow> grows d d'"
  by (rule grows_same_ids) (auto simp: delete_jobs_def)

locale job_stmt =
  fixes stmt :: "'r stmt" and labels :: "life_label set"
  assumes inv: "db_inv d \<Longrightarrow> stmt d = Inr (r, d') \<Longrightarrow> db_inv d'"
    and refines: "db_inv d \<Longrightarrow> stmt d = Inr (r, d') \<Longrightarrow>
      \<exists>l \<in> labels. life_step (life_at d i) l (life_at d' i)"
    and fresh: "db_inv d \<Longrightarrow> stmt d = Inr (r, d') \<Longrightarrow> grows d d'"
begin

lemma permitted:
  assumes "db_inv d" and "stmt d = Inr (r, d')"
    and "job_at d i = Some j" and "job_at d' i = Some j'" and "j_state j \<noteq> j_state j'"
  shows "canTransition (j_state j) (j_state j')"
proof -
  from refines [OF assms(1,2), of i] assms(3,4)
  obtain l where "life_step (Some (life_of j)) l (Some (life_of j'))"
    by (auto simp: life_at_def)
  from life_step_permitted [OF this] assms(5) show ?thesis by (simp add: life_of_def)
qed

lemma attempt_mono:
  assumes "db_inv d" and "stmt d = Inr (r, d')" and "L_replay \<notin> labels"
    and "job_at d i = Some j" and "job_at d' i = Some j'"
  shows "j_attempt j \<le> j_attempt j'"
proof -
  from refines [OF assms(1,2), of i] assms(4,5)
  obtain l where "l \<in> labels" and "life_step (Some (life_of j)) l (Some (life_of j'))"
    by (auto simp: life_at_def)
  with life_step_attempt [of "life_of j" l "life_of j'"] assms(3) show ?thesis
    by (auto simp: life_of_def)
qed

lemma owner_stable:
  assumes "db_inv d" and "stmt d = Inr (r, d')"
    and "job_at d i = Some j" and "job_at d' i = Some j'"
    and "j_state j = Running" and "j_state j' = Running"
  shows "j_worker_id j' = j_worker_id j \<and> j_attempt j' = j_attempt j"
proof -
  from refines [OF assms(1,2), of i] assms(3,4)
  obtain l where "life_step (Some (life_of j)) l (Some (life_of j'))"
    by (auto simp: life_at_def)
  from life_step_owner [OF this] assms(5,6) show ?thesis by (simp add: life_of_def)
qed

lemma no_loss:
  assumes "db_inv d" and "stmt d = Inr (r, d')" and "L_delete \<notin> labels"
    and "job_at d i = Some j"
  shows "\<exists>j'. job_at d' i = Some j'"
proof -
  from refines [OF assms(1,2), of i] assms(4)
  obtain l where "l \<in> labels" and "life_step (Some (life_of j)) l (life_at d' i)"
    by (auto simp: life_at_def)
  with assms(3) have "life_at d' i \<noteq> None" by (auto elim: life_step_SomeE)
  then show ?thesis by (auto simp: life_at_def)
qed

end

text \<open>How an update statement meets the contract: one row at a time.\<close>

lemma update_jobs_refines:
  assumes inv: "db_inv d" and upd: "update_jobs P f d = Inr (rs, d')" and keep: "keeps_identity f"
    and stut: "L_stutter \<in> labels"
    and row: "\<And>j. j \<in> set (db_jobs d) \<Longrightarrow> P j \<Longrightarrow> job_checks j \<Longrightarrow> job_checks (f j) \<Longrightarrow>
      \<exists>l \<in> labels. life_step (Some (life_of j)) l (Some (life_of (f j)))"
  shows "\<exists>l \<in> labels. life_step (life_at d i) l (life_at d' i)"
proof (cases "job_at d i")
  case None
  then have "life_at d' i = life_at d i"
    by (simp add: life_at_def update_jobs_job_at [OF upd keep])
  with stut show ?thesis by (metis life_step.Stutter)
next
  case (Some j)
  with inv have j: "j \<in> set (db_jobs d)" "job_checks j" by (auto dest: db_inv_jobD)
  show ?thesis
  proof (cases "P j")
    case True
    with j update_jobs_InrD(3) [OF upd] have "job_checks (f j)" by blast
    from row [OF j(1) True j(2) this] show ?thesis
      using Some True by (simp add: life_at_def update_jobs_job_at [OF upd keep])
  next
    case False
    then have "life_at d' i = life_at d i"
      using Some by (simp add: life_at_def update_jobs_job_at [OF upd keep])
    with stut show ?thesis by (metis life_step.Stutter)
  qed
qed

lemma unchanged_jobs_refines:
  "db_jobs d' = db_jobs d \<Longrightarrow> L_stutter \<in> labels \<Longrightarrow>
   \<exists>l \<in> labels. life_step (life_at d i) l (life_at d' i)"
  by (metis life_at_def life_step.Stutter)

lemma delete_jobs_refines:
  assumes inv: "db_inv d" and del: "delete_jobs P d = Inr (rs, d')"
    and "L_stutter \<in> labels" and "L_delete \<in> labels"
  shows "\<exists>l \<in> labels. life_step (life_at d i) l (life_at d' i)"
proof -
  have "job_at d' i = (case job_at d i of None \<Rightarrow> None | Some j \<Rightarrow> if \<not> P j then Some j else None)"
    using del inv by (auto simp: delete_jobs_def db_inv_distinct row_of_filter)
  then have "life_at d' i = life_at d i \<or> life_at d i \<noteq> None \<and> life_at d' i = None"
    by (auto simp: life_at_def split: option.splits)
  then show ?thesis using assms(3,4) by (metis life_step.Delete life_step.Stutter option.exhaust)
qed

text \<open>The same for the statements whose WHERE clause does not depend on the rest of the table.\<close>

lemma update_stmt:
  assumes keep: "keeps_identity f" and stut: "L_stutter \<in> labels"
    and row: "\<And>j. P j \<Longrightarrow> job_checks j \<Longrightarrow> job_checks (f j) \<Longrightarrow>
      \<exists>l \<in> labels. life_step (Some (life_of j)) l (Some (life_of (f j)))"
  shows "job_stmt (returning g (update_jobs P f)) labels"
proof
  fix d r d' i
  assume inv: "db_inv d" and "returning g (update_jobs P f) d = Inr (r, d')"
  then obtain ss where u: "update_jobs P f d = Inr (ss, d')" by (auto simp: returning_Inr)
  show "db_inv d'" by (rule update_jobs_inv [OF inv u keep])
  show "\<exists>l \<in> labels. life_step (life_at d i) l (life_at d' i)"
    by (rule update_jobs_refines [OF inv u keep stut]) (rule row)
  show "grows d d'" by (rule grows_update [OF u keep])
qed

end
