(* ===== verification/Stmt_Claim.thy ===== *)
theory Stmt_Claim
  imports Lifecycle
begin

text \<open>
  packages/core/src/sql/claim.sql.ts: the claim statement and its variant with priority aging.
  \<open>locked\<close> is the set of job ids row-locked by other transactions, which SKIP LOCKED passes over;
  \<open>now\<close> is the transaction time of the database clock.
\<close>

record claim_params =
  cp_queue :: string
  cp_limit :: nat
  cp_workerId :: string

definition queue_paused :: "db \<Rightarrow> string \<Rightarrow> bool" where
  "queue_paused d q = coalesce (map_option qc_paused (row_of qc_queue q (db_config d))) False"

definition eligible :: "instant \<Rightarrow> ident set \<Rightarrow> string \<Rightarrow> db \<Rightarrow> job \<Rightarrow> bool" where
  "eligible now locked q d j \<longleftrightarrow>
     j_queue j = q \<and> j_state j = Available \<and> j_run_at j \<le> now \<and> \<not> queue_paused d (j_queue j)
     \<and> j_id j \<notin> locked"

text \<open>\<open>ORDER BY j.priority DESC, j.run_at, j.id\<close>\<close>

definition claim_order :: "job \<Rightarrow> int \<times> instant \<times> ident" where
  "claim_order j = (- j_priority j, j_run_at j, j_id j)"

text \<open>
  \<open>ORDER BY (j.priority + FLOOR(EXTRACT(EPOCH FROM (now() - j.run_at)) / $4)) DESC, j.run_at, j.id\<close>
\<close>

definition aged_priority :: "instant \<Rightarrow> int \<Rightarrow> job \<Rightarrow> int" where
  "aged_priority now thr j = j_priority j + (now - j_run_at j) div (us_per_second * thr)"

definition aging_order :: "instant \<Rightarrow> int \<Rightarrow> job \<Rightarrow> int \<times> instant \<times> ident" where
  "aging_order now thr j = (- aged_priority now thr j, j_run_at j, j_id j)"

definition claim_candidates ::
  "(job \<Rightarrow> 'k::linorder) \<Rightarrow> instant \<Rightarrow> ident set \<Rightarrow> claim_params \<Rightarrow> db \<Rightarrow> ident list" where
  "claim_candidates ord now locked p d =
     pick ord (cp_limit p) (eligible now locked (cp_queue p) d) (db_jobs d)"

definition claim_row :: "instant \<Rightarrow> string \<Rightarrow> job \<Rightarrow> job" where
  "claim_row now w j = j\<lparr>
     j_state := Running,
     j_attempt := j_attempt j + 1,
     j_worker_id := Some w,
     j_started_at := Some now,
     j_lease_expires_at := Some (now + us_per_second * j_lease_seconds j),
     j_updated_at := now\<rparr>"

definition claim_with :: "(job \<Rightarrow> 'k::linorder) \<Rightarrow> instant \<Rightarrow> ident set \<Rightarrow> claim_params \<Rightarrow> job list stmt"
  where "claim_with ord now locked p d =
     update_jobs (\<lambda>j. j_id j \<in> set (claim_candidates ord now locked p d))
       (claim_row now (cp_workerId p)) d"

text \<open>The \<open>RETURNING\<close> list with the mapping \<open>toClaimedJob\<close> of packages/core/src/sql/rows.ts.\<close>

definition toClaimedJob :: "job \<Rightarrow> claimed_job" where
  "toClaimedJob j = \<lparr>c_id = j_id j, c_queue = j_queue j, c_type = j_type j,
     c_payload = j_payload j, c_metadata = j_metadata j, c_attempt = j_attempt j,
     c_max_attempts = j_max_attempts j, c_lease_seconds = j_lease_seconds j,
     c_lease_expires_at = j_lease_expires_at j, c_trace_context = j_trace_context j,
     c_enqueued_at = j_enqueued_at j\<rparr>"

definition claimJobs :: "instant \<Rightarrow> ident set \<Rightarrow> claim_params \<Rightarrow> claimed_job list stmt" where
  "claimJobs now locked p = returning toClaimedJob (claim_with claim_order now locked p)"

definition claimJobsWithAging ::
  "instant \<Rightarrow> ident set \<Rightarrow> claim_params \<Rightarrow> int \<Rightarrow> claimed_job list stmt" where
  "claimJobsWithAging now locked p thr =
     returning toClaimedJob (claim_with (aging_order now thr) now locked p)"

lemmas claim_defs = claimJobs_def claimJobsWithAging_def claim_with_def

subsection \<open>The row update\<close>

lemma claim_row_keeps [simp]: "keeps_identity (claim_row now w)"
  by (simp add: keeps_identity_def claim_row_def)

lemma claim_row_simps [simp]:
  "j_state (claim_row now w j) = Running" "j_attempt (claim_row now w j) = j_attempt j + 1"
  "j_worker_id (claim_row now w j) = Some w" "j_id (claim_row now w j) = j_id j"
  "j_lease_expires_at (claim_row now w j) = Some (now + us_per_second * j_lease_seconds j)"
  by (simp_all add: claim_row_def)

lemma claim_row_life:
  "j_state j = Available \<Longrightarrow> job_checks (claim_row now w j) \<Longrightarrow>
   life_step (Some (life_of j)) (L_claim w) (Some (life_of (claim_row now w j)))"
proof -
  assume a: "j_state j = Available" and c: "job_checks (claim_row now w j)"
  from c have "l_attempt (life_of j) < l_max (life_of j)"
    by (simp add: job_checks_def life_of_def claim_row_def)
  from life_step.Claim [OF _ this, of w] a show ?thesis
    by (simp add: life_of_def claim_row_def)
qed

lemma candidates_eligible:
  "db_inv d \<Longrightarrow> j \<in> set (db_jobs d) \<Longrightarrow> j_id j \<in> set (claim_candidates ord now locked p d) \<Longrightarrow>
   eligible now locked (cp_queue p) d j"
  unfolding claim_candidates_def by (rule pick_sound [OF db_inv_distinct])

lemma claim_with_contract:
  assumes "db_inv d" and "claim_with ord now locked p d = Inr (rs, d')"
  shows "db_inv d'"
    and "\<exists>l \<in> {L_stutter, L_claim (cp_workerId p)}. life_step (life_at d i) l (life_at d' i)"
proof -
  note u = assms(2) [unfolded claim_with_def]
  show "db_inv d'" by (rule update_jobs_inv [OF assms(1) u]) simp
  show "\<exists>l \<in> {L_stutter, L_claim (cp_workerId p)}. life_step (life_at d i) l (life_at d' i)"
  proof (rule update_jobs_refines [OF assms(1) u])
    fix j
    assume "j \<in> set (db_jobs d)" "j_id j \<in> set (claim_candidates ord now locked p d)"
    then have "eligible now locked (cp_queue p) d j" by (rule candidates_eligible [OF assms(1)])
    moreover assume "job_checks (claim_row now (cp_workerId p) j)"
    ultimately show "\<exists>l \<in> {L_stutter, L_claim (cp_workerId p)}.
        life_step (Some (life_of j)) l (Some (life_of (claim_row now (cp_workerId p) j)))"
      by (auto intro: claim_row_life simp: eligible_def)
  qed simp_all
qed

interpretation claim: job_stmt "claimJobs now locked p" "{L_stutter, L_claim (cp_workerId p)}"
  for now locked p
proof unfold_locales
  fix d d' i and r :: "claimed_job list"
  assume inv: "db_inv d" and "claimJobs now locked p d = Inr (r, d')"
  then obtain rs where c: "claim_with claim_order now locked p d = Inr (rs, d')"
    by (auto simp: claimJobs_def returning_Inr)
  show "db_inv d'" by (rule claim_with_contract(1) [OF inv c])
  show "\<exists>l \<in> {L_stutter, L_claim (cp_workerId p)}. life_step (life_at d i) l (life_at d' i)"
    by (rule claim_with_contract(2) [OF inv c])
  show "grows d d'" by (rule grows_update [OF c [unfolded claim_with_def]]) simp
qed

interpretation claim_aging:
  job_stmt "claimJobsWithAging now locked p thr" "{L_stutter, L_claim (cp_workerId p)}"
  for now locked p thr
proof unfold_locales
  fix d d' i and r :: "claimed_job list"
  assume inv: "db_inv d" and "claimJobsWithAging now locked p thr d = Inr (r, d')"
  then obtain rs where c: "claim_with (aging_order now thr) now locked p d = Inr (rs, d')"
    by (auto simp: claimJobsWithAging_def returning_Inr)
  show "db_inv d'" by (rule claim_with_contract(1) [OF inv c])
  show "\<exists>l \<in> {L_stutter, L_claim (cp_workerId p)}. life_step (life_at d i) l (life_at d' i)"
    by (rule claim_with_contract(2) [OF inv c])
  show "grows d d'" by (rule grows_update [OF c [unfolded claim_with_def]]) simp
qed

subsection \<open>What a claim does\<close>

lemma candidates_distinct: "db_inv d \<Longrightarrow> distinct (claim_candidates ord now locked p d)"
  unfolding claim_candidates_def by (rule pick_distinct [OF db_inv_distinct])

lemma candidates_length:
  "length (claim_candidates ord now locked p d) =
   min (cp_limit p) (length (filter (eligible now locked (cp_queue p) d) (db_jobs d)))"
  by (simp add: claim_candidates_def)

lemma candidates_subset:
  "set (claim_candidates ord now locked p d) \<subseteq> j_id ` set (db_jobs d)"
  unfolding claim_candidates_def by (rule subset_trans [OF pick_subset]) auto

text \<open>
  An update of available rows to running keeps the index entries, so the only way a claim fails
  is a candidate whose attempts are used up.
\<close>

lemma claim_index_ok:
  assumes inv: "db_inv d"
  shows "index_ok (upd_where (\<lambda>j. j_id j \<in> set (claim_candidates ord now locked p d))
    (claim_row now w) (db_jobs d))"
proof (rule index_ok_upd_where)
  show "index_ok (db_jobs d)" using inv by (simp add: db_inv_def)
  fix j assume j: "j \<in> set (db_jobs d)" "j_id j \<in> set (claim_candidates ord now locked p d)"
  show "idem_slot (claim_row now w j) = idem_slot j" by (simp add: keeps_identityD)
  from candidates_eligible [OF inv j] have "j_state j = Available" by (simp add: eligible_def)
  then show "active_slot (claim_row now w j) = active_slot j \<or> active_slot (claim_row now w j) = None"
    by (simp add: active_slot_def claim_row_def)
qed

lemma claim_row_checks:
  "job_checks j \<Longrightarrow> job_checks (claim_row now w j) \<longleftrightarrow> j_attempt j < j_max_attempts j"
  by (auto simp: job_checks_def claim_row_def)

lemma claim_with_cases:
  assumes inv: "db_inv d"
  shows "claim_with ord now locked p d =
    (if \<exists>j \<in> set (db_jobs d). j_id j \<in> set (claim_candidates ord now locked p d)
          \<and> j_attempt j = j_max_attempts j
     then Inl Check_violation
     else Inr (map (claim_row now (cp_workerId p))
            (filter (\<lambda>j. j_id j \<in> set (claim_candidates ord now locked p d)) (db_jobs d)),
          d\<lparr>db_jobs := upd_where (\<lambda>j. j_id j \<in> set (claim_candidates ord now locked p d))
            (claim_row now (cp_workerId p)) (db_jobs d)\<rparr>))"
proof -
  have checks: "job_checks j" "j_attempt j \<le> j_max_attempts j" if "j \<in> set (db_jobs d)" for j
    using inv that by (auto simp: db_inv_def job_checks_def)
  then have "(\<not> job_checks (claim_row now (cp_workerId p) j)) = (j_attempt j = j_max_attempts j)"
    if "j \<in> set (db_jobs d)" for j
    using claim_row_checks [of j now "cp_workerId p"] that by fastforce
  then have "list_ex (\<lambda>j. \<not> job_checks (claim_row now (cp_workerId p) j))
        (filter (\<lambda>j. j_id j \<in> set (claim_candidates ord now locked p d)) (db_jobs d))
      \<longleftrightarrow> (\<exists>j \<in> set (db_jobs d). j_id j \<in> set (claim_candidates ord now locked p d)
          \<and> j_attempt j = j_max_attempts j)"
    by (auto simp: list_ex_iff)
  moreover note claim_index_ok [OF inv, of ord now locked p "cp_workerId p"]
  ultimately show ?thesis
    by (simp add: claim_with_def update_jobs_def Let_def)
qed

lemma claim_with_ids:
  assumes inv: "db_inv d" and ok: "claim_with ord now locked p d = Inr (rs, d')"
  shows "set (map j_id rs) = set (claim_candidates ord now locked p d)"
    and "distinct (map j_id rs)"
proof -
  note D = update_jobs_InrD [OF ok [unfolded claim_with_def]]
  have ids: "map j_id rs =
      map j_id (filter (\<lambda>j. j_id j \<in> set (claim_candidates ord now locked p d)) (db_jobs d))"
    by (simp add: D(1) comp_def)
  then show "distinct (map j_id rs)"
    using inv by (simp add: db_inv_def distinct_map_filter)
  show "set (map j_id rs) = set (claim_candidates ord now locked p d)"
    unfolding ids using candidates_subset [of ord now locked p d] by auto
qed

lemma claim_with_count:
  assumes "db_inv d" and "claim_with ord now locked p d = Inr (rs, d')"
  shows "length rs =
    min (cp_limit p) (length (filter (eligible now locked (cp_queue p) d) (db_jobs d)))"
  using update_jobs_InrD(1) [OF assms(2) [unfolded claim_with_def]]
    filter_picked_length [OF db_inv_distinct [OF assms(1)]]
  by (simp add: claim_candidates_def)

text \<open>A claimed row after the claim: running, owned by the claimer, on the next attempt.\<close>

lemma claim_with_row:
  assumes inv: "db_inv d" and ok: "claim_with ord now locked p d = Inr (rs, d')"
    and r: "r \<in> set rs"
  shows "\<exists>j. job_at d (j_id r) = Some j \<and> eligible now locked (cp_queue p) d j
      \<and> r = claim_row now (cp_workerId p) j \<and> job_at d' (j_id r) = Some r"
proof -
  note u = ok [unfolded claim_with_def]
  from r obtain j where j: "j \<in> set (db_jobs d)" "r = claim_row now (cp_workerId p) j"
      "j_id j \<in> set (claim_candidates ord now locked p d)"
    by (auto simp: update_jobs_InrD(1) [OF u])
  have "job_at d (j_id r) = Some j" using j by (simp add: db_inv_job_at [OF inv])
  moreover from this have "job_at d' (j_id r) = Some r"
    using j by (simp add: update_jobs_job_at [OF u])
  ultimately show ?thesis using j candidates_eligible [OF inv j(1,3)] by blast
qed

text \<open>A claim leaves every other job alone.\<close>

lemma claim_with_frame:
  assumes "db_inv d" and "claim_with ord now locked p d = Inr (rs, d')" and "i \<notin> j_id ` set rs"
  shows "job_at d' i = job_at d i"
proof (cases "job_at d i")
  case None
  then show ?thesis
    using update_jobs_job_at [OF assms(2) [unfolded claim_with_def]] by simp
next
  case (Some j)
  then have "j_id j = i" by (auto dest: row_of_SomeD)
  with assms(3) claim_with_ids(1) [OF assms(1,2)]
  have "j_id j \<notin> set (claim_candidates ord now locked p d)" by simp
  with Some show ?thesis
    using update_jobs_job_at [OF assms(2) [unfolded claim_with_def]] by simp
qed

end
