(* ===== verification/Stmt_Report.thy ===== *)
theory Stmt_Report
  imports Lifecycle
begin

text \<open>
  packages/core/src/sql/report.sql.ts: the statements that report a delivery's outcome. All of
  them carry the ownership fence (id, running, worker, attempt), which is the interface
  \<open>fenced_report\<close>; the reports that end the delivery meet \<open>final_report\<close>.
\<close>

record fence =
  f_id :: ident
  f_workerId :: string
  f_attempt :: int

definition owns :: "fence \<Rightarrow> job \<Rightarrow> bool" where
  "owns p j \<longleftrightarrow> j_id j = f_id p \<and> j_state j = Running \<and> j_worker_id j = Some (f_workerId p)
     \<and> j_attempt j = f_attempt p"

definition owned :: "db \<Rightarrow> fence \<Rightarrow> bool" where
  "owned d p \<longleftrightarrow> (case job_at d (f_id p) of None \<Rightarrow> False | Some j \<Rightarrow> owns p j)"

subsection \<open>The statements\<close>

definition complete_row :: "instant \<Rightarrow> job \<Rightarrow> job" where
  "complete_row now j = j\<lparr>
     j_state := Succeeded,
     j_finished_at := Some now,
     j_lease_expires_at := None,
     j_worker_id := None,
     j_updated_at := now\<rparr>"

definition completeJob :: "instant \<Rightarrow> fence \<Rightarrow> ident list stmt" where
  "completeJob now p = returning j_id (update_jobs (owns p) (complete_row now))"

record fail_params =
  fp_nonRetryable :: bool
  fp_retryDelaySeconds :: rat
  fp_maxErrorHistory :: int
  fp_error :: job_error

text \<open>\<open>errors - 0\<close> drops the oldest element, then the new record is appended.\<close>

definition push_error :: "int \<Rightarrow> job_error \<Rightarrow> job_error list \<Rightarrow> job_error list" where
  "push_error n e es = (if int (length es) \<ge> n then drop 1 es else es) @ [e]"

definition fail_row :: "instant \<Rightarrow> fail_params \<Rightarrow> job \<Rightarrow> job" where
  "fail_row now q j = j\<lparr>
     j_state := (if fp_nonRetryable q then Dead
                 else if j_attempt j \<ge> j_max_attempts j then Dead else Available),
     j_dead_reason := (if fp_nonRetryable q then Some Non_retryable_error
                       else if j_attempt j \<ge> j_max_attempts j then Some Attempts_exhausted else None),
     j_run_at := (if fp_nonRetryable q \<or> j_attempt j \<ge> j_max_attempts j then j_run_at j
                  else now + make_interval_secs (fp_retryDelaySeconds q)),
     j_finished_at := (if fp_nonRetryable q \<or> j_attempt j \<ge> j_max_attempts j then Some now else None),
     j_errors := push_error (fp_maxErrorHistory q) (fp_error q) (j_errors j),
     j_lease_expires_at := None,
     j_worker_id := None,
     j_updated_at := now\<rparr>"

record fail_result =
  fr_id :: ident
  fr_state :: job_state
  fr_run_at :: instant
  fr_attempt :: int
  fr_max_attempts :: int
  fr_dead_reason :: "dead_reason option"

definition fail_returning :: "job \<Rightarrow> fail_result" where
  "fail_returning j = \<lparr>fr_id = j_id j, fr_state = j_state j, fr_run_at = j_run_at j,
     fr_attempt = j_attempt j, fr_max_attempts = j_max_attempts j, fr_dead_reason = j_dead_reason j\<rparr>"

definition failJob :: "instant \<Rightarrow> fail_params \<Rightarrow> fence \<Rightarrow> fail_result list stmt" where
  "failJob now q p = returning fail_returning (update_jobs (owns p) (fail_row now q))"

definition heartbeat_row :: "instant \<Rightarrow> int \<Rightarrow> job \<Rightarrow> job" where
  "heartbeat_row now secs j = j\<lparr>
     j_lease_expires_at := Some (now + us_per_second * secs),
     j_updated_at := now\<rparr>"

definition heartbeat_returning :: "job \<Rightarrow> instant option \<times> instant option" where
  "heartbeat_returning j = (j_lease_expires_at j, j_cancel_requested_at j)"

definition heartbeatJob :: "instant \<Rightarrow> int \<Rightarrow> fence \<Rightarrow> (instant option \<times> instant option) list stmt" where
  "heartbeatJob now secs p = returning heartbeat_returning (update_jobs (owns p) (heartbeat_row now secs))"

definition ack_row :: "instant \<Rightarrow> job \<Rightarrow> job" where
  "ack_row now j = j\<lparr>
     j_state := Cancelled,
     j_dead_reason := None,
     j_finished_at := Some now,
     j_lease_expires_at := None,
     j_worker_id := None,
     j_updated_at := now\<rparr>"

definition acknowledgeCancellation :: "instant \<Rightarrow> fence \<Rightarrow> ident list stmt" where
  "acknowledgeCancellation now p =
     returning j_id (update_jobs (\<lambda>j. owns p j \<and> j_cancel_requested_at j \<noteq> None) (ack_row now))"

definition release_row :: "instant \<Rightarrow> job \<Rightarrow> job" where
  "release_row now j = j\<lparr>
     j_state := Available,
     j_run_at := now,
     j_lease_expires_at := None,
     j_worker_id := None,
     j_started_at := None,
     j_updated_at := now\<rparr>"

definition releaseJob :: "instant \<Rightarrow> fence \<Rightarrow> ident list stmt" where
  "releaseJob now p = returning j_id (update_jobs (owns p) (release_row now))"

lemmas report_row_defs [row_defs] = complete_row_def fail_row_def heartbeat_row_def ack_row_def
  release_row_def

subsection \<open>The fence as an interface\<close>

locale fenced_report =
  fixes rep :: "fence \<Rightarrow> 'r list stmt"
  assumes rejected: "db_inv d \<Longrightarrow> \<not> owned d p \<Longrightarrow> rep p d = Inr ([], d)"
    and frame: "db_inv d \<Longrightarrow> rep p d = Inr (rs, d') \<Longrightarrow> i \<noteq> f_id p \<Longrightarrow> job_at d' i = job_at d i"
    and single: "db_inv d \<Longrightarrow> rep p d = Inr (rs, d') \<Longrightarrow> length rs \<le> 1"
    and keeps_inv: "db_inv d \<Longrightarrow> rep p d = Inr (rs, d') \<Longrightarrow> db_inv d'"
begin

lemma accepted_owned: "db_inv d \<Longrightarrow> rep p d = Inr (r # rs, d') \<Longrightarrow> owned d p"
  using rejected [of d p] by fastforce

text \<open>A report of an earlier delivery, or of another worker, changes nothing.\<close>

lemma stale_attempt:
  assumes "db_inv d" and "job_at d (f_id p) = Some j" and "f_attempt p \<noteq> j_attempt j"
  shows "rep p d = Inr ([], d)"
  using assms by (intro rejected) (auto simp: owned_def owns_def)

lemma foreign_worker:
  assumes "db_inv d" and "job_at d (f_id p) = Some j" and "j_worker_id j \<noteq> Some (f_workerId p)"
  shows "rep p d = Inr ([], d)"
  using assms by (intro rejected) (auto simp: owned_def owns_def)

lemma not_running:
  assumes "db_inv d" and "job_at d (f_id p) = Some j" and "j_state j \<noteq> Running"
  shows "rep p d = Inr ([], d)"
  using assms by (intro rejected) (auto simp: owned_def owns_def)

lemma missing_job:
  assumes "db_inv d" and "job_at d (f_id p) = None"
  shows "rep p d = Inr ([], d)"
  using assms by (intro rejected) (auto simp: owned_def)

end

locale final_report = fenced_report rep for rep :: "fence \<Rightarrow> 'r list stmt" +
  assumes surrenders: "db_inv d \<Longrightarrow> rep p d = Inr (r # rs, d') \<Longrightarrow> \<not> owned d' p"
begin

text \<open>A delivery is reported at most once.\<close>

lemma reported_once:
  assumes "db_inv d" and "rep p d = Inr (r # rs, d')"
  shows "rep p d' = Inr ([], d')"
  by (rule rejected [OF keeps_inv [OF assms] surrenders [OF assms]])

end

subsection \<open>The statements meet the interface\<close>

lemma owned_iff:
  assumes "db_inv d"
  shows "owned d p \<longleftrightarrow> (\<exists>j \<in> set (db_jobs d). owns p j)"
proof
  assume "owned d p"
  then obtain j where "job_at d (f_id p) = Some j" "owns p j"
    by (auto simp: owned_def split: option.splits)
  with db_inv_jobD [OF assms] show "\<exists>j \<in> set (db_jobs d). owns p j" by blast
next
  assume "\<exists>j \<in> set (db_jobs d). owns p j"
  then obtain j where j: "j \<in> set (db_jobs d)" "owns p j" by blast
  then have "job_at d (f_id p) = Some j"
    using db_inv_job_at [OF assms j(1)] by (simp add: owns_def)
  with j(2) show "owned d p" by (simp add: owned_def)
qed

lemma filter_owns_single:
  assumes "db_inv d"
  shows "length (filter (\<lambda>j. owns p j \<and> Q j) (db_jobs d)) \<le> 1"
proof -
  let ?f = "filter (\<lambda>j. owns p j \<and> Q j) (db_jobs d)"
  have "distinct (map j_id ?f)" using assms by (simp add: db_inv_def distinct_map_filter)
  moreover have "set (map j_id ?f) \<subseteq> {f_id p}" by (auto simp: owns_def)
  ultimately have "length (map j_id ?f) \<le> card {f_id p}"
    by (metis card_mono distinct_card finite.emptyI finite.insertI)
  then show ?thesis by simp
qed

lemma fenced_update:
  assumes keep: "keeps_identity f"
  shows "fenced_report (\<lambda>p. returning g (update_jobs (\<lambda>j. owns p j \<and> Q j) f))"
proof unfold_locales
  fix d p
  assume inv: "db_inv d" and "\<not> owned d p"
  then have "\<forall>j \<in> set (db_jobs d). \<not> (owns p j \<and> Q j)" by (simp add: owned_iff)
  from update_jobs_none [OF inv this]
  show "returning g (update_jobs (\<lambda>j. owns p j \<and> Q j) f) d = Inr ([], d)"
    by (simp add: returning_def)
next
  fix d p rs d' i
  assume inv: "db_inv d" and r: "returning g (update_jobs (\<lambda>j. owns p j \<and> Q j) f) d = Inr (rs, d')"
  then obtain ss where u: "update_jobs (\<lambda>j. owns p j \<and> Q j) f d = Inr (ss, d')" and rs: "rs = map g ss"
    by (auto simp: returning_Inr)
  show "db_inv d'" by (rule update_jobs_inv [OF inv u keep])
  show "length rs \<le> 1"
    using filter_owns_single [OF inv, of p Q] by (simp add: rs update_jobs_InrD(1) [OF u])
  show "job_at d' i = job_at d i" if "i \<noteq> f_id p"
    using that by (auto simp: update_jobs_job_at [OF u keep] owns_def map_option_case
        dest: row_of_SomeD split: option.splits)
qed

lemma final_update:
  assumes keep: "keeps_identity f" and gone: "\<And>p j. \<not> owns p (f j)"
  shows "final_report (\<lambda>p. returning g (update_jobs (\<lambda>j. owns p j \<and> Q j) f))"
proof (intro final_report.intro fenced_update [OF keep] final_report_axioms.intro)
  fix d p r rs d'
  assume inv: "db_inv d"
    and "returning g (update_jobs (\<lambda>j. owns p j \<and> Q j) f) d = Inr (r # rs, d')"
  then obtain ss where u: "update_jobs (\<lambda>j. owns p j \<and> Q j) f d = Inr (ss, d')" "ss \<noteq> []"
    by (auto simp: returning_Inr)
  then obtain j where j: "j \<in> set (db_jobs d)" "owns p j" "Q j"
    by (auto simp: update_jobs_InrD(1) [OF u(1)] filter_empty_conv)
  then have "job_at d (f_id p) = Some j"
    using db_inv_job_at [OF inv j(1)] by (simp add: owns_def)
  then show "\<not> owned d' p"
    using j gone by (simp add: owned_def update_jobs_job_at [OF u(1) keep])
qed

lemma report_rows_keep [simp]:
  "keeps_identity (complete_row now)" "keeps_identity (fail_row now q)"
  "keeps_identity (heartbeat_row now secs)" "keeps_identity (ack_row now)"
  "keeps_identity (release_row now)"
  by (simp_all add: keeps_identity_def row_defs)

lemma final_rows_gone:
  "\<not> owns p (complete_row now j)" "\<not> owns p (fail_row now q j)" "\<not> owns p (ack_row now j)"
  "\<not> owns p (release_row now j)"
  by (simp_all add: owns_def row_defs)

lemmas owns_whole = fenced_update [where Q = "\<lambda>_. True", simplified]
  and owns_whole_final = final_update [where Q = "\<lambda>_. True", simplified]

interpretation complete: final_report "completeJob now" for now
  unfolding completeJob_def by (rule owns_whole_final) (simp_all add: final_rows_gone)

interpretation failing: final_report "failJob now q" for now q
  unfolding failJob_def by (rule owns_whole_final) (simp_all add: final_rows_gone)

interpretation heartbeat: fenced_report "heartbeatJob now secs" for now secs
  unfolding heartbeatJob_def by (rule owns_whole) simp

interpretation ack: final_report "acknowledgeCancellation now" for now
  unfolding acknowledgeCancellation_def by (rule final_update) (simp_all add: final_rows_gone)

interpretation release: final_report "releaseJob now" for now
  unfolding releaseJob_def by (rule owns_whole_final) (simp_all add: final_rows_gone)

subsection \<open>The statements refine the life of a job\<close>

lemma owns_life: "owns p j \<Longrightarrow> owned_by (f_workerId p) (f_attempt p) (life_of j)"
  by (simp add: owns_def owned_by_def life_of_def)

lemma report_row_life:
  assumes "owns p j"
  shows "life_step (Some (life_of j)) (L_succeed (f_workerId p) (f_attempt p))
      (Some (life_of (complete_row now j)))"
    and "life_step (Some (life_of j)) (L_heartbeat (f_workerId p) (f_attempt p))
      (Some (life_of (heartbeat_row now secs j)))"
    and "life_step (Some (life_of j)) (L_release (f_workerId p) (f_attempt p))
      (Some (life_of (release_row now j)))"
    and "j_cancel_requested_at j \<noteq> None \<Longrightarrow>
      life_step (Some (life_of j)) (L_cancel_ack (f_workerId p) (f_attempt p))
      (Some (life_of (ack_row now j)))"
proof -
  note o = owns_life [OF assms]
  have same: "life_of (heartbeat_row now secs j) = life_of j"
    by (simp add: life_of_def row_defs)
  show "life_step (Some (life_of j)) (L_heartbeat (f_workerId p) (f_attempt p))
      (Some (life_of (heartbeat_row now secs j)))"
    unfolding same by (rule life_step.Heartbeat [OF o])
  from life_step.Succeed [OF o] life_step.Release [OF o] life_step.Cancel_ack [OF o]
  show "life_step (Some (life_of j)) (L_succeed (f_workerId p) (f_attempt p))
      (Some (life_of (complete_row now j)))"
    and "life_step (Some (life_of j)) (L_release (f_workerId p) (f_attempt p))
      (Some (life_of (release_row now j)))"
    and "j_cancel_requested_at j \<noteq> None \<Longrightarrow>
      life_step (Some (life_of j)) (L_cancel_ack (f_workerId p) (f_attempt p))
      (Some (life_of (ack_row now j)))"
    by (simp_all add: life_of_def row_defs)
qed

lemma fail_row_life:
  assumes "owns p j" and "job_checks j"
  shows "\<exists>l \<in> {L_non_retryable (f_workerId p) (f_attempt p), L_retry (f_workerId p) (f_attempt p),
      L_exhaust (f_workerId p) (f_attempt p)}.
    life_step (Some (life_of j)) l (Some (life_of (fail_row now q j)))"
proof -
  note o = owns_life [OF assms(1)]
  have a: "f_attempt p = j_attempt j" "j_attempt j \<le> j_max_attempts j"
    using assms by (auto simp: owns_def job_checks_def)
  consider "fp_nonRetryable q" | "\<not> fp_nonRetryable q" "j_attempt j < j_max_attempts j"
    | "\<not> fp_nonRetryable q" "j_attempt j = j_max_attempts j"
    using a(2) by linarith
  then show ?thesis
  proof cases
    case 1
    with life_step.Non_retryable [OF o] show ?thesis by (simp add: life_of_def row_defs)
  next
    case 2
    with life_step.Retry [OF o] a show ?thesis by (simp add: life_of_def row_defs)
  next
    case 3
    with life_step.Exhaust [OF o] a show ?thesis by (simp add: life_of_def row_defs)
  qed
qed

interpretation complete_life:
  job_stmt "completeJob now p" "{L_stutter, L_succeed (f_workerId p) (f_attempt p)}" for now p
  unfolding completeJob_def by (rule update_stmt) (auto intro: report_row_life)

interpretation failing_life:
  job_stmt "failJob now q p" "{L_stutter, L_non_retryable (f_workerId p) (f_attempt p),
    L_retry (f_workerId p) (f_attempt p), L_exhaust (f_workerId p) (f_attempt p)}" for now q p
  unfolding failJob_def by (rule update_stmt) (use fail_row_life in auto)

interpretation heartbeat_life:
  job_stmt "heartbeatJob now secs p" "{L_stutter, L_heartbeat (f_workerId p) (f_attempt p)}"
  for now secs p
  unfolding heartbeatJob_def by (rule update_stmt) (auto intro: report_row_life)

interpretation ack_life:
  job_stmt "acknowledgeCancellation now p"
    "{L_stutter, L_cancel_ack (f_workerId p) (f_attempt p)}" for now p
  unfolding acknowledgeCancellation_def
  by (rule update_stmt) (auto intro: report_row_life simp del: not_None_eq)

interpretation release_life:
  job_stmt "releaseJob now p" "{L_stutter, L_release (f_workerId p) (f_attempt p)}" for now p
  unfolding releaseJob_def by (rule update_stmt) (auto intro: report_row_life)

subsection \<open>The owner's report always lands\<close>

text \<open>
  A report by the owner never fails: the new row meets every CHECK and no index entry appears.
\<close>

lemma report_row_checks:
  assumes "job_checks j"
  shows "job_checks (complete_row now j)" "job_checks (fail_row now q j)"
    "job_checks (ack_row now j)" "job_checks (release_row now j)"
    "owns p j \<Longrightarrow> job_checks (heartbeat_row now secs j)"
  using assms by (auto simp: job_checks_def row_defs owns_def)

lemma report_active_slot:
  assumes "owns p j"
  shows "active_slot (complete_row now j) = None"
    "active_slot (fail_row now q j) = active_slot j \<or> active_slot (fail_row now q j) = None"
    "active_slot (ack_row now j) = None" "active_slot (release_row now j) = active_slot j"
    "active_slot (heartbeat_row now secs j) = active_slot j"
  using assms by (auto simp: active_slot_def row_defs owns_def)

lemma owner_update_lands:
  assumes inv: "db_inv d" and at: "job_at d (f_id p) = Some j" and own: "owns p j" "Q j"
    and keep: "keeps_identity f" and checks: "\<And>k. owns p k \<Longrightarrow> job_checks k \<Longrightarrow> job_checks (f k)"
    and slot: "\<And>k. owns p k \<Longrightarrow> active_slot (f k) = active_slot k \<or> active_slot (f k) = None"
  shows "\<exists>d'. update_jobs (\<lambda>j. owns p j \<and> Q j) f d = Inr ([f j], d') \<and> job_at d' (f_id p) = Some (f j)"
proof -
  let ?P = "\<lambda>j. owns p j \<and> Q j"
  have "\<forall>k \<in> set (db_jobs d). ?P k \<longrightarrow> job_checks (f k)"
    using inv checks by (simp add: db_inv_def)
  moreover have "index_ok (upd_where ?P f (db_jobs d))"
    by (rule index_ok_upd_where)
      (use inv slot keeps_identityD(8) [OF keep] in \<open>auto simp: db_inv_def\<close>)
  ultimately have u: "update_jobs ?P f d =
      Inr (map f (filter ?P (db_jobs d)), d\<lparr>db_jobs := upd_where ?P f (db_jobs d)\<rparr>)"
    by (rule update_jobs_Inr)
  have j: "j \<in> set (filter ?P (db_jobs d))" using at own by (auto dest: row_of_SomeD)
  have "filter ?P (db_jobs d) = [j]"
  proof (cases "filter ?P (db_jobs d)")
    case (Cons x xs)
    with filter_owns_single [OF inv, of p Q] j show ?thesis by simp
  qed (use j in simp)
  with u update_jobs_job_at [OF u keep, of "f_id p"] at own show ?thesis by simp
qed

lemma owner_update_frame:
  assumes "update_jobs P f d = Inr (rs, d')" and "keeps_identity f" and "\<forall>j. P j \<longrightarrow> j_id j = i"
    and "k \<noteq> i"
  shows "job_at d' k = job_at d k"
  using assms by (cases "job_at d k") (auto simp: update_jobs_job_at dest: row_of_SomeD)

text \<open>
  The effect of an accepted report: one row, the owner's, becomes \<open>f\<close> of what it was.
\<close>

definition reported :: "fence \<Rightarrow> (job \<Rightarrow> job) \<Rightarrow> db \<Rightarrow> db \<Rightarrow> bool" where
  "reported p f d d' \<longleftrightarrow> db_inv d \<and> db_inv d' \<and>
     (\<exists>j. job_at d (f_id p) = Some j \<and> owns p j \<and> job_at d' (f_id p) = Some (f j)) \<and>
     (\<forall>k. k \<noteq> f_id p \<longrightarrow> job_at d' k = job_at d k)"

lemma owner_update_reported:
  assumes inv: "db_inv d" and at: "job_at d (f_id p) = Some j" and own: "owns p j" "Q j"
    and keep: "keeps_identity f" and checks: "\<And>k. owns p k \<Longrightarrow> job_checks k \<Longrightarrow> job_checks (f k)"
    and slot: "\<And>k. owns p k \<Longrightarrow> active_slot (f k) = active_slot k \<or> active_slot (f k) = None"
  shows "\<exists>d'. returning g (update_jobs (\<lambda>j. owns p j \<and> Q j) f) d = Inr ([g (f j)], d')
    \<and> reported p f d d'"
proof -
  from owner_update_lands [of d p j Q f, OF inv at own keep checks slot] obtain d' where
    u: "update_jobs (\<lambda>j. owns p j \<and> Q j) f d = Inr ([f j], d')"
    and at': "job_at d' (f_id p) = Some (f j)" by blast
  have "reported p f d d'"
    unfolding reported_def
    using inv at own at' update_jobs_inv [OF inv u keep] owner_update_frame [OF u keep, of "f_id p"]
    by (auto simp: owns_def)
  with u show ?thesis by (simp add: returning_def)
qed

lemmas owner_update_whole = owner_update_reported [where Q = "\<lambda>_. True", simplified]

lemma completeJob_lands:
  assumes "db_inv d" and "job_at d (f_id p) = Some j" and "owns p j"
  shows "\<exists>d'. completeJob now p d = Inr ([f_id p], d') \<and> reported p (complete_row now) d d'"
proof -
  have "j_id (complete_row now j) = f_id p" using assms(3) by (simp add: row_defs owns_def)
  with owner_update_whole [OF assms, of "complete_row now" j_id] show ?thesis
    by (simp add: completeJob_def report_row_checks report_active_slot)
qed

lemma failJob_lands:
  assumes "db_inv d" and "job_at d (f_id p) = Some j" and "owns p j"
  shows "\<exists>d'. failJob now q p d = Inr ([fail_returning (fail_row now q j)], d')
    \<and> reported p (fail_row now q) d d'"
  using owner_update_whole [OF assms, of "fail_row now q" fail_returning]
  by (simp add: failJob_def report_row_checks report_active_slot)

lemma releaseJob_lands:
  assumes "db_inv d" and "job_at d (f_id p) = Some j" and "owns p j"
  shows "\<exists>d'. releaseJob now p d = Inr ([f_id p], d') \<and> reported p (release_row now) d d'"
proof -
  have "j_id (release_row now j) = f_id p" using assms(3) by (simp add: row_defs owns_def)
  with owner_update_whole [OF assms, of "release_row now" j_id] show ?thesis
    by (simp add: releaseJob_def report_row_checks report_active_slot)
qed

lemma heartbeatJob_lands:
  assumes "db_inv d" and "job_at d (f_id p) = Some j" and "owns p j"
  shows "\<exists>d'. heartbeatJob now secs p d = Inr ([heartbeat_returning (heartbeat_row now secs j)], d')
    \<and> reported p (heartbeat_row now secs) d d'"
  using owner_update_whole [OF assms, of "heartbeat_row now secs" heartbeat_returning]
  by (simp add: heartbeatJob_def report_row_checks report_active_slot)

lemma acknowledge_lands:
  assumes "db_inv d" and "job_at d (f_id p) = Some j" and "owns p j" and "j_cancel_requested_at j \<noteq> None"
  shows "\<exists>d'. acknowledgeCancellation now p d = Inr ([f_id p], d') \<and> reported p (ack_row now) d d'"
proof -
  have "j_id (ack_row now j) = f_id p" using assms(3) by (simp add: row_defs owns_def)
  with owner_update_reported [OF assms(1-3), of "\<lambda>j. j_cancel_requested_at j \<noteq> None" "ack_row now" j_id]
    assms(4)
  show ?thesis
    by (simp add: acknowledgeCancellation_def report_row_checks report_active_slot)
qed

lemma acknowledge_unrequested:
  assumes "db_inv d" and "job_at d (f_id p) = Some j" and "j_cancel_requested_at j = None"
  shows "acknowledgeCancellation now p d = Inr ([], d)"
proof -
  have "\<forall>k \<in> set (db_jobs d). \<not> (owns p k \<and> j_cancel_requested_at k \<noteq> None)"
    using assms db_inv_job_at [OF assms(1)] by (fastforce simp: owns_def)
  from update_jobs_none [OF assms(1) this] show ?thesis
    by (simp add: acknowledgeCancellation_def returning_def)
qed

end
