(* ===== verification/Stmt_Reap.thy ===== *)
theory Stmt_Reap
  imports Lifecycle
begin

text \<open>
  packages/core/src/sql/reap.sql.ts: recovery of jobs whose lease expired. As in the claim,
  \<open>locked\<close> is the set of rows held by other transactions.
\<close>

record reap_params =
  rp_limit :: nat
  rp_retryDelaySeconds :: rat

definition lease_expired :: "instant \<Rightarrow> ident set \<Rightarrow> job \<Rightarrow> bool" where
  "lease_expired now locked j \<longleftrightarrow> j_state j = Running
     \<and> (case j_lease_expires_at j of None \<Rightarrow> False | Some t \<Rightarrow> t < now) \<and> j_id j \<notin> locked"

definition lease_order :: "job \<Rightarrow> instant" where
  "lease_order j = coalesce (j_lease_expires_at j) 0"

definition expired_ids :: "instant \<Rightarrow> ident set \<Rightarrow> nat \<Rightarrow> db \<Rightarrow> ident list" where
  "expired_ids now locked n d = pick lease_order n (lease_expired now locked) (db_jobs d)"

text \<open>
  The record the statement appends: the literals of its \<open>jsonb_build_object\<close>, with the history
  capped at five whatever the configuration says.
\<close>

definition lease_error :: "instant \<Rightarrow> job \<Rightarrow> job_error" where
  "lease_error now j = \<lparr>e_attempt = j_attempt j, e_at = now, e_kind = Kind_lease_expired,
     e_name = Some ''LeaseExpired'',
     e_message = Some ''Lease expired without the worker reporting an outcome'',
     e_stack = None, e_worker_id = j_worker_id j\<rparr>"

definition reap_row :: "instant \<Rightarrow> rat \<Rightarrow> job \<Rightarrow> job" where
  "reap_row now delay j = j\<lparr>
     j_state := (if j_attempt j \<ge> j_max_attempts j then Dead else Available),
     j_dead_reason := (if j_attempt j \<ge> j_max_attempts j then Some Lease_expired else None),
     j_run_at := (if j_attempt j \<ge> j_max_attempts j then j_run_at j
                  else now + make_interval_secs delay),
     j_finished_at := (if j_attempt j \<ge> j_max_attempts j then Some now else None),
     j_started_at := (if j_attempt j \<ge> j_max_attempts j then j_started_at j else None),
     j_errors := (if length (j_errors j) \<ge> 5 then drop 1 (j_errors j) else j_errors j)
                 @ [lease_error now j],
     j_lease_expires_at := None,
     j_worker_id := None,
     j_updated_at := now\<rparr>"

record reaped_row =
  rr_id :: ident
  rr_queue :: string
  rr_type :: string
  rr_state :: job_state
  rr_attempt :: int
  rr_max_attempts :: int

definition reap_returning :: "job \<Rightarrow> reaped_row" where
  "reap_returning j = \<lparr>rr_id = j_id j, rr_queue = j_queue j, rr_type = j_type j,
     rr_state = j_state j, rr_attempt = j_attempt j, rr_max_attempts = j_max_attempts j\<rparr>"

definition reapExpiredLeases :: "instant \<Rightarrow> ident set \<Rightarrow> reap_params \<Rightarrow> reaped_row list stmt" where
  "reapExpiredLeases now locked p d =
     returning reap_returning
       (update_jobs (\<lambda>j. j_id j \<in> set (expired_ids now locked (rp_limit p) d))
          (reap_row now (rp_retryDelaySeconds p))) d"

definition countOverdueLeases :: "instant \<Rightarrow> db \<Rightarrow> nat" where
  "countOverdueLeases now d = length (filter (lease_expired now {}) (db_jobs d))"

subsection \<open>The contract\<close>

lemma reap_row_keeps [simp]: "keeps_identity (reap_row now delay)"
  by (simp add: keeps_identity_def reap_row_def)

lemma reap_row_checks: "job_checks j \<Longrightarrow> job_checks (reap_row now delay j)"
  by (auto simp: job_checks_def reap_row_def)

lemma expired_ids_expired:
  "db_inv d \<Longrightarrow> j \<in> set (db_jobs d) \<Longrightarrow> j_id j \<in> set (expired_ids now locked n d) \<Longrightarrow>
   lease_expired now locked j"
  unfolding expired_ids_def by (rule pick_sound [OF db_inv_distinct])

lemma reap_index_ok:
  assumes "db_inv d"
  shows "index_ok (upd_where (\<lambda>j. j_id j \<in> set (expired_ids now locked n d))
    (reap_row now delay) (db_jobs d))"
proof (rule index_ok_upd_where)
  show "index_ok (db_jobs d)" using assms by (simp add: db_inv_def)
  fix j assume j: "j \<in> set (db_jobs d)" "j_id j \<in> set (expired_ids now locked n d)"
  show "idem_slot (reap_row now delay j) = idem_slot j" by (simp add: keeps_identityD)
  from expired_ids_expired [OF assms j] have "j_state j = Running" by (simp add: lease_expired_def)
  then show "active_slot (reap_row now delay j) = active_slot j
      \<or> active_slot (reap_row now delay j) = None"
    by (simp add: active_slot_def reap_row_def)
qed

text \<open>The reaper never fails: every row it touches may be released or dead-lettered.\<close>

lemma reap_lands:
  assumes "db_inv d"
  shows "reapExpiredLeases now locked p d =
    Inr (map (reap_returning \<circ> reap_row now (rp_retryDelaySeconds p))
           (filter (\<lambda>j. j_id j \<in> set (expired_ids now locked (rp_limit p) d)) (db_jobs d)),
         d\<lparr>db_jobs := upd_where (\<lambda>j. j_id j \<in> set (expired_ids now locked (rp_limit p) d))
           (reap_row now (rp_retryDelaySeconds p)) (db_jobs d)\<rparr>)"
proof -
  have "\<forall>j \<in> set (db_jobs d). j_id j \<in> set (expired_ids now locked (rp_limit p) d) \<longrightarrow>
      job_checks (reap_row now (rp_retryDelaySeconds p) j)"
    using assms by (simp add: db_inv_def reap_row_checks)
  from update_jobs_Inr [OF this reap_index_ok [OF assms]]
  show ?thesis by (simp add: reapExpiredLeases_def returning_def comp_def)
qed

lemma reap_row_life:
  assumes "j_state j = Running" and "job_checks j"
  shows "life_step (Some (life_of j))
    (if j_attempt j \<ge> j_max_attempts j then L_reap_exhaust else L_reap_retry)
    (Some (life_of (reap_row now delay j)))"
  using assms life_step.Reap_retry [of "life_of j"] life_step.Reap_exhaust [of "life_of j"]
  by (auto simp: life_of_def reap_row_def job_checks_def)

interpretation reap:
  job_stmt "reapExpiredLeases now locked p" "{L_stutter, L_reap_retry, L_reap_exhaust}"
  for now locked p
proof unfold_locales
  fix d d' i r
  assume inv: "db_inv d" and "reapExpiredLeases now locked p d = Inr (r, d')"
  then obtain ss where u: "update_jobs (\<lambda>j. j_id j \<in> set (expired_ids now locked (rp_limit p) d))
      (reap_row now (rp_retryDelaySeconds p)) d = Inr (ss, d')"
    by (auto simp: reapExpiredLeases_def returning_Inr)
  show "db_inv d'" by (rule update_jobs_inv [OF inv u]) simp
  show "grows d d'" by (rule grows_update [OF u]) simp
  show "\<exists>l \<in> {L_stutter, L_reap_retry, L_reap_exhaust}. life_step (life_at d i) l (life_at d' i)"
  proof (rule update_jobs_refines [OF inv u])
    fix j
    assume j: "j \<in> set (db_jobs d)" "j_id j \<in> set (expired_ids now locked (rp_limit p) d)"
      and c: "job_checks j"
    from expired_ids_expired [OF inv j] have "j_state j = Running" by (simp add: lease_expired_def)
    from reap_row_life [OF this c]
    show "\<exists>l \<in> {L_stutter, L_reap_retry, L_reap_exhaust}. life_step (Some (life_of j)) l
        (Some (life_of (reap_row now (rp_retryDelaySeconds p) j)))"
      by (cases "j_attempt j \<ge> j_max_attempts j") (metis insertI1 insertI2)+
  qed simp_all
qed

subsection \<open>What a pass recovers\<close>

lemma reap_overdue_after:
  assumes "db_inv d" and "reapExpiredLeases now {} p d = Inr (rs, d')"
  shows "countOverdueLeases now d = countOverdueLeases now d' + length rs"
    and "length rs = min (rp_limit p) (countOverdueLeases now d)"
proof -
  let ?I = "set (expired_ids now {} (rp_limit p) d)"
  let ?f = "reap_row now (rp_retryDelaySeconds p)"
  note L = reap_lands [OF assms(1), of now "{}" p] assms(2)
  have len: "length rs = length (filter (\<lambda>j. j_id j \<in> ?I) (db_jobs d))"
    and d': "d' = d\<lparr>db_jobs := upd_where (\<lambda>j. j_id j \<in> ?I) ?f (db_jobs d)\<rparr>"
    using L by auto
  show "length rs = min (rp_limit p) (countOverdueLeases now d)"
    unfolding len expired_ids_def countOverdueLeases_def
    by (rule filter_picked_length [OF db_inv_distinct [OF assms(1)]])
  have gone: "\<not> lease_expired now {} (?f j)" for j
    by (simp add: lease_expired_def reap_row_def)
  have split: "length (filter (lease_expired now {}) js) =
      length (filter (lease_expired now {}) (upd_where (\<lambda>j. j_id j \<in> ?I) ?f js))
      + length (filter (\<lambda>j. j_id j \<in> ?I) js)"
    if "\<forall>j \<in> set js. j_id j \<in> ?I \<longrightarrow> lease_expired now {} j" for js
    using that by (induction js) (auto simp: gone)
  have "\<forall>j \<in> set (db_jobs d). j_id j \<in> ?I \<longrightarrow> lease_expired now {} j"
    using expired_ids_expired [OF assms(1)] by blast
  from split [OF this] show "countOverdueLeases now d = countOverdueLeases now d' + length rs"
    unfolding len by (simp add: countOverdueLeases_def d')
qed

end
