(* ===== verification/Stmt_Enqueue.thy ===== *)
theory Stmt_Enqueue
  imports Lifecycle
begin

text \<open>
  packages/core/src/sql/enqueue.sql.ts: the insert statements, the two lookups that find the
  winner of a conflict and the per-queue defaults. A bigint parameter that is no number of a row
  and a payload that is no JSON text do not occur: the caller's types rule them out.
\<close>

record enqueue_row =
  n_queue :: string
  n_type :: string
  n_payload :: json
  n_metadata :: "json option"
  n_priority :: int
  n_maxAttempts :: int
  n_leaseSeconds :: int
  n_runAt :: "instant option"
  n_idempotencyKey :: "string option"
  n_uniqueKey :: "string option"
  n_traceContext :: "string option"
  n_scheduleId :: "ident option"

text \<open>The row an insert makes: its parameters and the defaults of the table's columns.\<close>

definition new_job :: "instant \<Rightarrow> enqueue_row \<Rightarrow> ident \<Rightarrow> job" where
  "new_job now r i = \<lparr>j_id = i, j_queue = n_queue r, j_type = n_type r, j_state = Available,
     j_payload = n_payload r, j_metadata = n_metadata r, j_priority = n_priority r,
     j_attempt = 0, j_max_attempts = n_maxAttempts r, j_lease_seconds = n_leaseSeconds r,
     j_run_at = coalesce (n_runAt r) now, j_enqueued_at = now, j_started_at = None,
     j_finished_at = None, j_lease_expires_at = None, j_cancel_requested_at = None,
     j_worker_id = None, j_idempotency_key = n_idempotencyKey r, j_unique_key = n_uniqueKey r,
     j_dead_reason = None, j_errors = [], j_trace_context = n_traceContext r,
     j_schedule_id = n_scheduleId r, j_updated_at = now\<rparr>"

definition insertJob :: "instant \<Rightarrow> enqueue_row \<Rightarrow> ident list stmt" where
  "insertJob now r d =
     (case insert_row now (new_job now r) d of
        Inl e \<Rightarrow> Inl e
      | Inr (None, d') \<Rightarrow> Inr ([], d')
      | Inr (Some j, d') \<Rightarrow> Inr ([j_id j], d'))"

record inserted_row =
  ir_id :: ident
  ir_idempotency_key :: "string option"
  ir_unique_key :: "string option"

definition inserted_returning :: "job \<Rightarrow> inserted_row" where
  "inserted_returning j = \<lparr>ir_id = j_id j, ir_idempotency_key = j_idempotency_key j,
     ir_unique_key = j_unique_key j\<rparr>"

text \<open>
  One statement over all rows: a row that conflicts with the table or with an earlier row of the
  same batch is skipped, an error of one row undoes all of them.
\<close>

fun insert_rows :: "instant \<Rightarrow> enqueue_row list \<Rightarrow> job list stmt" where
  "insert_rows now [] d = Inr ([], d)"
| "insert_rows now (r # rs) d =
     (case insert_row now (new_job now r) d of
        Inl e \<Rightarrow> Inl e
      | Inr (j, d1) \<Rightarrow>
          (case insert_rows now rs d1 of
             Inl e \<Rightarrow> Inl e
           | Inr (js, d2) \<Rightarrow> Inr ((case j of None \<Rightarrow> js | Some x \<Rightarrow> x # js), d2)))"

definition insertJobsBatch :: "instant \<Rightarrow> enqueue_row list \<Rightarrow> inserted_row list stmt" where
  "insertJobsBatch now rs = returning inserted_returning (insert_rows now rs)"

definition findByIdempotencyKey :: "string \<Rightarrow> string \<Rightarrow> db \<Rightarrow> ident list" where
  "findByIdempotencyKey q k d =
     map j_id (filter (\<lambda>j. j_queue j = q \<and> j_idempotency_key j = Some k) (db_jobs d))"

definition findByUniqueKey :: "string \<Rightarrow> string \<Rightarrow> db \<Rightarrow> ident list" where
  "findByUniqueKey q k d =
     map j_id (filter (\<lambda>j. j_queue j = q \<and> j_unique_key j = Some k
       \<and> j_state j \<in> {Available, Running}) (db_jobs d))"

record queue_defaults =
  qd_paused :: bool
  qd_max_attempts :: "int option"
  qd_lease_seconds :: "int option"
  qd_priority_aging :: bool
  qd_aging_threshold_s :: "int option"
  qd_concurrency_limit :: "int option"

text \<open>The LEFT JOIN makes one row whether or not the queue has a configuration.\<close>

definition resolveQueueDefaults :: "string \<Rightarrow> db \<Rightarrow> queue_defaults list" where
  "resolveQueueDefaults q d =
     [case row_of qc_queue q (db_config d) of
        None \<Rightarrow> \<lparr>qd_paused = False, qd_max_attempts = None, qd_lease_seconds = None,
           qd_priority_aging = False, qd_aging_threshold_s = None, qd_concurrency_limit = None\<rparr>
      | Some c \<Rightarrow> \<lparr>qd_paused = qc_paused c, qd_max_attempts = qc_max_attempts c,
           qd_lease_seconds = qc_lease_seconds c, qd_priority_aging = qc_priority_aging c,
           qd_aging_threshold_s = qc_aging_threshold_s c,
           qd_concurrency_limit = qc_concurrency_limit c\<rparr>]"

subsection \<open>The contract\<close>

lemma new_job_simps [simp]:
  "j_id (new_job now r i) = i" "j_queue (new_job now r i) = n_queue r"
  "j_state (new_job now r i) = Available" "j_attempt (new_job now r i) = 0"
  "j_max_attempts (new_job now r i) = n_maxAttempts r"
  "j_idempotency_key (new_job now r i) = n_idempotencyKey r"
  "j_unique_key (new_job now r i) = n_uniqueKey r"
  by (simp_all add: new_job_def)

lemma new_job_life:
  "job_checks (new_job now r i) \<Longrightarrow> life_step None L_enqueue (Some (life_of (new_job now r i)))"
  using life_step.Enqueue [of "n_maxAttempts r"]
  by (simp add: life_of_def new_job_def job_checks_def)

lemma insert_row_refines:
  assumes inv: "db_inv d" and ok: "insert_row now (new_job now r) d = Inr (x, d')"
  shows "\<exists>l \<in> {L_stutter, L_enqueue}. life_step (life_at d i) l (life_at d' i)"
  using ok
proof (cases rule: insert_row_cases)
  case Skipped
  then show ?thesis by (intro unchanged_jobs_refines) simp_all
next
  case (Inserted j)
  show ?thesis
  proof (cases "i = db_job_seq d")
    case True
    with inv have "job_at d i = None" by (auto simp: row_of_None_iff db_inv_def)
    with Inserted True have "life_at d i = None" "life_at d' i = Some (life_of j)"
      by (simp_all add: life_at_def row_of_append)
    with new_job_life Inserted show ?thesis by auto
  next
    case False
    with Inserted have "life_at d' i = life_at d i"
      by (auto simp: life_at_def row_of_append split: option.splits)
    then show ?thesis by (metis insertI1 life_step.Stutter)
  qed
qed

lemma insert_row_new_inv:
  "db_inv d \<Longrightarrow> insert_row now (new_job now r) d = Inr (x, d') \<Longrightarrow> db_inv d'"
  by (erule (1) insert_row_inv) simp

interpretation insert: job_stmt "insertJob now r" "{L_stutter, L_enqueue}" for now r
proof unfold_locales
  fix d d' i ids
  assume inv: "db_inv d" and "insertJob now r d = Inr (ids, d')"
  then obtain x where x: "insert_row now (new_job now r) d = Inr (x, d')"
    by (auto simp: insertJob_def split: sum.splits prod.splits option.splits)
  show "db_inv d'" by (rule insert_row_new_inv [OF inv x])
  show "\<exists>l \<in> {L_stutter, L_enqueue}. life_step (life_at d i) l (life_at d' i)"
    by (rule insert_row_refines [OF inv x])
  from x show "grows d d'" by (cases rule: insert_row_cases) (auto simp: grows_def)
qed

text \<open>A batch is its rows one after the other; each job is enqueued at most once.\<close>

lemma enqueue_steps_compose:
  assumes "\<exists>l \<in> {L_stutter, L_enqueue}. life_step x l y"
    and "\<exists>l \<in> {L_stutter, L_enqueue}. life_step y l z"
  shows "\<exists>l \<in> {L_stutter, L_enqueue}. life_step x l z"
  using assms by (auto elim: life_step.cases)

lemma insert_rows_contract:
  assumes "db_inv d" and "insert_rows now rs d = Inr (js, d')"
  shows "db_inv d' \<and> (\<exists>l \<in> {L_stutter, L_enqueue}. life_step (life_at d i) l (life_at d' i))"
  using assms
proof (induction now rs d arbitrary: js d' rule: insert_rows.induct)
  case (1 now d)
  then show ?case by (auto intro: life_step.Stutter)
next
  case (2 now r rs d)
  then obtain x d1 ks where x: "insert_row now (new_job now r) d = Inr (x, d1)"
    and ks: "insert_rows now rs d1 = Inr (ks, d')"
    by (auto split: sum.splits prod.splits)
  note inv1 = insert_row_new_inv [OF \<open>db_inv d\<close> x]
  note rest = "2.IH" [OF x refl inv1 ks]
  from enqueue_steps_compose [OF insert_row_refines [OF \<open>db_inv d\<close> x]] rest show ?case
    by blast
qed

lemma insert_rows_ids:
  assumes "insert_rows now rs d = Inr (js, d')"
  shows "db_jobs d' = db_jobs d @ js \<and> length js \<le> length rs \<and>
    sorted_wrt (<) (map j_id js) \<and> (\<forall>j \<in> set js. db_job_seq d \<le> j_id j \<and> j_state j = Available)
    \<and> db_job_seq d' = db_job_seq d + length rs"
  using assms
proof (induction now rs d arbitrary: js d' rule: insert_rows.induct)
  case (1 now d)
  then show ?case by simp
next
  case (2 now r rs d)
  from "2.prems" obtain x d1 ks where x: "insert_row now (new_job now r) d = Inr (x, d1)"
    and ks: "insert_rows now rs d1 = Inr (ks, d')"
    and js: "js = (case x of None \<Rightarrow> ks | Some j \<Rightarrow> j # ks)"
    by (auto split: sum.splits prod.splits)
  note IH = "2.IH" [OF x refl ks]
  from x show ?case
  proof (cases rule: insert_row_cases)
    case Skipped
    then have "js = ks" "db_jobs d1 = db_jobs d" "db_job_seq d1 = Suc (db_job_seq d)"
      using js by simp_all
    with IH show ?thesis by (metis Suc_leD add_Suc add_Suc_shift le_Suc_eq length_Cons)
  next
    case (Inserted j)
    then have d1: "js = j # ks" "db_jobs d1 = db_jobs d @ [j]" "db_job_seq d1 = Suc (db_job_seq d)"
      and j: "j_id j = db_job_seq d" "j_state j = Available"
      using js by simp_all
    from IH d1(3) have "\<forall>k \<in> set ks. db_job_seq d < j_id k \<and> j_state k = Available"
      by (simp add: Suc_le_eq)
    with IH d1 j show ?thesis by (simp add: less_imp_le)
  qed
qed

interpretation insert_batch: job_stmt "insertJobsBatch now rs" "{L_stutter, L_enqueue}" for now rs
proof unfold_locales
  fix d d' i r
  assume inv: "db_inv d" and "insertJobsBatch now rs d = Inr (r, d')"
  then obtain js where js: "insert_rows now rs d = Inr (js, d')"
    by (auto simp: insertJobsBatch_def returning_Inr)
  show "grows d d'" using insert_rows_ids [OF js] by (auto simp: grows_def)
  from insert_rows_contract [OF inv js]
  show "db_inv d'" and "\<exists>l \<in> {L_stutter, L_enqueue}. life_step (life_at d i) l (life_at d' i)"
    by blast+
qed

subsection \<open>What an insert does\<close>

lemma insertJob_cases:
  assumes "insertJob now r d = Inr (ids, d')"
  obtains (Skipped) "ids = []" "conflicts (db_jobs d) (new_job now r (db_job_seq d))"
      "db_jobs d' = db_jobs d"
    | (Inserted) "ids = [db_job_seq d]" "\<not> conflicts (db_jobs d) (new_job now r (db_job_seq d))"
      "db_jobs d' = db_jobs d @ [new_job now r (db_job_seq d)]"
proof -
  from assms obtain x where x: "insert_row now (new_job now r) d = Inr (x, d')"
    and ids: "ids = (case x of None \<Rightarrow> [] | Some j \<Rightarrow> [j_id j])"
    by (auto simp: insertJob_def split: sum.splits prod.splits option.splits)
  from x show thesis
    by (cases rule: insert_row_cases) (use ids that in auto)
qed

lemma new_conflict_iff:
  "conflicts js (new_job now r i) \<longleftrightarrow>
     (\<exists>k. n_idempotencyKey r = Some k \<and> (\<exists>j \<in> set js. j_queue j = n_queue r \<and> j_idempotency_key j = Some k)) \<or>
     (\<exists>k. n_uniqueKey r = Some k \<and> (\<exists>j \<in> set js. j_queue j = n_queue r \<and> j_unique_key j = Some k
        \<and> active_state (j_state j)))"
proof -
  have slots: "idem_slot (new_job now r i) = map_option (Pair (n_queue r)) (n_idempotencyKey r)"
    "active_slot (new_job now r i) = map_option (Pair (n_queue r)) (n_uniqueKey r)"
    by (simp_all add: idem_slot_def active_slot_def)
  have "Some (q, k) \<in> idem_slot ` set js \<longleftrightarrow>
      (\<exists>j \<in> set js. j_queue j = q \<and> j_idempotency_key j = Some k)" for q k
    by (auto simp: idem_slot_def image_iff eq_commute [of "Some _"])
  moreover have "Some (q, k) \<in> active_slot ` set js \<longleftrightarrow>
      (\<exists>j \<in> set js. j_queue j = q \<and> j_unique_key j = Some k \<and> active_state (j_state j))" for q k
    by (auto simp: active_slot_def image_iff eq_commute [of "Some _"] split: if_splits)
  ultimately show ?thesis
    unfolding conflicts_def slots by (cases "n_idempotencyKey r"; cases "n_uniqueKey r") simp_all
qed

text \<open>The lookups after a conflict: the index keeps the result to one id.\<close>

lemma findByIdempotencyKey_iff:
  "i \<in> set (findByIdempotencyKey q k d) \<longleftrightarrow>
   (\<exists>j \<in> set (db_jobs d). j_id j = i \<and> j_queue j = q \<and> j_idempotency_key j = Some k)"
  by (auto simp: findByIdempotencyKey_def)

lemma findByUniqueKey_iff:
  "i \<in> set (findByUniqueKey q k d) \<longleftrightarrow>
   (\<exists>j \<in> set (db_jobs d). j_id j = i \<and> j_queue j = q \<and> j_unique_key j = Some k
      \<and> active_state (j_state j))"
  by (auto simp: findByUniqueKey_def active_state_def)

lemma unique_on_filter_length:
  assumes "unique_on g xs" and "\<And>x. P x \<Longrightarrow> g x = Some k"
  shows "length (filter P xs) \<le> 1"
  using assms
proof (induction xs)
  case (Cons x xs)
  show ?case
  proof (cases "P x")
    case True
    with Cons.prems have "Some k \<notin> g ` set xs" by auto
    with Cons.prems(2) have "filter P xs = []" by (force simp: filter_empty_conv)
    with True show ?thesis by simp
  next
    case False
    with Cons show ?thesis by simp
  qed
qed simp

lemma findByIdempotencyKey_one:
  assumes "db_inv d"
  shows "length (findByIdempotencyKey q k d) \<le> 1"
  unfolding findByIdempotencyKey_def length_map
  by (rule unique_on_filter_length [of idem_slot _ _ "(q, k)"])
    (use assms in \<open>auto simp: db_inv_def index_ok_def idem_slot_def\<close>)

lemma findByUniqueKey_one:
  assumes "db_inv d"
  shows "length (findByUniqueKey q k d) \<le> 1"
  unfolding findByUniqueKey_def length_map
  by (rule unique_on_filter_length [of active_slot _ _ "(q, k)"])
    (use assms in \<open>auto simp: db_inv_def index_ok_def active_slot_def\<close>)

text \<open>After an insert the key is held, by the new row or by the earlier one.\<close>

lemma insertJob_key_held:
  assumes "insertJob now r d = Inr (ids, d')" and "n_idempotencyKey r = Some k"
    and "n_uniqueKey r = None"
  shows "findByIdempotencyKey (n_queue r) k d' \<noteq> []"
  using assms(1)
proof (cases rule: insertJob_cases)
  case Skipped
  then have "\<exists>j \<in> set (db_jobs d). j_queue j = n_queue r \<and> j_idempotency_key j = Some k"
    using assms(2,3) by (simp add: new_conflict_iff)
  then obtain j where "j \<in> set (db_jobs d')" "j_queue j = n_queue r" "j_idempotency_key j = Some k"
    using Skipped(3) by auto
  then have "j_id j \<in> set (findByIdempotencyKey (n_queue r) k d')"
    by (auto simp: findByIdempotencyKey_iff)
  then show ?thesis by auto
next
  case Inserted
  then have "db_job_seq d \<in> set (findByIdempotencyKey (n_queue r) k d')"
    using assms(2) by (auto simp: findByIdempotencyKey_iff)
  then show ?thesis by auto
qed

end
