(* ===== verification/Stmt_Query.thy ===== *)
theory Stmt_Query
  imports Lifecycle
begin

text \<open>
  packages/core/src/sql/query.sql.ts: the reads (a single job, the keyset listings, the per-queue
  aggregates) and the administrative statements. Text is ordered bytewise, as under the C
  collation. A SELECT is a function of the database.
\<close>

subsection \<open>Reads\<close>

definition getJob :: "ident \<Rightarrow> db \<Rightarrow> job list" where
  "getJob i d = filter (\<lambda>j. j_id j = i) (db_jobs d)"

text \<open>\<open>($n IS NULL OR col op $n)\<close>\<close>

definition unless_null :: "'a option \<Rightarrow> ('a \<Rightarrow> bool) \<Rightarrow> bool" where
  "unless_null x P = (case x of None \<Rightarrow> True | Some v \<Rightarrow> P v)"

lemma unless_null_simps [simp]: "unless_null None P" "unless_null (Some v) P = P v"
  by (simp_all add: unless_null_def)

definition id_desc :: "job \<Rightarrow> int" where
  "id_desc j = - int (j_id j)"

record list_params =
  lp_queue :: "string option"
  lp_state :: "job_state option"
  lp_type :: "string option"
  lp_from :: "instant option"
  lp_to :: "instant option"
  lp_beforeId :: "ident option"
  lp_limit :: nat

definition list_match :: "list_params \<Rightarrow> job \<Rightarrow> bool" where
  "list_match p j \<longleftrightarrow>
     unless_null (lp_queue p) (\<lambda>q. j_queue j = q)
     \<and> unless_null (lp_state p) (\<lambda>s. j_state j = s)
     \<and> unless_null (lp_type p) (\<lambda>t. j_type j = t)
     \<and> unless_null (lp_from p) (\<lambda>t. j_enqueued_at j \<ge> t)
     \<and> unless_null (lp_to p) (\<lambda>t. j_enqueued_at j \<le> t)
     \<and> unless_null (lp_beforeId p) (\<lambda>i. j_id j < i)"

definition listJobs :: "list_params \<Rightarrow> db \<Rightarrow> job list" where
  "listJobs p d = order_limit id_desc (lp_limit p) (filter (list_match p) (db_jobs d))"

record dead_params =
  dp_queue :: "string option"
  dp_type :: "string option"
  dp_reason :: "dead_reason option"
  dp_from :: "instant option"
  dp_to :: "instant option"
  dp_beforeId :: "ident option"
  dp_limit :: nat

text \<open>A comparison with a null \<open>finished_at\<close> is not true.\<close>

definition dead_match :: "dead_params \<Rightarrow> job \<Rightarrow> bool" where
  "dead_match p j \<longleftrightarrow>
     j_state j = Dead
     \<and> unless_null (dp_queue p) (\<lambda>q. j_queue j = q)
     \<and> unless_null (dp_type p) (\<lambda>t. j_type j = t)
     \<and> unless_null (dp_reason p) (\<lambda>r. j_dead_reason j = Some r)
     \<and> unless_null (dp_from p) (\<lambda>t. case j_finished_at j of None \<Rightarrow> False | Some f \<Rightarrow> f \<ge> t)
     \<and> unless_null (dp_to p) (\<lambda>t. case j_finished_at j of None \<Rightarrow> False | Some f \<Rightarrow> f \<le> t)
     \<and> unless_null (dp_beforeId p) (\<lambda>i. j_id j < i)"

definition listDeadJobs :: "dead_params \<Rightarrow> db \<Rightarrow> job list" where
  "listDeadJobs p d = order_limit id_desc (dp_limit p) (filter (dead_match p) (db_jobs d))"

definition queueStats :: "db \<Rightarrow> (string \<times> job_state \<times> nat) list" where
  "queueStats d = map (\<lambda>(q, s). (q, s, length (filter (\<lambda>j. j_queue j = q \<and> j_state j = s) (db_jobs d))))
     (sort (remdups (map (\<lambda>j. (j_queue j, j_state j)) (db_jobs d))))"

definition ready :: "instant \<Rightarrow> job \<Rightarrow> bool" where
  "ready now j \<longleftrightarrow> j_state j = Available \<and> j_run_at j \<le> now"

record queue_lag_row =
  ql_queue :: string
  ql_oldest_wait :: int
  ql_ready :: nat

text \<open>
  The wait in microseconds; the statement returns the seconds as a double. The order of the
  groups is not specified by the statement: here that of their first rows.
\<close>

definition queueLag :: "instant \<Rightarrow> db \<Rightarrow> queue_lag_row list" where
  "queueLag now d =
     map (\<lambda>q. let js = filter (\<lambda>j. ready now j \<and> j_queue j = q) (db_jobs d)
              in \<lparr>ql_queue = q, ql_oldest_wait = now - Min (set (map j_run_at js)),
                  ql_ready = length js\<rparr>)
       (remdups (map j_queue (filter (ready now) (db_jobs d))))"

definition getQueueConfig :: "string \<Rightarrow> db \<Rightarrow> queue_config list" where
  "getQueueConfig q d = filter (\<lambda>c. qc_queue c = q) (db_config d)"

definition listDistinctQueues :: "db \<Rightarrow> string list" where
  "listDistinctQueues d = sort (remdups (map j_queue (db_jobs d) @ map qc_queue (db_config d)))"

subsection \<open>Administrative statements\<close>

definition cancel_row :: "instant \<Rightarrow> job \<Rightarrow> job" where
  "cancel_row now j = j\<lparr>j_state := Cancelled, j_finished_at := Some now, j_updated_at := now\<rparr>"

definition cancelAvailableJob :: "instant \<Rightarrow> ident \<Rightarrow> (ident \<times> job_state) list stmt" where
  "cancelAvailableJob now i =
     returning (\<lambda>j. (j_id j, j_state j))
       (update_jobs (\<lambda>j. j_id j = i \<and> j_state j = Available) (cancel_row now))"

definition request_row :: "instant \<Rightarrow> job \<Rightarrow> job" where
  "request_row now j =
     j\<lparr>j_cancel_requested_at := Some (coalesce (j_cancel_requested_at j) now), j_updated_at := now\<rparr>"

definition requestCancelRunningJob ::
  "instant \<Rightarrow> ident \<Rightarrow> (ident \<times> job_state \<times> instant option) list stmt" where
  "requestCancelRunningJob now i =
     returning (\<lambda>j. (j_id j, j_state j, j_cancel_requested_at j))
       (update_jobs (\<lambda>j. j_id j = i \<and> j_state j = Running) (request_row now))"

definition retry_row :: "instant \<Rightarrow> job \<Rightarrow> job" where
  "retry_row now j = j\<lparr>j_run_at := now, j_updated_at := now\<rparr>"

definition retryJobNow :: "instant \<Rightarrow> ident \<Rightarrow> (ident \<times> job_state \<times> instant) list stmt" where
  "retryJobNow now i =
     returning (\<lambda>j. (j_id j, j_state j, j_run_at j))
       (update_jobs (\<lambda>j. j_id j = i \<and> j_state j = Available) (retry_row now))"

definition replay_row :: "instant \<Rightarrow> job \<Rightarrow> job" where
  "replay_row now j = j\<lparr>
     j_state := Available,
     j_attempt := 0,
     j_dead_reason := None,
     j_run_at := now,
     j_finished_at := None,
     j_started_at := None,
     j_updated_at := now\<rparr>"

definition replayDeadJob :: "instant \<Rightarrow> ident \<Rightarrow> (ident \<times> job_state \<times> int) list stmt" where
  "replayDeadJob now i =
     returning (\<lambda>j. (j_id j, j_state j, j_attempt j))
       (update_jobs (\<lambda>j. j_id j = i \<and> j_state j = Dead) (replay_row now))"

definition replayDeadJobs :: "instant \<Rightarrow> ident list \<Rightarrow> ident list stmt" where
  "replayDeadJobs now is =
     returning j_id (update_jobs (\<lambda>j. j_id j \<in> set is \<and> j_state j = Dead) (replay_row now))"

text \<open>
  The row of an upsert that finds no configuration: the column defaults of \<open>queue_config\<close>, with
  the retention intervals of 24 hours and 30 days in microseconds.
\<close>

definition default_config :: "instant \<Rightarrow> string \<Rightarrow> bool \<Rightarrow> queue_config" where
  "default_config now q p = \<lparr>qc_queue = q, qc_paused = p, qc_max_attempts = None,
     qc_lease_seconds = None, qc_priority_aging = False, qc_aging_threshold_s = None,
     qc_concurrency_limit = None, qc_retain_succeeded = 24 * 3600 * us_per_second,
     qc_retain_dead = 30 * 24 * 3600 * us_per_second, qc_updated_at = now\<rparr>"

definition setQueuePaused :: "instant \<Rightarrow> string \<Rightarrow> bool \<Rightarrow> (string \<times> bool) list stmt" where
  "setQueuePaused now q p d =
     Inr ([(q, p)],
       (if row_of qc_queue q (db_config d) = None
        then d\<lparr>db_config := db_config d @ [default_config now q p]\<rparr>
        else d\<lparr>db_config := upd_where (\<lambda>c. qc_queue c = q)
                 (\<lambda>c. c\<lparr>qc_paused := p, qc_updated_at := now\<rparr>) (db_config d)\<rparr>))"

definition purge_victims :: "ident set \<Rightarrow> string \<Rightarrow> job_state list \<Rightarrow> nat \<Rightarrow> db \<Rightarrow> ident list" where
  "purge_victims locked q states n d =
     pick j_id n (\<lambda>j. j_queue j = q \<and> j_state j \<in> set states \<and> j_id j \<notin> locked) (db_jobs d)"

definition purgeQueue :: "ident set \<Rightarrow> string \<Rightarrow> job_state list \<Rightarrow> nat \<Rightarrow> ident list stmt" where
  "purgeQueue locked q states n d =
     returning j_id (delete_jobs (\<lambda>j. j_id j \<in> set (purge_victims locked q states n d))) d"

definition insertAuditLog ::
  "instant \<Rightarrow> string \<Rightarrow> string \<Rightarrow> string option \<Rightarrow> json option \<Rightarrow> unit stmt" where
  "insertAuditLog now actor action target detail d =
     Inr ((), d\<lparr>db_audit := db_audit d @
       [\<lparr>a_actor = actor, a_action = action, a_target = target, a_detail = detail,
         a_created_at = now\<rparr>]\<rparr>)"

lemmas admin_row_defs [row_defs] = cancel_row_def request_row_def retry_row_def replay_row_def

subsection \<open>The contract\<close>

lemma admin_rows_keep [simp]:
  "keeps_identity (cancel_row now)" "keeps_identity (request_row now)"
  "keeps_identity (retry_row now)" "keeps_identity (replay_row now)"
  by (simp_all add: keeps_identity_def row_defs)

lemma cancel_row_life:
  "j_state j = Available \<Longrightarrow>
   life_step (Some (life_of j)) L_cancel (Some (life_of (cancel_row now j)))"
  using life_step.Cancel [of "life_of j"] by (simp add: life_of_def row_defs)

lemma request_row_life:
  "j_state j = Running \<Longrightarrow>
   life_step (Some (life_of j)) L_request_cancel (Some (life_of (request_row now j)))"
  using life_step.Request_cancel [of "life_of j"] by (simp add: life_of_def row_defs)

lemma retry_row_life:
  "j_state j = Available \<Longrightarrow>
   life_step (Some (life_of j)) L_operator_retry (Some (life_of (retry_row now j)))"
  using life_step.Operator_retry [of "life_of j"] by (simp add: life_of_def row_defs)

lemma replay_row_life:
  "j_state j = Dead \<Longrightarrow>
   life_step (Some (life_of j)) L_replay (Some (life_of (replay_row now j)))"
  using life_step.Replay [of "life_of j"] by (simp add: life_of_def row_defs)

interpretation cancel: job_stmt "cancelAvailableJob now i" "{L_stutter, L_cancel}" for now i
  unfolding cancelAvailableJob_def by (rule update_stmt) (auto intro: cancel_row_life)

interpretation request_cancel:
  job_stmt "requestCancelRunningJob now i" "{L_stutter, L_request_cancel}" for now i
  unfolding requestCancelRunningJob_def by (rule update_stmt) (auto intro: request_row_life)

interpretation retry_now: job_stmt "retryJobNow now i" "{L_stutter, L_operator_retry}" for now i
  unfolding retryJobNow_def by (rule update_stmt) (auto intro: retry_row_life)

interpretation replay: job_stmt "replayDeadJob now i" "{L_stutter, L_replay}" for now i
  unfolding replayDeadJob_def by (rule update_stmt) (auto intro: replay_row_life)

interpretation replay_many: job_stmt "replayDeadJobs now is" "{L_stutter, L_replay}" for now "is"
  unfolding replayDeadJobs_def by (rule update_stmt) (auto intro: replay_row_life)

lemma default_config_checks: "config_checks (default_config now q p)"
  by (simp add: config_checks_def default_config_def)

lemma setQueuePaused_inv:
  assumes inv: "db_inv d" and ok: "setQueuePaused now q p d = Inr (r, d')"
  shows "db_inv d'"
proof (cases "row_of qc_queue q (db_config d) = None")
  case True
  with ok have d': "d' = d\<lparr>db_config := db_config d @ [default_config now q p]\<rparr>"
    by (simp add: setQueuePaused_def)
  have "qc_queue (default_config now q p) = q" by (simp add: default_config_def)
  with True inv show ?thesis
    by (simp add: d' db_inv_def archive_ids_def default_config_checks row_of_None_iff)
next
  case False
  let ?f = "\<lambda>c. c\<lparr>qc_paused := p, qc_updated_at := now\<rparr>"
  from False ok have d': "d' = d\<lparr>db_config := upd_where (\<lambda>c. qc_queue c = q) ?f (db_config d)\<rparr>"
    by (auto simp: setQueuePaused_def)
  have "map qc_queue (db_config d') = map qc_queue (db_config d)"
    by (simp add: d' map_upd_where)
  moreover have "\<forall>c \<in> set (db_config d'). config_checks c"
    using inv by (auto simp: d' set_upd_where db_inv_def config_checks_def)
  ultimately show ?thesis using inv by (simp add: db_inv_def d' archive_ids_def)
qed

interpretation pause: job_stmt "setQueuePaused now q p" "{L_stutter}" for now q p
proof unfold_locales
  fix d d' i r
  assume inv: "db_inv d" and ok: "setQueuePaused now q p d = Inr (r, d')"
  show "db_inv d'" by (rule setQueuePaused_inv [OF inv ok])
  show "\<exists>l \<in> {L_stutter}. life_step (life_at d i) l (life_at d' i)"
    using ok by (intro unchanged_jobs_refines) (auto simp: setQueuePaused_def split: if_splits)
  show "grows d d'"
    using ok by (intro grows_same_ids) (auto simp: setQueuePaused_def split: if_splits)
qed

interpretation purge: job_stmt "purgeQueue locked q states n" "{L_stutter, L_delete}"
  for locked q states n
proof unfold_locales
  fix d d' i r
  assume inv: "db_inv d" and "purgeQueue locked q states n d = Inr (r, d')"
  then obtain ss where u: "delete_jobs (\<lambda>j. j_id j \<in> set (purge_victims locked q states n d)) d
      = Inr (ss, d')"
    by (auto simp: purgeQueue_def returning_Inr)
  show "db_inv d'" by (rule delete_jobs_inv [OF inv u])
  show "grows d d'" by (rule grows_delete [OF u])
  show "\<exists>l \<in> {L_stutter, L_delete}. life_step (life_at d i) l (life_at d' i)"
    by (rule delete_jobs_refines [OF inv u]) simp_all
qed

subsection \<open>Single-row statements\<close>

text \<open>
  A statement that addresses one row by id and guards on its state: what it returns and leaves
  behind, by the row it finds.
\<close>

lemma update_one:
  assumes inv: "db_inv d" and keep: "keeps_identity f"
    and checks: "\<And>j. P j \<Longrightarrow> job_checks j \<Longrightarrow> job_checks (f j)"
    and slot: "\<And>j. P j \<Longrightarrow> active_slot (f j) = active_slot j \<or> active_slot (f j) = None"
  shows "\<exists>d'. update_jobs (\<lambda>j. j_id j = i \<and> P j) f d =
      Inr ((case job_at d i of None \<Rightarrow> [] | Some j \<Rightarrow> if P j then [f j] else []), d')
    \<and> (\<forall>k. job_at d' k = (if k = i then map_option (\<lambda>j. if P j then f j else j) (job_at d i)
                          else job_at d k))"
proof -
  let ?P = "\<lambda>j. j_id j = i \<and> P j"
  have "\<forall>j \<in> set (db_jobs d). ?P j \<longrightarrow> job_checks (f j)"
    using inv checks by (simp add: db_inv_def)
  moreover have "index_ok (upd_where ?P f (db_jobs d))"
    by (rule index_ok_upd_where)
      (use inv slot keeps_identityD(8) [OF keep] in \<open>auto simp: db_inv_def\<close>)
  ultimately have u: "update_jobs ?P f d =
      Inr (map f (filter ?P (db_jobs d)), d\<lparr>db_jobs := upd_where ?P f (db_jobs d)\<rparr>)"
    by (rule update_jobs_Inr)
  note hit = filter_key_guard [OF db_inv_distinct [OF inv], of i P]
  have "job_at (d\<lparr>db_jobs := upd_where ?P f (db_jobs d)\<rparr>) k =
      (if k = i then map_option (\<lambda>j. if P j then f j else j) (job_at d i) else job_at d k)" for k
    by (cases "job_at d k") (auto simp: update_jobs_job_at [OF u keep, simplified]
        dest: row_of_SomeD)
  then show ?thesis
    unfolding u hit by (auto split: option.splits)
qed

lemma admin_row_checks:
  assumes "job_checks j"
  shows "job_checks (cancel_row now j)" "j_state j = Running \<Longrightarrow> job_checks (request_row now j)"
    "job_checks (retry_row now j)" "job_checks (replay_row now j)"
  using assms by (auto simp: job_checks_def row_defs)

lemma admin_active_slot:
  "active_slot (cancel_row now j) = None" "active_slot (request_row now j) = active_slot j"
  "active_slot (retry_row now j) = active_slot j"
  by (simp_all add: active_slot_def row_defs)

lemma cancelAvailableJob_lands:
  assumes "db_inv d"
  shows "\<exists>d'. cancelAvailableJob now i d =
      Inr ((case job_at d i of None \<Rightarrow> []
            | Some j \<Rightarrow> if j_state j = Available then [(j_id j, Cancelled)] else []), d')
    \<and> (\<forall>k. job_at d' k = (if k = i then
          map_option (\<lambda>j. if j_state j = Available then cancel_row now j else j) (job_at d i)
          else job_at d k))"
proof -
  from update_one [OF assms, of "cancel_row now" "\<lambda>j. j_state j = Available" i]
  obtain d' where "update_jobs (\<lambda>j. j_id j = i \<and> j_state j = Available) (cancel_row now) d =
      Inr ((case job_at d i of None \<Rightarrow> []
            | Some j \<Rightarrow> if j_state j = Available then [cancel_row now j] else []), d')"
    and "\<forall>k. job_at d' k = (if k = i then
          map_option (\<lambda>j. if j_state j = Available then cancel_row now j else j) (job_at d i)
          else job_at d k)"
    by (auto simp: admin_row_checks admin_active_slot)
  then show ?thesis
    by (auto simp: cancelAvailableJob_def returning_def row_defs split: option.splits)
qed

lemma requestCancelRunningJob_lands:
  assumes "db_inv d"
  shows "\<exists>d'. requestCancelRunningJob now i d =
      Inr ((case job_at d i of None \<Rightarrow> []
            | Some j \<Rightarrow> if j_state j = Running
                then [(j_id j, Running, Some (coalesce (j_cancel_requested_at j) now))] else []), d')
    \<and> (\<forall>k. job_at d' k = (if k = i then
          map_option (\<lambda>j. if j_state j = Running then request_row now j else j) (job_at d i)
          else job_at d k))"
proof -
  from update_one [OF assms, of "request_row now" "\<lambda>j. j_state j = Running" i]
  obtain d' where "update_jobs (\<lambda>j. j_id j = i \<and> j_state j = Running) (request_row now) d =
      Inr ((case job_at d i of None \<Rightarrow> []
            | Some j \<Rightarrow> if j_state j = Running then [request_row now j] else []), d')"
    and "\<forall>k. job_at d' k = (if k = i then
          map_option (\<lambda>j. if j_state j = Running then request_row now j else j) (job_at d i)
          else job_at d k)"
    by (auto simp: admin_row_checks admin_active_slot)
  then show ?thesis
    by (auto simp: requestCancelRunningJob_def returning_def row_defs split: option.splits)
qed

lemma retryJobNow_lands:
  assumes "db_inv d"
  shows "\<exists>d'. retryJobNow now i d =
      Inr ((case job_at d i of None \<Rightarrow> []
            | Some j \<Rightarrow> if j_state j = Available then [(j_id j, Available, now)] else []), d')
    \<and> (\<forall>k. job_at d' k = (if k = i then
          map_option (\<lambda>j. if j_state j = Available then retry_row now j else j) (job_at d i)
          else job_at d k))"
proof -
  from update_one [OF assms, of "retry_row now" "\<lambda>j. j_state j = Available" i]
  obtain d' where "update_jobs (\<lambda>j. j_id j = i \<and> j_state j = Available) (retry_row now) d =
      Inr ((case job_at d i of None \<Rightarrow> []
            | Some j \<Rightarrow> if j_state j = Available then [retry_row now j] else []), d')"
    and "\<forall>k. job_at d' k = (if k = i then
          map_option (\<lambda>j. if j_state j = Available then retry_row now j else j) (job_at d i)
          else job_at d k)"
    by (auto simp: admin_row_checks admin_active_slot)
  then show ?thesis
    by (auto simp: retryJobNow_def returning_def row_defs split: option.splits)
qed

subsection \<open>Keyset pages\<close>

lemma sort_id_desc:
  assumes "distinct (map j_id js)"
  shows "sorted_wrt (\<lambda>a b. j_id b < j_id a) (sort_key id_desc js)"
proof -
  have "distinct (map id_desc js)"
    using assms by (induction js) (auto simp: id_desc_def)
  then have "distinct (map id_desc (sort_key id_desc js))"
    by (metis distinct_map distinct_sort set_sort)
  moreover have "sorted (map id_desc (sort_key id_desc js))" by simp
  ultimately have "sorted_wrt (<) (map id_desc (sort_key id_desc js))"
    by (simp add: strict_sorted_iff)
  then show ?thesis by (simp add: sorted_wrt_map id_desc_def)
qed

lemma filter_less_sorted:
  assumes "sorted_wrt (\<lambda>a b. j_id b < j_id a) (xs @ x # ys)"
  shows "filter (\<lambda>j. j_id j < j_id x) (xs @ x # ys) = ys"
proof -
  from assms have "\<forall>a \<in> set xs. j_id x < j_id a" and "\<forall>b \<in> set ys. j_id b < j_id x"
    by (auto simp: sorted_wrt_append)
  then have "filter (\<lambda>j. j_id j < j_id x) xs = []" and "filter (\<lambda>j. j_id j < j_id x) ys = ys"
    by (auto simp: filter_empty_conv intro: filter_True)
  then show ?thesis by simp
qed

text \<open>
  The rows after a full page: those that match and come before the last id of the page.
\<close>

lemma keyset_rest:
  assumes dist: "distinct (map j_id js)" and n: "0 < n" "n \<le> length (filter P js)"
  defines "S \<equiv> sort_key id_desc (filter P js)"
  shows "sort_key id_desc (filter (\<lambda>j. P j \<and> j_id j < j_id (last (take n S))) js) = drop n S"
proof -
  have len: "length S = length (filter P js)" by (simp add: S_def)
  let ?x = "last (take n S)"
  have "take n S \<noteq> []" using n len by auto
  then have "take n S = butlast (take n S) @ [?x]" by simp
  then have "S = butlast (take n S) @ ?x # drop n S"
    by (metis append.assoc append_Cons append_Nil append_take_drop_id)
  moreover have "sorted_wrt (\<lambda>a b. j_id b < j_id a) S"
    unfolding S_def by (rule sort_id_desc) (simp add: dist distinct_map_filter)
  ultimately have "filter (\<lambda>j. j_id j < j_id ?x) S = drop n S"
    by (metis filter_less_sorted)
  then show ?thesis
    unfolding S_def filter_sort filter_filter by (simp add: conj_commute)
qed

text \<open>Adding a cursor keeps the other filters: the next page asks for older rows only.\<close>

lemma list_match_before:
  assumes "lp_beforeId p = None \<or> (\<exists>b. lp_beforeId p = Some b \<and> i \<le> b)"
  shows "list_match (p\<lparr>lp_beforeId := Some i\<rparr>) j \<longleftrightarrow> list_match p j \<and> j_id j < i"
  using assms by (auto simp: list_match_def)

text \<open>
  The traversal a client makes: a page, then the page before its last id, until a page comes back
  short.
\<close>

fun all_pages :: "nat \<Rightarrow> list_params \<Rightarrow> db \<Rightarrow> job list" where
  "all_pages 0 p d = []"
| "all_pages (Suc f) p d =
     (let js = listJobs p d
      in if length js < lp_limit p then js
         else js @ all_pages f (p\<lparr>lp_beforeId := Some (j_id (last js))\<rparr>) d)"

text \<open>What a full page leaves is what matches before its last id.\<close>

lemma listJobs_rest:
  assumes inv: "db_inv d" and lim: "0 < lp_limit p"
    and n: "lp_limit p \<le> length (filter (list_match p) (db_jobs d))"
  shows "sort_key id_desc (filter (list_match (p\<lparr>lp_beforeId := Some (j_id (last (listJobs p d)))\<rparr>)) (db_jobs d))
    = drop (lp_limit p) (sort_key id_desc (filter (list_match p) (db_jobs d)))"
proof -
  let ?js = "db_jobs d" and ?n = "lp_limit p"
  let ?S = "sort_key id_desc (filter (list_match p) ?js)"
  have page: "listJobs p d = take ?n ?S" by (simp add: listJobs_def order_limit_def)
  let ?i = "j_id (last (take ?n ?S))"
  have "length (take ?n ?S) \<noteq> 0" using n lim by simp
  then have "take ?n ?S \<noteq> []" by (simp only: length_0_conv not_False_eq_True)
  then have "last (take ?n ?S) \<in> set ?S" by (metis in_set_takeD last_in_set)
  then have "list_match p (last (take ?n ?S))" by simp
  then have "lp_beforeId p = None \<or> (\<exists>b. lp_beforeId p = Some b \<and> ?i \<le> b)"
    by (cases "lp_beforeId p") (simp_all add: list_match_def less_imp_le)
  from list_match_before [OF this] show ?thesis
    by (simp only: page keyset_rest [OF db_inv_distinct [OF inv] lim n] cong: filter_cong)
qed

lemma all_pages_complete:
  assumes inv: "db_inv d" and lim: "0 < lp_limit p"
    and fuel: "length (filter (list_match p) (db_jobs d)) < f * lp_limit p"
  shows "all_pages f p d = sort_key id_desc (filter (list_match p) (db_jobs d))"
  using lim fuel
proof (induction f arbitrary: p)
  case 0
  then show ?case by simp
next
  case (Suc f)
  let ?js = "db_jobs d" and ?n = "lp_limit p"
  let ?S = "sort_key id_desc (filter (list_match p) ?js)"
  have page: "listJobs p d = take ?n ?S" by (simp add: listJobs_def order_limit_def)
  show ?case
  proof (cases "length (filter (list_match p) ?js) < ?n")
    case True
    then show ?thesis by (simp add: page Let_def)
  next
    case False
    then have n: "?n \<le> length (filter (list_match p) ?js)" by simp
    let ?q = "p\<lparr>lp_beforeId := Some (j_id (last (listJobs p d)))\<rparr>"
    note rest = listJobs_rest [OF inv Suc.prems(1) n]
    then have "length (filter (list_match ?q) ?js) = length ?S - ?n"
      by (metis length_drop length_sort)
    with Suc.prems(2) n have "length (filter (list_match ?q) ?js) < f * ?n"
      by (simp add: less_diff_conv2)
    with Suc.IH [of ?q] Suc.prems(1) have "all_pages f ?q d = drop ?n ?S"
      by (simp add: rest)
    with n show ?thesis by (simp add: page Let_def)
  qed
qed

subsection \<open>Aggregates\<close>

lemma queueStats_total:
  "sum_list (map (snd \<circ> snd) (queueStats d)) = length (db_jobs d)"
proof -
  let ?g = "\<lambda>j. (j_queue j, j_state j)"
  have cnt: "length (filter (\<lambda>j. j_queue j = fst k \<and> j_state j = snd k) js)
      = count_list (map ?g js) k" for js and k :: "string \<times> job_state"
    by (induction js) auto
  have "sum_list (map (snd \<circ> snd) (queueStats d)) =
      sum_list (map (count_list (map ?g (db_jobs d))) (sort (remdups (map ?g (db_jobs d)))))"
    by (simp add: queueStats_def comp_def case_prod_beta cnt)
  also have "\<dots> = (\<Sum>k \<in> set (map ?g (db_jobs d)). count_list (map ?g (db_jobs d)) k)"
    by (subst sum_list_distinct_conv_sum_set) simp_all
  also have "\<dots> = length (map ?g (db_jobs d))" by (rule sum_count_set) simp_all
  finally show ?thesis by simp
qed

lemma queueStats_positive: "(q, s, n) \<in> set (queueStats d) \<Longrightarrow> 0 < n"
  by (auto simp: queueStats_def filter_empty_conv)

subsection \<open>Purging\<close>

lemma purge_bounded:
  assumes "db_inv d"
  shows "purgeQueue locked q states n d = Inr
    (map j_id (filter (\<lambda>j. j_id j \<in> set (purge_victims locked q states n d)) (db_jobs d)),
     d\<lparr>db_jobs := filter (\<lambda>j. j_id j \<notin> set (purge_victims locked q states n d)) (db_jobs d)\<rparr>)"
  by (simp add: purgeQueue_def delete_jobs_def returning_def)

lemma purge_victim_match:
  assumes "db_inv d" and "j \<in> set (db_jobs d)" and "j_id j \<in> set (purge_victims locked q states n d)"
  shows "j_queue j = q \<and> j_state j \<in> set states \<and> j_id j \<notin> locked"
  by (rule pick_sound [OF db_inv_distinct [OF assms(1)] assms(2)
        assms(3) [unfolded purge_victims_def]])

end
