(* ===== verification/Dates.thy ===== *)
theory Dates
  imports Prelude
begin

text \<open>
  The part of the JavaScript Date library the program relies on: \<open>toISOString\<close>, the UTC year and
  month of an instant and \<open>Date.UTC(year, month, 1)\<close>. Milliseconds since the epoch are natural
  numbers here: every date the program formats is a planned occurrence or the current time, and
  the year has four digits until 9999, where the format changes.
\<close>

subsection \<open>Padded decimals\<close>

text \<open>\<open>String(n).padStart(w, '0')\<close> for a number of at most \<open>w\<close> digits.\<close>

fun pad_dec :: "nat \<Rightarrow> nat \<Rightarrow> string" where
  "pad_dec 0 n = []"
| "pad_dec (Suc w) n = pad_dec w (n div 10) @ [digit_char (n mod 10)]"

lemma length_pad_dec [simp]: "length (pad_dec w n) = w"
  by (induction w arbitrary: n) simp_all

lemma pad_dec_digits: "c \<in> set (pad_dec w n) \<Longrightarrow> is_digit c"
  by (induction w arbitrary: n) (auto simp: digit_char_is_digit)

lemma pad_dec_inj: "m < 10 ^ w \<Longrightarrow> n < 10 ^ w \<Longrightarrow> pad_dec w m = pad_dec w n \<Longrightarrow> m = n"
proof (induction w arbitrary: m n)
  case (Suc w)
  from Suc.prems have "m div 10 < 10 ^ w" "n div 10 < 10 ^ w"
    by (simp_all add: less_mult_imp_div_less mult.commute)
  with Suc.IH [of "m div 10" "n div 10"] Suc.prems(3) have "m div 10 = n div 10" by simp
  moreover from Suc.prems(3) have "m mod 10 = n mod 10"
    using digit_char_inj [of "m mod 10" "n mod 10"] by simp
  ultimately show ?case by (metis div_mult_mod_eq)
qed simp

subsection \<open>The calendar\<close>

definition leap :: "nat \<Rightarrow> bool" where
  "leap y \<longleftrightarrow> 4 dvd y \<and> (\<not> 100 dvd y \<or> 400 dvd y)"

definition year_days :: "nat \<Rightarrow> nat" where
  "year_days y = (if leap y then 366 else 365)"

definition month_days :: "nat \<Rightarrow> nat list" where
  "month_days y = [31, if leap y then 29 else 28, 31, 30, 31, 30, 31, 31, 30, 31, 30, 31]"

text \<open>The year and the day in it of the n-th day from January 1 of year \<open>y\<close>.\<close>

function split_year :: "nat \<Rightarrow> nat \<Rightarrow> nat \<times> nat" where
  "split_year y n = (if n < year_days y then (y, n) else split_year (Suc y) (n - year_days y))"
  by auto
termination by (relation "measure snd") (auto simp: year_days_def split: if_splits)

declare split_year.simps [simp del]

fun split_month :: "nat list \<Rightarrow> nat \<Rightarrow> nat \<times> nat" where
  "split_month [] n = (0, n)"
| "split_month (m # ms) n =
     (if n < m then (0, n) else (let (k, r) = split_month ms (n - m) in (Suc k, r)))"

lemma split_year_inj: "split_year y m = split_year y n \<Longrightarrow> m = n"
proof -
  have le: "y \<le> fst (split_year y n)" for y n
    by (induction y n rule: split_year.induct)
      (subst split_year.simps, auto intro: Suc_leD simp del: split_year.simps)
  show "split_year y m = split_year y n \<Longrightarrow> m = n"
  proof (induction y m arbitrary: n rule: split_year.induct)
    case (1 y m)
    show ?case
    proof (cases "m < year_days y")
      case m: True
      then have sm: "split_year y m = (y, m)" by (subst split_year.simps) simp
      show ?thesis
      proof (cases "n < year_days y")
        case True
        then have "split_year y n = (y, n)" by (subst split_year.simps) simp
        with sm "1.prems" show ?thesis by simp
      next
        case False
        then have "split_year y n = split_year (Suc y) (n - year_days y)"
          by (subst split_year.simps) simp
        with sm "1.prems" le [of "Suc y" "n - year_days y"] show ?thesis
          by (metis Suc_n_not_le_n fst_conv)
      qed
    next
      case m: False
      then have sm: "split_year y m = split_year (Suc y) (m - year_days y)"
        by (subst split_year.simps) simp
      show ?thesis
      proof (cases "n < year_days y")
        case True
        then have "split_year y n = (y, n)" by (subst split_year.simps) simp
        with sm "1.prems" le [of "Suc y" "m - year_days y"] show ?thesis
          by (metis Suc_n_not_le_n fst_conv)
      next
        case False
        then have "split_year y n = split_year (Suc y) (n - year_days y)"
          by (subst split_year.simps) simp
        with sm "1.prems" have "m - year_days y = n - year_days y" using "1.IH" [OF m] by metis
        with m False show ?thesis by simp
      qed
    qed
  qed
qed

lemma split_month_inj: "split_month ms m = split_month ms n \<Longrightarrow> m = n"
proof (induction ms arbitrary: m n)
  case (Cons a ms)
  show ?case
  proof (cases "m < a \<or> n < a")
    case True
    with Cons.prems show ?thesis by (auto split: if_splits prod.splits)
  next
    case False
    with Cons.prems have "split_month ms (m - a) = split_month ms (n - a)"
      by (auto split: prod.splits intro: prod_eqI)
    with Cons.IH have "m - a = n - a" by blast
    with False show ?thesis by linarith
  qed
qed simp

lemma split_month_bounds:
  "n < sum_list ms \<Longrightarrow> \<forall>m \<in> set ms. m \<le> 31 \<Longrightarrow>
   fst (split_month ms n) < length ms \<and> snd (split_month ms n) < 31"
proof (induction ms arbitrary: n)
  case (Cons a ms)
  show ?case
  proof (cases "n < a")
    case True
    with Cons.prems show ?thesis by auto
  next
    case False
    with Cons.IH [of "n - a"] Cons.prems show ?thesis by (auto split: prod.splits)
  qed
qed simp

lemma split_year_rest: "snd (split_year y n) < year_days (fst (split_year y n))"
  by (induction y n rule: split_year.induct) (subst (1 2) split_year.simps, simp)

lemma month_days_sum: "sum_list (month_days y) = year_days y"
  by (simp add: month_days_def year_days_def)

record utc_date =
  u_year :: nat
  u_month :: nat
  u_day :: nat
  u_ms :: nat

definition ms_per_day :: nat where
  "ms_per_day = 86400000"

text \<open>\<open>u_month\<close> counts from 0 as \<open>getUTCMonth\<close> does, \<open>u_day\<close> from 1.\<close>

definition utc_of :: "nat \<Rightarrow> utc_date" where
  "utc_of t =
     (let (y, yd) = split_year 1970 (t div ms_per_day);
          (m, md) = split_month (month_days y) yd
      in \<lparr>u_year = y, u_month = m, u_day = Suc md, u_ms = t mod ms_per_day\<rparr>)"

lemma utc_of_inj: "utc_of s = utc_of t \<Longrightarrow> s = t"
proof -
  assume eq: "utc_of s = utc_of t"
  obtain y yd where s: "split_year 1970 (s div ms_per_day) = (y, yd)" by fastforce
  obtain z zd where t: "split_year 1970 (t div ms_per_day) = (z, zd)" by fastforce
  from eq s t have "y = z" and m: "split_month (month_days y) yd = split_month (month_days y) zd"
    and ms: "s mod ms_per_day = t mod ms_per_day"
    by (auto simp: utc_of_def Let_def split: prod.splits)
  from split_month_inj [OF m] \<open>y = z\<close> s t have "s div ms_per_day = t div ms_per_day"
    by (metis split_year_inj)
  with ms show "s = t" by (metis div_mult_mod_eq)
qed

lemma utc_of_bounds:
  "u_month (utc_of t) < 12" "1 \<le> u_day (utc_of t)" "u_day (utc_of t) \<le> 31"
  "u_ms (utc_of t) < ms_per_day"
proof -
  obtain y yd where y: "split_year 1970 (t div ms_per_day) = (y, yd)" by fastforce
  with split_year_rest [of 1970 "t div ms_per_day"] have "yd < sum_list (month_days y)"
    by (simp add: month_days_sum)
  moreover have "\<forall>m \<in> set (month_days y). m \<le> 31" by (simp add: month_days_def)
  ultimately have "fst (split_month (month_days y) yd) < 12 \<and> snd (split_month (month_days y) yd) < 31"
    using split_month_bounds [of yd "month_days y"] by (simp add: month_days_def)
  with y show "u_month (utc_of t) < 12" "1 \<le> u_day (utc_of t)" "u_day (utc_of t) \<le> 31"
    by (auto simp: utc_of_def split: prod.splits)
  show "u_ms (utc_of t) < ms_per_day"
    by (simp add: utc_of_def ms_per_day_def split: prod.splits)
qed

subsection \<open>Formatting\<close>

definition isoDate_of :: "utc_date \<Rightarrow> string" where
  "isoDate_of u =
     (if u_year u < 10000 then pad_dec 4 (u_year u) else ''+'' @ pad_dec 6 (u_year u))
     @ ''-'' @ pad_dec 2 (Suc (u_month u)) @ ''-'' @ pad_dec 2 (u_day u)"

definition clock_text :: "nat \<Rightarrow> string" where
  "clock_text ms = ''T'' @ pad_dec 2 (ms div 3600000) @ '':'' @ pad_dec 2 (ms div 60000 mod 60)
     @ '':'' @ pad_dec 2 (ms div 1000 mod 60) @ ''.'' @ pad_dec 3 (ms mod 1000) @ ''Z''"

definition toISOString :: "nat \<Rightarrow> string" where
  "toISOString t = isoDate_of (utc_of t) @ clock_text (u_ms (utc_of t))"

lemma isoDate_of_inj:
  assumes "isoDate_of u @ xs = isoDate_of v @ ys" and "u_year u < 10000" and "u_year v < 10000"
    and "u_month u < 12" and "u_month v < 12" and "u_day u \<le> 31" and "u_day v \<le> 31"
  shows "u_year u = u_year v \<and> u_month u = u_month v \<and> u_day u = u_day v \<and> xs = ys"
proof -
  from assms(1-3) have "pad_dec 4 (u_year u) = pad_dec 4 (u_year v)"
    and "pad_dec 2 (Suc (u_month u)) = pad_dec 2 (Suc (u_month v))"
    and "pad_dec 2 (u_day u) = pad_dec 2 (u_day v)" and "xs = ys"
    by (simp_all add: isoDate_of_def)
  with pad_dec_inj [of "u_year u" 4 "u_year v"]
    pad_dec_inj [of "Suc (u_month u)" 2 "Suc (u_month v)"] pad_dec_inj [of "u_day u" 2 "u_day v"]
    assms(2-) show ?thesis by simp
qed

lemma clock_parts:
  "a = 3600000 * (a div 3600000) + 60000 * (a div 60000 mod 60) + 1000 * (a div 1000 mod 60)
     + a mod 1000" for a :: nat
proof -
  have glue: "a = 3600000 * s + 60000 * z + 1000 * y + x"
    if "1000 * q + x = a" "60 * r + y = q" "60 * s + z = r" for q r s x y z
    using that by simp
  have d: "a div 60000 = a div 1000 div 60" "a div 3600000 = a div 1000 div 60 div 60"
    by (simp_all add: div_mult2_eq [symmetric])
  show ?thesis unfolding d by (rule glue) (rule mult_div_mod_eq)+
qed

lemma clock_text_inj:
  assumes "clock_text a = clock_text b" and "a < ms_per_day" and "b < ms_per_day"
  shows "a = b"
proof -
  from assms(1) have parts: "pad_dec 2 (a div 3600000) = pad_dec 2 (b div 3600000)"
    "pad_dec 2 (a div 60000 mod 60) = pad_dec 2 (b div 60000 mod 60)"
    "pad_dec 2 (a div 1000 mod 60) = pad_dec 2 (b div 1000 mod 60)"
    "pad_dec 3 (a mod 1000) = pad_dec 3 (b mod 1000)"
    by (simp_all add: clock_text_def)
  have m60: "n mod 60 < 10\<^sup>2" for n :: nat
    by (rule less_trans [OF mod_less_divisor]) simp_all
  have "a div 3600000 = b div 3600000"
    by (rule pad_dec_inj [OF _ _ parts(1)]) (use assms(2,3) in \<open>simp_all add: ms_per_day_def\<close>)
  moreover have "a div 60000 mod 60 = b div 60000 mod 60"
    by (rule pad_dec_inj [OF m60 m60 parts(2)])
  moreover have "a div 1000 mod 60 = b div 1000 mod 60"
    by (rule pad_dec_inj [OF m60 m60 parts(3)])
  moreover have "a mod 1000 = b mod 1000"
    by (rule pad_dec_inj [OF _ _ parts(4)]) simp_all
  ultimately show "a = b" using clock_parts [of a] clock_parts [of b] by metis
qed

text \<open>Two instants with the same ISO text are the same millisecond.\<close>

lemma toISOString_inj:
  assumes "toISOString s = toISOString t"
    and "u_year (utc_of s) < 10000" and "u_year (utc_of t) < 10000"
  shows "s = t"
proof -
  note D = isoDate_of_inj [OF assms(1) [unfolded toISOString_def] assms(2,3)
      utc_of_bounds(1,1,3,3)]
  then have "u_ms (utc_of s) = u_ms (utc_of t)"
    by (auto intro: clock_text_inj utc_of_bounds)
  with D have "utc_of s = utc_of t" by (simp add: utc_date.equality)
  then show ?thesis by (rule utc_of_inj)
qed

end
