(* ===== verification/Stmt_Schedule.thy ===== *)
theory Stmt_Schedule
  imports Lifecycle Dates
begin

text \<open>
  packages/core/src/sql/schedule.sql.ts: the schedule table's statements and the deterministic
  occurrence key. The planned time of an occurrence is a JavaScript Date, so the key is computed
  from whole milliseconds.
\<close>

definition schedule_due :: "instant \<Rightarrow> ident set \<Rightarrow> schedule \<Rightarrow> bool" where
  "schedule_due now locked s \<longleftrightarrow> s_enabled s \<and> s_next_run_at s \<le> now \<and> s_id s \<notin> locked"

definition due_ids :: "instant \<Rightarrow> ident set \<Rightarrow> nat \<Rightarrow> db \<Rightarrow> ident list" where
  "due_ids now locked n d =
     map s_id (order_limit s_next_run_at n (filter (schedule_due now locked) (db_schedules d)))"

record due_row =
  d_id :: ident
  d_name :: string
  d_queue :: string
  d_type :: string
  d_payload :: json
  d_cron :: string
  d_timezone :: string
  d_catchup_policy :: catchup_policy
  d_planned_for :: instant

definition due_returning :: "schedule \<Rightarrow> due_row" where
  "due_returning s = \<lparr>d_id = s_id s, d_name = s_name s, d_queue = s_queue s, d_type = s_type s,
     d_payload = s_payload s, d_cron = s_cron s, d_timezone = s_timezone s,
     d_catchup_policy = s_catchup_policy s, d_planned_for = s_next_run_at s\<rparr>"

definition claim_schedule_row :: "instant \<Rightarrow> schedule \<Rightarrow> schedule" where
  "claim_schedule_row now s = s\<lparr>s_last_run_at := Some (s_next_run_at s), s_updated_at := now\<rparr>"

definition update_schedules ::
  "(schedule \<Rightarrow> bool) \<Rightarrow> (schedule \<Rightarrow> schedule) \<Rightarrow> schedule list stmt" where
  "update_schedules P f d =
     Inr (map f (filter P (db_schedules d)), d\<lparr>db_schedules := upd_where P f (db_schedules d)\<rparr>)"

definition claimDueSchedules :: "instant \<Rightarrow> ident set \<Rightarrow> nat \<Rightarrow> due_row list stmt" where
  "claimDueSchedules now locked n d =
     returning due_returning
       (update_schedules (\<lambda>s. s_id s \<in> set (due_ids now locked n d)) (claim_schedule_row now)) d"

record advance_params =
  ap_id :: ident
  ap_nextRunAt :: instant
  ap_lastJobId :: "ident option"

definition advance_row :: "instant \<Rightarrow> advance_params \<Rightarrow> schedule \<Rightarrow> schedule" where
  "advance_row now p s = s\<lparr>
     s_next_run_at := ap_nextRunAt p,
     s_last_job_id := (case ap_lastJobId p of None \<Rightarrow> s_last_job_id s | Some i \<Rightarrow> Some i),
     s_updated_at := now\<rparr>"

definition advanceSchedule :: "instant \<Rightarrow> advance_params \<Rightarrow> ident list stmt" where
  "advanceSchedule now p =
     returning s_id (update_schedules (\<lambda>s. s_id s = ap_id p) (advance_row now p))"

record create_params =
  sp_name :: string
  sp_queue :: string
  sp_type :: string
  sp_payload :: json
  sp_cron :: string
  sp_timezone :: string
  sp_catchupPolicy :: catchup_policy
  sp_enabled :: bool
  sp_nextRunAt :: instant

definition new_schedule :: "instant \<Rightarrow> create_params \<Rightarrow> ident \<Rightarrow> schedule" where
  "new_schedule now p i = \<lparr>s_id = i, s_name = sp_name p, s_queue = sp_queue p, s_type = sp_type p,
     s_payload = sp_payload p, s_cron = sp_cron p, s_timezone = sp_timezone p,
     s_catchup_policy = sp_catchupPolicy p, s_enabled = sp_enabled p,
     s_next_run_at = sp_nextRunAt p, s_last_run_at = None, s_last_job_id = None,
     s_updated_at = now\<rparr>"

text \<open>\<open>name\<close> is UNIQUE, and the insert has no ON CONFLICT clause.\<close>

definition createSchedule :: "instant \<Rightarrow> create_params \<Rightarrow> schedule list stmt" where
  "createSchedule now p d =
     (let s = new_schedule now p (db_schedule_seq d)
      in if sp_name p \<in> s_name ` set (db_schedules d) then Inl Unique_violation
         else Inr ([s], d\<lparr>db_schedules := db_schedules d @ [s],
                         db_schedule_seq := Suc (db_schedule_seq d)\<rparr>))"

definition listSchedules :: "db \<Rightarrow> schedule list" where
  "listSchedules d = sort_key s_name (db_schedules d)"

definition getSchedule :: "ident \<Rightarrow> db \<Rightarrow> schedule list" where
  "getSchedule i d = filter (\<lambda>s. s_id s = i) (db_schedules d)"

definition enabled_row :: "instant \<Rightarrow> bool \<Rightarrow> instant option \<Rightarrow> schedule \<Rightarrow> schedule" where
  "enabled_row now en nxt s = s\<lparr>
     s_enabled := en,
     s_next_run_at := coalesce nxt (s_next_run_at s),
     s_updated_at := now\<rparr>"

definition setScheduleEnabled ::
  "instant \<Rightarrow> ident \<Rightarrow> bool \<Rightarrow> instant option \<Rightarrow> schedule list stmt" where
  "setScheduleEnabled now i en nxt =
     update_schedules (\<lambda>s. s_id s = i) (enabled_row now en nxt)"

text \<open>The foreign key of \<open>job.schedule_id\<close> is ON DELETE SET NULL.\<close>

definition clear_schedule :: "ident \<Rightarrow> job \<Rightarrow> job" where
  "clear_schedule i j = (if j_schedule_id j = Some i then j\<lparr>j_schedule_id := None\<rparr> else j)"

definition deleteSchedule :: "ident \<Rightarrow> ident list stmt" where
  "deleteSchedule i d =
     Inr (map s_id (filter (\<lambda>s. s_id s = i) (db_schedules d)),
       (if i \<in> s_id ` set (db_schedules d)
        then d\<lparr>db_schedules := filter (\<lambda>s. s_id s \<noteq> i) (db_schedules d),
               db_jobs := map (clear_schedule i) (db_jobs d)\<rparr>
        else d))"

definition occurrenceKey :: "ident \<Rightarrow> instant \<Rightarrow> string" where
  "occurrenceKey i t = ''sched:'' @ show_nat i @ '':'' @ toISOString (nat (t div us_per_ms))"

subsection \<open>The contract\<close>

definition keeps_schedule :: "(schedule \<Rightarrow> schedule) \<Rightarrow> bool" where
  "keeps_schedule f \<longleftrightarrow> (\<forall>s. s_id (f s) = s_id s \<and> s_name (f s) = s_name s)"

lemma schedule_rows_keep [simp]:
  "keeps_schedule (claim_schedule_row now)" "keeps_schedule (advance_row now p)"
  "keeps_schedule (enabled_row now en nxt)"
  by (simp_all add: keeps_schedule_def claim_schedule_row_def advance_row_def enabled_row_def)

lemma update_schedules_inv:
  assumes inv: "db_inv d" and upd: "update_schedules P f d = Inr (rs, d')" and keep: "keeps_schedule f"
  shows "db_inv d'"
proof -
  have d': "d' = d\<lparr>db_schedules := upd_where P f (db_schedules d)\<rparr>"
    using upd by (simp add: update_schedules_def)
  have ids: "map s_id (upd_where P f (db_schedules d)) = map s_id (db_schedules d)"
    and names: "map s_name (upd_where P f (db_schedules d)) = map s_name (db_schedules d)"
    using keep by (simp_all add: map_upd_where keeps_schedule_def)
  from ids have set_ids: "s_id ` set (upd_where P f (db_schedules d)) = s_id ` set (db_schedules d)"
    by (metis list.set_map)
  have "\<forall>i \<in> s_id ` set (upd_where P f (db_schedules d)). i < db_schedule_seq d"
    using inv unfolding set_ids by (simp add: db_inv_def)
  then have "\<forall>s \<in> set (upd_where P f (db_schedules d)). s_id s < db_schedule_seq d" by simp
  with inv ids names set_ids show ?thesis by (simp add: db_inv_def d' archive_ids_def)
qed

lemma update_schedules_stmt:
  assumes "keeps_schedule f"
  shows "job_stmt (returning g (update_schedules P f)) {L_stutter}"
proof
  fix d r d' i
  assume inv: "db_inv d" and "returning g (update_schedules P f) d = Inr (r, d')"
  then obtain ss where u: "update_schedules P f d = Inr (ss, d')" by (auto simp: returning_Inr)
  show "db_inv d'" by (rule update_schedules_inv [OF inv u assms])
  show "\<exists>l \<in> {L_stutter}. life_step (life_at d i) l (life_at d' i)"
    using u by (intro unchanged_jobs_refines) (auto simp: update_schedules_def)
  show "grows d d'" using u by (intro grows_same_ids) (auto simp: update_schedules_def)
qed

interpretation advance: job_stmt "advanceSchedule now p" "{L_stutter}" for now p
  unfolding advanceSchedule_def by (rule update_schedules_stmt) simp

interpretation claim_due: job_stmt "claimDueSchedules now locked n" "{L_stutter}" for now locked n
proof unfold_locales
  fix d d' i r
  let ?u = "returning due_returning (update_schedules (\<lambda>s. s_id s \<in> set (due_ids now locked n d))
      (claim_schedule_row now))"
  assume inv: "db_inv d" and "claimDueSchedules now locked n d = Inr (r, d')"
  then have u: "?u d = Inr (r, d')" by (simp add: claimDueSchedules_def)
  have s: "job_stmt ?u {L_stutter}" by (rule update_schedules_stmt) simp
  show "db_inv d'" by (rule job_stmt.inv [OF s inv u])
  show "\<exists>l \<in> {L_stutter}. life_step (life_at d i) l (life_at d' i)"
    by (rule job_stmt.refines [OF s inv u])
  show "grows d d'" by (rule job_stmt.fresh [OF s inv u])
qed

lemma returning_id: "returning (\<lambda>x. x) s = s"
  by (auto simp: fun_eq_iff returning_def split: sum.splits)

interpretation set_enabled: job_stmt "setScheduleEnabled now i en nxt" "{L_stutter}"
  for now i en nxt
  unfolding setScheduleEnabled_def
  using update_schedules_stmt [OF schedule_rows_keep(3), of "\<lambda>x. x"] by (simp add: returning_id)

interpretation create_schedule: job_stmt "createSchedule now p" "{L_stutter}" for now p
proof unfold_locales
  fix d d' i r
  assume inv: "db_inv d" and "createSchedule now p d = Inr (r, d')"
  then have new: "sp_name p \<notin> s_name ` set (db_schedules d)"
    and d': "d' = d\<lparr>db_schedules := db_schedules d @ [new_schedule now p (db_schedule_seq d)],
        db_schedule_seq := Suc (db_schedule_seq d)\<rparr>"
    by (auto simp: createSchedule_def Let_def split: if_splits)
  have fields: "s_id (new_schedule now p k) = k" "s_name (new_schedule now p k) = sp_name p" for k
    by (simp_all add: new_schedule_def)
  have "db_schedule_seq d \<notin> s_id ` set (db_schedules d)" using inv by (auto simp: db_inv_def)
  with inv new show "db_inv d'"
    by (auto simp: db_inv_def d' fields archive_ids_def less_SucI)
  show "\<exists>l \<in> {L_stutter}. life_step (life_at d i) l (life_at d' i)"
    by (rule unchanged_jobs_refines) (simp_all add: d')
  show "grows d d'" by (rule grows_same_ids) (simp_all add: d')
qed

lemma clear_schedule_simps [simp]:
  "j_id (clear_schedule i j) = j_id j" "j_state (clear_schedule i j) = j_state j"
  "idem_slot (clear_schedule i j) = idem_slot j" "active_slot (clear_schedule i j) = active_slot j"
  "job_checks (clear_schedule i j) = job_checks j" "life_of (clear_schedule i j) = life_of j"
  by (simp_all add: clear_schedule_def idem_slot_def active_slot_def job_checks_def life_of_def)

lemma unique_on_map:
  "(\<And>x. x \<in> set xs \<Longrightarrow> g (f x) = g x) \<Longrightarrow> unique_on g (map f xs) = unique_on g xs"
proof (induction xs)
  case (Cons x xs)
  have "g (f x) = g x" and "unique_on g (map f xs) = unique_on g xs"
    using Cons.IH Cons.prems by simp_all
  moreover have "g ` set (map f xs) = g ` set xs"
    unfolding set_map image_image by (rule image_cong) (simp_all add: Cons.prems)
  ultimately show ?case by (simp only: list.map unique_on.simps)
qed simp

lemma row_of_map:
  "(\<And>x. x \<in> set xs \<Longrightarrow> key (f x) = key x) \<Longrightarrow>
   row_of key k (map f xs) = map_option f (row_of key k xs)"
  by (induction xs) auto

interpretation delete_schedule: job_stmt "deleteSchedule i" "{L_stutter}" for i
proof unfold_locales
  fix d d' k r
  assume inv: "db_inv d" and ok: "deleteSchedule i d = Inr (r, d')"
  show "db_inv d'"
  proof (cases "i \<in> s_id ` set (db_schedules d)")
    case False
    with ok inv show ?thesis by (simp add: deleteSchedule_def)
  next
    case True
    with ok have d': "d' = d\<lparr>db_schedules := filter (\<lambda>s. s_id s \<noteq> i) (db_schedules d),
        db_jobs := map (clear_schedule i) (db_jobs d)\<rparr>"
      by (simp add: deleteSchedule_def)
    have fk: "t \<in> s_id ` set (filter (\<lambda>s. s_id s \<noteq> i) (db_schedules d))"
      if j: "j \<in> set (db_jobs d)" and t: "j_schedule_id (clear_schedule i j) = Some t" for j t
    proof -
      from t have "j_schedule_id j = Some t" "t \<noteq> i"
        by (auto simp: clear_schedule_def split: if_splits)
      with inv j have "t \<in> s_id ` set (db_schedules d)" by (auto simp: db_inv_def)
      with \<open>t \<noteq> i\<close> show ?thesis by auto
    qed
    have "map j_id (map (clear_schedule i) (db_jobs d)) = map j_id (db_jobs d)" by simp
    then have "j_id ` set (db_jobs d') = j_id ` set (db_jobs d)"
      by (simp add: d' image_image)
    moreover have "index_ok (map (clear_schedule i) (db_jobs d))"
      using inv by (simp add: index_ok_def unique_on_map db_inv_def)
    ultimately show ?thesis
      using inv fk by (auto simp: db_inv_def d' comp_def archive_ids_def distinct_map_filter)
  qed
  have "life_at d' k = life_at d k"
    using ok by (auto simp: deleteSchedule_def life_at_def row_of_map option.map_comp comp_def
        split: if_splits)
  then show "\<exists>l \<in> {L_stutter}. life_step (life_at d k) l (life_at d' k)"
    by (metis insertI1 life_step.Stutter)
  show "grows d d'"
    using ok by (intro grows_same_ids) (auto simp: deleteSchedule_def split: if_splits)
qed

subsection \<open>Occurrence keys\<close>

lemma digits_until:
  assumes "\<forall>c \<in> set ds. is_digit c" and "\<forall>c \<in> set es. is_digit c" and "\<not> is_digit x"
    and "ds @ x # xs = es @ x # ys"
  shows "ds = es \<and> xs = ys"
proof -
  from assms(1,3) have "takeWhile is_digit (ds @ x # xs) = ds" by (simp add: takeWhile_append2)
  moreover from assms(2,3) have "takeWhile is_digit (es @ x # ys) = es"
    by (simp add: takeWhile_append2)
  ultimately have "ds = es" using assms(4) by metis
  with assms(4) show ?thesis by simp
qed

lemma occurrenceKey_inj:
  assumes eq: "occurrenceKey i s = occurrenceKey k t" and pos: "0 \<le> s" "0 \<le> t"
    and years: "u_year (utc_of (nat (s div us_per_ms))) < 10000"
      "u_year (utc_of (nat (t div us_per_ms))) < 10000"
  shows "i = k \<and> s div us_per_ms = t div us_per_ms"
proof -
  have "\<not> is_digit (CHR '':'')" by (simp add: is_digit_def)
  moreover have "show_nat i @ CHR '':'' # toISOString (nat (s div us_per_ms))
      = show_nat k @ CHR '':'' # toISOString (nat (t div us_per_ms))"
    using eq by (simp add: occurrenceKey_def)
  ultimately have "show_nat i = show_nat k"
    and "toISOString (nat (s div us_per_ms)) = toISOString (nat (t div us_per_ms))"
    using digits_until [of "show_nat i" "show_nat k"] show_nat_digits by metis+
  then have "i = k" and "nat (s div us_per_ms) = nat (t div us_per_ms)"
    using show_nat_inj toISOString_inj years by blast+
  moreover have "0 \<le> s div us_per_ms" "0 \<le> t div us_per_ms"
    using pos by (simp_all add: us_per_ms_def)
  ultimately show ?thesis by (simp add: nat_eq_iff2)
qed

end
