(* ===== verification/Stmt_Retention.thy ===== *)
theory Stmt_Retention
  imports Lifecycle Dates
begin

text \<open>
  packages/core/src/sql/retention.sql.ts: pruning and archiving of terminal jobs, and the monthly
  partitions of the archive. The default windows are intervals, in microseconds; the session's
  time zone is UTC, so that the date literals of a partition are UTC days, compared as text.
  jobTableHealth reads the statistics views of the server and is not modelled.
\<close>

record prune_params =
  pp_limit :: nat
  pp_defaultRetainSucceeded :: int
  pp_defaultRetainDead :: int

definition retain_window :: "prune_params \<Rightarrow> db \<Rightarrow> job \<Rightarrow> int" where
  "retain_window p d j =
     (case j_state j of
        Dead \<Rightarrow> coalesce (map_option qc_retain_dead (row_of qc_queue (j_queue j) (db_config d)))
                  (pp_defaultRetainDead p)
      | _ \<Rightarrow> coalesce (map_option qc_retain_succeeded (row_of qc_queue (j_queue j) (db_config d)))
                  (pp_defaultRetainSucceeded p))"

definition past_retention :: "instant \<Rightarrow> ident set \<Rightarrow> prune_params \<Rightarrow> db \<Rightarrow> job \<Rightarrow> bool" where
  "past_retention now locked p d j \<longleftrightarrow>
     j_state j \<in> {Succeeded, Dead, Cancelled}
     \<and> (case j_finished_at j of None \<Rightarrow> False | Some t \<Rightarrow> t < now - retain_window p d j)
     \<and> j_id j \<notin> locked"

text \<open>The rows past their window are finished ones, by the transition table.\<close>

lemma past_retention_iff:
  "past_retention now locked p d j \<longleftrightarrow> isTerminal (j_state j)
     \<and> (\<exists>t. j_finished_at j = Some t \<and> t < now - retain_window p d j) \<and> j_id j \<notin> locked"
  by (cases "j_state j") (auto simp: past_retention_def machine_defs split: option.splits)

definition finish_order :: "job \<Rightarrow> instant" where
  "finish_order j = coalesce (j_finished_at j) 0"

definition retention_victims :: "instant \<Rightarrow> ident set \<Rightarrow> prune_params \<Rightarrow> db \<Rightarrow> ident list" where
  "retention_victims now locked p d =
     pick finish_order (pp_limit p) (past_retention now locked p d) (db_jobs d)"

definition prune_returning :: "job \<Rightarrow> ident \<times> string \<times> job_state" where
  "prune_returning j = (j_id j, j_queue j, j_state j)"

definition pruneTerminalJobs ::
  "instant \<Rightarrow> ident set \<Rightarrow> prune_params \<Rightarrow> (ident \<times> string \<times> job_state) list stmt" where
  "pruneTerminalJobs now locked p d =
     returning prune_returning
       (delete_jobs (\<lambda>j. j_id j \<in> set (retention_victims now locked p d))) d"

definition day_of :: "instant \<Rightarrow> string" where
  "day_of t = isoDate_of (utc_of (nat (t div us_per_ms)))"

definition covers :: "partition \<Rightarrow> string \<Rightarrow> bool" where
  "covers p day \<longleftrightarrow> p_from p \<le> day \<and> day < p_to p"

text \<open>
  One statement: the rows leave \<open>job\<close> and enter \<open>job_archive\<close> together. A row no partition
  covers raises, and then nothing moves.
\<close>

definition archiveTerminalJobs ::
  "instant \<Rightarrow> ident set \<Rightarrow> prune_params \<Rightarrow> (ident \<times> string \<times> job_state) list stmt" where
  "archiveTerminalJobs now locked p d =
     (case delete_jobs (\<lambda>j. j_id j \<in> set (retention_victims now locked p d)) d of
        Inl e \<Rightarrow> Inl e
      | Inr (moved, d1) \<Rightarrow>
          if moved \<noteq> [] \<and> \<not> list_ex (\<lambda>q. covers q (day_of now)) (db_partitions d)
          then Inl No_partition
          else Inr (map prune_returning moved,
            d1\<lparr>db_archive := db_archive d
                 @ map (\<lambda>j. \<lparr>ar_job = j, ar_archived_at = now\<rparr>) moved\<rparr>))"

subsection \<open>Partitions\<close>

definition all_digits :: "nat \<Rightarrow> string \<Rightarrow> bool" where
  "all_digits n s \<longleftrightarrow> length s = n \<and> list_all is_digit s"

definition safeIdentifier :: "string \<Rightarrow> bool" where
  "safeIdentifier s \<longleftrightarrow> take 12 s = ''job_archive_'' \<and> all_digits 4 (take 4 (drop 12 s))
     \<and> take 1 (drop 16 s) = ''_'' \<and> all_digits 2 (drop 17 s)"

definition safeDate :: "string \<Rightarrow> bool" where
  "safeDate s \<longleftrightarrow> all_digits 4 (take 4 s) \<and> take 1 (drop 4 s) = ''-''
     \<and> all_digits 2 (take 2 (drop 5 s)) \<and> take 1 (drop 7 s) = ''-'' \<and> all_digits 2 (drop 8 s)"

datatype ddl_error = Unsafe_identifier string | Unsafe_bound string

definition assertSafeIdentifier :: "string \<Rightarrow> ddl_error + unit" where
  "assertSafeIdentifier s = (if safeIdentifier s then Inr () else Inl (Unsafe_identifier s))"

definition assertSafeDate :: "string \<Rightarrow> ddl_error + unit" where
  "assertSafeDate s = (if safeDate s then Inr () else Inl (Unsafe_bound s))"

definition partitionName :: "nat \<Rightarrow> nat \<Rightarrow> string" where
  "partitionName y m = ''job_archive_'' @ show_nat y @ ''_'' @ pad_dec 2 m"

text \<open>\<open>CREATE TABLE IF NOT EXISTS\<close>: a known name is left alone, an overlap or an empty range raises.\<close>

definition create_partition :: "string \<Rightarrow> string \<Rightarrow> string \<Rightarrow> unit stmt" where
  "create_partition name lo hi d =
     (if name \<in> p_name ` set (db_partitions d) then Inr ((), d)
      else if \<not> lo < hi \<or> list_ex (\<lambda>q. lo < p_to q \<and> p_from q < hi) (db_partitions d)
      then Inl Invalid_partition
      else Inr ((), d\<lparr>db_partitions := db_partitions d @
             [\<lparr>p_name = name, p_from = lo, p_to = hi\<rparr>]\<rparr>))"

definition createArchivePartition :: "string \<Rightarrow> string \<Rightarrow> string \<Rightarrow> ddl_error + unit stmt" where
  "createArchivePartition name lo hi =
     (case assertSafeIdentifier name of Inl e \<Rightarrow> Inl e | Inr _ \<Rightarrow>
      case assertSafeDate lo of Inl e \<Rightarrow> Inl e | Inr _ \<Rightarrow>
      case assertSafeDate hi of Inl e \<Rightarrow> Inl e | Inr _ \<Rightarrow> Inr (create_partition name lo hi))"

definition listArchivePartitions :: "db \<Rightarrow> string list" where
  "listArchivePartitions d = sort (map p_name (db_partitions d))"

text \<open>\<open>DROP TABLE\<close> on a partition takes the rows it holds with it.\<close>

definition drop_partition :: "string \<Rightarrow> unit stmt" where
  "drop_partition name d =
     (case row_of p_name name (db_partitions d) of
        None \<Rightarrow> Inr ((), d)
      | Some q \<Rightarrow> Inr ((), d\<lparr>
          db_partitions := filter (\<lambda>r. p_name r \<noteq> name) (db_partitions d),
          db_archive := filter (\<lambda>a. \<not> covers q (day_of (ar_archived_at a))) (db_archive d)\<rparr>))"

definition dropArchivePartition :: "string \<Rightarrow> ddl_error + unit stmt" where
  "dropArchivePartition name =
     (case assertSafeIdentifier name of Inl e \<Rightarrow> Inl e | Inr _ \<Rightarrow> Inr (drop_partition name))"

subsection \<open>The contract\<close>

interpretation prune: job_stmt "pruneTerminalJobs now locked p" "{L_stutter, L_delete}"
  for now locked p
proof unfold_locales
  fix d d' i r
  assume inv: "db_inv d" and "pruneTerminalJobs now locked p d = Inr (r, d')"
  then obtain ss where u: "delete_jobs (\<lambda>j. j_id j \<in> set (retention_victims now locked p d)) d
      = Inr (ss, d')"
    by (auto simp: pruneTerminalJobs_def returning_Inr)
  show "db_inv d'" by (rule delete_jobs_inv [OF inv u])
  show "grows d d'" by (rule grows_delete [OF u])
  show "\<exists>l \<in> {L_stutter, L_delete}. life_step (life_at d i) l (life_at d' i)"
    by (rule delete_jobs_refines [OF inv u]) simp_all
qed

lemma archive_InrD:
  assumes "archiveTerminalJobs now locked p d = Inr (r, d')"
  defines "P \<equiv> \<lambda>j. j_id j \<in> set (retention_victims now locked p d)"
  shows "r = map prune_returning (filter P (db_jobs d))"
    and "d' = d\<lparr>db_jobs := filter (\<lambda>j. \<not> P j) (db_jobs d),
        db_archive := db_archive d @ map (\<lambda>j. \<lparr>ar_job = j, ar_archived_at = now\<rparr>)
          (filter P (db_jobs d))\<rparr>"
  using assms(1) unfolding P_def
  by (auto simp: archiveTerminalJobs_def delete_jobs_def split: if_splits)

lemma archive_inv:
  assumes inv: "db_inv d" and ok: "archiveTerminalJobs now locked p d = Inr (r, d')"
  shows "db_inv d'"
proof -
  let ?P = "\<lambda>j. j_id j \<in> set (retention_victims now locked p d)"
  note d' = archive_InrD(2) [OF ok]
  have "db_inv (d\<lparr>db_jobs := filter (\<lambda>j. \<not> ?P j) (db_jobs d)\<rparr>)"
    by (rule delete_jobs_inv [OF inv, of ?P]) (simp add: delete_jobs_def)
  note rest = this [unfolded db_inv_def, simplified]
  have ids: "archive_ids d' = archive_ids d @ map j_id (filter ?P (db_jobs d))"
    by (simp add: d' archive_ids_def comp_def)
  have "distinct (archive_ids d')"
    unfolding ids using inv by (auto simp: db_inv_def distinct_map_filter)
  moreover have "\<forall>i \<in> set (archive_ids d'). i < db_job_seq d'"
    unfolding ids using inv by (auto simp: db_inv_def d')
  moreover have "set (archive_ids d') \<inter> j_id ` set (db_jobs d') = {}"
    unfolding ids using inv distinct_map_key_inj [OF db_inv_distinct [OF inv]]
    by (fastforce simp: db_inv_def d')
  ultimately show ?thesis using rest by (simp add: db_inv_def d' archive_ids_def)
qed

interpretation archive: job_stmt "archiveTerminalJobs now locked p" "{L_stutter, L_delete}"
  for now locked p
proof unfold_locales
  fix d d' i r
  let ?P = "\<lambda>j. j_id j \<in> set (retention_victims now locked p d)"
  assume inv: "db_inv d" and ok: "archiveTerminalJobs now locked p d = Inr (r, d')"
  show "db_inv d'" by (rule archive_inv [OF inv ok])
  have "\<exists>l \<in> {L_stutter, L_delete}. life_step (life_at d i) l
      (life_at (d\<lparr>db_jobs := filter (\<lambda>j. \<not> ?P j) (db_jobs d)\<rparr>) i)"
    by (rule delete_jobs_refines [OF inv, of ?P]) (simp_all add: delete_jobs_def)
  then show "\<exists>l \<in> {L_stutter, L_delete}. life_step (life_at d i) l (life_at d' i)"
    by (simp add: life_at_def archive_InrD(2) [OF ok])
  show "grows d d'" by (rule grows_same_ids) (auto simp: archive_InrD(2) [OF ok])
qed

interpretation create_partition: job_stmt "create_partition name lo hi" "{L_stutter}"
  for name lo hi
proof unfold_locales
  fix d d' i r
  assume inv: "db_inv d" and ok: "create_partition name lo hi d = Inr (r, d')"
  then have "d' = d\<lparr>db_partitions := db_partitions d'\<rparr>"
    by (auto simp: create_partition_def split: if_splits)
  then obtain ps where d': "d' = d\<lparr>db_partitions := ps\<rparr>" by blast
  show "db_inv d'" using inv by (simp add: d' db_inv_def archive_ids_def)
  show "\<exists>l \<in> {L_stutter}. life_step (life_at d i) l (life_at d' i)"
    by (rule unchanged_jobs_refines) (simp_all add: d')
  show "grows d d'" by (rule grows_same_ids) (simp_all add: d')
qed

interpretation drop_partition: job_stmt "drop_partition name" "{L_stutter}" for name
proof unfold_locales
  fix d d' i r
  assume inv: "db_inv d" and ok: "drop_partition name d = Inr (r, d')"
  have "\<exists>ps Q. d' = d\<lparr>db_partitions := ps, db_archive := filter Q (db_archive d)\<rparr>"
  proof (cases "row_of p_name name (db_partitions d)")
    case None
    with ok have "d' = d\<lparr>db_partitions := db_partitions d,
        db_archive := filter (\<lambda>_. True) (db_archive d)\<rparr>"
      by (simp add: drop_partition_def)
    then show ?thesis by blast
  next
    case (Some q)
    with ok show ?thesis by (auto simp: drop_partition_def)
  qed
  then obtain ps Q where d': "d' = d\<lparr>db_partitions := ps, db_archive := filter Q (db_archive d)\<rparr>"
    by blast
  have "set (archive_ids d') \<subseteq> set (archive_ids d)" by (auto simp: d' archive_ids_def)
  moreover have "distinct (archive_ids d')"
    using inv by (simp add: d' archive_ids_def db_inv_def distinct_map_filter)
  ultimately show "db_inv d'" using inv unfolding db_inv_def by (auto simp: d')
  show "\<exists>l \<in> {L_stutter}. life_step (life_at d i) l (life_at d' i)"
    by (rule unchanged_jobs_refines) (simp_all add: d')
  show "grows d d'" by (rule grows_same_ids) (simp_all add: d')
qed

subsection \<open>What retention removes\<close>

lemma retention_victim_past:
  "db_inv d \<Longrightarrow> j \<in> set (db_jobs d) \<Longrightarrow> j_id j \<in> set (retention_victims now locked p d) \<Longrightarrow>
   past_retention now locked p d j"
  unfolding retention_victims_def by (rule pick_sound [OF db_inv_distinct])

lemma prune_lands:
  "pruneTerminalJobs now locked p d = Inr
     (map prune_returning (filter (\<lambda>j. j_id j \<in> set (retention_victims now locked p d)) (db_jobs d)),
      d\<lparr>db_jobs := filter (\<lambda>j. j_id j \<notin> set (retention_victims now locked p d)) (db_jobs d)\<rparr>)"
  by (simp add: pruneTerminalJobs_def delete_jobs_def returning_def)

lemma prune_count:
  assumes "db_inv d" and "pruneTerminalJobs now locked p d = Inr (rs, d')"
  shows "length rs = min (pp_limit p) (length (filter (past_retention now locked p d) (db_jobs d)))"
  using assms(2) filter_picked_length [OF db_inv_distinct [OF assms(1)], of finish_order
      "pp_limit p" "past_retention now locked p d"]
  by (auto simp: prune_lands retention_victims_def)

lemma past_retention_config:
  "db_config d' = db_config d \<Longrightarrow> past_retention now locked p d' = past_retention now locked p d"
proof -
  assume c: "db_config d' = db_config d"
  have "retain_window p d' = retain_window p d"
    by (rule ext) (simp only: retain_window_def c)
  then show ?thesis by (intro ext) (simp add: past_retention_def split: option.split)
qed

lemma prune_remaining:
  assumes inv: "db_inv d" and ok: "pruneTerminalJobs now locked p d = Inr (rs, d')"
  shows "length (filter (past_retention now locked p d') (db_jobs d')) + length rs
    = length (filter (past_retention now locked p d) (db_jobs d))"
proof -
  let ?V = "set (retention_victims now locked p d)" and ?Q = "past_retention now locked p d"
  have d': "d' = d\<lparr>db_jobs := filter (\<lambda>j. j_id j \<notin> ?V) (db_jobs d)\<rparr>"
    and rs: "length rs = length (filter (\<lambda>j. j_id j \<in> ?V) (db_jobs d))"
    using ok by (auto simp: prune_lands)
  have "past_retention now locked p d' = ?Q" by (rule past_retention_config) (simp add: d')
  moreover have "length (filter ?Q (filter (\<lambda>j. j_id j \<notin> ?V) js))
      + length (filter (\<lambda>j. j_id j \<in> ?V) js) = length (filter ?Q js)"
    if "\<forall>j \<in> set js. j_id j \<in> ?V \<longrightarrow> ?Q j" for js
    using that by (induction js) auto
  ultimately show ?thesis
    using retention_victim_past [OF inv] by (simp add: d' rs)
qed

text \<open>Archiving conserves the jobs: what leaves the table is in the archive.\<close>

lemma archive_conserves:
  assumes "archiveTerminalJobs now locked p d = Inr (rs, d')"
  shows "set (db_jobs d') \<union> ar_job ` set (db_archive d') = set (db_jobs d) \<union> ar_job ` set (db_archive d)"
    and "length (db_jobs d') + length (db_archive d') = length (db_jobs d) + length (db_archive d)"
  using sum_length_filter_compl [of "\<lambda>j. j_id j \<in> set (retention_victims now locked p d)" "db_jobs d"]
  by (auto simp: archive_InrD [OF assms] image_Un image_image)

lemma archive_covered:
  assumes "archiveTerminalJobs now locked p d = Inr (r # rs, d')"
  shows "list_ex (\<lambda>q. covers q (day_of now)) (db_partitions d)"
  using assms by (auto simp: archiveTerminalJobs_def delete_jobs_def split: if_splits)

end
