(* ===== verification/System.thy ===== *)
theory System
  imports Stmt_Claim Stmt_Report Stmt_Reap Stmt_Enqueue Stmt_Query Stmt_Schedule Stmt_Retention
begin

text \<open>
  The system as a whole: any number of clients, workers, reapers, schedulers and operators, each
  of whose effects on the database is one statement at a time. An action is a statement with its
  parameters; nothing is assumed about who issues it, so a report may carry any fence at any
  time. A history is a list of actions.
\<close>

datatype action =
    Do_insert instant enqueue_row
  | Do_insert_batch instant "enqueue_row list"
  | Do_claim instant "ident set" claim_params
  | Do_claim_aging instant "ident set" claim_params int
  | Do_complete instant fence
  | Do_fail instant fail_params fence
  | Do_heartbeat instant int fence
  | Do_ack instant fence
  | Do_release instant fence
  | Do_reap instant "ident set" reap_params
  | Do_cancel instant ident
  | Do_request_cancel instant ident
  | Do_retry_now instant ident
  | Do_replay instant ident
  | Do_replay_many instant "ident list"
  | Do_pause instant string bool
  | Do_purge "ident set" string "job_state list" nat
  | Do_audit instant string string "string option" "json option"
  | Do_claim_due instant "ident set" nat
  | Do_advance instant advance_params
  | Do_create_schedule instant create_params
  | Do_enable_schedule instant ident bool "instant option"
  | Do_delete_schedule ident
  | Do_prune instant "ident set" prune_params
  | Do_archive instant "ident set" prune_params
  | Do_create_partition string string string
  | Do_drop_partition string
  | Do_configure queue_config
  | Do_keys "api_key list"

text \<open>
  Two actions stand for what is not a statement on jobs: an operator writes a row of the queue
  configuration in SQL of their own (any row the table's checks accept), and the API server works
  on its table of keys (theory Auth).
\<close>

definition configure_queue :: "queue_config \<Rightarrow> unit stmt" where
  "configure_queue c d =
     (if config_checks c
      then Inr ((), d\<lparr>db_config := filter (\<lambda>k. qc_queue k \<noteq> qc_queue c) (db_config d) @ [c]\<rparr>)
      else Inl Check_violation)"

definition write_keys :: "api_key list \<Rightarrow> unit stmt" where
  "write_keys ks d = Inr ((), d\<lparr>db_keys := ks\<rparr>)"

text \<open>A statement that fails leaves the database as it was.\<close>

definition commit :: "'r stmt \<Rightarrow> db \<Rightarrow> db" where
  "commit s d = (case s d of Inl _ \<Rightarrow> d | Inr (_, d') \<Rightarrow> d')"

fun exec :: "action \<Rightarrow> db \<Rightarrow> db" where
  "exec (Do_insert now r) = commit (insertJob now r)"
| "exec (Do_insert_batch now rs) = commit (insertJobsBatch now rs)"
| "exec (Do_claim now locked p) = commit (claimJobs now locked p)"
| "exec (Do_claim_aging now locked p thr) = commit (claimJobsWithAging now locked p thr)"
| "exec (Do_complete now p) = commit (completeJob now p)"
| "exec (Do_fail now q p) = commit (failJob now q p)"
| "exec (Do_heartbeat now secs p) = commit (heartbeatJob now secs p)"
| "exec (Do_ack now p) = commit (acknowledgeCancellation now p)"
| "exec (Do_release now p) = commit (releaseJob now p)"
| "exec (Do_reap now locked p) = commit (reapExpiredLeases now locked p)"
| "exec (Do_cancel now i) = commit (cancelAvailableJob now i)"
| "exec (Do_request_cancel now i) = commit (requestCancelRunningJob now i)"
| "exec (Do_retry_now now i) = commit (retryJobNow now i)"
| "exec (Do_replay now i) = commit (replayDeadJob now i)"
| "exec (Do_replay_many now is) = commit (replayDeadJobs now is)"
| "exec (Do_pause now q p) = commit (setQueuePaused now q p)"
| "exec (Do_purge locked q states n) = commit (purgeQueue locked q states n)"
| "exec (Do_audit now actor act target detail) = commit (insertAuditLog now actor act target detail)"
| "exec (Do_claim_due now locked n) = commit (claimDueSchedules now locked n)"
| "exec (Do_advance now p) = commit (advanceSchedule now p)"
| "exec (Do_create_schedule now p) = commit (createSchedule now p)"
| "exec (Do_enable_schedule now i en nxt) = commit (setScheduleEnabled now i en nxt)"
| "exec (Do_delete_schedule i) = commit (deleteSchedule i)"
| "exec (Do_prune now locked p) = commit (pruneTerminalJobs now locked p)"
| "exec (Do_archive now locked p) = commit (archiveTerminalJobs now locked p)"
| "exec (Do_create_partition name lo hi) = commit (create_partition name lo hi)"
| "exec (Do_drop_partition name) = commit (drop_partition name)"
| "exec (Do_configure c) = commit (configure_queue c)"
| "exec (Do_keys ks) = commit (write_keys ks)"

definition exec_all :: "action list \<Rightarrow> db \<Rightarrow> db" where
  "exec_all as d = fold exec as d"

lemma exec_all_simps [simp]:
  "exec_all [] d = d" "exec_all (a # as) d = exec_all as (exec a d)"
  "exec_all (as @ bs) d = exec_all bs (exec_all as d)"
  by (simp_all add: exec_all_def)

text \<open>The states a fresh database can come to.\<close>

inductive reachable :: "db \<Rightarrow> bool" where
  Start: "reachable empty_db"
| Step: "reachable d \<Longrightarrow> reachable (exec a d)"

inductive_cases reachableE: "reachable d"

subsection \<open>Labels\<close>

text \<open>What one action may do to the life of one job.\<close>

fun labels_of :: "action \<Rightarrow> life_label set" where
  "labels_of (Do_insert now r) = {L_stutter, L_enqueue}"
| "labels_of (Do_insert_batch now rs) = {L_stutter, L_enqueue}"
| "labels_of (Do_claim now locked p) = {L_stutter, L_claim (cp_workerId p)}"
| "labels_of (Do_claim_aging now locked p thr) = {L_stutter, L_claim (cp_workerId p)}"
| "labels_of (Do_complete now p) = {L_stutter, L_succeed (f_workerId p) (f_attempt p)}"
| "labels_of (Do_fail now q p) = {L_stutter, L_non_retryable (f_workerId p) (f_attempt p),
     L_retry (f_workerId p) (f_attempt p), L_exhaust (f_workerId p) (f_attempt p)}"
| "labels_of (Do_heartbeat now secs p) = {L_stutter, L_heartbeat (f_workerId p) (f_attempt p)}"
| "labels_of (Do_ack now p) = {L_stutter, L_cancel_ack (f_workerId p) (f_attempt p)}"
| "labels_of (Do_release now p) = {L_stutter, L_release (f_workerId p) (f_attempt p)}"
| "labels_of (Do_reap now locked p) = {L_stutter, L_reap_retry, L_reap_exhaust}"
| "labels_of (Do_cancel now i) = {L_stutter, L_cancel}"
| "labels_of (Do_request_cancel now i) = {L_stutter, L_request_cancel}"
| "labels_of (Do_retry_now now i) = {L_stutter, L_operator_retry}"
| "labels_of (Do_replay now i) = {L_stutter, L_replay}"
| "labels_of (Do_replay_many now is) = {L_stutter, L_replay}"
| "labels_of (Do_purge locked q states n) = {L_stutter, L_delete}"
| "labels_of (Do_prune now locked p) = {L_stutter, L_delete}"
| "labels_of (Do_archive now locked p) = {L_stutter, L_delete}"
| "labels_of _ = {L_stutter}"

definition is_replay :: "action \<Rightarrow> bool" where
  "is_replay a \<longleftrightarrow> L_replay \<in> labels_of a"

lemma labels_stutter: "L_stutter \<in> labels_of a"
  by (cases a) simp_all

lemma commit_contract:
  assumes "job_stmt s labels" and "L_stutter \<in> labels" and "db_inv d"
  shows "db_inv (commit s d) \<and> (\<exists>l \<in> labels. life_step (life_at d i) l (life_at (commit s d) i))
    \<and> grows d (commit s d)"
proof (cases "s d")
  case (Inl e)
  with assms(2,3) show ?thesis by (auto simp: commit_def intro: life_step.Stutter)
next
  case (Inr x)
  obtain r d' where x: "x = (r, d')" by fastforce
  note ok = Inr [unfolded x]
  have "commit s d = d'" by (simp add: commit_def ok)
  with job_stmt.inv [OF assms(1,3) ok] job_stmt.refines [OF assms(1,3) ok, of i]
    job_stmt.fresh [OF assms(1,3) ok] show ?thesis by simp
qed

lemma audit_stmt: "job_stmt (insertAuditLog now actor act target detail) {L_stutter}"
proof
  fix d r d' i
  assume inv: "db_inv d" and ok: "insertAuditLog now actor act target detail d = Inr (r, d')"
  then obtain au where d': "d' = d\<lparr>db_audit := au\<rparr>" by (auto simp: insertAuditLog_def)
  show "db_inv d'" using inv by (simp add: d' db_inv_def archive_ids_def)
  show "\<exists>l \<in> {L_stutter}. life_step (life_at d i) l (life_at d' i)"
    by (rule unchanged_jobs_refines) (simp_all add: d')
  show "grows d d'" by (rule grows_same_ids) (simp_all add: d')
qed

lemma configure_stmt: "job_stmt (configure_queue c) {L_stutter}"
proof
  fix d r d' i
  assume inv: "db_inv d" and ok: "configure_queue c d = Inr (r, d')"
  then have c: "config_checks c"
    and d': "d' = d\<lparr>db_config := filter (\<lambda>k. qc_queue k \<noteq> qc_queue c) (db_config d) @ [c]\<rparr>"
    by (simp_all add: configure_queue_def split: if_splits)
  show "db_inv d'"
    using inv c by (auto simp: d' db_inv_def archive_ids_def distinct_map_filter)
  show "\<exists>l \<in> {L_stutter}. life_step (life_at d i) l (life_at d' i)"
    by (rule unchanged_jobs_refines) (simp_all add: d')
  show "grows d d'" by (rule grows_same_ids) (simp_all add: d')
qed

lemma keys_stmt: "job_stmt (write_keys ks) {L_stutter}"
proof
  fix d r d' i
  assume inv: "db_inv d" and ok: "write_keys ks d = Inr (r, d')"
  then have d': "d' = d\<lparr>db_keys := ks\<rparr>" by (simp add: write_keys_def)
  show "db_inv d'" using inv by (simp add: d' db_inv_def archive_ids_def)
  show "\<exists>l \<in> {L_stutter}. life_step (life_at d i) l (life_at d' i)"
    by (rule unchanged_jobs_refines) (simp_all add: d')
  show "grows d d'" by (rule grows_same_ids) (simp_all add: d')
qed

lemmas all_statements = insert.job_stmt_axioms insert_batch.job_stmt_axioms claim.job_stmt_axioms
  claim_aging.job_stmt_axioms complete_life.job_stmt_axioms failing_life.job_stmt_axioms
  heartbeat_life.job_stmt_axioms ack_life.job_stmt_axioms release_life.job_stmt_axioms
  reap.job_stmt_axioms cancel.job_stmt_axioms request_cancel.job_stmt_axioms
  retry_now.job_stmt_axioms replay.job_stmt_axioms replay_many.job_stmt_axioms
  pause.job_stmt_axioms purge.job_stmt_axioms audit_stmt claim_due.job_stmt_axioms
  advance.job_stmt_axioms create_schedule.job_stmt_axioms set_enabled.job_stmt_axioms
  delete_schedule.job_stmt_axioms prune.job_stmt_axioms archive.job_stmt_axioms
  create_partition.job_stmt_axioms drop_partition.job_stmt_axioms configure_stmt keys_stmt

text \<open>Every action keeps the invariant, moves every job by one of its labels, reuses no id.\<close>

lemma exec_contract:
  assumes "db_inv d"
  shows "db_inv (exec a d) \<and> (\<exists>l \<in> labels_of a. life_step (life_at d i) l (life_at (exec a d) i))
    \<and> grows d (exec a d)"
  by (cases a; simp only: exec.simps labels_of.simps;
      rule commit_contract [OF _ _ assms]; (rule all_statements)?; simp)

lemmas exec_inv = exec_contract [THEN conjunct1]
  and exec_refines = exec_contract [THEN conjunct2, THEN conjunct1]
  and exec_grows = exec_contract [THEN conjunct2, THEN conjunct2]

lemma exec_all_inv: "db_inv d \<Longrightarrow> db_inv (exec_all as d)"
  by (induction as arbitrary: d) (simp_all add: exec_inv)

lemma reachable_inv: "reachable d \<Longrightarrow> db_inv d"
  by (induction rule: reachable.induct) (simp_all add: db_inv_empty exec_inv)

lemma reachable_all: "reachable d \<Longrightarrow> reachable (exec_all as d)"
  by (induction as arbitrary: d) (simp_all add: reachable.Step)

subsection \<open>Fencing\<close>

text \<open>
  A fence is spent when its job is gone for good, has moved on to a later attempt, or has left
  the running state on this one.
\<close>

definition spent :: "db \<Rightarrow> fence \<Rightarrow> bool" where
  "spent d p \<longleftrightarrow>
     (case job_at d (f_id p) of
        None \<Rightarrow> f_id p < db_job_seq d
      | Some j \<Rightarrow> f_attempt p < j_attempt j \<or> f_attempt p = j_attempt j \<and> j_state j \<noteq> Running)"

lemma spent_not_owned: "spent d p \<Longrightarrow> \<not> owned d p"
  by (auto simp: spent_def owned_def owns_def split: option.splits)

lemma exec_row_step:
  assumes "db_inv d" and "job_at d i = Some j" and "job_at (exec a d) i = Some j'"
  shows "\<exists>l \<in> labels_of a. life_step (Some (life_of j)) l (Some (life_of j'))"
  using exec_refines [OF assms(1), of a i] assms(2,3) by (simp add: life_at_def)

lemma spent_step:
  assumes inv: "db_inv d" and s: "spent d p" and nr: "\<not> is_replay a"
  shows "spent (exec a d) p"
proof (cases "job_at d (f_id p)")
  case None
  with s have "f_id p < db_job_seq d" by (simp add: spent_def)
  with grows_absent [OF exec_grows [OF inv] this None, of a] exec_grows [OF inv, of a]
  show ?thesis by (simp add: spent_def grows_def)
next
  case (Some j)
  show ?thesis
  proof (cases "job_at (exec a d) (f_id p)")
    case None
    have "j \<in> set (db_jobs d)" "j_id j = f_id p" using db_inv_jobD [OF inv Some] by auto
    with inv have "f_id p < db_job_seq d" by (auto simp: db_inv_def)
    with exec_grows [OF inv, of a] None show ?thesis by (simp add: spent_def grows_def)
  next
    case (Some j')
    from exec_row_step [OF inv \<open>job_at d (f_id p) = Some j\<close> Some]
    obtain l where l: "l \<in> labels_of a" "life_step (Some (life_of j)) l (Some (life_of j'))" by blast
    with nr have "l \<noteq> L_replay" by (auto simp: is_replay_def)
    with l(2) s \<open>job_at d (f_id p) = Some j\<close> Some show ?thesis
      by (auto simp: spent_def life_of_def owned_by_def elim!: life_step_SomeE split: if_splits)
  qed
qed

lemma spent_forever:
  "db_inv d \<Longrightarrow> spent d p \<Longrightarrow> \<not> list_ex is_replay as \<Longrightarrow> spent (exec_all as d) p"
  by (induction as arbitrary: d) (simp_all add: spent_step exec_inv)

text \<open>When a valid fence stops being valid it is spent.\<close>

lemma owned_until_spent:
  assumes inv: "db_inv d" and own: "owned d p" and nr: "\<not> is_replay a"
  shows "owned (exec a d) p \<or> spent (exec a d) p"
proof -
  from own obtain j where j: "job_at d (f_id p) = Some j" "owns p j"
    by (auto simp: owned_def split: option.splits)
  show ?thesis
  proof (cases "job_at (exec a d) (f_id p)")
    case None
    have "j \<in> set (db_jobs d)" "j_id j = f_id p" using db_inv_jobD [OF inv j(1)] by auto
    with inv have "f_id p < db_job_seq d" by (auto simp: db_inv_def)
    with exec_grows [OF inv, of a] None show ?thesis by (simp add: spent_def grows_def)
  next
    case (Some j')
    from exec_row_step [OF inv j(1) Some]
    obtain l where l: "l \<in> labels_of a" "life_step (Some (life_of j)) l (Some (life_of j'))" by blast
    with nr have "l \<noteq> L_replay" by (auto simp: is_replay_def)
    moreover have "j_id j' = f_id p" using Some by (auto dest: row_of_SomeD)
    ultimately show ?thesis
      using l(2) j Some
      by (auto simp: spent_def owned_def owns_def life_of_def owned_by_def elim!: life_step_SomeE
          split: if_splits)
  qed
qed

lemma owned_or_spent:
  assumes "db_inv d" and "owned d p" and "\<not> list_ex is_replay as"
  shows "owned (exec_all as d) p \<or> spent (exec_all as d) p"
  using assms
proof (induction as arbitrary: d)
  case (Cons a as)
  then have nr: "\<not> is_replay a" "\<not> list_ex is_replay as" and inv: "db_inv (exec a d)"
    by (simp_all add: exec_inv)
  from owned_until_spent [OF Cons.prems(1,2) nr(1)] show ?case
  proof
    assume "owned (exec a d) p"
    with Cons.IH inv nr show ?thesis by simp
  next
    assume "spent (exec a d) p"
    with spent_forever [OF inv _ nr(2)] show ?thesis by simp
  qed
qed simp

text \<open>A claim spends every earlier fence of the jobs it takes.\<close>

lemma claim_with_spends:
  assumes inv: "db_inv d" and ok: "claim_with ord now locked p d = Inr (rs, d')" and r: "r \<in> set rs"
    and f: "f_id f = j_id r" "f_attempt f < j_attempt r"
  shows "spent d' f"
  using claim_with_row [OF inv ok r] f by (auto simp: spent_def)

lemma claimJobs_row:
  assumes "db_inv d" and "claimJobs now locked p d = Inr (cs, d')" and "c \<in> set cs"
  obtains j where "job_at d (c_id c) = Some j" "eligible now locked (cp_queue p) d j"
    "c = toClaimedJob (claim_row now (cp_workerId p) j)"
    "job_at d' (c_id c) = Some (claim_row now (cp_workerId p) j)"
proof -
  from assms(2) obtain rs where rs: "claim_with claim_order now locked p d = Inr (rs, d')"
    and cs: "cs = map toClaimedJob rs"
    by (auto simp: claimJobs_def returning_Inr)
  from cs assms(3) obtain r where r: "r \<in> set rs" "c = toClaimedJob r" by auto
  from claim_with_row [OF assms(1) rs r(1)] r(2) that show thesis
    by (auto simp: toClaimedJob_def)
qed

text \<open>The fence a claim hands out.\<close>

definition token_of :: "string \<Rightarrow> claimed_job \<Rightarrow> fence" where
  "token_of w c = \<lparr>f_id = c_id c, f_workerId = w, f_attempt = c_attempt c\<rparr>"

lemma claim_owns:
  assumes "db_inv d" and "claimJobs now locked p d = Inr (cs, d')" and "c \<in> set cs"
  shows "owned d' (token_of (cp_workerId p) c)"
proof -
  from assms obtain j where "c = toClaimedJob (claim_row now (cp_workerId p) j)"
    and "job_at d' (c_id c) = Some (claim_row now (cp_workerId p) j)"
    by (rule claimJobs_row)
  then show ?thesis by (simp add: owned_def owns_def token_of_def toClaimedJob_def)
qed

text \<open>At the time of a claim, every fence of the job that was valid before is spent.\<close>

lemma claim_spends_owner:
  assumes inv: "db_inv d" and ok: "claimJobs now locked p d = Inr (cs, d')" and c: "c \<in> set cs"
    and f: "f_id f = c_id c" "spent d f \<or> owned d f"
  shows "spent d' f"
proof -
  from claimJobs_row [OF inv ok c] obtain j where j: "job_at d (c_id c) = Some j"
    "eligible now locked (cp_queue p) d j"
    "job_at d' (c_id c) = Some (claim_row now (cp_workerId p) j)" by metis
  from j(1,2) f have "spent d f"
    by (auto simp: owned_def owns_def eligible_def)
  with j f(1) show ?thesis by (auto simp: spent_def)
qed

end
