(* ===== verification/Errors.thy ===== *)
theory Errors
  imports Job_Types
begin

text \<open>
  packages/core/src/errors.ts: the error codes, the classes with their code and exposure flag,
  and the normalisation of whatever a handler throws. A class is a constructor; a thrown value is
  an error instance or one of the other JavaScript values the normalisation tells apart.
\<close>

datatype error_code =
    VALIDATION_ERROR | PAYLOAD_TOO_LARGE | JOB_NOT_FOUND | SCHEDULE_NOT_FOUND
  | INVALID_TRANSITION | OWNERSHIP_LOST | NO_HANDLER | HANDLER_TIMEOUT | NON_RETRYABLE
  | CANCELLED | CONFIG_ERROR | MIGRATION_ERROR | DATABASE_ERROR | UNAUTHENTICATED | FORBIDDEN
  | RATE_LIMITED | NOT_READY | CONFLICT | INTERNAL

definition ERROR_CODES :: "error_code list" where
  "ERROR_CODES =
    [VALIDATION_ERROR, PAYLOAD_TOO_LARGE, JOB_NOT_FOUND, SCHEDULE_NOT_FOUND, INVALID_TRANSITION,
     OWNERSHIP_LOST, NO_HANDLER, HANDLER_TIMEOUT, NON_RETRYABLE, CANCELLED, CONFIG_ERROR,
     MIGRATION_ERROR, DATABASE_ERROR, UNAUTHENTICATED, FORBIDDEN, RATE_LIMITED, NOT_READY,
     CONFLICT, INTERNAL]"

lemma ERROR_CODES_complete: "set ERROR_CODES = UNIV" "distinct ERROR_CODES"
  by (auto simp: ERROR_CODES_def intro: error_code.exhaust)

datatype error_class =
    Plain_Error | ValidationError | PayloadTooLargeError | JobNotFoundError
  | ScheduleNotFoundError | InvalidTransitionError | OwnershipLostError | NoHandlerError
  | HandlerTimeoutError | NonRetryableError | JobCancelledError | ConfigError | MigrationError
  | DatabaseError | ConflictError | RetryAfterError

text \<open>The code of a class of the hierarchy; a plain \<open>Error\<close> is outside it.\<close>

fun code_of :: "error_class \<Rightarrow> error_code option" where
  "code_of Plain_Error = None"
| "code_of ValidationError = Some VALIDATION_ERROR"
| "code_of PayloadTooLargeError = Some PAYLOAD_TOO_LARGE"
| "code_of JobNotFoundError = Some JOB_NOT_FOUND"
| "code_of ScheduleNotFoundError = Some SCHEDULE_NOT_FOUND"
| "code_of InvalidTransitionError = Some INVALID_TRANSITION"
| "code_of OwnershipLostError = Some OWNERSHIP_LOST"
| "code_of NoHandlerError = Some NO_HANDLER"
| "code_of HandlerTimeoutError = Some HANDLER_TIMEOUT"
| "code_of NonRetryableError = Some NON_RETRYABLE"
| "code_of JobCancelledError = Some CANCELLED"
| "code_of ConfigError = Some CONFIG_ERROR"
| "code_of MigrationError = Some MIGRATION_ERROR"
| "code_of DatabaseError = Some DATABASE_ERROR"
| "code_of ConflictError = Some CONFLICT"
| "code_of RetryAfterError = Some NON_RETRYABLE"

definition exposeDetails :: "error_class \<Rightarrow> bool" where
  "exposeDetails c \<longleftrightarrow> c \<in> {ValidationError, PayloadTooLargeError, JobNotFoundError,
     ScheduleNotFoundError, InvalidTransitionError, ConflictError}"

definition isPgJobqError :: "error_class \<Rightarrow> bool" where
  "isPgJobqError c \<longleftrightarrow> c \<noteq> Plain_Error"

primrec class_name :: "error_class \<Rightarrow> string" where
  "class_name Plain_Error = ''Error''"
| "class_name ValidationError = ''ValidationError''"
| "class_name PayloadTooLargeError = ''PayloadTooLargeError''"
| "class_name JobNotFoundError = ''JobNotFoundError''"
| "class_name ScheduleNotFoundError = ''ScheduleNotFoundError''"
| "class_name InvalidTransitionError = ''InvalidTransitionError''"
| "class_name OwnershipLostError = ''OwnershipLostError''"
| "class_name NoHandlerError = ''NoHandlerError''"
| "class_name HandlerTimeoutError = ''HandlerTimeoutError''"
| "class_name NonRetryableError = ''NonRetryableError''"
| "class_name JobCancelledError = ''JobCancelledError''"
| "class_name ConfigError = ''ConfigError''"
| "class_name MigrationError = ''MigrationError''"
| "class_name DatabaseError = ''DatabaseError''"
| "class_name ConflictError = ''ConflictError''"
| "class_name RetryAfterError = ''RetryAfterError''"

primrec code_name :: "error_code \<Rightarrow> string" where
  "code_name VALIDATION_ERROR = ''VALIDATION_ERROR''"
| "code_name PAYLOAD_TOO_LARGE = ''PAYLOAD_TOO_LARGE''"
| "code_name JOB_NOT_FOUND = ''JOB_NOT_FOUND''"
| "code_name SCHEDULE_NOT_FOUND = ''SCHEDULE_NOT_FOUND''"
| "code_name INVALID_TRANSITION = ''INVALID_TRANSITION''"
| "code_name OWNERSHIP_LOST = ''OWNERSHIP_LOST''"
| "code_name NO_HANDLER = ''NO_HANDLER''"
| "code_name HANDLER_TIMEOUT = ''HANDLER_TIMEOUT''"
| "code_name NON_RETRYABLE = ''NON_RETRYABLE''"
| "code_name CANCELLED = ''CANCELLED''"
| "code_name CONFIG_ERROR = ''CONFIG_ERROR''"
| "code_name MIGRATION_ERROR = ''MIGRATION_ERROR''"
| "code_name DATABASE_ERROR = ''DATABASE_ERROR''"
| "code_name UNAUTHENTICATED = ''UNAUTHENTICATED''"
| "code_name FORBIDDEN = ''FORBIDDEN''"
| "code_name RATE_LIMITED = ''RATE_LIMITED''"
| "code_name NOT_READY = ''NOT_READY''"
| "code_name CONFLICT = ''CONFLICT''"
| "code_name INTERNAL = ''INTERNAL''"

text \<open>
  An error instance. \<open>x_pgcode\<close> is a string property \<open>code\<close> of an error outside the hierarchy (a
  driver error carries one), \<open>x_issues\<close> tells whether \<open>issues\<close> is an array (a Zod error),
  \<open>x_retryDelayMs\<close> is read of a \<open>RetryAfterError\<close> only. An instance of the hierarchy is
  named after its class.
\<close>

datatype js_error = Js_error
  (x_class: error_class)
  (x_name: string)
  (x_message: string)
  (x_stack: "string option")
  (x_pgcode: "string option")
  (x_issues: bool)
  (x_retryDelayMs: rat)
  (x_cause: "js_error option")

definition mk_error :: "error_class \<Rightarrow> string \<Rightarrow> js_error" where
  "mk_error c msg = Js_error c (class_name c) msg None None False 0 None"

text \<open>
  The serialisation of another value: its JSON text, no JSON representation, or a failure of
  \<open>JSON.stringify\<close>; \<open>typeof\<close> names its type, \<open>v_code\<close> is a string property \<open>code\<close> of it.
\<close>

datatype stringified = Json_text string | No_json | Unserializable

datatype thrown =
    Thrown_error js_error
  | Thrown_string string
  | Thrown_undefined
  | Thrown_null
  | Thrown_value (v_typeof: string) (v_json: stringified) (v_code: "string option") (v_issues: bool)

definition isNonRetryable :: "thrown \<Rightarrow> bool" where
  "isNonRetryable e = (case e of Thrown_error x \<Rightarrow> x_class x = NonRetryableError | _ \<Rightarrow> False)"

subsection \<open>Truncation by UTF-8 bytes\<close>

definition byte :: "char \<Rightarrow> nat" where
  "byte c = of_char c"

definition is_continuation :: "char \<Rightarrow> bool" where
  "is_continuation c \<longleftrightarrow> 128 \<le> byte c \<and> byte c < 192"

text \<open>\<open>'\u2026[truncated]'\<close>\<close>

definition truncation_marker :: string where
  "truncation_marker = map char_of [226 :: nat, 128, 166] @ ''[truncated]''"

definition replacement_bytes :: string where
  "replacement_bytes = map char_of [239 :: nat, 191, 189]"

text \<open>
  Decoding the first \<open>n\<close> bytes of well-formed UTF-8 and dropping one trailing U+FFFD: a cut
  inside a character leaves its first bytes, which decode to one U+FFFD; a cut between
  characters leaves the text as it is, and then a U+FFFD of the text itself is dropped.
\<close>

definition cut_utf8 :: "nat \<Rightarrow> string \<Rightarrow> string" where
  "cut_utf8 n s =
     (let t = take n s
      in if n < length s \<and> is_continuation (s ! n)
         then rev (drop 1 (dropWhile is_continuation (rev t)))
         else if 3 \<le> length t \<and> drop (length t - 3) t = replacement_bytes
         then take (length t - 3) t
         else t)"

definition truncate_text :: "string \<Rightarrow> nat \<Rightarrow> string" where
  "truncate_text s maxBytes =
     (if length s \<le> maxBytes then s
      else cut_utf8 (maxBytes - length truncation_marker) s @ truncation_marker)"

subsection \<open>Normalisation\<close>

record normalized =
  z_name :: string
  z_message :: string
  z_stack :: string
  z_kind :: error_kind
  z_attempt :: int
  z_at :: instant

text \<open>\<open>String(e)\<close> of an error with an empty message is its name.\<close>

definition error_parts :: "thrown \<Rightarrow> string \<times> string \<times> string" where
  "error_parts e =
     (case e of
        Thrown_error x \<Rightarrow>
          (if x_name x = [] then ''Error'' else x_name x,
           if x_message x = [] then x_name x else x_message x,
           coalesce (x_stack x) [])
      | Thrown_string s \<Rightarrow> (''ThrownString'', s, [])
      | Thrown_undefined \<Rightarrow> (''ThrownUndefined'', ''Handler rejected with no reason'', [])
      | Thrown_null \<Rightarrow> (''ThrownNull'', ''Handler rejected with null'', [])
      | Thrown_value ty js _ _ \<Rightarrow>
          (''ThrownValue'',
           (case js of
              Json_text t \<Rightarrow> t
            | No_json \<Rightarrow> ''['' @ ty @ '' with no JSON representation]''
            | Unserializable \<Rightarrow> ''[unserializable '' @ ty @ '', possibly circular]''),
           []))"

definition normalizeError :: "instant \<Rightarrow> thrown \<Rightarrow> int \<Rightarrow> error_kind \<Rightarrow> nat \<Rightarrow> normalized" where
  "normalizeError now e attempt kind maxTextBytes =
     (let (name, message, stack) = error_parts e
      in \<lparr>z_name = truncate_text name 256, z_message = truncate_text message maxTextBytes,
          z_stack = truncate_text stack maxTextBytes, z_kind = kind, z_attempt = attempt,
          z_at = now\<rparr>)"

subsection \<open>Bounds\<close>

lemma marker_length [simp]: "length truncation_marker = 14"
  by (simp add: truncation_marker_def)

lemma length_cut_utf8: "length (cut_utf8 n s) \<le> n"
proof -
  let ?t = "take n s"
  have "length (drop 1 (dropWhile is_continuation (rev ?t))) \<le> length ?t"
    using length_dropWhile_le [of is_continuation "rev ?t"] unfolding length_drop length_rev by linarith
  then have "length (drop 1 (dropWhile is_continuation (rev ?t))) \<le> n"
    unfolding length_drop length_take by linarith
  moreover have "min (length s) n - 3 \<le> n" by linarith
  ultimately show ?thesis unfolding cut_utf8_def Let_def by simp
qed

lemma truncate_text_bound: "length (truncate_text s n) \<le> max n 14"
  using length_cut_utf8 [of "n - 14" s] by (auto simp: truncate_text_def)

lemma truncate_text_within: "length s \<le> n \<Longrightarrow> truncate_text s n = s"
  by (simp add: truncate_text_def)

lemma truncate_text_idem: "14 \<le> n \<Longrightarrow> truncate_text (truncate_text s n) n = truncate_text s n"
  using truncate_text_bound [of s n] by (intro truncate_text_within) simp

subsection \<open>Well-formed text stays well-formed\<close>

text \<open>
  The shape of UTF-8: a lead byte is followed by the number of continuation bytes it announces.
\<close>

definition lead_length :: "char \<Rightarrow> nat option" where
  "lead_length c =
     (if byte c < 128 then Some 0
      else if 192 \<le> byte c \<and> byte c < 224 then Some 1
      else if 224 \<le> byte c \<and> byte c < 240 then Some 2
      else if 240 \<le> byte c \<and> byte c < 248 then Some 3
      else None)"

definition utf8_char :: "string \<Rightarrow> bool" where
  "utf8_char s = (case s of [] \<Rightarrow> False
     | c # cs \<Rightarrow> lead_length c = Some (length cs) \<and> list_all is_continuation cs)"

inductive utf8 :: "string \<Rightarrow> bool" where
  utf8_Nil: "utf8 []"
| utf8_Append: "utf8 s \<Longrightarrow> utf8_char c \<Longrightarrow> utf8 (s @ c)"

lemma utf8_append: "utf8 t \<Longrightarrow> utf8 s \<Longrightarrow> utf8 (s @ t)"
proof (induction rule: utf8.induct)
  case (utf8_Append t c)
  then show ?case using utf8.utf8_Append [of "s @ t" c] by simp
qed simp

lemma utf8_char_lead: "utf8_char (c # cs) \<Longrightarrow> \<not> is_continuation c"
  by (auto simp: utf8_char_def lead_length_def is_continuation_def split: if_splits)

lemma utf8_char_rest: "utf8_char (c # cs) \<Longrightarrow> list_all is_continuation cs"
  by (simp add: utf8_char_def)

text \<open>A prefix of well-formed text is well-formed up to the first bytes of one character.\<close>

lemma utf8_take:
  assumes "utf8 s"
  shows "\<exists>u p. take n s = u @ p \<and> utf8 u \<and>
    (p = [] \<and> \<not> (n < length s \<and> is_continuation (s ! n)) \<or>
     (\<exists>l ks. p = l # ks \<and> \<not> is_continuation l \<and> list_all is_continuation ks
        \<and> n < length s \<and> is_continuation (s ! n)))"
  using assms
proof (induction rule: utf8.induct)
  case utf8_Nil
  then show ?case by (auto intro: utf8.utf8_Nil)
next
  case (utf8_Append s c)
  obtain l ks where c: "c = l # ks" using utf8_Append.hyps(2) by (cases c) (auto simp: utf8_char_def)
  note l = utf8_char_lead [OF utf8_Append.hyps(2) [unfolded c]]
    and ks = utf8_char_rest [OF utf8_Append.hyps(2) [unfolded c]]
  consider "n < length s" | "n = length s" | "length s < n" "n < length s + length c"
    | "length s + length c \<le> n" by linarith
  then show ?case
  proof cases
    case 1
    with utf8_Append.IH show ?thesis by (simp add: nth_append)
  next
    case 2
    then have "take n (s @ c) = s @ []" "(s @ c) ! n = l" by (simp_all add: c)
    with utf8_Append.hyps(1) l show ?thesis by metis
  next
    case 3
    define k where "k = n - length s - 1"
    have k: "n - length s = Suc k" "k < length ks" using 3 by (auto simp: k_def c)
    then have "take n (s @ c) = s @ (l # take k ks)" using 3 by (simp add: c)
    moreover have "(s @ c) ! n = ks ! k" using 3 k by (simp add: nth_append c)
    moreover have "list_all is_continuation (take k ks)" using ks by (auto simp: list_all_iff dest: in_set_takeD)
    moreover have "is_continuation (ks ! k)" using ks k by (simp add: list_all_length)
    moreover have "n < length (s @ c)" using 3 by simp
    ultimately show ?thesis using utf8_Append.hyps(1) l by metis
  next
    case 4
    then have "take n (s @ c) = (s @ c) @ []" "\<not> n < length (s @ c)" by simp_all
    with utf8.utf8_Append [OF utf8_Append.hyps] show ?thesis by metis
  qed
qed

lemma replacement_simp: "replacement_bytes = [char_of (239 :: nat), char_of (191 :: nat), char_of (189 :: nat)]"
  by (simp add: replacement_bytes_def)

lemma replacement_classes:
  "\<not> is_continuation (char_of (239 :: nat))" "is_continuation (char_of (191 :: nat))"
  "is_continuation (char_of (189 :: nat))"
  by (simp_all add: is_continuation_def byte_def of_char_of)

lemma utf8_strip_replacement:
  assumes "utf8 (v @ replacement_bytes)"
  shows "utf8 v"
  using assms
proof (cases rule: utf8.cases)
  case utf8_Nil
  then show ?thesis by (simp add: replacement_simp)
next
  case (utf8_Append s c)
  obtain l ks where c: "c = l # ks" using utf8_Append(3) by (cases c) (auto simp: utf8_char_def)
  note l = utf8_char_lead [OF utf8_Append(3) [unfolded c]]
    and ks = utf8_char_rest [OF utf8_Append(3) [unfolded c]]
  have "takeWhile is_continuation (rev (v @ replacement_bytes)) = rev [char_of (191 :: nat), char_of (189 :: nat)]"
    by (simp add: replacement_simp replacement_classes)
  moreover have "takeWhile is_continuation (rev (s @ c)) = rev ks"
    using l ks takeWhile_append2 [of "rev ks" is_continuation "l # rev s"]
    by (simp add: c list_all_iff)
  ultimately have "ks = [char_of (191 :: nat), char_of (189 :: nat)]"
    using utf8_Append(1) by (metis rev_rev_ident)
  with utf8_Append(1) c have "v = s" by (simp add: replacement_simp)
  with utf8_Append(2) show ?thesis by simp
qed

lemma cut_utf8_wf:
  assumes "utf8 s"
  shows "utf8 (cut_utf8 n s)"
proof -
  from utf8_take [OF assms, of n] obtain u p where t: "take n s = u @ p" and u: "utf8 u"
    and p: "p = [] \<and> \<not> (n < length s \<and> is_continuation (s ! n)) \<or>
     (\<exists>l ks. p = l # ks \<and> \<not> is_continuation l \<and> list_all is_continuation ks
        \<and> n < length s \<and> is_continuation (s ! n))" by blast
  from p show ?thesis
  proof
    assume *: "p = [] \<and> \<not> (n < length s \<and> is_continuation (s ! n))"
    show ?thesis
    proof (cases "3 \<le> length u \<and> drop (length u - 3) u = replacement_bytes")
      case True
      then have "u = take (length u - 3) u @ replacement_bytes" by (metis append_take_drop_id)
      with u utf8_strip_replacement have "utf8 (take (length u - 3) u)" by metis
      with * True t show ?thesis by (auto simp: cut_utf8_def Let_def)
    next
      case False
      with * t u show ?thesis by (auto simp: cut_utf8_def Let_def)
    qed
  next
    assume "\<exists>l ks. p = l # ks \<and> \<not> is_continuation l \<and> list_all is_continuation ks
        \<and> n < length s \<and> is_continuation (s ! n)"
    then obtain l ks where p: "p = l # ks" "\<not> is_continuation l" "list_all is_continuation ks"
      "n < length s" "is_continuation (s ! n)" by blast
    then have "dropWhile is_continuation (rev ks @ l # rev u) = l # rev u"
      using dropWhile_append2 [of "rev ks" is_continuation "l # rev u"] by (simp add: list_all_iff)
    then have "cut_utf8 n s = u" using p by (simp add: cut_utf8_def t)
    with u show ?thesis by simp
  qed
qed

lemma utf8_ascii: "list_all (\<lambda>c. byte c < 128) s \<Longrightarrow> utf8 s"
proof (induction s rule: rev_induct)
  case (snoc c s)
  then have "utf8_char [c]" by (simp add: utf8_char_def lead_length_def)
  with snoc show ?case by (intro utf8.utf8_Append) simp_all
qed (rule utf8.utf8_Nil)

lemma utf8_marker: "utf8 truncation_marker"
proof -
  have "utf8_char (map char_of [226 :: nat, 128, 166])"
    by (simp add: utf8_char_def lead_length_def is_continuation_def byte_def of_char_of)
  then have "utf8 ([] @ map char_of [226 :: nat, 128, 166])" by (rule utf8.utf8_Append [OF utf8.utf8_Nil])
  moreover have "utf8 ''[truncated]''" by (rule utf8_ascii) (simp add: byte_def)
  ultimately show ?thesis unfolding truncation_marker_def using utf8_append by fastforce
qed

lemma truncate_text_wf: "utf8 s \<Longrightarrow> utf8 (truncate_text s n)"
  by (simp add: truncate_text_def cut_utf8_wf utf8_append utf8_marker)

end
