(* ===== verification/Db_Access.thy ===== *)
theory Db_Access
  imports Errors Schema
begin

text \<open>
  packages/core/src/db.ts: the classification and wrapping of driver errors, and the wait for the
  database. The driver itself, its pool and the wire protocol are not modelled; what a statement
  does is the statement theories' business, and a call of \<open>Db.query\<close> is \<open>query\<close> below.
\<close>

subsection \<open>Error codes\<close>

definition UNIQUE_VIOLATION :: string where "UNIQUE_VIOLATION = ''23505''"
definition CHECK_VIOLATION :: string where "CHECK_VIOLATION = ''23514''"
definition FOREIGN_KEY_VIOLATION :: string where "FOREIGN_KEY_VIOLATION = ''23503''"
definition SERIALIZATION_FAILURE :: string where "SERIALIZATION_FAILURE = ''40001''"
definition DEADLOCK_DETECTED :: string where "DEADLOCK_DETECTED = ''40P01''"
definition QUERY_CANCELED :: string where "QUERY_CANCELED = ''57014''"
definition ADMIN_SHUTDOWN :: string where "ADMIN_SHUTDOWN = ''57P01''"
definition CANNOT_CONNECT_NOW :: string where "CANNOT_CONNECT_NOW = ''57P03''"
definition UNDEFINED_TABLE :: string where "UNDEFINED_TABLE = ''42P01''"

lemmas PG_CODES = UNIQUE_VIOLATION_def CHECK_VIOLATION_def FOREIGN_KEY_VIOLATION_def
  SERIALIZATION_FAILURE_def DEADLOCK_DETECTED_def QUERY_CANCELED_def ADMIN_SHUTDOWN_def
  CANNOT_CONNECT_NOW_def UNDEFINED_TABLE_def

text \<open>The string property \<open>code\<close> of a value; an instance of the hierarchy has its own.\<close>

definition pgErrorCode :: "thrown \<Rightarrow> string option" where
  "pgErrorCode e =
     (case e of
        Thrown_error x \<Rightarrow>
          (case code_of (x_class x) of Some c \<Rightarrow> Some (code_name c) | None \<Rightarrow> x_pgcode x)
      | Thrown_value _ _ c _ \<Rightarrow> c
      | _ \<Rightarrow> None)"

definition to_lower :: "char \<Rightarrow> char" where
  "to_lower c = (if 65 \<le> byte c \<and> byte c \<le> 90 then char_of (byte c + 32) else c)"

fun is_prefix :: "'a list \<Rightarrow> 'a list \<Rightarrow> bool" where
  "is_prefix [] ys = True"
| "is_prefix (x # xs) [] = False"
| "is_prefix (x # xs) (y # ys) = (x = y \<and> is_prefix xs ys)"

fun contains :: "'a list \<Rightarrow> 'a list \<Rightarrow> bool" where
  "contains pat [] = is_prefix pat []"
| "contains pat (y # ys) = (is_prefix pat (y # ys) \<or> contains pat ys)"

definition connectivity_words :: "string list" where
  "connectivity_words = [''ECONNREFUSED'', ''ECONNRESET'', ''ETIMEDOUT'', ''EPIPE'',
     ''EHOSTUNREACH'', ''ENOTFOUND'', ''terminating connection'']"

definition isTransientDbError :: "thrown \<Rightarrow> bool" where
  "isTransientDbError e =
     (case pgErrorCode e of
        Some code \<Rightarrow> code \<in> {SERIALIZATION_FAILURE, DEADLOCK_DETECTED, ADMIN_SHUTDOWN,
                            CANNOT_CONNECT_NOW}
      | None \<Rightarrow>
          (case e of
             Thrown_error x \<Rightarrow>
               list_ex (\<lambda>w. contains (map to_lower w) (map to_lower (x_message x)))
                 connectivity_words
           | _ \<Rightarrow> False))"

subsection \<open>Wrapping\<close>

definition is_space :: "char \<Rightarrow> bool" where
  "is_space c \<longleftrightarrow> byte c \<in> {9, 10, 11, 12, 13, 32}"

definition trim :: "string \<Rightarrow> string" where
  "trim s = rev (dropWhile is_space (rev (dropWhile is_space s)))"

text \<open>Statement texts are ASCII, so characters are bytes here.\<close>

definition firstLine :: "string \<Rightarrow> string" where
  "firstLine s =
     (let line = takeWhile (\<lambda>c. byte c \<noteq> 10) (trim s)
      in if 120 < length line then take 117 line @ ''...'' else line)"

definition wrapDbError :: "thrown \<Rightarrow> string \<Rightarrow> thrown" where
  "wrapDbError e statement =
     (if pgErrorCode e = Some UNIQUE_VIOLATION then e
      else case e of
        Thrown_error x \<Rightarrow> Thrown_error (Js_error DatabaseError (class_name DatabaseError)
          (x_message x @ '' [statement: '' @ firstLine statement @ '']'') None None False 0 (Some x))
      | _ \<Rightarrow> e)"

text \<open>
  What a failed statement throws, as its callers see it: the untouched driver error of a unique
  violation, or a \<open>DatabaseError\<close> around the driver error. \<open>Fault\<close> is an error of the program's
  own classes.
\<close>

datatype fault_details =
    No_details
  | About_job ident
  | About_transition job_state job_state "job_state list"
  | About_existing ident
  | About_item nat

datatype fault =
    Passed_through pg_error
  | Wrapped pg_error
  | Fault error_class fault_details

definition query :: "'r stmt \<Rightarrow> db \<Rightarrow> fault + 'r \<times> db" where
  "query s d =
     (case s d of
        Inl Unique_violation \<Rightarrow> Inl (Passed_through Unique_violation)
      | Inl e \<Rightarrow> Inl (Wrapped e)
      | Inr x \<Rightarrow> Inr x)"

lemma query_Inr [simp]: "query s d = Inr x \<longleftrightarrow> s d = Inr x"
  by (auto simp: query_def split: sum.splits pg_error.splits)

lemma query_of_Inr [simp]: "s d = Inr x \<Longrightarrow> query s d = Inr x"
  by simp

text \<open>A read never fails and changes nothing.\<close>

definition reading :: "(db \<Rightarrow> 'r) \<Rightarrow> 'r stmt" where
  "reading f d = Inr (f d, d)"

subsection \<open>Waiting for the database\<close>

definition unwrapCause :: "thrown \<Rightarrow> thrown" where
  "unwrapCause e =
     (case e of
        Thrown_error x \<Rightarrow>
          (case x_cause x of
             Some c \<Rightarrow> if x_class x = DatabaseError then Thrown_error c else e
           | None \<Rightarrow> e)
      | _ \<Rightarrow> e)"

datatype wait_result =
    Connected nat
  | Not_transient nat thrown
  | Unreachable nat thrown

text \<open>
  \<open>ping n\<close> is the outcome of the n-th ping (None: it answered). The loop is the counting loop of
  the source, from \<open>attempt\<close> with \<open>left\<close> tries to go.
\<close>

fun wait_loop :: "(nat \<Rightarrow> thrown option) \<Rightarrow> nat \<Rightarrow> nat \<Rightarrow> thrown \<Rightarrow> wait_result" where
  "wait_loop ping attempt 0 lastError = Unreachable (attempt - 1) lastError"
| "wait_loop ping attempt (Suc left) lastError =
     (case ping attempt of
        None \<Rightarrow> Connected attempt
      | Some e \<Rightarrow>
          if \<not> isTransientDbError (unwrapCause e) then Not_transient attempt e
          else wait_loop ping (Suc attempt) left e)"

definition waitForDatabase :: "(nat \<Rightarrow> thrown option) \<Rightarrow> nat \<Rightarrow> wait_result" where
  "waitForDatabase ping maxAttempts = wait_loop ping 1 maxAttempts Thrown_undefined"

definition reconnect_delay :: "rat \<Rightarrow> rat \<Rightarrow> nat \<Rightarrow> rat \<Rightarrow> int" where
  "reconnect_delay initialMs maxMs attempt rand =
     round (rand * min maxMs (initialMs * 2 ^ (attempt - 1)))"

subsection \<open>Facts\<close>

lemma length_firstLine: "length (firstLine s) \<le> 120"
  by (simp add: firstLine_def Let_def)

lemma wrap_keeps_unique: "pgErrorCode e = Some UNIQUE_VIOLATION \<Longrightarrow> wrapDbError e s = e"
  by (simp add: wrapDbError_def)

lemma unwrap_wrap:
  "pgErrorCode (Thrown_error x) \<noteq> Some UNIQUE_VIOLATION \<Longrightarrow>
   unwrapCause (wrapDbError (Thrown_error x) s) = Thrown_error x"
  by (simp add: wrapDbError_def unwrapCause_def)

text \<open>All pings from the \<open>a\<close>-th up to the \<open>k\<close>-th failed for want of a connection.\<close>

definition transient_until :: "(nat \<Rightarrow> thrown option) \<Rightarrow> nat \<Rightarrow> nat \<Rightarrow> bool" where
  "transient_until ping a k \<longleftrightarrow>
     (\<forall>i \<in> {a..<k}. case ping i of None \<Rightarrow> False | Some e \<Rightarrow> isTransientDbError (unwrapCause e))"

lemma transient_until_same [simp]: "transient_until ping a a"
  by (simp add: transient_until_def)

lemma transient_until_step:
  assumes "transient_until ping (Suc a) k" and "ping a = Some e" and "isTransientDbError (unwrapCause e)"
  shows "transient_until ping a k"
  unfolding transient_until_def
proof
  fix i assume "i \<in> {a..<k}"
  then have "i = a \<or> i \<in> {Suc a..<k}" by auto
  with assms show "case ping i of None \<Rightarrow> False | Some e \<Rightarrow> isTransientDbError (unwrapCause e)"
    by (auto simp: transient_until_def)
qed

lemma wait_loop_spec:
  "(case wait_loop ping a n le of
      Connected k \<Rightarrow> a \<le> k \<and> k < a + n \<and> ping k = None \<and> transient_until ping a k
    | Not_transient k e \<Rightarrow> a \<le> k \<and> k < a + n \<and> ping k = Some e
        \<and> \<not> isTransientDbError (unwrapCause e) \<and> transient_until ping a k
    | Unreachable k e \<Rightarrow> k = a + n - 1 \<and> transient_until ping a (a + n))"
proof (induction ping a n le rule: wait_loop.induct)
  case (2 ping attempt left le)
  show ?case
  proof (cases "ping attempt")
    case None
    then show ?thesis by simp
  next
    case (Some e)
    show ?thesis
    proof (cases "isTransientDbError (unwrapCause e)")
      case False
      with Some show ?thesis by simp
    next
      case True
      with 2 [OF Some] Some show ?thesis
        by (auto split: wait_result.splits intro: transient_until_step)
    qed
  qed
qed simp

end
