(* ===== verification/Rows.thy ===== *)
theory Rows
  imports Job_Types
begin

text \<open>
  packages/core/src/sql/rows.ts: the mapping of rows to the domain types of
  packages/core/src/types.ts. The \<open>job\<close>, \<open>queue_config\<close> and \<open>schedule\<close> records are the rows; the
  records here are what a caller of the client gets. The \<open>errors\<close> column is always an array.
\<close>

record job_view =
  vj_id :: ident
  vj_queue :: string
  vj_type :: string
  vj_state :: job_state
  vj_payload :: json
  vj_metadata :: "json option"
  vj_priority :: int
  vj_attempt :: int
  vj_maxAttempts :: int
  vj_leaseSeconds :: int
  vj_runAt :: instant
  vj_enqueuedAt :: instant
  vj_startedAt :: "instant option"
  vj_finishedAt :: "instant option"
  vj_leaseExpiresAt :: "instant option"
  vj_cancelRequestedAt :: "instant option"
  vj_workerId :: "string option"
  vj_idempotencyKey :: "string option"
  vj_uniqueKey :: "string option"
  vj_deadReason :: "dead_reason option"
  vj_errors :: "job_error list"
  vj_traceContext :: "string option"
  vj_scheduleId :: "ident option"
  vj_updatedAt :: instant

definition toJob :: "job \<Rightarrow> job_view" where
  "toJob r = \<lparr>vj_id = j_id r, vj_queue = j_queue r, vj_type = j_type r, vj_state = j_state r,
     vj_payload = j_payload r, vj_metadata = j_metadata r, vj_priority = j_priority r,
     vj_attempt = j_attempt r, vj_maxAttempts = j_max_attempts r,
     vj_leaseSeconds = j_lease_seconds r, vj_runAt = j_run_at r,
     vj_enqueuedAt = j_enqueued_at r, vj_startedAt = j_started_at r,
     vj_finishedAt = j_finished_at r, vj_leaseExpiresAt = j_lease_expires_at r,
     vj_cancelRequestedAt = j_cancel_requested_at r, vj_workerId = j_worker_id r,
     vj_idempotencyKey = j_idempotency_key r, vj_uniqueKey = j_unique_key r,
     vj_deadReason = j_dead_reason r, vj_errors = j_errors r,
     vj_traceContext = j_trace_context r, vj_scheduleId = j_schedule_id r,
     vj_updatedAt = j_updated_at r\<rparr>"

record queue_config_view =
  vq_queue :: string
  vq_paused :: bool
  vq_maxAttempts :: "int option"
  vq_leaseSeconds :: "int option"
  vq_priorityAging :: bool
  vq_agingThresholdSeconds :: "int option"
  vq_concurrencyLimit :: "int option"
  vq_retainSucceeded :: int
  vq_retainDead :: int

text \<open>The retention windows are intervals as text in the program, microseconds here.\<close>

definition toQueueConfig :: "queue_config \<Rightarrow> queue_config_view" where
  "toQueueConfig r = \<lparr>vq_queue = qc_queue r, vq_paused = qc_paused r,
     vq_maxAttempts = qc_max_attempts r, vq_leaseSeconds = qc_lease_seconds r,
     vq_priorityAging = qc_priority_aging r,
     vq_agingThresholdSeconds = qc_aging_threshold_s r,
     vq_concurrencyLimit = qc_concurrency_limit r, vq_retainSucceeded = qc_retain_succeeded r,
     vq_retainDead = qc_retain_dead r\<rparr>"

record schedule_view =
  vs_id :: ident
  vs_name :: string
  vs_queue :: string
  vs_type :: string
  vs_payload :: json
  vs_cron :: string
  vs_timezone :: string
  vs_catchupPolicy :: catchup_policy
  vs_enabled :: bool
  vs_nextRunAt :: instant
  vs_lastRunAt :: "instant option"
  vs_lastJobId :: "ident option"

definition toSchedule :: "schedule \<Rightarrow> schedule_view" where
  "toSchedule r = \<lparr>vs_id = s_id r, vs_name = s_name r, vs_queue = s_queue r, vs_type = s_type r,
     vs_payload = s_payload r, vs_cron = s_cron r, vs_timezone = s_timezone r,
     vs_catchupPolicy = s_catchup_policy r, vs_enabled = s_enabled r,
     vs_nextRunAt = s_next_run_at r, vs_lastRunAt = s_last_run_at r,
     vs_lastJobId = s_last_job_id r\<rparr>"

text \<open>The mapping keeps every column: a row is determined by its view.\<close>

lemma toJob_inj: "toJob r = toJob s \<Longrightarrow> r = s"
  by (simp add: toJob_def job.equality)

lemma toJob_simps [simp]:
  "vj_id (toJob r) = j_id r" "vj_state (toJob r) = j_state r" "vj_attempt (toJob r) = j_attempt r"
  "vj_runAt (toJob r) = j_run_at r" "vj_queue (toJob r) = j_queue r"
  by (simp_all add: toJob_def)

end
