(* ===== verification/Client.thy ===== *)
theory Client
  imports Db_Access Rows Stmt_Enqueue Stmt_Query State_Machine
begin

text \<open>
  packages/core/src/client.ts: the client's operations, each composed of statements. Other
  sessions may act between two statements of one operation: \<open>env n\<close> is what they do before its
  n-th further statement (the identity when the client is alone). \<open>now\<close> is the database clock,
  \<open>cnow\<close> the client's. Counts the program keeps for metrics and logs are not modelled.
\<close>

type_synonym env = "nat \<Rightarrow> db \<Rightarrow> db"

definition alone :: env where
  "alone n d = d"

subsection \<open>JSON text\<close>

definition hex_digit :: "nat \<Rightarrow> char" where
  "hex_digit n = (if n < 10 then digit_char n else char_of (87 + n))"

text \<open>The escapes of \<open>JSON.stringify\<close>; bytes above ASCII are parts of characters and stay.\<close>

definition escape_char :: "char \<Rightarrow> string" where
  "escape_char c =
     (let b = byte c
      in if b = 34 then map char_of [92 :: nat, 34]
         else if b = 92 then map char_of [92 :: nat, 92]
         else if b = 8 then map char_of [92 :: nat, 98]
         else if b = 12 then map char_of [92 :: nat, 102]
         else if b = 10 then map char_of [92 :: nat, 110]
         else if b = 13 then map char_of [92 :: nat, 114]
         else if b = 9 then map char_of [92 :: nat, 116]
         else if b < 32 then char_of (92 :: nat) # ''u00'' @ [hex_digit (b div 16), hex_digit (b mod 16)]
         else [c])"

definition quoted :: "string \<Rightarrow> string" where
  "quoted s = char_of (34 :: nat) # concat (map escape_char s) @ [char_of (34 :: nat)]"

fun commas :: "string list \<Rightarrow> string" where
  "commas [] = []"
| "commas [x] = x"
| "commas (x # xs) = x @ '','' @ commas xs"

fun stringify :: "json \<Rightarrow> string" where
  "stringify JNull = ''null''"
| "stringify (JBool b) = (if b then ''true'' else ''false'')"
| "stringify (JNum n) = n"
| "stringify (JStr s) = quoted s"
| "stringify (JArr xs) = ''['' @ commas (map stringify xs) @ '']''"
| "stringify (JObj fs) =
     ''{'' @ commas (map (\<lambda>(k, v). quoted k @ '':'' @ stringify v) fs) @ ''}''"

subsection \<open>Validation\<close>

definition name_char :: "char \<Rightarrow> bool" where
  "name_char c \<longleftrightarrow> (let b = byte c in
     97 \<le> b \<and> b \<le> 122 \<or> 65 \<le> b \<and> b \<le> 90 \<or> 48 \<le> b \<and> b \<le> 57 \<or> b \<in> {46, 95, 58, 45})"

text \<open>
  The length is counted in UTF-16 units by the source, in bytes here: they differ only for names
  the character class rejects with the same error.
\<close>

definition validateName :: "string \<Rightarrow> fault + unit" where
  "validateName v =
     (if length v = 0 then Inl (Fault ValidationError No_details)
      else if 128 < length v then Inl (Fault ValidationError No_details)
      else if \<not> list_all name_char v then Inl (Fault ValidationError No_details)
      else Inr ())"

definition clampLimit :: "int \<Rightarrow> nat" where
  "clampLimit n = nat (min (max 1 n) 200)"

subsection \<open>State\<close>

record client_defaults =
  df_maxAttempts :: int
  df_leaseSeconds :: int
  df_maxPayloadBytes :: nat

definition DEFAULTS :: client_defaults where
  "DEFAULTS = \<lparr>df_maxAttempts = 5, df_leaseSeconds = 30, df_maxPayloadBytes = 262144\<rparr>"

record client =
  cl_defaults :: client_defaults
  cl_queueCache :: "string \<Rightarrow> (instant \<times> queue_defaults) option"

definition new_client :: client where
  "new_client = \<lparr>cl_defaults = DEFAULTS, cl_queueCache = (\<lambda>_. None)\<rparr>"

definition queueCacheTtlMs :: int where
  "queueCacheTtlMs = 5000"

definition no_queue_defaults :: queue_defaults where
  "no_queue_defaults = \<lparr>qd_paused = False, qd_max_attempts = None, qd_lease_seconds = None,
     qd_priority_aging = False, qd_aging_threshold_s = None, qd_concurrency_limit = None\<rparr>"

definition fetch_defaults :: "string \<Rightarrow> db \<Rightarrow> queue_defaults" where
  "fetch_defaults q d =
     (case resolveQueueDefaults q d of [] \<Rightarrow> no_queue_defaults | row # _ \<Rightarrow> row)"

definition queueDefaults :: "instant \<Rightarrow> string \<Rightarrow> client \<Rightarrow> db \<Rightarrow> queue_defaults \<times> client" where
  "queueDefaults cnow q cl d =
     (let fresh = (fetch_defaults q d,
            cl\<lparr>cl_queueCache := (cl_queueCache cl)(q \<mapsto> (cnow, fetch_defaults q d))\<rparr>)
      in case cl_queueCache cl q of
           Some (since, row) \<Rightarrow>
             if cnow - since < us_per_ms * queueCacheTtlMs then (row, cl) else fresh
         | None \<Rightarrow> fresh)"

text \<open>\<open>new Date(Date.now() + delaySeconds * 1000)\<close> keeps whole milliseconds.\<close>

definition delayed :: "instant \<Rightarrow> rat \<Rightarrow> instant" where
  "delayed cnow secs = us_per_ms * \<lfloor>of_int (cnow div us_per_ms) + secs * 1000\<rfloor>"

definition buildRow ::
  "instant \<Rightarrow> string \<Rightarrow> string \<Rightarrow> json \<Rightarrow> enqueue_options \<Rightarrow> client \<Rightarrow> db
   \<Rightarrow> (fault + enqueue_row) \<times> client" where
  "buildRow cnow q ty payload opts cl d =
     (if length (stringify payload) > df_maxPayloadBytes (cl_defaults cl)
      then (Inl (Fault PayloadTooLargeError No_details), cl)
      else if o_runAt opts \<noteq> None \<and> o_delaySeconds opts \<noteq> None
      then (Inl (Fault ValidationError No_details), cl)
      else if (case o_delaySeconds opts of None \<Rightarrow> False | Some s \<Rightarrow> s < 0)
      then (Inl (Fault ValidationError No_details), cl)
      else
        let (qc, cl') = queueDefaults cnow q cl d;
            maxAttempts = coalesce (o_maxAttempts opts)
              (coalesce (qd_max_attempts qc) (df_maxAttempts (cl_defaults cl)));
            leaseSeconds = coalesce (o_leaseSeconds opts)
              (coalesce (qd_lease_seconds qc) (df_leaseSeconds (cl_defaults cl)))
        in if maxAttempts < 1 then (Inl (Fault ValidationError No_details), cl')
           else if leaseSeconds < 1 then (Inl (Fault ValidationError No_details), cl')
           else if o_runAt opts = Some None then (Inl (Fault ValidationError No_details), cl')
           else
             (Inr \<lparr>n_queue = q, n_type = ty, n_payload = payload, n_metadata = o_metadata opts,
                n_priority = coalesce (o_priority opts) 0, n_maxAttempts = maxAttempts,
                n_leaseSeconds = leaseSeconds,
                n_runAt = (case o_runAt opts of
                    Some r \<Rightarrow> r
                  | None \<Rightarrow> (case o_delaySeconds opts of
                        None \<Rightarrow> None
                      | Some s \<Rightarrow> if 0 < s then Some (delayed cnow s) else None)),
                n_idempotencyKey = o_idempotencyKey opts, n_uniqueKey = o_uniqueKey opts,
                n_traceContext = o_traceContext opts, n_scheduleId = None\<rparr>, cl'))"

subsection \<open>Enqueue\<close>

definition resolveConflict ::
  "env \<Rightarrow> string \<Rightarrow> enqueue_row \<Rightarrow> db \<Rightarrow> (fault + enqueue_result) \<times> db" where
  "resolveConflict env q row d =
     (let d1 = env 1 d; d2 = env 2 d1;
          by_unique =
            (case n_uniqueKey row of
               Some u \<Rightarrow>
                 (case findByUniqueKey q u d2 of
                    i # _ \<Rightarrow> (Inl (Fault ConflictError (About_existing i)), d2)
                  | [] \<Rightarrow> (Inl (Fault ConflictError No_details), d2))
             | None \<Rightarrow> (Inl (Fault ConflictError No_details), d2))
      in case n_idempotencyKey row of
           Some k \<Rightarrow>
             (case findByIdempotencyKey q k d1 of
                i # _ \<Rightarrow> (Inr \<lparr>er_id = Some i, er_deduplicated = True\<rparr>, d1)
              | [] \<Rightarrow> by_unique)
         | None \<Rightarrow> by_unique)"

text \<open>The \<open>try\<close> block of \<open>enqueue\<close>: the insert, and what becomes of a conflict.\<close>

definition submit ::
  "env \<Rightarrow> instant \<Rightarrow> string \<Rightarrow> enqueue_row \<Rightarrow> db \<Rightarrow> (fault + enqueue_result) \<times> db" where
  "submit env now q row d =
     (case query (insertJob now row) d of
        Inr (i # _, d1) \<Rightarrow> (Inr \<lparr>er_id = Some i, er_deduplicated = False\<rparr>, d1)
      | Inr ([], d1) \<Rightarrow> resolveConflict env q row d1
      | Inl (Passed_through Unique_violation) \<Rightarrow> resolveConflict env q row d
      | Inl e \<Rightarrow> (Inl e, d))"

definition enqueue ::
  "env \<Rightarrow> instant \<Rightarrow> instant \<Rightarrow> string \<Rightarrow> string \<Rightarrow> json \<Rightarrow> enqueue_options \<Rightarrow> client \<Rightarrow> db
   \<Rightarrow> (fault + enqueue_result) \<times> client \<times> db" where
  "enqueue env now cnow q ty payload opts cl d =
     (case validateName q of Inl e \<Rightarrow> (Inl e, cl, d) | Inr _ \<Rightarrow>
      case validateName ty of Inl e \<Rightarrow> (Inl e, cl, d) | Inr _ \<Rightarrow>
      case buildRow cnow q ty payload opts cl d of
        (Inl e, cl') \<Rightarrow> (Inl e, cl', d)
      | (Inr row, cl') \<Rightarrow> (let (r, d') = submit env now q row (env 0 d) in (r, cl', d')))"

record batch_item =
  bi_type :: string
  bi_payload :: json
  bi_options :: enqueue_options

text \<open>The first invalid item rejects the batch; its index is in the error.\<close>

fun build_rows ::
  "instant \<Rightarrow> string \<Rightarrow> nat \<Rightarrow> batch_item list \<Rightarrow> client \<Rightarrow> db \<Rightarrow> (fault + enqueue_row list) \<times> client"
where
  "build_rows cnow q n [] cl d = (Inr [], cl)"
| "build_rows cnow q n (it # its) cl d =
     (case validateName (bi_type it) of
        Inl e \<Rightarrow> (Inl (Fault ValidationError (About_item n)), cl)
      | Inr _ \<Rightarrow>
          (case buildRow cnow q (bi_type it) (bi_payload it) (bi_options it) cl d of
             (Inl e, cl') \<Rightarrow> (Inl (Fault ValidationError (About_item n)), cl')
           | (Inr row, cl') \<Rightarrow>
               (case build_rows cnow q (Suc n) its cl' d of
                  (Inl e, cl'') \<Rightarrow> (Inl e, cl'')
                | (Inr rows, cl'') \<Rightarrow> (Inr (row # rows), cl''))))"

definition byIdem :: "inserted_row list \<Rightarrow> string \<Rightarrow> ident option" where
  "byIdem rs = fold (\<lambda>r m. case ir_idempotency_key r of
       None \<Rightarrow> m | Some k \<Rightarrow> m(k \<mapsto> ir_id r)) rs (\<lambda>_. None)"

text \<open>
  The results in request order: a keyed row by its key, or by a lookup when it was not inserted;
  an unkeyed row by position. \<open>er_id\<close> is None for the empty string of the source.
\<close>

fun map_back ::
  "env \<Rightarrow> nat \<Rightarrow> string \<Rightarrow> (string \<Rightarrow> ident option) \<Rightarrow> enqueue_row list \<Rightarrow> ident list \<Rightarrow> db
   \<Rightarrow> enqueue_result list \<times> db" where
  "map_back env n q m [] us d = ([], d)"
| "map_back env n q m (row # rows) us d =
     (case n_idempotencyKey row of
        Some k \<Rightarrow>
          (case m k of
             Some i \<Rightarrow>
               (let (rs, d') = map_back env (Suc n) q m rows us d
                in (\<lparr>er_id = Some i, er_deduplicated = False\<rparr> # rs, d'))
           | None \<Rightarrow>
               (let d1 = env n d;
                    found = (case findByIdempotencyKey q k d1 of [] \<Rightarrow> None | i # _ \<Rightarrow> Some i);
                    (rs, d') = map_back env (Suc n) q m rows us d1
                in (\<lparr>er_id = found, er_deduplicated = True\<rparr> # rs, d')))
      | None \<Rightarrow>
          (let (rs, d') = map_back env (Suc n) q m rows (drop 1 us) d
           in (\<lparr>er_id = (case us of [] \<Rightarrow> None | i # _ \<Rightarrow> Some i), er_deduplicated = False\<rparr> # rs, d')))"

definition enqueueBatch ::
  "env \<Rightarrow> instant \<Rightarrow> instant \<Rightarrow> string \<Rightarrow> batch_item list \<Rightarrow> client \<Rightarrow> db
   \<Rightarrow> (fault + enqueue_result list) \<times> client \<times> db" where
  "enqueueBatch env now cnow q items cl d =
     (case validateName q of Inl e \<Rightarrow> (Inl e, cl, d) | Inr _ \<Rightarrow>
      if items = [] then (Inr [], cl, d)
      else if 1000 < length items then (Inl (Fault ValidationError No_details), cl, d)
      else case build_rows cnow q 0 items cl d of
        (Inl e, cl') \<Rightarrow> (Inl e, cl', d)
      | (Inr rows, cl') \<Rightarrow>
          let d0 = env 0 d
          in case query (insertJobsBatch now rows) d0 of
               Inl e \<Rightarrow> (Inl e, cl', d0)
             | Inr (ins, d1) \<Rightarrow>
                 (let unkeyed = map ir_id (filter (\<lambda>r. ir_idempotency_key r = None) ins);
                      (out, d2) = map_back env 1 q (byIdem ins) rows unkeyed d1
                  in (Inr out, cl', d2)))"

subsection \<open>Reads\<close>

definition get_job :: "ident \<Rightarrow> db \<Rightarrow> fault + job_view" where
  "get_job i d =
     (case getJob i d of
        [] \<Rightarrow> Inl (Fault JobNotFoundError (About_job i))
      | r # _ \<Rightarrow> Inr (toJob r))"

definition list_jobs :: "list_params \<Rightarrow> int \<Rightarrow> db \<Rightarrow> job_view list" where
  "list_jobs p limit d = map toJob (listJobs (p\<lparr>lp_limit := clampLimit limit\<rparr>) d)"

definition list_dead_jobs :: "dead_params \<Rightarrow> int \<Rightarrow> db \<Rightarrow> job_view list" where
  "list_dead_jobs p limit d = map toJob (listDeadJobs (p\<lparr>dp_limit := clampLimit limit\<rparr>) d)"

definition queue_stats :: "db \<Rightarrow> string \<Rightarrow> (job_state \<Rightarrow> nat option) option" where
  "queue_stats d = fold (\<lambda>(q, s, n) out. out(q \<mapsto> (coalesce (out q) (\<lambda>_. None))(s \<mapsto> n)))
     (queueStats d) (\<lambda>_. None)"

definition get_queue_config :: "string \<Rightarrow> db \<Rightarrow> queue_config_view option" where
  "get_queue_config q d =
     (case getQueueConfig q d of [] \<Rightarrow> None | r # _ \<Rightarrow> Some (toQueueConfig r))"

subsection \<open>Administration\<close>

definition audit ::
  "instant \<Rightarrow> string \<Rightarrow> string \<Rightarrow> string option \<Rightarrow> json option \<Rightarrow> db \<Rightarrow> db" where
  "audit now actor action target detail d =
     (case query (insertAuditLog now actor action target detail) d of
        Inl _ \<Rightarrow> d | Inr (_, d') \<Rightarrow> d')"

record cancel_result =
  cr_state :: job_state
  cr_acknowledged :: bool

definition cancel ::
  "env \<Rightarrow> instant \<Rightarrow> ident \<Rightarrow> string \<Rightarrow> db \<Rightarrow> (fault + cancel_result) \<times> db" where
  "cancel env now i actor d =
     (case query (cancelAvailableJob now i) d of
        Inl e \<Rightarrow> (Inl e, d)
      | Inr (_ # _, d1) \<Rightarrow>
          (Inr \<lparr>cr_state = Cancelled, cr_acknowledged = True\<rparr>,
           audit now actor ''job.cancel'' (Some (show_nat i))
             (Some (JObj [(''from'', JStr ''available'')])) (env 0 d1))
      | Inr ([], d1) \<Rightarrow>
          let d2 = env 0 d1
          in case query (requestCancelRunningJob now i) d2 of
               Inl e \<Rightarrow> (Inl e, d2)
             | Inr (_ # _, d3) \<Rightarrow>
                 (Inr \<lparr>cr_state = Running, cr_acknowledged = False\<rparr>,
                  audit now actor ''job.cancel_requested'' (Some (show_nat i))
                    (Some (JObj [(''from'', JStr ''running'')])) (env 1 d3))
             | Inr ([], d3) \<Rightarrow>
                 let d4 = env 1 d3
                 in case get_job i d4 of
                      Inl e \<Rightarrow> (Inl e, d4)
                    | Inr current \<Rightarrow>
                        (Inl (Fault InvalidTransitionError (About_transition (vj_state current)
                           Cancelled (permittedTargets (vj_state current)))), d4))"

definition conflict_of :: "ident \<Rightarrow> db \<Rightarrow> (fault + 'a) \<times> db" where
  "conflict_of i d =
     (case get_job i d of
        Inl e \<Rightarrow> (Inl e, d)
      | Inr _ \<Rightarrow> (Inl (Fault ConflictError (About_job i)), d))"

definition retryNow ::
  "env \<Rightarrow> instant \<Rightarrow> ident \<Rightarrow> string \<Rightarrow> db \<Rightarrow> (fault + job_view) \<times> db" where
  "retryNow env now i actor d =
     (case query (retryJobNow now i) d of
        Inl e \<Rightarrow> (Inl e, d)
      | Inr ([], d1) \<Rightarrow> conflict_of i (env 0 d1)
      | Inr (_ # _, d1) \<Rightarrow>
          let d2 = env 1 (audit now actor ''job.retry_now'' (Some (show_nat i)) None (env 0 d1))
          in (get_job i d2, d2))"

definition replay_job ::
  "env \<Rightarrow> instant \<Rightarrow> ident \<Rightarrow> string \<Rightarrow> db \<Rightarrow> (fault + job_view) \<times> db" where
  "replay_job env now i actor d =
     (case query (replayDeadJob now i) d of
        Inl e \<Rightarrow> (Inl e, d)
      | Inr ([], d1) \<Rightarrow> conflict_of i (env 0 d1)
      | Inr (_ # _, d1) \<Rightarrow>
          let d2 = env 1 (audit now actor ''job.replay'' (Some (show_nat i)) None (env 0 d1))
          in (get_job i d2, d2))"

record replay_result =
  rs_replayed :: "ident list"
  rs_skipped :: "ident list"

definition replayMany ::
  "env \<Rightarrow> instant \<Rightarrow> ident list \<Rightarrow> string \<Rightarrow> db \<Rightarrow> (fault + replay_result) \<times> db" where
  "replayMany env now is actor d =
     (if is = [] then (Inr \<lparr>rs_replayed = [], rs_skipped = []\<rparr>, d)
      else case query (replayDeadJobs now is) d of
             Inl e \<Rightarrow> (Inl e, d)
           | Inr (replayed, d1) \<Rightarrow>
               (Inr \<lparr>rs_replayed = replayed, rs_skipped = filter (\<lambda>i. i \<notin> set replayed) is\<rparr>,
                audit now actor ''job.replay_bulk'' None
                  (Some (JObj [(''requested'', JNum (show_nat (length is))),
                               (''replayed'', JNum (show_nat (length replayed)))])) (env 0 d1)))"

definition setPaused ::
  "env \<Rightarrow> instant \<Rightarrow> string \<Rightarrow> bool \<Rightarrow> string \<Rightarrow> client \<Rightarrow> db \<Rightarrow> (fault + unit) \<times> client \<times> db" where
  "setPaused env now q p actor cl d =
     (case validateName q of Inl e \<Rightarrow> (Inl e, cl, d) | Inr _ \<Rightarrow>
      case query (setQueuePaused now q p) d of
        Inl e \<Rightarrow> (Inl e, cl, d)
      | Inr (_, d1) \<Rightarrow>
          (Inr (), cl\<lparr>cl_queueCache := (cl_queueCache cl)(q := None)\<rparr>,
           audit now actor (if p then ''queue.pause'' else ''queue.resume'') (Some q) None (env 0 d1)))"

text \<open>
  The batches of a purge: at most \<open>maxBatches\<close>, until one comes back short. \<open>locked n\<close> are the
  rows held by others during the n-th batch.
\<close>

fun purge_loop ::
  "env \<Rightarrow> (nat \<Rightarrow> ident set) \<Rightarrow> string \<Rightarrow> job_state list \<Rightarrow> nat \<Rightarrow> nat \<Rightarrow> nat \<Rightarrow> nat \<Rightarrow> db
   \<Rightarrow> (fault + nat) \<times> db" where
  "purge_loop env locked q states batchSize n 0 deleted d = (Inr deleted, d)"
| "purge_loop env locked q states batchSize n (Suc left) deleted d =
     (let d0 = env n d
      in case query (purgeQueue (locked n) q states batchSize) d0 of
           Inl e \<Rightarrow> (Inl e, d0)
         | Inr (rows, d1) \<Rightarrow>
             if length rows < batchSize then (Inr (deleted + length rows), d1)
             else purge_loop env locked q states batchSize (Suc n) left (deleted + length rows) d1)"

definition purge ::
  "env \<Rightarrow> (nat \<Rightarrow> ident set) \<Rightarrow> instant \<Rightarrow> string \<Rightarrow> job_state list \<Rightarrow> string \<Rightarrow> nat \<Rightarrow> nat \<Rightarrow> string
   \<Rightarrow> db \<Rightarrow> (fault + nat) \<times> db" where
  "purge env locked now q states confirm batchSize maxBatches actor d =
     (case validateName q of Inl e \<Rightarrow> (Inl e, d) | Inr _ \<Rightarrow>
      if confirm \<noteq> q then (Inl (Fault ValidationError No_details), d)
      else if states = [] then (Inl (Fault ValidationError No_details), d)
      else case purge_loop env locked q states batchSize 0 maxBatches 0 d of
             (Inl e, d1) \<Rightarrow> (Inl e, d1)
           | (Inr deleted, d1) \<Rightarrow>
               (Inr deleted,
                audit now actor ''queue.purge'' (Some q)
                  (Some (JObj [(''states'', JArr (map (JStr \<circ> state_name) states)),
                               (''deleted'', JNum (show_nat deleted))])) (env maxBatches d1)))"

end
