(* ===== verification/Client_Laws.thy ===== *)
theory Client_Laws
  imports Client
begin

text \<open>
  What the client's operations guarantee: deduplication by key, the outcome of a cancellation by
  the state it meets, the bounds of a purge, the partition of a bulk replay and the correspondence
  of a batch's results with its items.
\<close>

lemma query_Inl: "query s d = Inl e \<Longrightarrow> \<exists>p. s d = Inl p"
  by (auto simp: query_def split: sum.splits)

lemma alone_simp [simp]: "alone n d = d"
  by (simp add: alone_def)

subsection \<open>Building a row\<close>

lemma queueDefaults_fixed:
  assumes "queueDefaults cnow q cl d = (row, cl')"
  shows "queueDefaults cnow q cl' d' = (row, cl') \<and> cl_defaults cl' = cl_defaults cl"
  using assms
  by (auto simp: queueDefaults_def Let_def us_per_ms_def queueCacheTtlMs_def split: option.splits if_splits)

text \<open>A row built once is built again from the cache, whatever the table says by then.\<close>

lemma buildRow_repeat:
  assumes "buildRow cnow q ty payload opts cl d = (Inr row, cl')"
  shows "buildRow cnow q ty payload opts cl' d' = (Inr row, cl')"
proof -
  obtain qc cl2 where qc: "queueDefaults cnow q cl d = (qc, cl2)" by fastforce
  with assms have "cl' = cl2" by (auto simp: buildRow_def Let_def split: if_splits)
  with queueDefaults_fixed [OF qc] assms qc show ?thesis
    by (cases "o_runAt opts") (auto simp: buildRow_def Let_def split: if_splits)
qed

lemma buildRow_fields:
  assumes "buildRow cnow q ty payload opts cl d = (Inr row, cl')"
  shows "n_queue row = q" "n_type row = ty" "n_idempotencyKey row = o_idempotencyKey opts"
    "n_uniqueKey row = o_uniqueKey opts" "1 \<le> n_maxAttempts row" "1 \<le> n_leaseSeconds row"
    "n_scheduleId row = None"
proof -
  obtain qc cl2 where qc: "queueDefaults cnow q cl d = (qc, cl2)" by fastforce
  with assms show "n_queue row = q" "n_type row = ty" "n_idempotencyKey row = o_idempotencyKey opts"
    "n_uniqueKey row = o_uniqueKey opts" "1 \<le> n_maxAttempts row" "1 \<le> n_leaseSeconds row"
    "n_scheduleId row = None"
    by (auto simp: buildRow_def Let_def split: if_splits)
qed

subsection \<open>Deduplication\<close>

lemma find_held:
  assumes inv: "db_inv d" and j: "j \<in> set (db_jobs d)" "j_queue j = q" "j_idempotency_key j = Some k"
  shows "findByIdempotencyKey q k d = [j_id j]"
proof -
  have "j_id j \<in> set (findByIdempotencyKey q k d)" using j by (auto simp: findByIdempotencyKey_iff)
  with findByIdempotencyKey_one [OF inv, of q k] show ?thesis
    by (cases "findByIdempotencyKey q k d") auto
qed

lemma find_held_unique:
  assumes inv: "db_inv d" and j: "j \<in> set (db_jobs d)" "j_queue j = q" "j_unique_key j = Some k"
    "active_state (j_state j)"
  shows "findByUniqueKey q k d = [j_id j]"
proof -
  have "j_id j \<in> set (findByUniqueKey q k d)" using j by (auto simp: findByUniqueKey_iff)
  with findByUniqueKey_one [OF inv, of q k] show ?thesis
    by (cases "findByUniqueKey q k d") auto
qed

text \<open>The row would be accepted if nothing conflicted with it.\<close>

definition admissible :: "instant \<Rightarrow> enqueue_row \<Rightarrow> bool" where
  "admissible now row \<longleftrightarrow>
     (let j = new_job now row 0
      in is_smallint (j_priority j) \<and> is_smallint (j_max_attempts j) \<and> is_integer (j_lease_seconds j)
         \<and> job_checks j)"

lemma admissible_iff:
  "admissible now row \<longleftrightarrow> is_smallint (n_priority row) \<and> is_smallint (n_maxAttempts row)
     \<and> is_integer (n_leaseSeconds row) \<and> job_checks (new_job now' row i)"
  by (simp add: admissible_def Let_def new_job_def job_checks_def)

lemma insertJob_conflict:
  assumes "conflicts (db_jobs d) (new_job now row (db_job_seq d))"
  shows "insertJob now row d =
    (if admissible now row then Inr ([], d\<lparr>db_job_seq := Suc (db_job_seq d)\<rparr>)
     else if is_smallint (n_priority row) \<and> is_smallint (n_maxAttempts row)
        \<and> is_integer (n_leaseSeconds row) then Inl Check_violation else Inl Numeric_out_of_range)"
proof -
  have "j_priority (new_job now row i) = n_priority row"
    "j_lease_seconds (new_job now row i) = n_leaseSeconds row" for i
    by (simp_all add: new_job_def)
  with assms show ?thesis
    by (auto simp: insertJob_def insert_row_def Let_def admissible_iff [of now row now "db_job_seq d"])
qed

lemma insertJob_admissible:
  assumes "insertJob now row d = Inr r"
  shows "admissible now' row"
  using assms
  by (auto simp: insertJob_def insert_row_def Let_def admissible_iff [of now' row now "db_job_seq d"]
      new_job_def split: if_splits)

lemma submit_duplicate:
  assumes inv: "db_inv d" and j: "j \<in> set (db_jobs d)" "j_queue j = q" "j_idempotency_key j = Some k"
    and row: "n_queue row = q" "n_idempotencyKey row = Some k"
  shows "submit alone now q row d =
    (if admissible now row
     then (Inr \<lparr>er_id = Some (j_id j), er_deduplicated = True\<rparr>, d\<lparr>db_job_seq := Suc (db_job_seq d)\<rparr>)
     else (Inl (Wrapped (if is_smallint (n_priority row) \<and> is_smallint (n_maxAttempts row)
        \<and> is_integer (n_leaseSeconds row) then Check_violation else Numeric_out_of_range)), d))"
proof -
  have conf: "conflicts (db_jobs d) (new_job now row (db_job_seq d))"
    using j row by (auto simp: new_conflict_iff)
  have "findByIdempotencyKey q k (d\<lparr>db_job_seq := n\<rparr>) = [j_id j]" for n
    using find_held [OF inv j] by (simp add: findByIdempotencyKey_def)
  with insertJob_conflict [OF conf] row show ?thesis
    by (simp add: submit_def query_def resolveConflict_def Let_def)
qed

lemma submit_accepted:
  assumes inv: "db_inv d" and ok: "submit alone now q row d = (Inr r, d')"
    and row: "n_queue row = q" "n_idempotencyKey row = Some k"
  shows "db_inv d' \<and> (\<exists>j \<in> set (db_jobs d'). er_id r = Some (j_id j) \<and> j_queue j = q
      \<and> j_idempotency_key j = Some k) \<and> admissible now' row"
proof (cases "\<exists>j \<in> set (db_jobs d). j_queue j = q \<and> j_idempotency_key j = Some k")
  case True
  then obtain j where j: "j \<in> set (db_jobs d)" "j_queue j = q" "j_idempotency_key j = Some k"
    by blast
  from submit_duplicate [OF inv j row, of now] ok have adm: "admissible now row"
    and r: "r = \<lparr>er_id = Some (j_id j), er_deduplicated = True\<rparr>"
    and d': "d' = d\<lparr>db_job_seq := Suc (db_job_seq d)\<rparr>"
    by (auto split: if_splits)
  have "db_inv d'" using inv by (auto simp: d' db_inv_def archive_ids_def less_SucI)
  moreover have "admissible now' row" using adm by (simp add: admissible_iff [of _ _ now 0])
  ultimately show ?thesis using j by (auto simp: r d')
next
  case False
  show ?thesis
  proof (cases "insertJob now row d")
    case (Inl e)
    with ok have "e = Unique_violation" by (auto simp: submit_def query_def split: pg_error.splits)
    with Inl show ?thesis
      by (auto simp: insertJob_def insert_row_def Let_def split: sum.splits prod.splits
          option.splits if_splits)
  next
    case (Inr x)
    obtain ids d1 where x: "x = (ids, d1)" by fastforce
    note ins = Inr [unfolded x]
    have inv1: "db_inv d1" by (rule insert.inv [OF inv ins])
    have adm: "admissible now' row" by (rule insertJob_admissible [OF ins])
    from ins show ?thesis
    proof (cases rule: insertJob_cases)
      case Skipped
      with False have none: "findByIdempotencyKey q k d1 = []"
        by (auto simp: findByIdempotencyKey_def filter_empty_conv)
      have False using ok ins Skipped(1) row
        by (auto simp: submit_def resolveConflict_def Let_def none split: option.splits list.splits)
      then show ?thesis ..
    next
      case Inserted
      with ok ins have "r = \<lparr>er_id = Some (db_job_seq d), er_deduplicated = False\<rparr>" "d' = d1"
        by (auto simp: submit_def)
      with inv1 adm Inserted row show ?thesis by auto
    qed
  qed
qed

subsection \<open>Cancellation\<close>

lemma audit_jobs [simp]:
  "db_jobs (audit now actor action target detail d) = db_jobs d"
  by (simp add: audit_def insertAuditLog_def query_def)

lemma getJob_row:
  assumes "db_inv d"
  shows "getJob i d = (case job_at d i of None \<Rightarrow> [] | Some j \<Rightarrow> [j])"
  using filter_key_guard [OF db_inv_distinct [OF assms], of i "\<lambda>_. True"]
  by (auto simp: getJob_def split: option.splits)

lemma get_job_cases:
  assumes "db_inv d"
  shows "get_job i d = (case job_at d i of
      None \<Rightarrow> Inl (Fault JobNotFoundError (About_job i)) | Some j \<Rightarrow> Inr (toJob j))"
  by (simp add: get_job_def getJob_row [OF assms] split: option.splits)

definition after_cancel :: "instant \<Rightarrow> job \<Rightarrow> job" where
  "after_cancel now j =
     (case j_state j of Available \<Rightarrow> cancel_row now j | Running \<Rightarrow> request_row now j | _ \<Rightarrow> j)"

definition cancel_outcome :: "ident \<Rightarrow> job option \<Rightarrow> fault + cancel_result" where
  "cancel_outcome i jo =
     (case jo of
        None \<Rightarrow> Inl (Fault JobNotFoundError (About_job i))
      | Some j \<Rightarrow>
          (case j_state j of
             Available \<Rightarrow> Inr \<lparr>cr_state = Cancelled, cr_acknowledged = True\<rparr>
           | Running \<Rightarrow> Inr \<lparr>cr_state = Running, cr_acknowledged = False\<rparr>
           | s \<Rightarrow> Inl (Fault InvalidTransitionError (About_transition s Cancelled (permittedTargets s)))))"

lemma cancel_spec:
  assumes inv: "db_inv d" and run: "cancel alone now i actor d = (r, d')"
  shows "r = cancel_outcome i (job_at d i)"
    and "job_at d' k = (if k = i then map_option (after_cancel now) (job_at d i) else job_at d k)"
proof -
  from cancelAvailableJob_lands [OF inv, of now i] obtain d1 where
    c: "cancelAvailableJob now i d = Inr ((case job_at d i of None \<Rightarrow> []
            | Some j \<Rightarrow> if j_state j = Available then [(j_id j, Cancelled)] else []), d1)"
    and d1: "\<And>k. job_at d1 k = (if k = i then
          map_option (\<lambda>j. if j_state j = Available then cancel_row now j else j) (job_at d i)
          else job_at d k)" by blast
  have inv1: "db_inv d1" by (rule cancel.inv [OF inv c])
  from requestCancelRunningJob_lands [OF inv1, of now i] obtain d2 where
    q: "requestCancelRunningJob now i d1 = Inr ((case job_at d1 i of None \<Rightarrow> []
            | Some j \<Rightarrow> if j_state j = Running
                then [(j_id j, Running, Some (coalesce (j_cancel_requested_at j) now))] else []), d2)"
    and d2: "\<And>k. job_at d2 k = (if k = i then
          map_option (\<lambda>j. if j_state j = Running then request_row now j else j) (job_at d1 i)
          else job_at d1 k)" by blast
  have inv2: "db_inv d2" by (rule request_cancel.inv [OF inv1 q])
  note defs = cancel_def cancel_outcome_def after_cancel_def Let_def
  have "r = cancel_outcome i (job_at d i) \<and>
    job_at d' k = (if k = i then map_option (after_cancel now) (job_at d i) else job_at d k)"
  proof (cases "job_at d i")
    case None
    with d1 d2 c q get_job_cases [OF inv2, of i] run show ?thesis
      by (auto simp: defs)
  next
    case (Some j)
    consider "j_state j = Available" | "j_state j = Running" | "terminal_state (j_state j)"
      by (cases "j_state j") simp_all
    then show ?thesis
    proof cases
      case 1
      with Some c run have "r = Inr \<lparr>cr_state = Cancelled, cr_acknowledged = True\<rparr>"
        and "db_jobs d' = db_jobs d1" by (auto simp: cancel_def)
      with 1 Some d1 [of k] show ?thesis by (simp add: cancel_outcome_def after_cancel_def)
    next
      case 2
      with Some d1 have at1: "job_at d1 i = Some j" by simp
      with 2 Some c q run have "r = Inr \<lparr>cr_state = Running, cr_acknowledged = False\<rparr>"
        and "db_jobs d' = db_jobs d2" by (auto simp: cancel_def Let_def)
      with 2 Some at1 d1 [of k] d2 [of k] show ?thesis
        by (simp add: cancel_outcome_def after_cancel_def)
    next
      case 3
      then have ns: "j_state j \<noteq> Available" "j_state j \<noteq> Running" by auto
      with Some d1 have at1: "job_at d1 i = Some j" by simp
      with ns d2 have at2: "job_at d2 i = Some j" by simp
      with ns Some at1 c q run get_job_cases [OF inv2, of i]
      have "r = Inl (Fault InvalidTransitionError (About_transition (j_state j) Cancelled
          (permittedTargets (j_state j))))" and "d' = d2"
        by (simp_all add: cancel_def Let_def)
      with 3 Some at1 at2 d1 [of k] d2 [of k] show ?thesis
        by (cases "j_state j") (simp_all add: cancel_outcome_def after_cancel_def)
    qed
  qed
  then show "r = cancel_outcome i (job_at d i)"
    and "job_at d' k = (if k = i then map_option (after_cancel now) (job_at d i) else job_at d k)"
    by blast+
qed

subsection \<open>Purging\<close>

definition purgeable :: "string \<Rightarrow> job_state list \<Rightarrow> job \<Rightarrow> bool" where
  "purgeable q states j \<longleftrightarrow> j_queue j = q \<and> j_state j \<in> set states"

lemma purge_batch:
  assumes inv: "db_inv d" and ok: "purgeQueue {} q states n d = Inr (rows, d')"
  shows "length rows = min n (length (filter (purgeable q states) (db_jobs d)))"
    and "length (filter (purgeable q states) (db_jobs d')) + length rows
      = length (filter (purgeable q states) (db_jobs d))"
    and "filter (\<lambda>j. \<not> purgeable q states j) (db_jobs d')
      = filter (\<lambda>j. \<not> purgeable q states j) (db_jobs d)"
proof -
  let ?V = "set (purge_victims {} q states n d)"
  from ok have rows: "length rows = length (filter (\<lambda>j. j_id j \<in> ?V) (db_jobs d))"
    and d': "db_jobs d' = filter (\<lambda>j. j_id j \<notin> ?V) (db_jobs d)"
    by (auto simp: purge_bounded [OF inv])
  have match: "(\<lambda>j. j_queue j = q \<and> j_state j \<in> set states \<and> j_id j \<notin> {}) = purgeable q states"
    by (auto simp: purgeable_def)
  show "length rows = min n (length (filter (purgeable q states) (db_jobs d)))"
    unfolding rows purge_victims_def match by (rule filter_picked_length [OF db_inv_distinct [OF inv]])
  have sound: "\<forall>j \<in> set (db_jobs d). j_id j \<in> ?V \<longrightarrow> purgeable q states j"
    using purge_victim_match [OF inv] by (fastforce simp: purgeable_def)
  have "length (filter (purgeable q states) (filter (\<lambda>j. j_id j \<notin> ?V) js))
      + length (filter (\<lambda>j. j_id j \<in> ?V) js) = length (filter (purgeable q states) js)
    \<and> filter (\<lambda>j. \<not> purgeable q states j) (filter (\<lambda>j. j_id j \<notin> ?V) js)
      = filter (\<lambda>j. \<not> purgeable q states j) js"
    if "\<forall>j \<in> set js. j_id j \<in> ?V \<longrightarrow> purgeable q states j" for js
    using that by (induction js) auto
  from this [OF sound] show "length (filter (purgeable q states) (db_jobs d')) + length rows
      = length (filter (purgeable q states) (db_jobs d))"
    and "filter (\<lambda>j. \<not> purgeable q states j) (db_jobs d')
      = filter (\<lambda>j. \<not> purgeable q states j) (db_jobs d)"
    by (simp_all add: rows d')
qed

lemma purge_loop_spec:
  assumes "db_inv d"
  shows "\<exists>d'. purge_loop alone (\<lambda>_. {}) q states b n left deleted d =
      (Inr (deleted + min (left * b) (length (filter (purgeable q states) (db_jobs d)))), d')
    \<and> db_inv d'
    \<and> length (filter (purgeable q states) (db_jobs d'))
      = length (filter (purgeable q states) (db_jobs d)) - left * b
    \<and> filter (\<lambda>j. \<not> purgeable q states j) (db_jobs d')
      = filter (\<lambda>j. \<not> purgeable q states j) (db_jobs d)"
  using assms
proof (induction left arbitrary: n deleted d)
  case 0
  then show ?case by simp
next
  case (Suc left)
  let ?m = "length (filter (purgeable q states) (db_jobs d))"
  obtain rows d1 where p: "purgeQueue {} q states b d = Inr (rows, d1)"
    using purge_bounded [OF Suc.prems] by blast
  note B = purge_batch [OF Suc.prems p]
  have inv1: "db_inv d1" by (rule purge.inv [OF Suc.prems p])
  show ?case
  proof (cases "length rows < b")
    case True
    with B have "length rows = ?m" "length (filter (purgeable q states) (db_jobs d1)) = 0" by auto
    with True p B(3) inv1 show ?thesis by (simp add: Let_def min_def)
  next
    case False
    then have rows: "length rows = b" "b \<le> ?m" using B(1) by auto
    from Suc.IH [OF inv1, of "Suc n" "deleted + b"] obtain d' where
      IH: "purge_loop alone (\<lambda>_. {}) q states b (Suc n) left (deleted + b) d1 =
      (Inr (deleted + b + min (left * b) (length (filter (purgeable q states) (db_jobs d1)))), d')"
      "db_inv d'" "length (filter (purgeable q states) (db_jobs d'))
      = length (filter (purgeable q states) (db_jobs d1)) - left * b"
      "filter (\<lambda>j. \<not> purgeable q states j) (db_jobs d')
      = filter (\<lambda>j. \<not> purgeable q states j) (db_jobs d1)" by blast
    have m1: "length (filter (purgeable q states) (db_jobs d1)) = ?m - b" using B(2) rows by simp
    have "purge_loop alone (\<lambda>_. {}) q states b n (Suc left) deleted d =
        (Inr (deleted + b + min (left * b) (?m - b)), d')"
      using IH(1) p rows False by (simp add: Let_def m1)
    moreover have "deleted + b + min (left * b) (?m - b) = deleted + min (Suc left * b) ?m"
      using rows by simp
    moreover have "length (filter (purgeable q states) (db_jobs d')) = ?m - Suc left * b"
      using IH(3) m1 by simp
    moreover have "filter (\<lambda>j. \<not> purgeable q states j) (db_jobs d')
        = filter (\<lambda>j. \<not> purgeable q states j) (db_jobs d)"
      using IH(4) B(3) by (simp only:)
    ultimately show ?thesis using IH(2) by (intro exI [of _ d']) (simp only: simp_thms)
  qed
qed

subsection \<open>Bulk replay\<close>

lemma replayMany_spec:
  assumes inv: "db_inv d" and ok: "replayMany alone now is actor d = (Inr r, d')"
  shows "set (rs_replayed r) = {i \<in> set is. \<exists>j. job_at d i = Some j \<and> j_state j = Dead}"
    and "set (rs_skipped r) = set is - set (rs_replayed r)"
proof -
  have "set (rs_replayed r) = {i \<in> set is. \<exists>j. job_at d i = Some j \<and> j_state j = Dead}
    \<and> set (rs_skipped r) = set is - set (rs_replayed r)"
  proof (cases "is = []")
    case True
    with ok show ?thesis by (auto simp: replayMany_def)
  next
    case False
    with ok obtain ids d1 where rep: "replayDeadJobs now is d = Inr (ids, d1)"
      and r: "r = \<lparr>rs_replayed = ids, rs_skipped = filter (\<lambda>i. i \<notin> set ids) is\<rparr>"
      by (auto simp: replayMany_def split: sum.splits prod.splits)
    from rep obtain ss where u: "update_jobs (\<lambda>j. j_id j \<in> set is \<and> j_state j = Dead)
        (replay_row now) d = Inr (ss, d1)" and ids: "ids = map j_id ss"
      by (auto simp: replayDeadJobs_def returning_Inr)
    have "set ids = j_id ` {j \<in> set (db_jobs d). j_id j \<in> set is \<and> j_state j = Dead}"
      by (simp add: ids update_jobs_InrD(1) [OF u] image_image row_defs)
    also have "\<dots> = {i \<in> set is. \<exists>j. job_at d i = Some j \<and> j_state j = Dead}"
      using db_inv_job_at [OF inv] db_inv_jobD [OF inv] by fastforce
    finally show ?thesis by (auto simp: r)
  qed
  then show "set (rs_replayed r) = {i \<in> set is. \<exists>j. job_at d i = Some j \<and> j_state j = Dead}"
    and "set (rs_skipped r) = set is - set (rs_replayed r)" by blast+
qed

lemma replayMany_jobs:
  assumes inv: "db_inv d" and ok: "replayMany alone now is actor d = (Inr r, d')"
  shows "job_at d' i = map_option (\<lambda>j. if i \<in> set (rs_replayed r) then replay_row now j else j) (job_at d i)"
proof (cases "is = []")
  case True
  with ok show ?thesis by (auto simp: replayMany_def option.map_ident)
next
  case False
  with ok obtain ids d1 where rep: "replayDeadJobs now is d = Inr (ids, d1)"
    and d': "db_jobs d' = db_jobs d1"
    by (auto simp: replayMany_def split: sum.splits prod.splits)
  from rep obtain ss where "update_jobs (\<lambda>j. j_id j \<in> set is \<and> j_state j = Dead) (replay_row now) d
      = Inr (ss, d1)"
    by (auto simp: replayDeadJobs_def returning_Inr)
  from update_jobs_job_at [OF this, of i] d'
  have "job_at d' i = map_option (\<lambda>j. if j_id j \<in> set is \<and> j_state j = Dead then replay_row now j else j)
      (job_at d i)" by simp
  moreover have "j_id j = i" if "job_at d i = Some j" for j using row_of_SomeD [OF that] by simp
  ultimately show ?thesis
    using replayMany_spec(1) [OF inv ok] by (cases "job_at d i") auto
qed

end
