(* ===== verification/Samples.thy ===== *)
theory Samples
  imports System Client_Laws
begin

text \<open>
  Concrete databases the witnesses evaluate on: a job with one attempt that is enqueued, claimed
  and released or failed.
\<close>

definition sample_row :: enqueue_row where
  "sample_row = \<lparr>n_queue = ''q'', n_type = ''t'', n_payload = JNull, n_metadata = None,
     n_priority = 0, n_maxAttempts = 1, n_leaseSeconds = 30, n_runAt = None,
     n_idempotencyKey = None, n_uniqueKey = None, n_traceContext = None, n_scheduleId = None\<rparr>"

definition sample_claim :: claim_params where
  "sample_claim = \<lparr>cp_queue = ''q'', cp_limit = 10, cp_workerId = ''w''\<rparr>"

definition sample_fence :: fence where
  "sample_fence = \<lparr>f_id = 1, f_workerId = ''w'', f_attempt = 1\<rparr>"

lemmas sample_defs = sample_row_def sample_claim_def sample_fence_def

definition db_enqueued :: db where
  "db_enqueued = exec (Do_insert 0 sample_row) empty_db"

definition db_claimed :: db where
  "db_claimed = exec (Do_claim 1 {} sample_claim) db_enqueued"

definition job_enqueued :: job where
  "job_enqueued = new_job 0 sample_row 1"

definition job_claimed :: job where
  "job_claimed = claim_row 1 ''w'' job_enqueued"

lemma job_enqueued_fields [simp]:
  "j_id job_enqueued = 1" "j_queue job_enqueued = ''q''" "j_state job_enqueued = Available"
  "j_attempt job_enqueued = 0" "j_max_attempts job_enqueued = 1" "j_run_at job_enqueued = 0"
  "j_idempotency_key job_enqueued = None" "j_unique_key job_enqueued = None"
  "j_lease_seconds job_enqueued = 30" "j_priority job_enqueued = 0"
  "j_schedule_id job_enqueued = None" "j_cancel_requested_at job_enqueued = None"
  by (simp_all add: job_enqueued_def new_job_def sample_row_def)

lemma job_claimed_fields [simp]:
  "j_id job_claimed = 1" "j_queue job_claimed = ''q''" "j_state job_claimed = Running"
  "j_attempt job_claimed = 1" "j_max_attempts job_claimed = 1"
  "j_worker_id job_claimed = Some ''w''"
  "j_idempotency_key job_claimed = None" "j_unique_key job_claimed = None"
  by (simp_all add: job_claimed_def claim_row_def)

lemma db_enqueued_eq:
  "db_enqueued = empty_db\<lparr>db_job_seq := 2, db_jobs := [job_enqueued],
     db_notified := [channel_of ''q'']\<rparr>"
  by (simp add: db_enqueued_def commit_def insertJob_def insert_row_def empty_db_def Let_def
      job_enqueued_def new_job_def sample_row_def is_smallint_def is_integer_def job_checks_def
      conflicts_def idem_slot_def active_slot_def pgjobq_notify_enqueue_def)

lemma reachable_enqueued: "reachable db_enqueued"
  unfolding db_enqueued_def by (intro reachable.intros)

lemma reachable_claimed: "reachable db_claimed"
  unfolding db_claimed_def by (intro reachable.Step reachable_enqueued)

lemmas inv_enqueued = reachable_inv [OF reachable_enqueued]
  and inv_claimed = reachable_inv [OF reachable_claimed]

lemma enqueued_eligible: "eligible 1 {} ''q'' db_enqueued job_enqueued"
  by (simp add: eligible_def queue_paused_def db_enqueued_eq empty_db_def)

lemma candidates_enqueued: "claim_candidates ord 1 {} sample_claim db_enqueued = [1]"
  using enqueued_eligible
  by (simp add: claim_candidates_def pick_def order_limit_def sample_claim_def db_enqueued_eq)

lemma claim_enqueued:
  "claimJobs 1 {} sample_claim db_enqueued =
     Inr ([toClaimedJob job_claimed], db_enqueued\<lparr>db_jobs := [job_claimed]\<rparr>)"
proof -
  have "claim_with claim_order 1 {} sample_claim db_enqueued =
      Inr ([job_claimed], db_enqueued\<lparr>db_jobs := [job_claimed]\<rparr>)"
    unfolding claim_with_cases [OF inv_enqueued] candidates_enqueued
    by (simp add: db_enqueued_eq job_claimed_def sample_claim_def)
  then show ?thesis by (simp add: claimJobs_def returning_def)
qed

lemma db_claimed_eq: "db_claimed = db_enqueued\<lparr>db_jobs := [job_claimed]\<rparr>"
  by (simp add: db_claimed_def commit_def claim_enqueued)

lemma claimed_owned: "owned db_claimed sample_fence"
  by (simp add: owned_def owns_def db_claimed_eq sample_fence_def)

lemma complete_surrenders:
  assumes inv: "db_inv d" and own: "owned d p"
  shows "\<not> owned (exec (Do_complete now p) d) p"
proof -
  from own obtain j where "job_at d (f_id p) = Some j" "owns p j"
    by (auto simp: owned_def split: option.splits)
  from completeJob_lands [OF inv this, of now] obtain d' where
    c: "completeJob now p d = Inr ([f_id p], d')" by blast
  from complete.surrenders [OF inv c] show ?thesis by (simp add: commit_def c)
qed

lemma claimed_row: "job_at db_claimed 1 = Some job_claimed"
  by (simp add: db_claimed_eq)

lemma claimed_owns: "owns sample_fence job_claimed"
  by (simp add: owns_def sample_fence_def)

lemma claim_nothing:
  assumes "db_inv d" and "\<forall>j \<in> set (db_jobs d). j_state j \<noteq> Available"
  shows "claimJobs now locked p d = Inr ([], d)"
proof -
  have "\<forall>j \<in> set (db_jobs d). j_id j \<notin> set (claim_candidates claim_order now locked p d)"
    using candidates_eligible [OF assms(1)] assms(2) by (auto simp: eligible_def)
  from update_jobs_none [OF assms(1) this]
  show ?thesis by (simp add: claimJobs_def claim_with_def returning_def)
qed

lemma claim_claimed: "claimJobs 2 {} sample_claim db_claimed = Inr ([], db_claimed)"
  by (rule claim_nothing [OF inv_claimed]) (simp add: db_claimed_eq)

subsection \<open>After a report\<close>

definition sample_fail :: fail_params where
  "sample_fail = \<lparr>fp_nonRetryable = False, fp_retryDelaySeconds = 0, fp_maxErrorHistory = 5,
     fp_error = \<lparr>e_attempt = 1, e_at = 2, e_kind = Handler_error, e_name = None, e_message = None,
       e_stack = None, e_worker_id = None\<rparr>\<rparr>"

definition db_dead :: db where
  "db_dead = exec (Do_fail 2 sample_fail sample_fence) db_claimed"

definition db_done :: db where
  "db_done = exec (Do_complete 2 sample_fence) db_claimed"

definition db_requested :: db where
  "db_requested = exec (Do_request_cancel 2 1) db_claimed"

lemma reachable_samples: "reachable db_dead" "reachable db_done" "reachable db_requested"
  by (simp_all add: db_dead_def db_done_def db_requested_def del: exec.simps
      add: reachable.Step reachable_claimed)

lemmas inv_dead = reachable_inv [OF reachable_samples(1)]
  and inv_done = reachable_inv [OF reachable_samples(2)]
  and inv_requested = reachable_inv [OF reachable_samples(3)]

lemma claimed_at_fence: "job_at db_claimed (f_id sample_fence) = Some job_claimed"
  by (simp add: sample_fence_def claimed_row del: One_nat_def)

lemma db_dead_eq: "db_dead = db_claimed\<lparr>db_jobs := [fail_row 2 sample_fail job_claimed]\<rparr>"
proof -
  from failJob_lands [OF inv_claimed claimed_at_fence claimed_owns, of 2 sample_fail] obtain d'
    where f: "failJob 2 sample_fail sample_fence db_claimed = Inr ([fail_returning (fail_row 2 sample_fail job_claimed)], d')"
    by blast
  then have "db_dead = d'" by (simp add: db_dead_def commit_def)
  with f show ?thesis
    by (simp add: failJob_def returning_Inr) (elim exE conjE, drule update_jobs_InrD(2), simp add: db_claimed_eq claimed_owns sample_fence_def owns_def)
qed

lemma dead_row: "job_at db_dead 1 = Some (fail_row 2 sample_fail job_claimed)"
proof -
  from failJob_lands [OF inv_claimed claimed_at_fence claimed_owns, of 2 sample_fail] obtain d'
    where f: "failJob 2 sample_fail sample_fence db_claimed = Inr ([fail_returning (fail_row 2 sample_fail job_claimed)], d')"
      and rep: "reported sample_fence (fail_row 2 sample_fail) db_claimed d'" by blast
  from f have "db_dead = d'" by (simp add: db_dead_def commit_def)
  with rep claimed_at_fence show ?thesis by (simp add: reported_def sample_fence_def)
qed

lemma done_row: "job_at db_done 1 = Some (complete_row 2 job_claimed)"
proof -
  from completeJob_lands [OF inv_claimed claimed_at_fence claimed_owns, of 2] obtain d'
    where f: "completeJob 2 sample_fence db_claimed = Inr ([f_id sample_fence], d')"
      and rep: "reported sample_fence (complete_row 2) db_claimed d'" by blast
  from f have "db_done = d'" by (simp add: db_done_def commit_def)
  with rep claimed_at_fence show ?thesis by (simp add: reported_def sample_fence_def)
qed

lemma requested_row: "job_at db_requested 1 = Some (request_row 2 job_claimed)"
proof -
  from requestCancelRunningJob_lands [OF inv_claimed, of 2 1] obtain d' x
    where f: "requestCancelRunningJob 2 1 db_claimed = Inr (x, d')"
      and at: "\<And>k. job_at d' k = (if k = 1 then
          map_option (\<lambda>j. if j_state j = Running then request_row 2 j else j) (job_at db_claimed 1)
          else job_at db_claimed k)" by blast
  from f have "db_requested = d'" by (simp add: db_requested_def commit_def)
  with at show ?thesis by (simp add: claimed_row del: One_nat_def)
qed

lemma requested_owns: "owns sample_fence (request_row 2 job_claimed)"
  by (simp add: owns_def sample_fence_def row_defs)

lemma requested_at_fence: "job_at db_requested (f_id sample_fence) = Some (request_row 2 job_claimed)"
  by (simp add: sample_fence_def requested_row del: One_nat_def)

lemma requested_pending: "j_cancel_requested_at (request_row 2 job_claimed) \<noteq> None"
  by (simp add: request_row_def)

subsection \<open>A replay\<close>

definition job_dead :: job where
  "job_dead = fail_row 2 sample_fail job_claimed"

lemma job_dead_fields [simp]: "j_id job_dead = 1" "j_state job_dead = Dead"
  "j_unique_key job_dead = None" "j_idempotency_key job_dead = None" "j_queue job_dead = ''q''"
  by (simp_all add: job_dead_def row_defs sample_fail_def)

lemma replay_dead: "replayDeadJobs 3 [1, 2] db_dead =
  Inr ([1], db_dead\<lparr>db_jobs := [replay_row 3 job_dead]\<rparr>)"
proof -
  have "job_checks (replay_row 3 job_dead)"
    by (simp add: job_dead_def row_defs sample_fail_def job_checks_def
      job_claimed_def claim_row_def job_enqueued_def new_job_def
      sample_row_def is_smallint_def is_integer_def push_error_def)
  moreover have "index_ok [replay_row 3 job_dead]"
    by (simp add: index_ok_def split: option.split)
  moreover have "db_jobs db_dead = [job_dead]" by (simp add: db_dead_eq job_dead_def)
  moreover have "j_id (replay_row 3 job_dead) = 1" by (simp add: replay_row_def)
  ultimately show ?thesis by (simp add: replayDeadJobs_def returning_def update_jobs_def Let_def)
qed

end
