(* ===== verification/Dedup_Laws.thy ===== *)
theory Dedup_Laws
  imports Client_Laws
begin

text \<open>
  Deduplication as the caller of \<open>enqueue\<close> (packages/core/src/client.ts) sees it: a key that is held
  gives back the job that holds it, a unique key that an active job holds is refused by name.
\<close>

lemma enqueue_InrD:
  assumes "enqueue alone now cnow q ty payload opts cl d = (Inr r, cl', d')"
  obtains row where "validateName q = Inr ()" "validateName ty = Inr ()"
    "buildRow cnow q ty payload opts cl d = (Inr row, cl')" "submit alone now q row d = (Inr r, d')"
  using assms by (auto simp: enqueue_def Let_def split: sum.splits prod.splits)

lemma enqueue_built:
  assumes "validateName q = Inr ()" and "validateName ty = Inr ()"
    and "buildRow cnow q ty payload opts cl d = (Inr row, cl')"
  shows "enqueue alone now cnow q ty payload opts cl d =
    (let (r, d') = submit alone now q row d in (r, cl', d'))"
  using assms by (simp add: enqueue_def)

text \<open>A call with a key that is held names the holder and stores nothing.\<close>

lemma enqueue_held:
  assumes inv: "db_inv d" and j: "j \<in> set (db_jobs d)" "j_queue j = q" "j_idempotency_key j = Some k"
    and key: "o_idempotencyKey opts = Some k"
    and ok: "enqueue alone now cnow q ty payload opts cl d = (Inr r, cl', d')"
  shows "er_id r = Some (j_id j) \<and> er_deduplicated r \<and> db_jobs d' = db_jobs d"
proof -
  from ok obtain row where row: "buildRow cnow q ty payload opts cl d = (Inr row, cl')"
    and sub: "submit alone now q row d = (Inr r, d')" by (rule enqueue_InrD)
  from buildRow_fields [OF row] key have "n_queue row = q" "n_idempotencyKey row = Some k" by simp_all
  from submit_duplicate [OF inv j this] sub show ?thesis by (auto split: if_splits)
qed

lemma enqueue_then_held:
  assumes inv: "db_inv d" and key: "o_idempotencyKey opts = Some k"
    and ok: "enqueue alone now cnow q ty payload opts cl d = (Inr r, cl', d')"
  shows "\<exists>j. db_inv d' \<and> j \<in> set (db_jobs d') \<and> j_queue j = q \<and> j_idempotency_key j = Some k
    \<and> er_id r = Some (j_id j)
    \<and> enqueue alone now' cnow q ty payload opts cl' d' =
        (Inr \<lparr>er_id = er_id r, er_deduplicated = True\<rparr>, cl', d'\<lparr>db_job_seq := Suc (db_job_seq d')\<rparr>)"
proof -
  from ok obtain row where v: "validateName q = Inr ()" "validateName ty = Inr ()"
    and row: "buildRow cnow q ty payload opts cl d = (Inr row, cl')"
    and sub: "submit alone now q row d = (Inr r, d')" by (rule enqueue_InrD)
  from buildRow_fields [OF row] key have f: "n_queue row = q" "n_idempotencyKey row = Some k" by simp_all
  from submit_accepted [OF inv sub f, of now'] obtain j where inv': "db_inv d'"
    and j: "j \<in> set (db_jobs d')" "j_queue j = q" "j_idempotency_key j = Some k"
    and id: "er_id r = Some (j_id j)" and adm: "admissible now' row" by blast
  from submit_duplicate [OF inv' j f, of now'] adm id
    enqueue_built [OF v buildRow_repeat [OF row], of now' d']
  have "enqueue alone now' cnow q ty payload opts cl' d' =
      (Inr \<lparr>er_id = er_id r, er_deduplicated = True\<rparr>, cl', d'\<lparr>db_job_seq := Suc (db_job_seq d')\<rparr>)"
    by simp
  with inv' j id show ?thesis by blast
qed

lemma submit_unique:
  assumes inv: "db_inv d" and j: "j \<in> set (db_jobs d)" "j_queue j = q" "j_unique_key j = Some u"
      "active_state (j_state j)"
    and row: "n_queue row = q" "n_idempotencyKey row = None" "n_uniqueKey row = Some u"
  shows "\<exists>e d'. submit alone now q row d = (Inl e, d') \<and> db_jobs d' = db_jobs d
    \<and> (admissible now row \<longrightarrow> e = Fault ConflictError (About_existing (j_id j)))"
proof -
  have conf: "conflicts (db_jobs d) (new_job now row (db_job_seq d))"
    using j row by (auto simp: new_conflict_iff)
  have "findByUniqueKey q u (d\<lparr>db_job_seq := n\<rparr>) = [j_id j]" for n
    using find_held_unique [OF inv j] by (simp add: findByUniqueKey_def)
  with insertJob_conflict [OF conf] row show ?thesis
    by (auto simp: submit_def query_def resolveConflict_def Let_def)
qed

lemma enqueue_unique:
  assumes inv: "db_inv d" and j: "j \<in> set (db_jobs d)" "j_queue j = q" "j_unique_key j = Some u"
      "active_state (j_state j)"
    and keys: "o_idempotencyKey opts = None" "o_uniqueKey opts = Some u"
  shows "\<exists>e cl' d'. enqueue alone now cnow q ty payload opts cl d = (Inl e, cl', d')
    \<and> db_jobs d' = db_jobs d
    \<and> (validateName q = Inr () \<and> validateName ty = Inr ()
       \<and> (\<exists>row. fst (buildRow cnow q ty payload opts cl d) = Inr row \<and> admissible now row)
       \<longrightarrow> e = Fault ConflictError (About_existing (j_id j)))"
proof (cases "validateName q = Inr () \<and> validateName ty = Inr ()")
  case False
  then show ?thesis
    by (cases "validateName q"; cases "validateName ty") (auto simp: enqueue_def)
next
  case v: True
  obtain b cl' where b: "buildRow cnow q ty payload opts cl d = (b, cl')" by fastforce
  show ?thesis
  proof (cases b)
    case (Inl e)
    with b v show ?thesis by (simp add: enqueue_def)
  next
    case (Inr row)
    with b have row: "buildRow cnow q ty payload opts cl d = (Inr row, cl')" by simp
    from buildRow_fields [OF row] keys
    have "n_queue row = q" "n_idempotencyKey row = None" "n_uniqueKey row = Some u" by simp_all
    from submit_unique [OF inv j this, of now] obtain e d' where
      "submit alone now q row d = (Inl e, d')" "db_jobs d' = db_jobs d"
      "admissible now row \<longrightarrow> e = Fault ConflictError (About_existing (j_id j))" by blast
    with enqueue_built [OF _ _ row, of now] v row show ?thesis by auto
  qed
qed

subsection \<open>Every submission\<close>

lemma insertJob_fresh:
  assumes "\<not> conflicts (db_jobs d) (new_job now row (db_job_seq d))" and "admissible now row"
    and "n_scheduleId row = None"
  shows "\<exists>d'. insertJob now row d = Inr ([db_job_seq d], d')
    \<and> db_jobs d' = db_jobs d @ [new_job now row (db_job_seq d)]"
proof -
  from assms(2) have "is_smallint (n_priority row)" "is_smallint (n_maxAttempts row)"
    "is_integer (n_leaseSeconds row)" "job_checks (new_job now row (db_job_seq d))"
    using admissible_iff [of now row now "db_job_seq d"] by simp_all
  moreover have "j_priority (new_job now row i) = n_priority row"
    "j_lease_seconds (new_job now row i) = n_leaseSeconds row" "j_schedule_id (new_job now row i) = None" for i
    using assms(3) by (simp_all add: new_job_def)
  ultimately show ?thesis
    using assms(1) by (simp add: insertJob_def insert_row_def Let_def)
qed

lemma submit_total:
  assumes inv: "db_inv d" and adm: "admissible now row" and q: "n_queue row = q"
    and sch: "n_scheduleId row = None"
  shows "\<exists>r d'. submit alone now q row d = (r, d')
    \<and> (r = Inr \<lparr>er_id = Some (db_job_seq d), er_deduplicated = False\<rparr>
         \<and> db_jobs d' = db_jobs d @ [new_job now row (db_job_seq d)]
       \<or> db_jobs d' = db_jobs d
         \<and> ((\<exists>j \<in> set (db_jobs d). n_idempotencyKey row \<noteq> None \<and> j_queue j = q
               \<and> j_idempotency_key j = n_idempotencyKey row
               \<and> r = Inr \<lparr>er_id = Some (j_id j), er_deduplicated = True\<rparr>)
            \<or> (\<exists>j \<in> set (db_jobs d). n_uniqueKey row \<noteq> None \<and> j_queue j = q
               \<and> j_unique_key j = n_uniqueKey row \<and> active_state (j_state j)
               \<and> r = Inl (Fault ConflictError (About_existing (j_id j))))))"
proof (cases "conflicts (db_jobs d) (new_job now row (db_job_seq d))")
  case False
  from insertJob_fresh [OF False adm sch] show ?thesis by (auto simp: submit_def)
next
  case True
  have ins: "insertJob now row d = Inr ([], d\<lparr>db_job_seq := Suc (db_job_seq d)\<rparr>)"
    using insertJob_conflict [OF True] adm by simp
  let ?e = "d\<lparr>db_job_seq := Suc (db_job_seq d)\<rparr>"
  have sub: "submit alone now q row d = resolveConflict alone q row ?e" by (simp add: submit_def ins)
  show ?thesis
  proof (cases "\<exists>k. n_idempotencyKey row = Some k \<and> (\<exists>j \<in> set (db_jobs d). j_queue j = q \<and> j_idempotency_key j = Some k)")
    case held: True
    then obtain k j where j: "n_idempotencyKey row = Some k" "j \<in> set (db_jobs d)" "j_queue j = q"
      "j_idempotency_key j = Some k" by blast
    with submit_duplicate [OF inv j(2-4) q j(1)] adm show ?thesis by auto
  next
    case free: False
    with True q obtain u j where u: "n_uniqueKey row = Some u"
      and j: "j \<in> set (db_jobs d)" "j_queue j = q" "j_unique_key j = Some u" "active_state (j_state j)"
      by (auto simp: new_conflict_iff)
    have "findByIdempotencyKey q k ?e = []" if "n_idempotencyKey row = Some k" for k
      using free that by (auto simp: findByIdempotencyKey_def filter_empty_conv)
    moreover have "findByUniqueKey q u ?e = [j_id j]"
      using find_held_unique [OF inv j] by (simp add: findByUniqueKey_def)
    ultimately have "submit alone now q row d = (Inl (Fault ConflictError (About_existing (j_id j))), ?e)"
      unfolding sub by (simp add: resolveConflict_def Let_def u split: option.split)
    with u j show ?thesis by auto
  qed
qed

end
