(* ===== verification/Batch_Laws.thy ===== *)
theory Batch_Laws
  imports Client_Laws
begin

text \<open>
  The correspondence of a batch's results with its items (\<open>enqueueBatch\<close> of
  packages/core/src/client.ts): while no item has a unique key, the n-th result is the job of the
  n-th item. The results of unkeyed items are aligned by position with the inserted unkeyed rows,
  which is sound because such a row is never skipped.
\<close>

definition unkeyed :: "enqueue_row \<Rightarrow> bool" where
  "unkeyed r \<longleftrightarrow> n_idempotencyKey r = None"

definition row_stored :: "instant \<Rightarrow> db \<Rightarrow> enqueue_row \<Rightarrow> ident \<Rightarrow> bool" where
  "row_stored now d r i \<longleftrightarrow> new_job now r i \<in> set (db_jobs d)"

definition key_held :: "db \<Rightarrow> string \<Rightarrow> string \<Rightarrow> ident \<Rightarrow> bool" where
  "key_held d q k i \<longleftrightarrow>
     (\<exists>j \<in> set (db_jobs d). j_id j = i \<and> j_queue j = q \<and> j_idempotency_key j = Some k)"

subsection \<open>The statement\<close>

lemma insert_row_spec:
  assumes "insert_row now (new_job now r) d = Inr (x, d')" and "n_uniqueKey r = None"
  shows "(if unkeyed r then x = Some (new_job now r (db_job_seq d)) else
      (\<exists>k i. n_idempotencyKey r = Some k \<and> key_held d' (n_queue r) k i))
    \<and> db_jobs d' = db_jobs d @ (case x of None \<Rightarrow> [] | Some j \<Rightarrow> [j])
    \<and> (\<forall>j. x = Some j \<longrightarrow> j = new_job now r (db_job_seq d))"
  using assms(1)
proof (cases rule: insert_row_cases)
  case Skipped
  with assms(2) show ?thesis by (auto simp: new_conflict_iff unkeyed_def key_held_def)
next
  case (Inserted j)
  then show ?thesis by (auto simp: unkeyed_def key_held_def)
qed

lemma key_held_mono: "set (db_jobs d) \<subseteq> set (db_jobs d') \<Longrightarrow> key_held d q k i \<Longrightarrow> key_held d' q k i"
  by (auto simp: key_held_def)

lemma row_stored_mono:
  "set (db_jobs d) \<subseteq> set (db_jobs d') \<Longrightarrow> row_stored now d r i \<Longrightarrow> row_stored now d' r i"
  by (auto simp: row_stored_def)

lemma insert_rows_spec:
  assumes "insert_rows now rs d = Inr (js, d')" and "\<forall>r \<in> set rs. n_uniqueKey r = None \<and> n_queue r = q"
  shows "list_all2 (row_stored now d') (filter unkeyed rs)
      (map j_id (filter (\<lambda>j. j_idempotency_key j = None) js))
    \<and> (\<forall>r \<in> set rs. \<forall>k. n_idempotencyKey r = Some k \<longrightarrow> (\<exists>i. key_held d' q k i))
    \<and> (\<forall>j \<in> set js. j \<in> set (db_jobs d') \<and> j_queue j = q)"
  using assms
proof (induction now rs d arbitrary: js d' rule: insert_rows.induct)
  case (1 now d)
  then show ?case by simp
next
  case (2 now r rs d)
  from "2.prems"(1) obtain x d1 ks where x: "insert_row now (new_job now r) d = Inr (x, d1)"
    and ks: "insert_rows now rs d1 = Inr (ks, d')"
    and js: "js = (case x of None \<Rightarrow> ks | Some j \<Rightarrow> j # ks)"
    by (auto split: sum.splits prod.splits)
  have r: "n_uniqueKey r = None" "n_queue r = q" using "2.prems"(2) by simp_all
  have S: "if unkeyed r then x = Some (new_job now r (db_job_seq d)) else
      (\<exists>k i. n_idempotencyKey r = Some k \<and> key_held d1 (n_queue r) k i)"
    "db_jobs d1 = db_jobs d @ (case x of None \<Rightarrow> [] | Some j \<Rightarrow> [j])"
    "\<And>j. x = Some j \<Longrightarrow> j = new_job now r (db_job_seq d)"
    using insert_row_spec [OF x r(1)] by blast+
  have grow: "set (db_jobs d1) \<subseteq> set (db_jobs d')" using insert_rows_ids [OF ks] by simp
  from "2.IH" [OF x refl ks] "2.prems"(2)
  have IH: "list_all2 (row_stored now d') (filter unkeyed rs)
      (map j_id (filter (\<lambda>j. j_idempotency_key j = None) ks))"
    "\<forall>r \<in> set rs. \<forall>k. n_idempotencyKey r = Some k \<longrightarrow> (\<exists>i. key_held d' q k i)"
    "\<forall>j \<in> set ks. j \<in> set (db_jobs d') \<and> j_queue j = q" by auto
  have mem: "x = Some j \<Longrightarrow> j \<in> set (db_jobs d') \<and> j_queue j = q" for j
    using S(2,3) grow r(2) by auto
  show ?case
  proof (cases "unkeyed r")
    case True
    with S(1) have x': "x = Some (new_job now r (db_job_seq d))" by simp
    with mem have "row_stored now d' r (db_job_seq d)" by (simp add: row_stored_def)
    moreover have "n_idempotencyKey r = None" using True by (simp add: unkeyed_def)
    ultimately show ?thesis using IH js mem x' True by simp
  next
    case False
    with S(1) r(2) obtain k i where k: "n_idempotencyKey r = Some k" "key_held d1 q k i" by auto
    have "key_held d' q k i" by (rule key_held_mono [OF grow k(2)])
    moreover have "x = None \<or> (\<exists>j. x = Some j \<and> j_idempotency_key j = Some k)"
      using S(3) k(1) by (cases x) auto
    ultimately show ?thesis using IH js mem k(1) False by auto
  qed
qed

subsection \<open>Mapping the rows back\<close>

lemma byIdem_sound:
  "byIdem rs k = Some i \<Longrightarrow> \<exists>r \<in> set rs. ir_idempotency_key r = Some k \<and> ir_id r = i"
proof -
  have "fold (\<lambda>r m. case ir_idempotency_key r of None \<Rightarrow> m | Some k \<Rightarrow> m(k \<mapsto> ir_id r)) rs m k = Some i
    \<Longrightarrow> m k = Some i \<or> (\<exists>r \<in> set rs. ir_idempotency_key r = Some k \<and> ir_id r = i)" for m
    by (induction rs arbitrary: m) (force split: option.splits if_splits)+
  then show "byIdem rs k = Some i \<Longrightarrow> ?thesis" unfolding byIdem_def by fastforce
qed

definition result_of :: "instant \<Rightarrow> db \<Rightarrow> string \<Rightarrow> enqueue_row \<Rightarrow> enqueue_result \<Rightarrow> bool" where
  "result_of now d q row res \<longleftrightarrow>
     (\<exists>i. er_id res = Some i \<and>
       (case n_idempotencyKey row of
          None \<Rightarrow> row_stored now d row i \<and> \<not> er_deduplicated res
        | Some k \<Rightarrow> key_held d q k i))"

lemma map_back_spec:
  assumes "list_all2 (row_stored now d) (filter unkeyed rows) us"
    and "\<forall>r \<in> set rows. \<forall>k. n_idempotencyKey r = Some k \<longrightarrow> (\<exists>i. key_held d q k i)"
    and m: "\<forall>k i. m k = Some i \<longrightarrow> key_held d q k i"
  shows "\<exists>rs. map_back alone n q m rows us d = (rs, d) \<and> list_all2 (result_of now d q) rows rs"
  using assms(1,2)
proof (induction rows arbitrary: n us)
  case Nil
  then show ?case by simp
next
  case (Cons row rows)
  show ?case
  proof (cases "n_idempotencyKey row")
    case None
    then have "unkeyed row" by (simp add: unkeyed_def)
    with Cons.prems(1) obtain i us' where us: "us = i # us'" and i: "row_stored now d row i"
      and rest: "list_all2 (row_stored now d) (filter unkeyed rows) us'"
      by (auto simp: list_all2_Cons1)
    have "\<forall>r \<in> set rows. \<forall>k. n_idempotencyKey r = Some k \<longrightarrow> (\<exists>i. key_held d q k i)"
      using Cons.prems(2) by simp
    with Cons.IH [OF rest, of "Suc n"] obtain rs where
      "map_back alone (Suc n) q m rows us' d = (rs, d)" "list_all2 (result_of now d q) rows rs" by blast
    then have "map_back alone n q m (row # rows) us d = (\<lparr>er_id = Some i, er_deduplicated = False\<rparr> # rs, d)"
      and "list_all2 (result_of now d q) (row # rows) (\<lparr>er_id = Some i, er_deduplicated = False\<rparr> # rs)"
      using us i None by (simp_all add: result_of_def del: alone_simp)
    then show ?thesis by blast
  next
    case (Some k)
    then have "\<not> unkeyed row" by (simp add: unkeyed_def)
    with Cons.prems(1) have rest: "list_all2 (row_stored now d) (filter unkeyed rows) us" by simp
    have "\<forall>r \<in> set rows. \<forall>k. n_idempotencyKey r = Some k \<longrightarrow> (\<exists>i. key_held d q k i)"
      using Cons.prems(2) by simp
    with Cons.IH [OF rest, of "Suc n"] obtain rs where
      rs: "map_back alone (Suc n) q m rows us d = (rs, d)" "list_all2 (result_of now d q) rows rs" by blast
    show ?thesis
    proof (cases "m k")
      case (Some i)
      with m \<open>n_idempotencyKey row = Some k\<close>
      have "result_of now d q row \<lparr>er_id = Some i, er_deduplicated = False\<rparr>"
        by (simp add: result_of_def)
      with Some rs \<open>n_idempotencyKey row = Some k\<close> show ?thesis by (simp del: alone_simp)
    next
      case None
      from Cons.prems(2) Some obtain i where "key_held d q k i" by auto
      then have "i \<in> set (findByIdempotencyKey q k d)" by (auto simp: findByIdempotencyKey_iff key_held_def)
      then obtain i' rest' where f: "findByIdempotencyKey q k d = i' # rest'" by (cases "findByIdempotencyKey q k d") auto
      then have "key_held d q k i'"
        using findByIdempotencyKey_iff [of i' q k d] by (auto simp: key_held_def)
      with Some have "result_of now d q row \<lparr>er_id = Some i', er_deduplicated = True\<rparr>"
        by (simp add: result_of_def)
      moreover have "alone n d = d" by simp
      ultimately show ?thesis using None rs f Some by (simp del: alone_simp)
    qed
  qed
qed

subsection \<open>The operation\<close>

lemma buildRow_payload:
  assumes "buildRow cnow q ty payload opts cl d = (Inr row, cl')"
  shows "n_payload row = payload"
proof -
  obtain qc cl2 where "queueDefaults cnow q cl d = (qc, cl2)" by fastforce
  with assms show ?thesis by (auto simp: buildRow_def Let_def split: if_splits)
qed

text \<open>What a row takes from its item.\<close>

definition row_of_item :: "string \<Rightarrow> batch_item \<Rightarrow> enqueue_row \<Rightarrow> bool" where
  "row_of_item q it row \<longleftrightarrow> n_queue row = q \<and> n_type row = bi_type it \<and> n_payload row = bi_payload it
     \<and> n_idempotencyKey row = o_idempotencyKey (bi_options it)
     \<and> n_uniqueKey row = o_uniqueKey (bi_options it)"

lemma build_rows_items:
  "build_rows cnow q n items cl d = (Inr rows, cl') \<Longrightarrow> list_all2 (row_of_item q) items rows"
proof (induction items arbitrary: n cl rows)
  case Nil
  then show ?case by simp
next
  case (Cons it items)
  then obtain row rows' cl1 where row: "buildRow cnow q (bi_type it) (bi_payload it) (bi_options it) cl d
      = (Inr row, cl1)"
    and rest: "build_rows cnow q (Suc n) items cl1 d = (Inr rows', cl')" and rows: "rows = row # rows'"
    by (auto split: sum.splits prod.splits)
  have "row_of_item q it row"
    using buildRow_fields [OF row] buildRow_payload [OF row] by (simp add: row_of_item_def)
  with Cons.IH [OF rest] rows show ?case by simp
qed

text \<open>The job an item's result names.\<close>

definition item_result :: "db \<Rightarrow> string \<Rightarrow> batch_item \<Rightarrow> enqueue_result \<Rightarrow> bool" where
  "item_result d q it res \<longleftrightarrow>
     (\<exists>j. er_id res = Some (j_id j) \<and> job_at d (j_id j) = Some j \<and> j_queue j = q \<and>
       (case o_idempotencyKey (bi_options it) of
          Some k \<Rightarrow> j_idempotency_key j = Some k
        | None \<Rightarrow> j_type j = bi_type it \<and> j_payload j = bi_payload it \<and> \<not> er_deduplicated res))"

lemma enqueueBatch_aligned:
  assumes inv: "db_inv d" and free: "\<forall>it \<in> set items. o_uniqueKey (bi_options it) = None"
    and ok: "enqueueBatch alone now cnow q items cl d = (Inr rs, cl', d')"
  shows "db_inv d' \<and> list_all2 (item_result d' q) items rs"
proof (cases "items = []")
  case True
  with ok inv show ?thesis by (auto simp: enqueueBatch_def split: sum.splits)
next
  case False
  with ok obtain rows ins d1 where
    rows: "build_rows cnow q 0 items cl d = (Inr rows, cl')"
    and ins: "insertJobsBatch now rows d = Inr (ins, d1)"
    and mapped: "map_back alone 1 q (byIdem ins) rows
      (map ir_id (filter (\<lambda>r. ir_idempotency_key r = None) ins)) d1 = (rs, d')"
    by (auto simp: enqueueBatch_def Let_def split: sum.splits prod.splits if_splits)
  note items = build_rows_items [OF rows]
  from ins obtain js where js: "insert_rows now rows d = Inr (js, d1)" and i: "ins = map inserted_returning js"
    by (auto simp: insertJobsBatch_def returning_Inr)
  have inv1: "db_inv d1" by (rule insert_batch.inv [OF inv ins])
  have "\<forall>r \<in> set rows. n_uniqueKey r = None \<and> n_queue r = q"
    using items free by (force simp: list_all2_conv_all_nth in_set_conv_nth row_of_item_def)
  note S = insert_rows_spec [OF js this]
  have us: "map ir_id (filter (\<lambda>r. ir_idempotency_key r = None) ins)
      = map j_id (filter (\<lambda>j. j_idempotency_key j = None) js)"
    by (simp add: i filter_map comp_def inserted_returning_def)
  have "\<forall>k i. byIdem ins k = Some i \<longrightarrow> key_held d1 q k i"
  proof (intro allI impI)
    fix k j assume "byIdem ins k = Some j"
    from byIdem_sound [OF this] obtain x where "x \<in> set js" "j_idempotency_key x = Some k" "j_id x = j"
      by (auto simp: i inserted_returning_def)
    with S show "key_held d1 q k j" unfolding key_held_def by blast
  qed
  with S obtain rs' where "map_back alone 1 q (byIdem ins) rows
      (map j_id (filter (\<lambda>j. j_idempotency_key j = None) js)) d1 = (rs', d1)"
    and "list_all2 (result_of now d1 q) rows rs'" using map_back_spec by blast
  with mapped have d': "d' = d1" and res: "list_all2 (result_of now d1 q) rows rs"
    by (simp_all add: us del: alone_simp)
  have "item_result d1 q it r" if row: "row_of_item q it row" "result_of now d1 q row r" for it row r
  proof -
    from row obtain i where i: "er_id r = Some i" and c: "case o_idempotencyKey (bi_options it) of
          None \<Rightarrow> row_stored now d1 row i \<and> \<not> er_deduplicated r | Some k \<Rightarrow> key_held d1 q k i"
      by (auto simp: row_of_item_def result_of_def)
    show ?thesis
    proof (cases "o_idempotencyKey (bi_options it)")
      case None
      with c have "new_job now row i \<in> set (db_jobs d1)" by (simp add: row_stored_def)
      with db_inv_job_at [OF inv1 this] c i None row(1) show ?thesis
        unfolding item_result_def row_of_item_def
        by (intro exI [of _ "new_job now row i"]) (simp add: new_job_def)
    next
      case (Some k)
      with c obtain j where "j \<in> set (db_jobs d1)" "j_id j = i" "j_queue j = q" "j_idempotency_key j = Some k"
        by (auto simp: key_held_def)
      with db_inv_job_at [OF inv1 this(1)] i Some show ?thesis by (auto simp: item_result_def)
    qed
  qed
  from list_all2_trans [OF this items res] have "list_all2 (item_result d1 q) items rs" .
  with inv1 d' show ?thesis by simp
qed

end
