(* ===== verification/Client_Samples.thy ===== *)
theory Client_Samples
  imports Samples Dedup_Laws Batch_Laws
begin

text \<open>Concrete client calls the witnesses evaluate: one job with both keys, on the empty database.\<close>

definition keyed_options :: "string option \<Rightarrow> string option \<Rightarrow> enqueue_options" where
  "keyed_options k u = \<lparr>o_priority = None, o_runAt = None, o_delaySeconds = None, o_maxAttempts = None,
     o_leaseSeconds = None, o_idempotencyKey = k, o_uniqueKey = u, o_metadata = None,
     o_traceContext = None\<rparr>"

definition keyed_row :: "string option \<Rightarrow> string option \<Rightarrow> enqueue_row" where
  "keyed_row k u = \<lparr>n_queue = ''q'', n_type = ''t'', n_payload = JNull, n_metadata = None,
     n_priority = 0, n_maxAttempts = 5, n_leaseSeconds = 30, n_runAt = None,
     n_idempotencyKey = k, n_uniqueKey = u, n_traceContext = None, n_scheduleId = None\<rparr>"

lemma keyed_row_fields [simp]:
  "n_idempotencyKey (keyed_row k u) = k" "n_uniqueKey (keyed_row k u) = u" "n_queue (keyed_row k u) = ''q''"
  by (simp_all add: keyed_row_def)

lemma sample_names: "validateName ''q'' = Inr ()" "validateName ''t'' = Inr ()"
  by (simp_all add: validateName_def name_char_def byte_def)

definition db_keyed :: "string option \<Rightarrow> string option \<Rightarrow> db" where
  "db_keyed k u = exec (Do_insert 0 (keyed_row k u)) empty_db"

lemma reachable_keyed: "reachable (db_keyed k u)"
  unfolding db_keyed_def by (intro reachable.intros)

lemma insert_keyed: "insertJob 0 (keyed_row k u) empty_db = Inr ([1], db_keyed k u)"
  and keyed_jobs: "db_jobs (db_keyed k u) = [new_job 0 (keyed_row k u) 1]"
  and keyed_config: "db_config (db_keyed k u) = []"
  by (simp_all add: db_keyed_def commit_def insertJob_def insert_row_def empty_db_def Let_def
      new_job_def keyed_row_def is_smallint_def is_integer_def job_checks_def conflicts_def)

lemma keyed_admissible: "admissible now (keyed_row k u)"
  by (simp add: admissible_def Let_def new_job_def keyed_row_def is_smallint_def is_integer_def job_checks_def)

definition cached_client :: client where
  "cached_client = snd (queueDefaults 0 ''q'' new_client empty_db)"

lemma sample_defaults:
  "db_config d = [] \<Longrightarrow> queueDefaults 0 ''q'' new_client d = (no_queue_defaults, cached_client)"
  by (simp add: cached_client_def queueDefaults_def Let_def new_client_def fetch_defaults_def
      resolveQueueDefaults_def no_queue_defaults_def empty_db_def)

lemma build_keyed:
  "db_config d = [] \<Longrightarrow>
   buildRow 0 ''q'' ''t'' JNull (keyed_options k u) new_client d = (Inr (keyed_row k u), cached_client)"
  using sample_defaults [of d]
  by (simp add: buildRow_def Let_def keyed_options_def keyed_row_def no_queue_defaults_def new_client_def
      DEFAULTS_def)

lemma enqueue_keyed:
  "enqueue alone 0 0 ''q'' ''t'' JNull (keyed_options k u) new_client empty_db =
     (Inr \<lparr>er_id = Some 1, er_deduplicated = False\<rparr>, cached_client, db_keyed k u)"
proof -
  have "db_config empty_db = []" by (simp add: empty_db_def)
  from enqueue_built [OF sample_names build_keyed [OF this], of 0] show ?thesis
    by (simp add: submit_def insert_keyed)
qed

subsection \<open>A batch\<close>

definition sample_item :: "string option \<Rightarrow> batch_item" where
  "sample_item k = \<lparr>bi_type = ''t'', bi_payload = JNull, bi_options = keyed_options k None\<rparr>"

lemma insert_two:
  "\<exists>d'. insert_rows 0 [keyed_row None None, keyed_row (Some k) None] empty_db =
     Inr ([new_job 0 (keyed_row None None) 1, new_job 0 (keyed_row (Some k) None) 2], d')"
  by (simp add: insert_row_def empty_db_def Let_def new_job_def keyed_row_def is_smallint_def
      is_integer_def job_checks_def conflicts_def idem_slot_def active_slot_def numeral_2_eq_2)

lemma batch_two:
  "\<exists>cl' d'. enqueueBatch alone 0 0 ''q'' [sample_item None, sample_item (Some k)] new_client empty_db =
     (Inr [\<lparr>er_id = Some 1, er_deduplicated = False\<rparr>, \<lparr>er_id = Some 2, er_deduplicated = False\<rparr>], cl', d')"
proof -
  have cfg: "db_config empty_db = []" by (simp add: empty_db_def)
  have again: "buildRow 0 ''q'' ''t'' JNull (keyed_options (Some k) None) cached_client empty_db
      = (Inr (keyed_row (Some k) None), cached_client)"
    by (rule buildRow_repeat [OF build_keyed [OF cfg]])
  have rows: "build_rows 0 ''q'' 0 [sample_item None, sample_item (Some k)] new_client empty_db
      = (Inr [keyed_row None None, keyed_row (Some k) None], cached_client)"
    using build_keyed [OF cfg] again by (simp add: sample_item_def sample_names)
  from insert_two [of k] obtain d' where ins: "insertJobsBatch 0 [keyed_row None None, keyed_row (Some k) None] empty_db
      = Inr (map inserted_returning [new_job 0 (keyed_row None None) 1, new_job 0 (keyed_row (Some k) None) 2], d')"
    by (auto simp: insertJobsBatch_def returning_def)
  have "alone 0 empty_db = empty_db" by simp
  then show ?thesis
    by (simp add: enqueueBatch_def sample_names rows ins Let_def byIdem_def inserted_returning_def
        del: build_rows.simps alone_simp One_nat_def)
qed

end
