(* ===== verification/Auth.thy ===== *)
theory Auth
  imports Client
begin

text \<open>
  packages/server/src/auth.ts: API keys. The hash of a key under the deployment's salt is a
  parameter (sha256 over salt and key), and so are the random bytes of a new key. A hash is its
  bytes. What others do between two statements does not matter here: every operation is one
  statement.
\<close>

datatype scope = Scope_enqueue | Scope_read | Scope_admin

definition SCOPES :: "scope list" where
  "SCOPES = [Scope_enqueue, Scope_read, Scope_admin]"

primrec scope_name :: "scope \<Rightarrow> string" where
  "scope_name Scope_enqueue = ''enqueue''"
| "scope_name Scope_read = ''read''"
| "scope_name Scope_admin = ''admin''"

definition isScope :: "string \<Rightarrow> bool" where
  "isScope s \<longleftrightarrow> s \<in> set (map scope_name SCOPES)"

record api_key_record =
  kr_id :: ident
  kr_name :: string
  kr_scopes :: "string list"
  kr_queues :: "string list option"

type_synonym hasher = "string \<Rightarrow> nat list"

definition PREFIX :: string where
  "PREFIX = ''pgjq_''"

text \<open>\<open>rnd\<close> is the base64url text of 32 random bytes.\<close>

definition generateKey :: "string \<Rightarrow> string" where
  "generateKey rnd = PREFIX @ rnd"

definition keyPrefix :: "string \<Rightarrow> string" where
  "keyPrefix key = take (length PREFIX + 8) key"

definition record_of_key :: "api_key \<Rightarrow> api_key_record" where
  "record_of_key k = \<lparr>kr_id = k_id k, kr_name = k_name k, kr_scopes = filter isScope (k_scopes k),
     kr_queues = k_queues k\<rparr>"

subsection \<open>Operations\<close>

text \<open>\<open>key_hash\<close> is UNIQUE.\<close>

definition keys_with_hash :: "nat list \<Rightarrow> db \<Rightarrow> api_key list" where
  "keys_with_hash h d = filter (\<lambda>k. k_hash k = h) (db_keys d)"

definition touch_key :: "instant \<Rightarrow> ident \<Rightarrow> db \<Rightarrow> db" where
  "touch_key now i d =
     d\<lparr>db_keys := upd_where (\<lambda>k. k_id k = i) (\<lambda>k. k\<lparr>k_last_used_at := Some now\<rparr>) (db_keys d)\<rparr>"

definition authenticate ::
  "hasher \<Rightarrow> instant \<Rightarrow> instant \<Rightarrow> string \<Rightarrow> db \<Rightarrow> api_key_record option \<times> db" where
  "authenticate hash now cnow presented d =
     (if \<not> is_prefix PREFIX presented then (None, d)
      else case keys_with_hash (hash presented) d of
        [] \<Rightarrow> (None, d)
      | k # _ \<Rightarrow>
          if k_revoked_at k \<noteq> None then (None, d)
          else if (case k_expires_at k of None \<Rightarrow> False | Some t \<Rightarrow> t \<le> cnow) then (None, d)
          else if length (k_hash k) \<noteq> length (hash presented) \<or> k_hash k \<noteq> hash presented
          then (None, d)
          else (Some (record_of_key k), touch_key now (k_id k) d))"

definition new_key ::
  "instant \<Rightarrow> ident \<Rightarrow> string \<Rightarrow> nat list \<Rightarrow> string \<Rightarrow> string list \<Rightarrow> string list option \<Rightarrow> instant option
   \<Rightarrow> api_key" where
  "new_key now i name h prefix scopes queues expires =
     \<lparr>k_id = i, k_name = name, k_hash = h, k_prefix = prefix, k_scopes = scopes, k_queues = queues,
      k_expires_at = expires, k_revoked_at = None, k_last_used_at = None, k_created_at = now\<rparr>"

definition insert_key :: "api_key \<Rightarrow> db \<Rightarrow> db" where
  "insert_key k d = d\<lparr>db_keys := db_keys d @ [k], db_key_seq := Suc (db_key_seq d)\<rparr>"

definition create ::
  "hasher \<Rightarrow> string \<Rightarrow> instant \<Rightarrow> string \<Rightarrow> scope list \<Rightarrow> string list option \<Rightarrow> instant option \<Rightarrow> db
   \<Rightarrow> (fault + ident \<times> string) \<times> db" where
  "create hash rnd now name scopes queues expires d =
     (let key = generateKey rnd
      in if hash key \<in> k_hash ` set (db_keys d) then (Inl (Passed_through Unique_violation), d)
         else (Inr (db_key_seq d, key),
               insert_key (new_key now (db_key_seq d) name (hash key) (keyPrefix key)
                 (map scope_name scopes) queues expires) d))"

definition revoke :: "instant \<Rightarrow> ident \<Rightarrow> db \<Rightarrow> bool \<times> db" where
  "revoke now i d =
     (let hit = (\<lambda>k. k_id k = i \<and> k_revoked_at k = None)
      in (list_ex hit (db_keys d),
          d\<lparr>db_keys := upd_where hit (\<lambda>k. k\<lparr>k_revoked_at := Some now\<rparr>) (db_keys d)\<rparr>))"

record key_listing =
  kl_id :: ident
  kl_name :: string
  kl_prefix :: string
  kl_scopes :: "string list"
  kl_revoked :: bool

definition list_keys :: "db \<Rightarrow> key_listing list" where
  "list_keys d = map (\<lambda>k. \<lparr>kl_id = k_id k, kl_name = k_name k, kl_prefix = k_prefix k,
       kl_scopes = k_scopes k, kl_revoked = (k_revoked_at k \<noteq> None)\<rparr>)
     (sort_key (\<lambda>k. - k_created_at k) (db_keys d))"

definition ensureBootstrapKey :: "hasher \<Rightarrow> instant \<Rightarrow> string \<Rightarrow> db \<Rightarrow> db" where
  "ensureBootstrapKey hash now plaintext d =
     (if hash plaintext \<in> k_hash ` set (db_keys d) then d\<lparr>db_key_seq := Suc (db_key_seq d)\<rparr>
      else insert_key (new_key now (db_key_seq d) ''bootstrap'' (hash plaintext) (take 12 plaintext)
             [''enqueue'', ''read'', ''admin''] None None) d)"

definition authorizes :: "api_key_record \<Rightarrow> scope \<Rightarrow> string option \<Rightarrow> bool" where
  "authorizes r s q \<longleftrightarrow>
     (if scope_name s \<notin> set (kr_scopes r) then False
      else case q of
             None \<Rightarrow> True
           | Some queue \<Rightarrow> (case kr_queues r of None \<Rightarrow> True | Some qs \<Rightarrow> queue \<in> set qs))"

subsection \<open>The keys of a database\<close>

definition keys_inv :: "db \<Rightarrow> bool" where
  "keys_inv d \<longleftrightarrow> distinct (map k_hash (db_keys d)) \<and> distinct (map k_id (db_keys d))
     \<and> (\<forall>k \<in> set (db_keys d). k_id k < db_key_seq d)"

lemma keys_inv_upd:
  assumes "keys_inv d" and "\<And>k. k_hash (f k) = k_hash k \<and> k_id (f k) = k_id k"
  shows "keys_inv (d\<lparr>db_keys := upd_where P f (db_keys d)\<rparr>)"
proof -
  have "map k_hash (upd_where P f (db_keys d)) = map k_hash (db_keys d)"
    and ids: "map k_id (upd_where P f (db_keys d)) = map k_id (db_keys d)"
    using assms(2) by (simp_all add: map_upd_where)
  moreover from ids have "k_id ` set (upd_where P f (db_keys d)) = k_id ` set (db_keys d)"
    by (metis list.set_map)
  then have "\<forall>k \<in> set (upd_where P f (db_keys d)). k_id k < db_key_seq d"
    using assms(1) by (metis (no_types, lifting) image_iff keys_inv_def)
  ultimately show ?thesis using assms(1) by (simp add: keys_inv_def)
qed

lemma insert_key_inv:
  assumes "keys_inv d" and "k_hash k \<notin> k_hash ` set (db_keys d)" and "k_id k = db_key_seq d"
  shows "keys_inv (insert_key k d)"
  using assms by (auto simp: keys_inv_def insert_key_def less_SucI)

lemma new_key_simps [simp]:
  "k_hash (new_key now i name h p sc q e) = h" "k_id (new_key now i name h p sc q e) = i"
  "k_scopes (new_key now i name h p sc q e) = sc" "k_queues (new_key now i name h p sc q e) = q"
  "k_expires_at (new_key now i name h p sc q e) = e"
  "k_revoked_at (new_key now i name h p sc q e) = None"
  by (simp_all add: new_key_def)

lemma create_inv: "keys_inv d \<Longrightarrow> create hash rnd now n sc q e d = (r, d') \<Longrightarrow> keys_inv d'"
  by (auto simp: create_def Let_def insert_key_inv split: if_splits)

lemma revoke_inv: "keys_inv d \<Longrightarrow> revoke now i d = (r, d') \<Longrightarrow> keys_inv d'"
  by (auto simp: revoke_def Let_def intro: keys_inv_upd)

lemma authenticate_inv: "keys_inv d \<Longrightarrow> authenticate hash now cnow key d = (r, d') \<Longrightarrow> keys_inv d'"
  by (auto simp: authenticate_def touch_key_def intro: keys_inv_upd split: if_splits list.splits)

lemma bootstrap_inv: "keys_inv d \<Longrightarrow> keys_inv (ensureBootstrapKey hash now key d)"
  by (auto simp: ensureBootstrapKey_def insert_key_inv) (auto simp: keys_inv_def less_SucI)

lemma ensureBootstrap_again:
  "db_keys (ensureBootstrapKey hash t key (ensureBootstrapKey hash s key d)) =
   db_keys (ensureBootstrapKey hash s key d)"
  by (auto simp: ensureBootstrapKey_def insert_key_def)

subsection \<open>Who gets in\<close>

lemma keys_with_hash_single:
  assumes "keys_inv d" and "k \<in> set (db_keys d)"
  shows "keys_with_hash (k_hash k) d = [k]"
  using assms filter_key_guard [of k_hash "db_keys d" "k_hash k" "\<lambda>_. True"]
    row_of_mem [of k_hash "db_keys d" k]
  by (simp add: keys_with_hash_def keys_inv_def)

definition live_key :: "instant \<Rightarrow> api_key \<Rightarrow> bool" where
  "live_key cnow k \<longleftrightarrow> k_revoked_at k = None \<and> (\<forall>t. k_expires_at k = Some t \<longrightarrow> cnow < t)"

text \<open>
  A presented text is accepted exactly when it has the prefix and its hash is that of a key that
  is neither revoked nor expired.
\<close>

lemma authenticate_iff:
  assumes "keys_inv d"
  shows "fst (authenticate hash now cnow key d) = Some r \<longleftrightarrow>
    is_prefix PREFIX key
    \<and> (\<exists>k \<in> set (db_keys d). k_hash k = hash key \<and> live_key cnow k \<and> r = record_of_key k)"
proof (cases "\<exists>k \<in> set (db_keys d). k_hash k = hash key")
  case True
  then obtain k where k: "k \<in> set (db_keys d)" "k_hash k = hash key" by blast
  have one: "keys_with_hash (hash key) d = [k]" using keys_with_hash_single [OF assms k(1)] k(2) by simp
  have uniq: "j = k" if "j \<in> set (db_keys d)" "k_hash j = hash key" for j
    using that k assms by (auto simp: keys_inv_def dest: distinct_map_key_inj)
  have "(\<exists>j \<in> set (db_keys d). k_hash j = hash key \<and> live_key cnow j \<and> r = record_of_key j)
      \<longleftrightarrow> live_key cnow k \<and> r = record_of_key k"
    using k uniq by metis
  moreover have "fst (authenticate hash now cnow key d) =
      (if is_prefix PREFIX key \<and> live_key cnow k then Some (record_of_key k) else None)"
    using k(2) by (simp add: authenticate_def one live_key_def not_le split: option.split)
  ultimately show ?thesis by auto
next
  case False
  then have "keys_with_hash (hash key) d = []" by (auto simp: keys_with_hash_def filter_empty_conv)
  with False show ?thesis by (auto simp: authenticate_def)
qed

text \<open>After a revocation the key is refused, at any later time.\<close>

lemma revoked_refused:
  assumes inv: "keys_inv d" and k: "k \<in> set (db_keys d)" "k_hash k = hash key"
    and rev: "revoke now (k_id k) d = (r, d')"
  shows "fst (authenticate hash now' cnow key d') = None"
proof -
  have inv': "keys_inv d'" by (rule revoke_inv [OF inv rev])
  let ?hit = "\<lambda>j. k_id j = k_id k \<and> k_revoked_at j = None"
  let ?k = "if ?hit k then k\<lparr>k_revoked_at := Some now\<rparr> else k"
  have "?k \<in> set (db_keys d')" "k_hash ?k = hash key" "k_revoked_at ?k \<noteq> None"
    using rev k by (auto simp: revoke_def Let_def set_upd_where)
  then have "\<not> (\<exists>j \<in> set (db_keys d'). k_hash j = hash key \<and> live_key cnow j)"
    using inv' by (auto simp: keys_inv_def live_key_def dest: distinct_map_key_inj)
  then have "\<nexists>r. fst (authenticate hash now' cnow key d') = Some r"
    by (auto simp: authenticate_iff [OF inv'])
  then show ?thesis by simp
qed

text \<open>A created key works, with the scopes it was given, until it expires.\<close>

lemma prefix_generateKey [simp]: "is_prefix PREFIX (generateKey rnd)"
  by (simp add: PREFIX_def generateKey_def)

lemma scope_names_isScope [simp]: "filter isScope (map scope_name ss) = map scope_name ss"
proof -
  have "isScope (scope_name s)" for s by (cases s) (simp_all add: isScope_def SCOPES_def)
  then show ?thesis by simp
qed

lemma created_accepted:
  assumes inv: "keys_inv d" and c: "create hash rnd now name scopes queues expires d = (Inr (i, key), d')"
    and live: "\<forall>t. expires = Some t \<longrightarrow> cnow < t"
  shows "fst (authenticate hash now' cnow key d') =
    Some \<lparr>kr_id = i, kr_name = name, kr_scopes = map scope_name scopes, kr_queues = queues\<rparr>"
proof -
  have inv': "keys_inv d'" by (rule create_inv [OF inv c])
  from c have key: "key = generateKey rnd" and i: "i = db_key_seq d"
    and mem: "new_key now i name (hash key) (keyPrefix key) (map scope_name scopes) queues expires
       \<in> set (db_keys d')"
    by (auto simp: create_def Let_def insert_key_def split: if_splits)
  show ?thesis
    unfolding authenticate_iff [OF inv']
    using mem live by (auto simp: key live_key_def record_of_key_def new_key_def intro!: bexI [OF _ mem])
qed

text \<open>
  A bootstrap key without the prefix is stored and never accepted: \<open>authenticate\<close> refuses it before
  it looks.
\<close>

lemma bootstrap_without_prefix:
  "\<not> is_prefix PREFIX key \<Longrightarrow>
   authenticate hash now cnow key (ensureBootstrapKey hash t key d) = (None, ensureBootstrapKey hash t key d)"
  by (simp add: authenticate_def)

lemma bootstrap_accepted:
  assumes inv: "keys_inv d" and p: "is_prefix PREFIX key" and new: "hash key \<notin> k_hash ` set (db_keys d)"
  shows "\<exists>r. fst (authenticate hash now cnow key (ensureBootstrapKey hash t key d)) = Some r
    \<and> kr_scopes r = map scope_name SCOPES \<and> kr_queues r = None"
proof -
  let ?k = "new_key t (db_key_seq d) ''bootstrap'' (hash key) (take 12 key)
             [''enqueue'', ''read'', ''admin''] None None"
  have mem: "?k \<in> set (db_keys (ensureBootstrapKey hash t key d))"
    using new by (simp add: ensureBootstrapKey_def insert_key_def)
  have "kr_scopes (record_of_key ?k) = map scope_name SCOPES" and "kr_queues (record_of_key ?k) = None"
    by (simp_all add: record_of_key_def isScope_def SCOPES_def)
  moreover have "fst (authenticate hash now cnow key (ensureBootstrapKey hash t key d))
      = Some (record_of_key ?k)"
    unfolding authenticate_iff [OF bootstrap_inv [OF inv]]
    using mem p by (auto simp: live_key_def intro!: bexI [OF _ mem])
  ultimately show ?thesis by blast
qed

lemma scope_name_inj: "scope_name s = scope_name t \<Longrightarrow> s = t"
  by (cases s; cases t) simp_all

lemma authorizes_iff:
  "authorizes r s q \<longleftrightarrow> scope_name s \<in> set (kr_scopes r)
     \<and> (\<forall>queue qs. q = Some queue \<and> kr_queues r = Some qs \<longrightarrow> queue \<in> set qs)"
  by (auto simp: authorizes_def split: option.splits)

end
