(* ===== verification/Middleware.thy ===== *)
theory Middleware
  imports Auth
begin

text \<open>
  packages/server/src/middleware.ts: authentication, authorisation, validation and the mapping of
  errors to responses. Express hands a request through the chain; a middleware either answers
  with a response or lets the request pass. A Zod schema is its parser, a parameter: it yields
  the parsed value or its issues as (path, message) pairs.
\<close>

fun STATUS_BY_CODE :: "error_code \<Rightarrow> nat" where
  "STATUS_BY_CODE VALIDATION_ERROR = 400"
| "STATUS_BY_CODE PAYLOAD_TOO_LARGE = 413"
| "STATUS_BY_CODE JOB_NOT_FOUND = 404"
| "STATUS_BY_CODE SCHEDULE_NOT_FOUND = 404"
| "STATUS_BY_CODE INVALID_TRANSITION = 409"
| "STATUS_BY_CODE CONFLICT = 409"
| "STATUS_BY_CODE OWNERSHIP_LOST = 409"
| "STATUS_BY_CODE NO_HANDLER = 422"
| "STATUS_BY_CODE HANDLER_TIMEOUT = 504"
| "STATUS_BY_CODE NON_RETRYABLE = 422"
| "STATUS_BY_CODE CANCELLED = 409"
| "STATUS_BY_CODE CONFIG_ERROR = 500"
| "STATUS_BY_CODE MIGRATION_ERROR = 503"
| "STATUS_BY_CODE DATABASE_ERROR = 503"
| "STATUS_BY_CODE UNAUTHENTICATED = 401"
| "STATUS_BY_CODE FORBIDDEN = 403"
| "STATUS_BY_CODE RATE_LIMITED = 429"
| "STATUS_BY_CODE NOT_READY = 503"
| "STATUS_BY_CODE INTERNAL = 500"

type_synonym problems = "(string \<times> string) list"

text \<open>
  The error envelope. \<open>er_details\<close> is what of an error's own details is exposed, \<open>er_problems\<close> the
  list of a validation.
\<close>

record 'd error_response =
  rsp_status :: nat
  rsp_code :: error_code
  rsp_message :: string
  rsp_details :: "'d option"
  rsp_problems :: "problems option"

definition plain_error :: "nat \<Rightarrow> error_code \<Rightarrow> string \<Rightarrow> 'd error_response" where
  "plain_error st c msg = \<lparr>rsp_status = st, rsp_code = c, rsp_message = msg, rsp_details = None,
     rsp_problems = None\<rparr>"

subsection \<open>Authentication and authorisation\<close>

definition bearer :: string where
  "bearer = ''Bearer ''"

definition requireAuth ::
  "hasher \<Rightarrow> instant \<Rightarrow> instant \<Rightarrow> string option \<Rightarrow> db \<Rightarrow> ('d error_response + api_key_record) \<times> db" where
  "requireAuth hash now cnow header d =
     (case header of
        None \<Rightarrow> (Inl (plain_error 401 UNAUTHENTICATED
                   ''Provide an API key as: Authorization: Bearer <key>''), d)
      | Some h \<Rightarrow>
          if \<not> is_prefix bearer h
          then (Inl (plain_error 401 UNAUTHENTICATED
                  ''Provide an API key as: Authorization: Bearer <key>''), d)
          else (case authenticate hash now cnow (trim (drop (length bearer) h)) d of
                  (None, d') \<Rightarrow> (Inl (plain_error 401 UNAUTHENTICATED ''Invalid or expired API key''), d')
                | (Some r, d') \<Rightarrow> (Inr r, d')))"

definition apostrophe :: string where
  "apostrophe = [CHR 0x27]"

text \<open>\<open>queue\<close> is the string found in the named part of the request, if there is one.\<close>

definition requireScope ::
  "scope \<Rightarrow> string option \<Rightarrow> api_key_record option \<Rightarrow> 'd error_response option" where
  "requireScope s queue rec =
     (case rec of
        None \<Rightarrow> Some (plain_error 401 UNAUTHENTICATED ''Authentication required'')
      | Some r \<Rightarrow>
          if \<not> authorizes r s queue
          then Some (plain_error 403 FORBIDDEN
                 (''This key lacks the '' @ apostrophe @ scope_name s @ apostrophe @ '' scope''
                  @ (case queue of None \<Rightarrow> [] | Some q \<Rightarrow> '' for queue '' @ apostrophe @ q @ apostrophe)))
          else None)"

subsection \<open>Validation\<close>

definition part_field :: "string \<Rightarrow> string \<times> string \<Rightarrow> string \<times> string" where
  "part_field part i = (part @ ''.'' @ (if fst i = [] then ''(root)'' else fst i), snd i)"

definition part_problems :: "string \<Rightarrow> problems + 'a \<Rightarrow> problems" where
  "part_problems part r = (case r of Inl is \<Rightarrow> map (part_field part) is | Inr _ \<Rightarrow> [])"

text \<open>\<open>problems.length > 0\<close>: a failed parse has at least one issue.\<close>

definition validate ::
  "problems + 'b \<Rightarrow> problems + 'q \<Rightarrow> problems + 'p \<Rightarrow> 'd error_response + 'b option \<times> 'q option \<times> 'p option"
where
  "validate bd qy pm =
     (let problems = part_problems ''body'' bd @ part_problems ''query'' qy @ part_problems ''params'' pm
      in if problems \<noteq> []
         then Inl \<lparr>rsp_status = 400, rsp_code = VALIDATION_ERROR,
                   rsp_message = ''Request validation failed with '' @ show_nat (length problems)
                     @ '' problem(s)'',
                   rsp_details = None, rsp_problems = Some problems\<rparr>
         else Inr (case bd of Inl _ \<Rightarrow> None | Inr v \<Rightarrow> Some v,
                   case qy of Inl _ \<Rightarrow> None | Inr v \<Rightarrow> Some v,
                   case pm of Inl _ \<Rightarrow> None | Inr v \<Rightarrow> Some v))"

subsection \<open>The error mapper\<close>

datatype 'd caught =
    Caught_zod problems
  | Caught_domain error_class string "'d option"
  | Caught_too_large
  | Caught_bad_json
  | Caught_other

definition internal_message :: string where
  "internal_message = ''The server encountered an internal error''"

text \<open>None: the headers are already sent and the error is passed on to Express.\<close>

definition errorHandler :: "bool \<Rightarrow> 'd caught \<Rightarrow> 'd error_response option" where
  "errorHandler headersSent e =
     (if headersSent then None
      else Some (case e of
          Caught_zod ps \<Rightarrow>
            \<lparr>rsp_status = 400, rsp_code = VALIDATION_ERROR,
             rsp_message = ''Request validation failed'', rsp_details = None,
             rsp_problems = Some (map (\<lambda>i. (if fst i = [] then ''(root)'' else fst i, snd i)) ps)\<rparr>
        | Caught_domain c msg details \<Rightarrow>
            (case code_of c of
               None \<Rightarrow> plain_error 500 INTERNAL internal_message
             | Some code \<Rightarrow>
                 (let status = STATUS_BY_CODE code
                  in \<lparr>rsp_status = status, rsp_code = code,
                      rsp_message = (if exposeDetails c \<or> status < 500 then msg else internal_message),
                      rsp_details = (if exposeDetails c then details else None),
                      rsp_problems = None\<rparr>))
        | Caught_too_large \<Rightarrow>
            plain_error 413 PAYLOAD_TOO_LARGE ''Request body exceeds the configured limit''
        | Caught_bad_json \<Rightarrow> plain_error 400 VALIDATION_ERROR ''Request body is not valid JSON''
        | Caught_other \<Rightarrow> plain_error 500 INTERNAL internal_message))"

definition notFoundHandler :: "string \<Rightarrow> string \<Rightarrow> 'd error_response" where
  "notFoundHandler meth path =
     plain_error 404 JOB_NOT_FOUND (''No route for '' @ meth @ '' '' @ path)"

subsection \<open>What a client learns\<close>

text \<open>An exposed class never maps to a server error.\<close>

lemma exposed_status:
  assumes "exposeDetails c" and "code_of c = Some code"
  shows "400 \<le> STATUS_BY_CODE code \<and> STATUS_BY_CODE code < 500"
  using assms by (cases c) (simp_all add: exposeDetails_def)

lemma status_range: "400 \<le> STATUS_BY_CODE code \<and> STATUS_BY_CODE code \<le> 504"
  by (cases code) simp_all

text \<open>A response of a server error carries the generic message and no details.\<close>

lemma server_error_opaque:
  assumes "errorHandler False e = Some r" and "500 \<le> rsp_status r"
  shows "rsp_message r = internal_message \<and> rsp_details r = None \<and> rsp_problems r = None"
proof (cases e)
  case (Caught_domain c msg details)
  show ?thesis
  proof (cases "code_of c")
    case None
    with assms Caught_domain show ?thesis by (auto simp: errorHandler_def plain_error_def)
  next
    case (Some code)
    with assms Caught_domain have "500 \<le> STATUS_BY_CODE code" by (auto simp: errorHandler_def Let_def)
    moreover from this exposed_status [OF _ Some] have "\<not> exposeDetails c" by auto
    ultimately show ?thesis using assms Caught_domain Some by (auto simp: errorHandler_def Let_def)
  qed
qed (use assms in \<open>auto simp: errorHandler_def plain_error_def\<close>)

lemma details_exposed_only:
  assumes "errorHandler False e = Some r" and "rsp_details r \<noteq> None"
  shows "\<exists>c msg. e = Caught_domain c msg (rsp_details r) \<and> exposeDetails c"
proof (cases e)
  case (Caught_domain c msg details)
  with assms show ?thesis
    by (auto simp: errorHandler_def plain_error_def Let_def split: option.splits if_splits)
qed (use assms in \<open>auto simp: errorHandler_def plain_error_def\<close>)

text \<open>A validation passes exactly when every part parses.\<close>

lemma validate_ok:
  assumes "\<forall>is. bd = Inl is \<longrightarrow> is \<noteq> []" and "\<forall>is. qy = Inl is \<longrightarrow> is \<noteq> []"
    and "\<forall>is. pm = Inl is \<longrightarrow> is \<noteq> []"
  shows "(\<exists>v. validate bd qy pm = Inr v) \<longleftrightarrow>
    (\<exists>b q p. bd = Inr b \<and> qy = Inr q \<and> pm = Inr p)"
  using assms by (cases bd; cases qy; cases pm) (auto simp: validate_def part_problems_def Let_def)

lemma requireScope_passes:
  "requireScope s q rec = None \<longleftrightarrow> (\<exists>r. rec = Some r \<and> authorizes r s q)"
  by (auto simp: requireScope_def split: option.splits)

lemma requireAuth_passes:
  assumes "keys_inv d"
  shows "fst (requireAuth hash now cnow header d) = Inr r \<longleftrightarrow>
    (\<exists>h. header = Some h \<and> is_prefix bearer h
       \<and> fst (authenticate hash now cnow (trim (drop (length bearer) h)) d) = Some r)"
  by (auto simp: requireAuth_def split: option.splits prod.splits)

end
