(* ===== verification/Schemas.thy ===== *)
theory Schemas
  imports Client_Laws
begin

text \<open>
  packages/server/src/schemas.ts: what the request schemas accept, as predicates on the parsed
  values (Zod's parsing and its messages are not modelled; lengths of text are counted in bytes).
  A value the schema coerces (dates, numbers of a query) is the coerced one.
\<close>

definition name_schema :: "string \<Rightarrow> bool" where
  "name_schema v \<longleftrightarrow> 1 \<le> length v \<and> length v \<le> 128 \<and> list_all name_char v"

text \<open>\<open>/^\d+$/\<close>: no bound, although the column is a bigint.\<close>

definition id_schema :: "string \<Rightarrow> bool" where
  "id_schema v \<longleftrightarrow> v \<noteq> [] \<and> list_all is_digit v"

definition optional :: "'a option \<Rightarrow> ('a \<Rightarrow> bool) \<Rightarrow> bool" where
  "optional v P \<longleftrightarrow> (case v of None \<Rightarrow> True | Some x \<Rightarrow> P x)"

lemma optional_simps [simp]: "optional None P" "optional (Some x) P = P x"
  by (simp_all add: optional_def)

text \<open>
  \<open>enqueueOptionsSchema\<close>; the options have no trace context, the schema is strict. \<open>runAt\<close> is a
  date when it is there.
\<close>

definition enqueueOptionsSchema :: "enqueue_options \<Rightarrow> bool" where
  "enqueueOptionsSchema v \<longleftrightarrow>
     optional (o_priority v) (\<lambda>p. -32768 \<le> p \<and> p \<le> 32767)
     \<and> optional (o_runAt v) (\<lambda>r. r \<noteq> None)
     \<and> optional (o_delaySeconds v) (\<lambda>s. 0 \<le> s \<and> s \<le> 31536000)
     \<and> optional (o_maxAttempts v) (\<lambda>n. 1 \<le> n \<and> n \<le> 1000)
     \<and> optional (o_leaseSeconds v) (\<lambda>n. 1 \<le> n \<and> n \<le> 86400)
     \<and> optional (o_idempotencyKey v) (\<lambda>k. 1 \<le> length k \<and> length k \<le> 255)
     \<and> optional (o_uniqueKey v) (\<lambda>k. 1 \<le> length k \<and> length k \<le> 255)
     \<and> o_traceContext v = None
     \<and> \<not> (o_runAt v \<noteq> None \<and> o_delaySeconds v \<noteq> None)"

record enqueue_body =
  eb_type :: string
  eb_payload :: json
  eb_options :: "enqueue_options option"

definition enqueueBodySchema :: "enqueue_body \<Rightarrow> bool" where
  "enqueueBodySchema b \<longleftrightarrow> name_schema (eb_type b) \<and> optional (eb_options b) enqueueOptionsSchema"

definition batchEnqueueBodySchema :: "enqueue_body list \<Rightarrow> bool" where
  "batchEnqueueBodySchema jobs \<longleftrightarrow>
     list_all enqueueBodySchema jobs \<and> 1 \<le> length jobs \<and> length jobs \<le> 1000"

record list_jobs_query =
  lq_state :: "job_state option"
  lq_type :: "string option"
  lq_from :: "instant option"
  lq_to :: "instant option"
  lq_cursor :: "ident option"
  lq_limit :: int

definition default_limit :: int where
  "default_limit = 50"

definition listJobsQuerySchema :: "list_jobs_query \<Rightarrow> bool" where
  "listJobsQuerySchema q \<longleftrightarrow>
     optional (lq_type q) name_schema \<and> 1 \<le> lq_limit q \<and> lq_limit q \<le> 200"

record list_dlq_query =
  dq_queue :: "string option"
  dq_type :: "string option"
  dq_reason :: "dead_reason option"
  dq_from :: "instant option"
  dq_to :: "instant option"
  dq_cursor :: "ident option"
  dq_limit :: int

definition listDlqQuerySchema :: "list_dlq_query \<Rightarrow> bool" where
  "listDlqQuerySchema q \<longleftrightarrow>
     optional (dq_queue q) name_schema \<and> optional (dq_type q) name_schema
     \<and> 1 \<le> dq_limit q \<and> dq_limit q \<le> 200"

definition bulkReplaySchema :: "'a list \<Rightarrow> bool" where
  "bulkReplaySchema ids \<longleftrightarrow> 1 \<le> length ids \<and> length ids \<le> 1000"

record purge_body =
  pb_states :: "job_state list"
  pb_confirm :: string

definition purgeBodySchema :: "purge_body \<Rightarrow> bool" where
  "purgeBodySchema b \<longleftrightarrow> 1 \<le> length (pb_states b) \<and> 1 \<le> length (pb_confirm b)"

record create_schedule_body =
  sb_name :: string
  sb_queue :: string
  sb_type :: string
  sb_payload :: "json option"
  sb_cron :: string
  sb_timezone :: string
  sb_catchupPolicy :: catchup_policy
  sb_enabled :: bool

definition createScheduleSchema :: "create_schedule_body \<Rightarrow> bool" where
  "createScheduleSchema b \<longleftrightarrow>
     name_schema (sb_name b) \<and> name_schema (sb_queue b) \<and> name_schema (sb_type b)
     \<and> 1 \<le> length (sb_cron b) \<and> length (sb_cron b) \<le> 255
     \<and> 1 \<le> length (sb_timezone b) \<and> length (sb_timezone b) \<le> 64"

subsection \<open>The schemas and the client agree\<close>

lemma name_schema_iff: "name_schema v \<longleftrightarrow> validateName v = Inr ()"
  by (auto simp: name_schema_def validateName_def Suc_le_eq)

text \<open>
  Options the schema accepts always make a row, and the row meets every column type and CHECK of
  the table: what the API lets through never fails in the database for its values.
\<close>

lemma schema_row:
  assumes ok: "enqueueOptionsSchema (opts\<lparr>o_traceContext := None\<rparr>)"
    and size: "length (stringify payload) \<le> df_maxPayloadBytes (cl_defaults cl)"
    and qd: "queueDefaults cnow q cl d = (qc, cl')"
    and att: "1 \<le> coalesce (qd_max_attempts qc) (df_maxAttempts (cl_defaults cl))"
      "coalesce (qd_max_attempts qc) (df_maxAttempts (cl_defaults cl)) \<le> 1000"
    and lease: "1 \<le> coalesce (qd_lease_seconds qc) (df_leaseSeconds (cl_defaults cl))"
      "is_integer (coalesce (qd_lease_seconds qc) (df_leaseSeconds (cl_defaults cl)))"
  shows "\<exists>row. buildRow cnow q ty payload opts cl d = (Inr row, cl') \<and> admissible now row"
proof -
  let ?a = "coalesce (o_maxAttempts opts) (coalesce (qd_max_attempts qc) (df_maxAttempts (cl_defaults cl)))"
  let ?l = "coalesce (o_leaseSeconds opts) (coalesce (qd_lease_seconds qc) (df_leaseSeconds (cl_defaults cl)))"
  have a: "1 \<le> ?a" "?a \<le> 1000" using ok att by (cases "o_maxAttempts opts"; simp add: enqueueOptionsSchema_def)+
  have l: "1 \<le> ?l" "is_integer ?l"
    using ok lease by (cases "o_leaseSeconds opts"; simp add: enqueueOptionsSchema_def is_integer_def)+
  have p: "is_smallint (coalesce (o_priority opts) 0)"
    using ok by (cases "o_priority opts") (simp_all add: enqueueOptionsSchema_def is_smallint_def)
  have run: "o_runAt opts \<noteq> Some None" "\<not> (o_runAt opts \<noteq> None \<and> o_delaySeconds opts \<noteq> None)"
    "\<not> (case o_delaySeconds opts of None \<Rightarrow> False | Some s \<Rightarrow> s < 0)"
    using ok by (auto simp: enqueueOptionsSchema_def split: option.splits)
  from size a(1) l(1) run qd obtain row where
    row: "buildRow cnow q ty payload opts cl d = (Inr row, cl')"
    and f: "n_priority row = coalesce (o_priority opts) 0" "n_maxAttempts row = ?a" "n_leaseSeconds row = ?l"
    by (simp add: buildRow_def Let_def not_less)
  have "is_smallint ?a" using a by (simp add: is_smallint_def)
  with a l p have "admissible now row"
    by (simp add: admissible_iff [of now row now 0] f job_checks_def new_job_def)
  with row show ?thesis by blast
qed

end
