(* ===== verification/Scheduler.thy ===== *)
theory Scheduler
  imports Client Stmt_Schedule
begin

text \<open>
  packages/core/src/engine/scheduler.ts. Croner, which evaluates a cron expression in a time zone,
  is a parameter: \<open>nextRun cron timezone from\<close> is the text of the error it throws, no further
  occurrence, or the next one. \<open>now\<close> is the database clock, \<open>cnow\<close> the scheduler's; \<open>env n\<close> is
  what others do before the n-th statement of a row. Logs and metrics are not modelled.
\<close>

type_synonym croner = "string \<Rightarrow> string \<Rightarrow> instant \<Rightarrow> string + instant option"

definition nextOccurrence :: "croner \<Rightarrow> string \<Rightarrow> string \<Rightarrow> instant \<Rightarrow> fault + instant" where
  "nextOccurrence nextRun cron tz t0 =
     (case nextRun cron tz t0 of
        Inl _ \<Rightarrow> Inl (Fault ValidationError No_details)
      | Inr None \<Rightarrow> Inl (Fault ValidationError No_details)
      | Inr (Some t) \<Rightarrow> Inr t)"

definition validateCron :: "croner \<Rightarrow> string \<Rightarrow> string \<Rightarrow> instant \<Rightarrow> fault + unit" where
  "validateCron nextRun cron tz cnow =
     (case nextOccurrence nextRun cron tz cnow of Inl e \<Rightarrow> Inl e | Inr _ \<Rightarrow> Inr ())"

subsection \<open>A tick\<close>

definition staleAfterSeconds :: int where
  "staleAfterSeconds = 3600"

definition shouldFire :: "due_row \<Rightarrow> instant \<Rightarrow> bool" where
  "shouldFire row cnow \<longleftrightarrow>
     \<not> (d_catchup_policy row = Skip_missed
        \<and> cnow - d_planned_for row > us_per_second * staleAfterSeconds)"

definition occurrence_row :: "due_row \<Rightarrow> enqueue_row" where
  "occurrence_row row = \<lparr>n_queue = d_queue row, n_type = d_type row, n_payload = d_payload row,
     n_metadata = None, n_priority = 0, n_maxAttempts = 5, n_leaseSeconds = 30, n_runAt = None,
     n_idempotencyKey = Some (occurrenceKey (d_id row) (d_planned_for row)), n_uniqueKey = None,
     n_traceContext = None, n_scheduleId = Some (d_id row)\<rparr>"

record tick_result =
  tr_processed :: nat
  tr_created :: nat
  tr_deduplicated :: nat

definition advance_to ::
  "instant \<Rightarrow> ident \<Rightarrow> instant \<Rightarrow> ident option \<Rightarrow> db \<Rightarrow> (fault + unit) \<times> db" where
  "advance_to now i nxt job d =
     (case query (advanceSchedule now \<lparr>ap_id = i, ap_nextRunAt = nxt, ap_lastJobId = job\<rparr>) d of
        Inl e \<Rightarrow> (Inl e, d) | Inr (_, d') \<Rightarrow> (Inr (), d'))"

text \<open>One due schedule: how many jobs it created and how many it found already there.\<close>

definition process_row ::
  "croner \<Rightarrow> env \<Rightarrow> instant \<Rightarrow> instant \<Rightarrow> due_row \<Rightarrow> db \<Rightarrow> (fault + nat \<times> nat) \<times> db" where
  "process_row nextRun env now cnow row d =
     (case nextOccurrence nextRun (d_cron row) (d_timezone row) cnow of
        Inl _ \<Rightarrow>
          (case advance_to now (d_id row) (cnow + us_per_ms * 3600000) None (env 0 d) of
             (Inl e, d') \<Rightarrow> (Inl e, d') | (Inr _, d') \<Rightarrow> (Inr (0, 0), d'))
      | Inr nxt \<Rightarrow>
          if shouldFire row cnow
          then (case query (insertJob now (occurrence_row row)) (env 0 d) of
                  Inl e \<Rightarrow> (Inl e, env 0 d)
                | Inr (ids, d1) \<Rightarrow>
                    (case advance_to now (d_id row) nxt (case ids of [] \<Rightarrow> None | i # _ \<Rightarrow> Some i)
                            (env 1 d1) of
                       (Inl e, d') \<Rightarrow> (Inl e, d')
                     | (Inr _, d') \<Rightarrow> (Inr (if ids = [] then (0, 1) else (1, 0)), d')))
          else (case advance_to now (d_id row) nxt None (env 1 d) of
                  (Inl e, d') \<Rightarrow> (Inl e, d') | (Inr _, d') \<Rightarrow> (Inr (0, 0), d')))"

fun process_rows ::
  "croner \<Rightarrow> env \<Rightarrow> instant \<Rightarrow> (nat \<Rightarrow> instant) \<Rightarrow> nat \<Rightarrow> due_row list \<Rightarrow> db
   \<Rightarrow> (fault + nat \<times> nat) \<times> db" where
  "process_rows nextRun env now clock n [] d = (Inr (0, 0), d)"
| "process_rows nextRun env now clock n (r # rs) d =
     (case process_row nextRun env now (clock n) r d of
        (Inl e, d') \<Rightarrow> (Inl e, d')
      | (Inr (c, u), d') \<Rightarrow>
          (case process_rows nextRun env now clock (Suc n) rs d' of
             (Inl e, d'') \<Rightarrow> (Inl e, d'')
           | (Inr (c', u'), d'') \<Rightarrow> (Inr (c + c', u + u'), d'')))"

definition tick ::
  "croner \<Rightarrow> env \<Rightarrow> instant \<Rightarrow> (nat \<Rightarrow> instant) \<Rightarrow> ident set \<Rightarrow> nat \<Rightarrow> db \<Rightarrow> (fault + tick_result) \<times> db"
where
  "tick nextRun env now clock locked batchMax d =
     (case query (claimDueSchedules now locked batchMax) d of
        Inl e \<Rightarrow> (Inl e, d)
      | Inr (due, d1) \<Rightarrow>
          (case process_rows nextRun env now clock 0 due d1 of
             (Inl e, d') \<Rightarrow> (Inl e, d')
           | (Inr (c, u), d') \<Rightarrow>
               (Inr \<lparr>tr_processed = length due, tr_created = c, tr_deduplicated = u\<rparr>, d')))"

subsection \<open>Management\<close>

record create_request =
  cq_name :: string
  cq_queue :: string
  cq_type :: string
  cq_payload :: "json option"
  cq_cron :: string
  cq_timezone :: "string option"
  cq_catchupPolicy :: "catchup_policy option"
  cq_enabled :: "bool option"

definition create_schedule ::
  "croner \<Rightarrow> instant \<Rightarrow> instant \<Rightarrow> create_request \<Rightarrow> db \<Rightarrow> (fault + schedule_view) \<times> db" where
  "create_schedule nextRun now cnow p d =
     (let tz = coalesce (cq_timezone p) ''UTC''
      in case nextOccurrence nextRun (cq_cron p) tz cnow of
           Inl e \<Rightarrow> (Inl e, d)
         | Inr nxt \<Rightarrow>
             (case query (createSchedule now
                 \<lparr>sp_name = cq_name p, sp_queue = cq_queue p, sp_type = cq_type p,
                   sp_payload = coalesce (cq_payload p) (JObj []), sp_cron = cq_cron p,
                   sp_timezone = tz, sp_catchupPolicy = coalesce (cq_catchupPolicy p) Skip_missed,
                   sp_enabled = coalesce (cq_enabled p) True, sp_nextRunAt = nxt\<rparr>) d of
                Inl e \<Rightarrow> (Inl e, d)
              | Inr ([], d') \<Rightarrow> (Inl (Fault ValidationError No_details), d')
              | Inr (row # _, d') \<Rightarrow> (Inr (toSchedule row), d')))"

definition list_schedules :: "db \<Rightarrow> schedule_view list" where
  "list_schedules d = map toSchedule (listSchedules d)"

definition get_schedule :: "ident \<Rightarrow> db \<Rightarrow> schedule_view option" where
  "get_schedule i d = (case getSchedule i d of [] \<Rightarrow> None | row # _ \<Rightarrow> Some (toSchedule row))"

definition setEnabled ::
  "croner \<Rightarrow> env \<Rightarrow> instant \<Rightarrow> instant \<Rightarrow> ident \<Rightarrow> bool \<Rightarrow> db \<Rightarrow> (fault + schedule_view option) \<times> db" where
  "setEnabled nextRun env now cnow i en d =
     (case get_schedule i d of
        None \<Rightarrow> (Inr None, d)
      | Some existing \<Rightarrow>
          (case (if en then map_sum id Some (nextOccurrence nextRun (vs_cron existing)
                               (vs_timezone existing) cnow) else Inr None) of
             Inl e \<Rightarrow> (Inl e, d)
           | Inr nxt \<Rightarrow>
               (case query (setScheduleEnabled now i en nxt) (env 0 d) of
                  Inl e \<Rightarrow> (Inl e, env 0 d)
                | Inr ([], d') \<Rightarrow> (Inr None, d')
                | Inr (row # _, d') \<Rightarrow> (Inr (Some (toSchedule row)), d'))))"

definition delete_schedule :: "ident \<Rightarrow> db \<Rightarrow> (fault + bool) \<times> db" where
  "delete_schedule i d =
     (case query (deleteSchedule i) d of
        Inl e \<Rightarrow> (Inl e, d) | Inr (rows, d') \<Rightarrow> (Inr (rows \<noteq> []), d'))"

end
