(* ===== verification/Events.thy ===== *)
theory Events
  imports Job_Types
begin

text \<open>
  packages/server/src/events.ts: the broadcast to dashboard subscribers. A subscriber's response
  is the list of frames written to it; which writes find the connection too slow (a refused write
  with more than a megabyte buffered) is the network's doing and a parameter. The map of
  subscribers keeps insertion order.
\<close>

record subscriber =
  su_id :: nat
  su_frames :: "string list"

record event_stream =
  ev_max :: nat
  ev_subscribers :: "subscriber list"
  ev_nextId :: nat
  ev_heartbeat :: bool
  ev_ended :: "nat list"

definition new_stream :: "nat \<Rightarrow> event_stream" where
  "new_stream n = \<lparr>ev_max = n, ev_subscribers = [], ev_nextId = 1, ev_heartbeat = False, ev_ended = []\<rparr>"

definition subscriberCount :: "event_stream \<Rightarrow> nat" where
  "subscriberCount s = length (ev_subscribers s)"

definition retry_frame :: string where
  "retry_frame = ''retry: 3000'' @ map char_of [10 :: nat, 10]"

definition keepalive_frame :: string where
  "keepalive_frame = '': keepalive'' @ map char_of [10 :: nat, 10]"

text \<open>The answer is the status of the response.\<close>

definition subscribe :: "event_stream \<Rightarrow> nat \<times> event_stream" where
  "subscribe s =
     (if ev_max s \<le> subscriberCount s then (503, s)
      else (200, s\<lparr>ev_nextId := Suc (ev_nextId s),
              ev_subscribers := ev_subscribers s @ [\<lparr>su_id = ev_nextId s, su_frames = [retry_frame]\<rparr>],
              ev_heartbeat := True\<rparr>))"

text \<open>The \<open>close\<close> or \<open>error\<close> event of a request.\<close>

definition cleanup :: "nat \<Rightarrow> event_stream \<Rightarrow> event_stream" where
  "cleanup i s = s\<lparr>ev_subscribers := filter (\<lambda>u. su_id u \<noteq> i) (ev_subscribers s)\<rparr>"

definition write_frame :: "string \<Rightarrow> subscriber \<Rightarrow> subscriber" where
  "write_frame f u = u\<lparr>su_frames := su_frames u @ [f]\<rparr>"

definition publish :: "(nat \<Rightarrow> bool) \<Rightarrow> string \<Rightarrow> event_stream \<Rightarrow> event_stream" where
  "publish slow frame s =
     (if ev_subscribers s = [] then s
      else s\<lparr>ev_subscribers := map (write_frame frame)
                (filter (\<lambda>u. \<not> slow (su_id u)) (ev_subscribers s)),
             ev_ended := ev_ended s @ map su_id (filter (\<lambda>u. slow (su_id u)) (ev_subscribers s))\<rparr>)"

text \<open>The interval's callback: it stops itself when no one is left.\<close>

definition heartbeat_tick :: "event_stream \<Rightarrow> event_stream" where
  "heartbeat_tick s =
     (if \<not> ev_heartbeat s then s
      else if ev_subscribers s = [] then s\<lparr>ev_heartbeat := False\<rparr>
      else s\<lparr>ev_subscribers := map (write_frame keepalive_frame) (ev_subscribers s)\<rparr>)"

definition close_stream :: "event_stream \<Rightarrow> event_stream" where
  "close_stream s = s\<lparr>ev_heartbeat := False, ev_ended := ev_ended s @ map su_id (ev_subscribers s),
     ev_subscribers := []\<rparr>"

subsection \<open>Every history of the stream\<close>

datatype stream_event = Subscribes | Disconnects nat | Publishes "nat \<Rightarrow> bool" string | Ticks | Closes

fun stream_step :: "stream_event \<Rightarrow> event_stream \<Rightarrow> event_stream" where
  "stream_step Subscribes s = snd (subscribe s)"
| "stream_step (Disconnects i) s = cleanup i s"
| "stream_step (Publishes slow f) s = publish slow f s"
| "stream_step Ticks s = heartbeat_tick s"
| "stream_step Closes s = close_stream s"

definition stream_inv :: "event_stream \<Rightarrow> bool" where
  "stream_inv s \<longleftrightarrow> subscriberCount s \<le> ev_max s \<and> distinct (map su_id (ev_subscribers s))
     \<and> (\<forall>u \<in> set (ev_subscribers s). su_id u < ev_nextId s)
     \<and> (ev_subscribers s \<noteq> [] \<longrightarrow> ev_heartbeat s)"

lemma write_frame_id [simp]: "su_id (write_frame f u) = su_id u"
  by (simp add: write_frame_def)

lemma new_stream_inv: "stream_inv (new_stream n)"
  by (simp add: stream_inv_def new_stream_def subscriberCount_def)

lemma filter_count: "length xs \<le> n \<Longrightarrow> length (filter P xs) \<le> n"
  by (rule order_trans [OF length_filter_le])

lemma stream_step_inv:
  assumes "stream_inv s"
  shows "stream_inv (stream_step e s) \<and> ev_max (stream_step e s) = ev_max s"
proof (cases e)
  case Subscribes
  with assms show ?thesis
    by (auto simp: stream_inv_def subscribe_def subscriberCount_def less_SucI)
next
  case (Disconnects i)
  with assms show ?thesis
    by (auto simp: stream_inv_def cleanup_def subscriberCount_def distinct_map_filter intro: filter_count)
next
  case (Publishes slow f)
  with assms show ?thesis
    by (auto simp: stream_inv_def publish_def subscriberCount_def comp_def distinct_map_filter
        intro: filter_count)
next
  case Ticks
  with assms show ?thesis
    by (auto simp: stream_inv_def heartbeat_tick_def subscriberCount_def comp_def)
next
  case Closes
  with assms show ?thesis by (simp add: stream_inv_def close_stream_def subscriberCount_def)
qed

lemma stream_run_inv:
  "stream_inv s \<Longrightarrow> stream_inv (fold stream_step es s) \<and> ev_max (fold stream_step es s) = ev_max s"
proof (induction es arbitrary: s)
  case (Cons e es)
  from Cons.IH [of "stream_step e s"] stream_step_inv [OF Cons.prems] show ?case by simp
qed simp

text \<open>A broadcast reaches every subscriber that keeps up and drops exactly the others.\<close>

lemma publish_delivers:
  "u \<in> set (ev_subscribers s) \<Longrightarrow> \<not> slow (su_id u) \<Longrightarrow>
   write_frame f u \<in> set (ev_subscribers (publish slow f s))"
  by (auto simp: publish_def)

lemma publish_drops:
  "map su_id (ev_subscribers (publish slow f s)) = filter (\<lambda>i. \<not> slow i) (map su_id (ev_subscribers s))"
  by (auto simp: publish_def filter_map comp_def)

end
