(* ===== verification/Routes.thy ===== *)
theory Routes
  imports Middleware Schemas Scheduler Events
begin

text \<open>
  packages/server/src/routes.ts: the handlers of the API, each with its scope check, its schema and
  the error mapper behind it. A response is its status with a body, or its status with an error
  code. \<open>rec\<close> is the key the request was authenticated with; ids are parsed numbers. The scheduler
  is there or not (\<open>None\<close>), given by its cron evaluator.
\<close>

datatype 'b response = Failed nat error_code | Answered nat 'b

type_synonym caller = "api_key_record option"

definition failed :: "unit error_response \<Rightarrow> 'b response" where
  "failed e = Failed (rsp_status e) (rsp_code e)"

text \<open>
  What a rejected promise of a handler becomes: a driver error that was passed through is no
  error of the hierarchy.
\<close>

definition caught_fault :: "fault \<Rightarrow> unit caught" where
  "caught_fault f =
     (case f of
        Passed_through _ \<Rightarrow> Caught_other
      | Wrapped _ \<Rightarrow> Caught_domain DatabaseError [] None
      | Fault c _ \<Rightarrow> Caught_domain c [] None)"

definition fault_response :: "fault \<Rightarrow> 'b response" where
  "fault_response f =
     (case errorHandler False (caught_fault f) of
        None \<Rightarrow> Failed 500 INTERNAL | Some e \<Rightarrow> failed e)"

text \<open>The middleware in front of a handler: scope, then schema.\<close>

definition guarded ::
  "scope \<Rightarrow> string option \<Rightarrow> caller \<Rightarrow> bool \<Rightarrow> ('s \<Rightarrow> 'b response \<times> 's) \<Rightarrow> 's \<Rightarrow> 'b response \<times> 's" where
  "guarded s q rec valid act st =
     (case requireScope s q rec of
        Some e \<Rightarrow> (failed e, st)
      | None \<Rightarrow> if \<not> valid then (Failed 400 VALIDATION_ERROR, st) else act st)"

definition respond :: "('a \<Rightarrow> nat) \<Rightarrow> ('a \<Rightarrow> 'b) \<Rightarrow> fault + 'a \<Rightarrow> 'b response" where
  "respond status body r = (case r of Inl f \<Rightarrow> fault_response f | Inr x \<Rightarrow> Answered (status x) (body x))"

definition actorOf :: "caller \<Rightarrow> string" where
  "actorOf rec = (case rec of None \<Rightarrow> ''anonymous'' | Some r \<Rightarrow> ''key:'' @ kr_name r)"

definition authorizedForQueue :: "caller \<Rightarrow> string \<Rightarrow> bool" where
  "authorizedForQueue rec q =
     (case rec of
        None \<Rightarrow> False
      | Some r \<Rightarrow> (case kr_queues r of None \<Rightarrow> True | Some qs \<Rightarrow> q \<in> set qs))"

subsection \<open>Serialisation\<close>

record wire_job =
  w_id :: ident
  w_queue :: string
  w_type :: string
  w_state :: job_state
  w_payload :: json
  w_metadata :: "json option"
  w_priority :: int
  w_attempt :: int
  w_maxAttempts :: int
  w_leaseSeconds :: int
  w_runAt :: string
  w_enqueuedAt :: string
  w_startedAt :: "string option"
  w_finishedAt :: "string option"
  w_leaseExpiresAt :: "string option"
  w_cancelRequestedAt :: "string option"
  w_workerId :: "string option"
  w_idempotencyKey :: "string option"
  w_uniqueKey :: "string option"
  w_deadReason :: "dead_reason option"
  w_errors :: "job_error list"
  w_scheduleId :: "ident option"

text \<open>A Date has whole milliseconds.\<close>

definition iso :: "instant \<Rightarrow> string" where
  "iso t = toISOString (nat (t div us_per_ms))"

definition serializeJob :: "job_view \<Rightarrow> wire_job" where
  "serializeJob j = \<lparr>w_id = vj_id j, w_queue = vj_queue j, w_type = vj_type j, w_state = vj_state j,
     w_payload = vj_payload j, w_metadata = vj_metadata j, w_priority = vj_priority j,
     w_attempt = vj_attempt j, w_maxAttempts = vj_maxAttempts j,
     w_leaseSeconds = vj_leaseSeconds j, w_runAt = iso (vj_runAt j),
     w_enqueuedAt = iso (vj_enqueuedAt j), w_startedAt = map_option iso (vj_startedAt j),
     w_finishedAt = map_option iso (vj_finishedAt j),
     w_leaseExpiresAt = map_option iso (vj_leaseExpiresAt j),
     w_cancelRequestedAt = map_option iso (vj_cancelRequestedAt j), w_workerId = vj_workerId j,
     w_idempotencyKey = vj_idempotencyKey j, w_uniqueKey = vj_uniqueKey j,
     w_deadReason = vj_deadReason j, w_errors = vj_errors j, w_scheduleId = vj_scheduleId j\<rparr>"

record page_body =
  pg_items :: "wire_job list"
  pg_nextCursor :: "ident option"

definition page :: "job_view list \<Rightarrow> int \<Rightarrow> page_body" where
  "page jobs limit = \<lparr>pg_items = map serializeJob jobs,
     pg_nextCursor = (if int (length jobs) = limit \<and> jobs \<noteq> [] then Some (vj_id (last jobs)) else None)\<rparr>"

record wire_schedule =
  ws_id :: ident
  ws_name :: string
  ws_queue :: string
  ws_type :: string
  ws_payload :: json
  ws_cron :: string
  ws_timezone :: string
  ws_catchupPolicy :: catchup_policy
  ws_enabled :: bool
  ws_nextRunAt :: string
  ws_lastRunAt :: "string option"
  ws_lastJobId :: "ident option"

definition serializeSchedule :: "schedule_view \<Rightarrow> wire_schedule" where
  "serializeSchedule s = \<lparr>ws_id = vs_id s, ws_name = vs_name s, ws_queue = vs_queue s,
     ws_type = vs_type s, ws_payload = vs_payload s, ws_cron = vs_cron s,
     ws_timezone = vs_timezone s, ws_catchupPolicy = vs_catchupPolicy s,
     ws_enabled = vs_enabled s, ws_nextRunAt = iso (vs_nextRunAt s),
     ws_lastRunAt = map_option iso (vs_lastRunAt s), ws_lastJobId = vs_lastJobId s\<rparr>"

subsection \<open>Enqueue\<close>

definition no_options :: enqueue_options where
  "no_options = \<lparr>o_priority = None, o_runAt = None, o_delaySeconds = None, o_maxAttempts = None,
     o_leaseSeconds = None, o_idempotencyKey = None, o_uniqueKey = None, o_metadata = None,
     o_traceContext = None\<rparr>"

definition post_job ::
  "env \<Rightarrow> instant \<Rightarrow> instant \<Rightarrow> caller \<Rightarrow> string \<Rightarrow> enqueue_body \<Rightarrow> string option \<Rightarrow> client \<times> db
   \<Rightarrow> enqueue_result response \<times> client \<times> db" where
  "post_job env now cnow rec q b traceparent =
     guarded Scope_enqueue (Some q) rec (name_schema q \<and> enqueueBodySchema b)
       (\<lambda>(cl, d).
          let opts = coalesce (eb_options b) no_options;
              opts' = (case traceparent of None \<Rightarrow> opts | Some t \<Rightarrow> opts\<lparr>o_traceContext := Some t\<rparr>);
              (r, cl', d') = enqueue env now cnow q (eb_type b) (eb_payload b) opts' cl d
          in (respond (\<lambda>x. if er_deduplicated x then 200 else 201) (\<lambda>x. x) r, cl', d'))"

definition post_batch ::
  "env \<Rightarrow> instant \<Rightarrow> instant \<Rightarrow> caller \<Rightarrow> string \<Rightarrow> enqueue_body list \<Rightarrow> client \<times> db
   \<Rightarrow> enqueue_result list response \<times> client \<times> db" where
  "post_batch env now cnow rec q jobs =
     guarded Scope_enqueue (Some q) rec (name_schema q \<and> batchEnqueueBodySchema jobs)
       (\<lambda>(cl, d).
          let (r, cl', d') = enqueueBatch env now cnow q
                (map (\<lambda>j. \<lparr>bi_type = eb_type j, bi_payload = eb_payload j,
                           bi_options = coalesce (eb_options j) no_options\<rparr>) jobs) cl d
          in (respond (\<lambda>_. 201) (\<lambda>x. x) r, cl', d'))"

subsection \<open>Read\<close>

definition get_job_route :: "caller \<Rightarrow> ident \<Rightarrow> db \<Rightarrow> wire_job response \<times> db" where
  "get_job_route rec i =
     guarded Scope_read None rec True
       (\<lambda>d. (case get_job i d of
               Inl f \<Rightarrow> fault_response f
             | Inr job \<Rightarrow>
                 if rec \<noteq> None \<and> \<not> authorizedForQueue rec (vj_queue job) then Failed 403 FORBIDDEN
                 else Answered 200 (serializeJob job), d))"

definition get_queue_jobs :: "caller \<Rightarrow> string \<Rightarrow> list_jobs_query \<Rightarrow> db \<Rightarrow> page_body response \<times> db" where
  "get_queue_jobs rec q qry =
     guarded Scope_read (Some q) rec (name_schema q \<and> listJobsQuerySchema qry)
       (\<lambda>d. (Answered 200 (page (list_jobs \<lparr>lp_queue = Some q, lp_state = lq_state qry,
                  lp_type = lq_type qry, lp_from = lq_from qry, lp_to = lq_to qry,
                  lp_beforeId = lq_cursor qry, lp_limit = 0\<rparr> (lq_limit qry) d) (lq_limit qry)), d))"

record queue_summary =
  qs_queue :: string
  qs_counts :: "job_state \<Rightarrow> nat option"
  qs_ready :: nat
  qs_oldestWait :: int

text \<open>
  The queues in the order the statistics name them (an object lists integer-like names first).
\<close>

definition get_queues :: "instant \<Rightarrow> caller \<Rightarrow> db \<Rightarrow> queue_summary list response \<times> db" where
  "get_queues now rec =
     guarded Scope_read None rec True
       (\<lambda>d. (Answered 200 (map (\<lambda>q.
              let lag = row_of ql_queue q (queueLag now d)
              in \<lparr>qs_queue = q, qs_counts = coalesce (queue_stats d q) (\<lambda>_. None),
                  qs_ready = coalesce (map_option ql_ready lag) 0,
                  qs_oldestWait = coalesce (map_option ql_oldest_wait lag) 0\<rparr>)
            (remdups (map fst (queueStats d)))), d))"

definition get_config_route ::
  "caller \<Rightarrow> string \<Rightarrow> db \<Rightarrow> (string \<times> queue_config_view option) response \<times> db" where
  "get_config_route rec q =
     guarded Scope_read (Some q) rec (name_schema q) (\<lambda>d. (Answered 200 (q, get_queue_config q d), d))"

subsection \<open>Administration\<close>

definition cancel_route ::
  "env \<Rightarrow> instant \<Rightarrow> caller \<Rightarrow> ident \<Rightarrow> db \<Rightarrow> cancel_result response \<times> db" where
  "cancel_route env now rec i =
     guarded Scope_admin None rec True
       (\<lambda>d. let (r, d') = cancel env now i (actorOf rec) d
             in (respond (\<lambda>x. if cr_acknowledged x then 200 else 202) (\<lambda>x. x) r, d'))"

definition retry_route ::
  "env \<Rightarrow> instant \<Rightarrow> caller \<Rightarrow> ident \<Rightarrow> db \<Rightarrow> wire_job response \<times> db" where
  "retry_route env now rec i =
     guarded Scope_admin None rec True
       (\<lambda>d. let (r, d') = retryNow env now i (actorOf rec) d
             in (respond (\<lambda>_. 200) serializeJob r, d'))"

definition replay_route ::
  "env \<Rightarrow> instant \<Rightarrow> caller \<Rightarrow> ident \<Rightarrow> db \<Rightarrow> wire_job response \<times> db" where
  "replay_route env now rec i =
     guarded Scope_admin None rec True
       (\<lambda>d. let (r, d') = replay_job env now i (actorOf rec) d
             in (respond (\<lambda>_. 200) serializeJob r, d'))"

definition pause_route ::
  "env \<Rightarrow> instant \<Rightarrow> caller \<Rightarrow> string \<Rightarrow> bool \<Rightarrow> client \<times> db \<Rightarrow> (string \<times> bool) response \<times> client \<times> db" where
  "pause_route env now rec q p =
     guarded Scope_admin (Some q) rec (name_schema q)
       (\<lambda>(cl, d). let (r, cl', d') = setPaused env now q p (actorOf rec) cl d
             in (respond (\<lambda>_. 200) (\<lambda>_. (q, p)) r, cl', d'))"

text \<open>The defaults of \<open>purge\<close>: batches of 1000, at most 1000 of them.\<close>

definition purge_route ::
  "env \<Rightarrow> (nat \<Rightarrow> ident set) \<Rightarrow> instant \<Rightarrow> caller \<Rightarrow> string \<Rightarrow> purge_body \<Rightarrow> db
   \<Rightarrow> (string \<times> nat) response \<times> db" where
  "purge_route env locked now rec q b =
     guarded Scope_admin (Some q) rec (name_schema q \<and> purgeBodySchema b)
       (\<lambda>d. let (r, d') = purge env locked now q (pb_states b) (pb_confirm b) 1000 1000 (actorOf rec) d
             in (respond (\<lambda>_. 200) (\<lambda>n. (q, n)) r, d'))"

subsection \<open>Dead letters\<close>

definition get_dlq :: "caller \<Rightarrow> list_dlq_query \<Rightarrow> db \<Rightarrow> page_body response \<times> db" where
  "get_dlq rec qry =
     guarded Scope_read (dq_queue qry) rec (listDlqQuerySchema qry)
       (\<lambda>d. (Answered 200 (page (list_dead_jobs \<lparr>dp_queue = dq_queue qry, dp_type = dq_type qry,
                  dp_reason = dq_reason qry, dp_from = dq_from qry, dp_to = dq_to qry,
                  dp_beforeId = dq_cursor qry, dp_limit = 0\<rparr> (dq_limit qry) d) (dq_limit qry)), d))"

definition replay_bulk_route ::
  "env \<Rightarrow> instant \<Rightarrow> caller \<Rightarrow> ident list \<Rightarrow> db \<Rightarrow> replay_result response \<times> db" where
  "replay_bulk_route env now rec ids =
     guarded Scope_admin None rec (bulkReplaySchema ids)
       (\<lambda>d. let (r, d') = replayMany env now ids (actorOf rec) d
             in (respond (\<lambda>_. 200) (\<lambda>x. x) r, d'))"

subsection \<open>Schedules\<close>

definition requireScheduler :: "croner option \<Rightarrow> fault + croner" where
  "requireScheduler s = (case s of None \<Rightarrow> Inl (Fault ConflictError No_details) | Some c \<Rightarrow> Inr c)"

definition with_scheduler ::
  "croner option \<Rightarrow> (croner \<Rightarrow> db \<Rightarrow> 'b response \<times> db) \<Rightarrow> db \<Rightarrow> 'b response \<times> db" where
  "with_scheduler s act d =
     (case requireScheduler s of Inl f \<Rightarrow> (fault_response f, d) | Inr c \<Rightarrow> act c d)"

definition get_schedules :: "croner option \<Rightarrow> caller \<Rightarrow> db \<Rightarrow> wire_schedule list response \<times> db" where
  "get_schedules s rec =
     guarded Scope_read None rec True
       (with_scheduler s (\<lambda>c d. (Answered 200 (map serializeSchedule (list_schedules d)), d)))"

definition post_schedule ::
  "croner option \<Rightarrow> env \<Rightarrow> instant \<Rightarrow> instant \<Rightarrow> caller \<Rightarrow> create_schedule_body \<Rightarrow> db
   \<Rightarrow> wire_schedule response \<times> db" where
  "post_schedule s env now cnow rec b =
     guarded Scope_admin (Some (sb_queue b)) rec (createScheduleSchema b)
       (with_scheduler s (\<lambda>c d.
          case create_schedule c now cnow \<lparr>cq_name = sb_name b, cq_queue = sb_queue b,
                 cq_type = sb_type b, cq_payload = Some (coalesce (sb_payload b) (JObj [])),
                 cq_cron = sb_cron b, cq_timezone = Some (sb_timezone b),
                 cq_catchupPolicy = Some (sb_catchupPolicy b), cq_enabled = Some (sb_enabled b)\<rparr> d of
            (Inl f, d') \<Rightarrow> (fault_response f, d')
          | (Inr v, d') \<Rightarrow>
              (Answered 201 (serializeSchedule v),
               audit now (actorOf rec) ''schedule.create'' (Some (show_nat (vs_id v)))
                 (Some (JObj [(''name'', JStr (sb_name b))])) (env 0 d'))))"

definition get_schedule_route :: "croner option \<Rightarrow> caller \<Rightarrow> ident \<Rightarrow> db \<Rightarrow> wire_schedule response \<times> db" where
  "get_schedule_route s rec i =
     guarded Scope_read None rec True
       (with_scheduler s (\<lambda>c d.
          (case get_schedule i d of
             None \<Rightarrow> Failed 404 SCHEDULE_NOT_FOUND
           | Some v \<Rightarrow> Answered 200 (serializeSchedule v), d)))"

definition enable_route ::
  "croner option \<Rightarrow> env \<Rightarrow> instant \<Rightarrow> instant \<Rightarrow> caller \<Rightarrow> ident \<Rightarrow> bool \<Rightarrow> db
   \<Rightarrow> wire_schedule response \<times> db" where
  "enable_route s env now cnow rec i en =
     guarded Scope_admin None rec True
       (with_scheduler s (\<lambda>c d.
          case setEnabled c env now cnow i en d of
            (Inl f, d') \<Rightarrow> (fault_response f, d')
          | (Inr None, d') \<Rightarrow> (Failed 404 SCHEDULE_NOT_FOUND, d')
          | (Inr (Some v), d') \<Rightarrow>
              (Answered 200 (serializeSchedule v),
               audit now (actorOf rec) (''schedule.'' @ (if en then ''resume'' else ''pause''))
                 (Some (show_nat i)) None (env 1 d'))))"

definition delete_schedule_route ::
  "croner option \<Rightarrow> env \<Rightarrow> instant \<Rightarrow> caller \<Rightarrow> ident \<Rightarrow> db \<Rightarrow> unit response \<times> db" where
  "delete_schedule_route s env now rec i =
     guarded Scope_admin None rec True
       (with_scheduler s (\<lambda>c d.
          case delete_schedule i d of
            (Inl f, d') \<Rightarrow> (fault_response f, d')
          | (Inr False, d') \<Rightarrow> (Failed 404 SCHEDULE_NOT_FOUND, d')
          | (Inr True, d') \<Rightarrow>
              (Answered 204 (), audit now (actorOf rec) ''schedule.delete'' (Some (show_nat i)) None (env 0 d'))))"

definition events_route :: "caller \<Rightarrow> event_stream \<Rightarrow> unit response \<times> event_stream" where
  "events_route rec =
     guarded Scope_read None rec True
       (\<lambda>s. let (st, s') = subscribe s in (if st = 200 then Answered 200 () else Failed st NOT_READY, s'))"

end
