(* ===== verification/Routes_Laws.thy ===== *)
theory Routes_Laws
  imports Routes Client_Laws
begin

text \<open>
  What the API lets through: the interface \<open>guarded_route\<close> (a caller the scope check refuses gets
  an error and changes nothing), met by every route; the traversal of a listing by its cursors; the
  answers to a replay and a schedule that collide with an existing row.
\<close>

subsection \<open>The scope check as an interface\<close>

definition permitted_caller :: "scope \<Rightarrow> string option \<Rightarrow> caller \<Rightarrow> bool" where
  "permitted_caller s q rec \<longleftrightarrow> (case rec of None \<Rightarrow> False | Some r \<Rightarrow> authorizes r s q)"

lemma permitted_iff: "(requireScope s q rec :: unit error_response option) = None \<longleftrightarrow> permitted_caller s q rec"
  by (auto simp: permitted_caller_def requireScope_passes simp del: not_None_eq split: option.splits)

definition refused :: "('s \<Rightarrow> 'b response \<times> 's) \<Rightarrow> 's \<Rightarrow> bool" where
  "refused act x \<longleftrightarrow> (case act x of (Failed _ _, y) \<Rightarrow> y = x | _ \<Rightarrow> False)"

lemma refused_iff: "refused act x \<longleftrightarrow> (\<exists>st code. act x = (Failed st code, x))"
  by (auto simp: refused_def split: prod.splits response.splits)

locale guarded_route =
  fixes route :: "caller \<Rightarrow> 's \<Rightarrow> 'b response \<times> 's" and s :: scope and q :: "string option"
  assumes refuses: "\<not> permitted_caller s q rec \<Longrightarrow> refused (route rec) x"
begin

lemma answered: "route rec x = (Answered st b, x') \<Longrightarrow> permitted_caller s q rec"
  using refuses [of rec x] by (force simp: refused_iff)

lemma changed: "snd (route rec x) \<noteq> x \<Longrightarrow> permitted_caller s q rec"
  using refuses [of rec x] by (force simp: refused_iff)

lemma guards: "snd (route rec x) \<noteq> x \<or> (\<exists>st b. fst (route rec x) = Answered st b)
    \<Longrightarrow> permitted_caller s q rec"
  using refuses [of rec x] by (force simp: refused_iff)

end

lemma guarded_guards: "guarded_route (\<lambda>rec. guarded s q rec (v rec) (act rec)) s q"
  by unfold_locales (auto simp: refused_iff guarded_def failed_def permitted_iff split: option.splits)

lemmas by_guard = guarded_guards [THEN guarded_route.refuses]

interpretation post_job: guarded_route "\<lambda>rec. post_job env now cnow rec q b tr" Scope_enqueue "Some q"
  for env now cnow q b tr
  by unfold_locales (simp only: post_job_def, rule by_guard)

interpretation post_batch: guarded_route "\<lambda>rec. post_batch env now cnow rec q jobs" Scope_enqueue "Some q"
  for env now cnow q jobs
  by unfold_locales (simp only: post_batch_def, rule by_guard)

interpretation get_job_r: guarded_route "\<lambda>rec. get_job_route rec i" Scope_read None for i
  by unfold_locales (simp only: get_job_route_def, rule by_guard)

interpretation get_queue_jobs: guarded_route "\<lambda>rec. get_queue_jobs rec q qry" Scope_read "Some q"
  for q qry
  by unfold_locales (simp only: get_queue_jobs_def, rule by_guard)

interpretation get_queues: guarded_route "get_queues now" Scope_read None for now
  by unfold_locales (simp only: get_queues_def, rule by_guard)

interpretation cancel_r: guarded_route "\<lambda>rec. cancel_route env now rec i" Scope_admin None for env now i
  by unfold_locales (simp only: cancel_route_def, rule by_guard)

interpretation retry_r: guarded_route "\<lambda>rec. retry_route env now rec i" Scope_admin None for env now i
  by unfold_locales (simp only: retry_route_def, rule by_guard)

interpretation replay_r: guarded_route "\<lambda>rec. replay_route env now rec i" Scope_admin None for env now i
  by unfold_locales (simp only: replay_route_def, rule by_guard)

interpretation pause_r: guarded_route "\<lambda>rec. pause_route env now rec q p" Scope_admin "Some q"
  for env now q p
  by unfold_locales (simp only: pause_route_def, rule by_guard)

interpretation purge_r: guarded_route "\<lambda>rec. purge_route env locked now rec q b" Scope_admin "Some q"
  for env locked now q b
  by unfold_locales (simp only: purge_route_def, rule by_guard)

interpretation get_dlq: guarded_route "\<lambda>rec. get_dlq rec qry" Scope_read "dq_queue qry" for qry
  by unfold_locales (simp only: get_dlq_def, rule by_guard)

interpretation replay_bulk_r: guarded_route "\<lambda>rec. replay_bulk_route env now rec ids" Scope_admin None
  for env now ids
  by unfold_locales (simp only: replay_bulk_route_def, rule by_guard)

interpretation get_config_r: guarded_route "\<lambda>rec. get_config_route rec q" Scope_read "Some q" for q
  by unfold_locales (simp only: get_config_route_def, rule by_guard)

interpretation get_schedule_r: guarded_route "\<lambda>rec. get_schedule_route sch rec i" Scope_read None for sch i
  by unfold_locales (simp only: get_schedule_route_def, rule by_guard)

interpretation get_schedules: guarded_route "get_schedules sch" Scope_read None for sch
  by unfold_locales (simp only: get_schedules_def, rule by_guard)

interpretation post_schedule: guarded_route "\<lambda>rec. post_schedule sch env now cnow rec b" Scope_admin
  "Some (sb_queue b)" for sch env now cnow b
  by unfold_locales (simp only: post_schedule_def, rule by_guard)

interpretation enable_r: guarded_route "\<lambda>rec. enable_route sch env now cnow rec i en" Scope_admin None
  for sch env now cnow i en
  by unfold_locales (simp only: enable_route_def, rule by_guard)

interpretation delete_schedule_r: guarded_route "\<lambda>rec. delete_schedule_route sch env now rec i"
  Scope_admin None for sch env now i
  by unfold_locales (simp only: delete_schedule_route_def, rule by_guard)

interpretation events_r: guarded_route events_route Scope_read None
  by unfold_locales (simp only: events_route_def, rule by_guard)

subsection \<open>One job\<close>

text \<open>A caller that may act on one queue has the scope.\<close>

lemma permitted_scope: "permitted_caller s (Some q) rec \<Longrightarrow> permitted_caller s None rec"
  by (auto simp: permitted_caller_def authorizes_iff split: option.splits)

lemma get_job_route_cases:
  assumes inv: "db_inv d" and r: "authorizes r Scope_read None"
  shows "get_job_route (Some r) i d =
    (case job_at d i of
       None \<Rightarrow> Failed 404 JOB_NOT_FOUND
     | Some j \<Rightarrow> if authorizes r Scope_read (Some (j_queue j))
               then Answered 200 (serializeJob (toJob j)) else Failed 403 FORBIDDEN, d)"
proof -
  have pass: "requireScope Scope_read None (Some r) = (None :: unit error_response option)"
    using r by (simp add: requireScope_passes)
  have q: "authorizedForQueue (Some r) x = authorizes r Scope_read (Some x)" for x
    using r by (auto simp: authorizes_iff authorizedForQueue_def split: option.splits)
  show ?thesis
  proof (cases "job_at d i")
    case None
    have "(fault_response (Fault JobNotFoundError (About_job i)) :: wire_job response) = Failed 404 JOB_NOT_FOUND"
      by (simp add: fault_response_def caught_fault_def errorHandler_def failed_def plain_error_def)
    with None pass show ?thesis by (simp add: get_job_route_def guarded_def get_job_cases [OF inv])
  next
    case (Some j)
    with pass show ?thesis by (simp add: get_job_route_def guarded_def get_job_cases [OF inv] q)
  qed
qed

lemma get_job_route_answer:
  assumes inv: "db_inv d" and a: "get_job_route rec i d = (Answered st b, d')"
  shows "\<exists>r j. rec = Some r \<and> authorizes r Scope_read (Some (j_queue j)) \<and> job_at d i = Some j
    \<and> b = serializeJob (toJob j)"
proof -
  from get_job_r.answered [OF a] obtain r where r: "rec = Some r" "authorizes r Scope_read None"
    by (auto simp: permitted_caller_def split: option.splits)
  with a get_job_route_cases [OF inv r(2), of i] show ?thesis
    by (cases "job_at d i") (simp_all split: if_splits)
qed

subsection \<open>Walking a listing\<close>

text \<open>
  A client that follows \<open>nextCursor\<close>: what it has collected when a page has none, or when it is
  refused.
\<close>

fun walk :: "nat \<Rightarrow> caller \<Rightarrow> string \<Rightarrow> list_jobs_query \<Rightarrow> db \<Rightarrow> wire_job list option" where
  "walk 0 rec q qry d = None"
| "walk (Suc fuel) rec q qry d =
     (case fst (get_queue_jobs rec q qry d) of
        Failed _ _ \<Rightarrow> None
      | Answered _ p \<Rightarrow>
          (case pg_nextCursor p of
             None \<Rightarrow> Some (pg_items p)
           | Some c \<Rightarrow> map_option (\<lambda>js. pg_items p @ js) (walk fuel rec q (qry\<lparr>lq_cursor := Some c\<rparr>) d)))"

definition params_of :: "string \<Rightarrow> list_jobs_query \<Rightarrow> list_params" where
  "params_of q qry = \<lparr>lp_queue = Some q, lp_state = lq_state qry, lp_type = lq_type qry,
     lp_from = lq_from qry, lp_to = lq_to qry, lp_beforeId = lq_cursor qry,
     lp_limit = nat (lq_limit qry)\<rparr>"

lemma unless_null_all: "unless_null x P \<longleftrightarrow> (\<forall>v. x = Some v \<longrightarrow> P v)"
  by (cases x) simp_all

lemma unless_null_eq: "unless_null x (\<lambda>s. y = s) \<longleftrightarrow> x \<in> {None, Some y}"
  by (cases x) auto

lemma list_match_params:
  "list_match (params_of q qry) j \<longleftrightarrow> j_queue j = q \<and> lq_state qry \<in> {None, Some (j_state j)}
     \<and> lq_type qry \<in> {None, Some (j_type j)} \<and> (\<forall>t. lq_from qry = Some t \<longrightarrow> t \<le> j_enqueued_at j)
     \<and> (\<forall>t. lq_to qry = Some t \<longrightarrow> j_enqueued_at j \<le> t) \<and> (\<forall>i. lq_cursor qry = Some i \<longrightarrow> j_id j < i)"
  unfolding list_match_def params_of_def unless_null_eq by (auto simp: unless_null_all)

lemma get_queue_jobs_ok:
  assumes "permitted_caller Scope_read (Some q) rec" and "name_schema q" and "listJobsQuerySchema qry"
    and "1 \<le> lq_limit qry" and "lq_limit qry \<le> 200"
  shows "get_queue_jobs rec q qry d =
    (Answered 200 (page (map toJob (listJobs (params_of q qry) d)) (lq_limit qry)), d)"
proof -
  have "requireScope Scope_read (Some q) rec = (None :: unit error_response option)" using assms(1) by (simp add: permitted_iff)
  moreover have "clampLimit (lq_limit qry) = nat (lq_limit qry)" using assms(4,5) by (simp add: clampLimit_def)
  ultimately show ?thesis
    using assms(2,3) by (simp add: get_queue_jobs_def guarded_def list_jobs_def params_of_def)
qed

lemma walk_pages:
  assumes "permitted_caller Scope_read (Some q) rec" and "name_schema q" and "listJobsQuerySchema qry"
    and inv: "db_inv d"
    and fuel: "length (filter (list_match (params_of q qry)) (db_jobs d)) < fuel * nat (lq_limit qry)"
  shows "walk fuel rec q qry d =
    Some (map (serializeJob \<circ> toJob) (sort_key id_desc (filter (list_match (params_of q qry)) (db_jobs d))))"
  using assms(1-3) fuel
proof (induction fuel arbitrary: qry)
  case 0
  then show ?case by simp
next
  case (Suc fuel)
  let ?p = "params_of q qry"
  let ?S = "sort_key id_desc (filter (list_match ?p) (db_jobs d))" and ?n = "nat (lq_limit qry)"
  from Suc.prems(3) have l: "1 \<le> lq_limit qry" "lq_limit qry \<le> 200"
    by (simp_all add: listJobsQuerySchema_def)
  note page = get_queue_jobs_ok [OF Suc.prems(1-3) l, of d]
  have lim: "lp_limit ?p = ?n" by (simp add: params_of_def)
  have js: "listJobs ?p d = take ?n ?S" by (simp add: listJobs_def order_limit_def lim)
  show ?case
  proof (cases "length (filter (list_match ?p) (db_jobs d)) < ?n")
    case True
    then have "int (length (filter (list_match ?p) (db_jobs d))) \<noteq> lq_limit qry" using l by linarith
    with True page l show ?thesis by (simp add: page_def js comp_def)
  next
    case False
    then have n: "?n \<le> length (filter (list_match ?p) (db_jobs d))" "0 < ?n" using l by simp_all
    let ?c = "j_id (last (listJobs ?p d))"
    let ?next = "qry\<lparr>lq_cursor := Some ?c\<rparr>"
    have nxt: "params_of q ?next = ?p\<lparr>lp_beforeId := Some ?c\<rparr>" by (simp add: params_of_def)
    have rest: "sort_key id_desc (filter (list_match (params_of q ?next)) (db_jobs d)) = drop ?n ?S"
      unfolding nxt using listJobs_rest [OF inv, of ?p] n lim by simp
    then have "length (filter (list_match (params_of q ?next)) (db_jobs d)) = length ?S - ?n"
      by (metis length_drop length_sort)
    with Suc.prems(4) n have fuel: "length (filter (list_match (params_of q ?next)) (db_jobs d))
        < fuel * nat (lq_limit ?next)"
      by (simp add: less_diff_conv2)
    have "listJobsQuerySchema ?next" using Suc.prems(3) by (simp add: listJobsQuerySchema_def)
    from Suc.IH [OF Suc.prems(1,2) this fuel]
    have "walk fuel rec q ?next d = Some (map (serializeJob \<circ> toJob) (drop ?n ?S))" by (simp add: rest)
    moreover have "length (listJobs ?p d) = ?n" using n by (simp add: js)
    moreover from this n have "listJobs ?p d \<noteq> []" by auto
    ultimately have "walk (Suc fuel) rec q qry d =
        Some (map (serializeJob \<circ> toJob) (listJobs ?p d @ drop ?n ?S))"
      using page l by (simp add: page_def last_map)
    then show ?thesis by (simp add: js)
  qed
qed

subsection \<open>Administrative routes\<close>

lemma no_stat: "(requireScope s None (Some r) :: unit error_response option) = None
    \<longleftrightarrow> scope_name s \<in> set (kr_scopes r)"
  by (simp add: permitted_iff permitted_caller_def authorizes_iff)

text \<open>A key that is restricted to some queues cancels jobs of every queue.\<close>

lemma cancel_route_any_queue:
  assumes inv: "db_inv d" and adm: "scope_name Scope_admin \<in> set (kr_scopes r)"
    and j: "job_at d i = Some j" "j_state j = Available"
  shows "\<exists>d'. cancel_route alone now (Some r) i d =
      (Answered 200 \<lparr>cr_state = Cancelled, cr_acknowledged = True\<rparr>, d')
    \<and> job_at d' i = Some (cancel_row now j)"
proof -
  obtain x d' where c: "Client.cancel alone now i (actorOf (Some r)) d = (x, d')" by fastforce
  note S = cancel_spec [OF inv c]
  have "x = Inr \<lparr>cr_state = Cancelled, cr_acknowledged = True\<rparr>"
    using S(1) j by (simp add: cancel_outcome_def)
  moreover have "job_at d' i = Some (cancel_row now j)"
    using S(2) [of i] j by (simp add: after_cancel_def)
  moreover have "(requireScope Scope_admin None (Some r) :: unit error_response option) = None"
    using adm by (simp add: no_stat)
  ultimately show ?thesis
    using c by (simp add: cancel_route_def guarded_def respond_def)
qed

text \<open>
  A replay of a dead job whose unique key an active job holds violates the index, alone or among
  others.
\<close>

lemma replay_conflict:
  assumes inv: "db_inv d" and j: "j \<in> set (db_jobs d)" "j_state j = Dead" "j_unique_key j = Some u" "P j"
    and k: "k \<in> set (db_jobs d)" "active_state (j_state k)" "j_unique_key k = Some u" "j_queue k = j_queue j"
  shows "update_jobs (\<lambda>x. P x \<and> j_state x = Dead) (replay_row now) d = Inl Unique_violation"
proof -
  let ?js = "upd_where (\<lambda>x. P x \<and> j_state x = Dead) (replay_row now) (db_jobs d)"
  have "replay_row now j \<in> set ?js" using j by (auto simp: set_upd_where)
  moreover have "k \<in> set ?js" using k by (auto simp: set_upd_where)
  moreover have "active_slot (replay_row now j) = Some (j_queue j, u)" "active_slot k = Some (j_queue j, u)"
    using j k by (simp_all add: active_slot_def row_defs)
  moreover have "replay_row now j \<noteq> k"
  proof
    assume "replay_row now j = k"
    then have "j_id k = j_id j" by (auto simp: row_defs)
    with distinct_map_key_inj [OF db_inv_distinct [OF inv] k(1) j(1)] j(2) k(2) show False by auto
  qed
  ultimately have "\<not> index_ok ?js" by (auto simp: index_ok_def dest: unique_onD)
  moreover have "\<forall>x \<in> set (db_jobs d). job_checks (replay_row now x)"
    using inv admin_row_checks(4) by (auto simp: db_inv_def)
  ultimately show ?thesis by (auto simp: update_jobs_def Let_def list_ex_iff)
qed

lemma replay_route_conflict:
  assumes inv: "db_inv d" and adm: "scope_name Scope_admin \<in> set (kr_scopes r)"
    and j: "job_at d i = Some j" "j_state j = Dead" "j_unique_key j = Some u"
    and k: "k \<in> set (db_jobs d)" "active_state (j_state k)" "j_unique_key k = Some u" "j_queue k = j_queue j"
  shows "replay_route alone now (Some r) i d = (Failed 500 INTERNAL, d)"
    and "i \<in> set ids \<Longrightarrow> replayMany alone now ids actor d = (Inl (Passed_through Unique_violation), d)"
proof -
  from db_inv_jobD [OF inv j(1)] have m: "j \<in> set (db_jobs d)" "j_id j = i" by simp_all
  have "replayDeadJob now i d = Inl Unique_violation"
    using replay_conflict [OF inv m(1) j(2,3) _ k, of "\<lambda>x. j_id x = i" now] m(2)
    by (simp add: replayDeadJob_def returning_def)
  moreover have "(requireScope Scope_admin None (Some r) :: unit error_response option) = None"
    using adm by (simp add: no_stat)
  ultimately show "replay_route alone now (Some r) i d = (Failed 500 INTERNAL, d)"
    by (simp add: replay_route_def guarded_def replay_job_def query_def respond_def fault_response_def
        caught_fault_def errorHandler_def failed_def plain_error_def)
  assume i: "i \<in> set ids"
  then have "replayDeadJobs now ids d = Inl Unique_violation"
    using replay_conflict [OF inv m(1) j(2,3) _ k, of "\<lambda>x. j_id x \<in> set ids" now] m(2)
    by (simp add: replayDeadJobs_def returning_def)
  with i show "replayMany alone now ids actor d = (Inl (Passed_through Unique_violation), d)"
    by (auto simp: replayMany_def query_def)
qed

end
