(* ===== verification/Backoff.thy ===== *)
theory Backoff
  imports Job_Types
begin

text \<open>
  packages/core/src/engine/backoff.ts. A JavaScript number is a finite rational, an infinity or
  NaN: overflow of the double range is modelled, rounding of a finite result to 53 bits is not.
  The bounds proved here survive rounding, because it is monotone and the ceiling \<open>maxMs\<close> is a
  number of the program. The injected randomness is an argument in [0, 1).
\<close>

subsection \<open>JavaScript numbers\<close>

datatype jsnum = Fin rat | PInf | NInf | NaN

text \<open>From \<open>2^1024 - 2^970\<close> on a result rounds to infinity.\<close>

definition js_overflow :: rat where
  "js_overflow = 2 ^ 1024 - 2 ^ 970"

definition js_of :: "rat \<Rightarrow> jsnum" where
  "js_of x = (if js_overflow \<le> x then PInf else if x \<le> - js_overflow then NInf else Fin x)"

fun js_inf :: "rat \<Rightarrow> jsnum" where
  "js_inf s = (if 0 < s then PInf else if s < 0 then NInf else NaN)"

fun js_mul :: "jsnum \<Rightarrow> jsnum \<Rightarrow> jsnum" where
  "js_mul (Fin a) (Fin b) = js_of (a * b)"
| "js_mul (Fin a) PInf = js_inf a"
| "js_mul (Fin a) NInf = js_inf (- a)"
| "js_mul PInf (Fin b) = js_inf b"
| "js_mul NInf (Fin b) = js_inf (- b)"
| "js_mul PInf PInf = PInf"
| "js_mul NInf NInf = PInf"
| "js_mul PInf NInf = NInf"
| "js_mul NInf PInf = NInf"
| "js_mul _ _ = NaN"

text \<open>\<open>Math.pow\<close> with a natural exponent.\<close>

definition js_pow :: "rat \<Rightarrow> nat \<Rightarrow> jsnum" where
  "js_pow x n = js_of (x ^ n)"

fun isFinite :: "jsnum \<Rightarrow> bool" where
  "isFinite (Fin _) = True"
| "isFinite _ = False"

text \<open>\<open>Math.round\<close> rounds half up, as \<open>round\<close> does.\<close>

subsection \<open>The delay\<close>

record backoff_options =
  b_initialMs :: rat
  b_multiplier :: rat
  b_maxMs :: rat
  b_jitter :: jitter_strategy

definition baseDelayMs :: "int \<Rightarrow> backoff_options \<Rightarrow> rat" where
  "baseDelayMs attempt opts =
     (if attempt < 1 then 0
      else let growth = js_pow (b_multiplier opts) (nat (attempt - 1));
               raw = js_mul (Fin (b_initialMs opts)) growth
           in case raw of Fin r \<Rightarrow> min (b_maxMs opts) r | _ \<Rightarrow> b_maxMs opts)"

definition nextDelayMs :: "rat \<Rightarrow> int \<Rightarrow> backoff_options \<Rightarrow> int" where
  "nextDelayMs rand attempt opts =
     (let base = baseDelayMs attempt opts
      in if base \<le> 0 then 0
         else case b_jitter opts of
                No_jitter \<Rightarrow> round base
              | Equal \<Rightarrow> round (base / 2 + rand * (base / 2))
              | Full \<Rightarrow> round (rand * base))"

definition nextDelaySeconds :: "rat \<Rightarrow> int \<Rightarrow> backoff_options \<Rightarrow> rat" where
  "nextDelaySeconds rand attempt opts = of_int (nextDelayMs rand attempt opts) / 1000"

definition reaperDelaySeconds :: "rat \<Rightarrow> int \<Rightarrow> backoff_options \<Rightarrow> rat" where
  "reaperDelaySeconds rand attempt opts = nextDelaySeconds rand attempt opts"

definition describeSchedule :: "int \<Rightarrow> backoff_options \<Rightarrow> (int \<times> rat \<times> rat) list" where
  "describeSchedule maxAttempts opts =
     map (\<lambda>a. let base = baseDelayMs a opts
              in (a, base, if b_jitter opts = No_jitter then base else base)) [1..maxAttempts - 1]"

subsection \<open>Bounds\<close>

lemma baseDelayMs_le_max: "1 \<le> attempt \<Longrightarrow> baseDelayMs attempt opts \<le> b_maxMs opts"
  by (simp add: baseDelayMs_def Let_def split: jsnum.split)

lemma baseDelayMs_le_max0: "0 \<le> b_maxMs opts \<Longrightarrow> baseDelayMs attempt opts \<le> b_maxMs opts"
  using baseDelayMs_le_max [of attempt opts] by (cases "attempt < 1") (simp_all add: baseDelayMs_def)

lemma round_nonneg: "0 \<le> x \<Longrightarrow> 0 \<le> round x" for x :: rat
  using round_mono [of 0 x] by simp

lemma nextDelayMs_range:
  assumes "0 \<le> r" and "r < 1"
  shows "0 \<le> nextDelayMs r attempt opts"
    and "0 < baseDelayMs attempt opts \<Longrightarrow> nextDelayMs r attempt opts \<le> round (baseDelayMs attempt opts)"
proof -
  let ?b = "baseDelayMs attempt opts"
  have pos: "0 \<le> round (r * ?b)" "0 \<le> round (?b / 2 + r * (?b / 2))" "0 \<le> round ?b" if "0 < ?b"
    using that assms(1) by (intro round_nonneg; simp)+
  have "r * ?b \<le> ?b" "?b / 2 + r * (?b / 2) \<le> ?b" if "0 < ?b"
    using that assms by (simp_all add: field_simps mult_right_le_one_le)
  then have le: "round (r * ?b) \<le> round ?b" "round (?b / 2 + r * (?b / 2)) \<le> round ?b" if "0 < ?b"
    using that by (simp_all add: round_mono)
  show "0 \<le> nextDelayMs r attempt opts"
    using pos by (simp add: nextDelayMs_def Let_def split: jitter_strategy.split)
  show "nextDelayMs r attempt opts \<le> round ?b" if "0 < ?b"
    using le [OF that] that by (simp add: nextDelayMs_def Let_def split: jitter_strategy.split)
qed

lemma nextDelayMs_bounds:
  assumes "0 \<le> r" and "r < 1"
  shows "0 \<le> nextDelayMs r attempt opts \<and>
    nextDelayMs r attempt opts \<le> max 0 (round (b_maxMs opts))"
proof (cases "0 < baseDelayMs attempt opts")
  case True
  then have "1 \<le> attempt" by (simp add: baseDelayMs_def split: if_splits)
  with nextDelayMs_range [OF assms, of attempt opts] True
    round_mono [OF baseDelayMs_le_max [of attempt opts]]
  show ?thesis by (simp add: le_max_iff_disj)
next
  case False
  then show ?thesis by (simp add: nextDelayMs_def Let_def)
qed

lemma nextDelaySeconds_nonneg:
  "0 \<le> r \<Longrightarrow> r < 1 \<Longrightarrow> 0 \<le> nextDelaySeconds r attempt opts"
  using nextDelayMs_range(1) [of r attempt opts] by (simp add: nextDelaySeconds_def)

text \<open>Equal jitter keeps half of the base as a floor.\<close>

lemma equal_jitter_floor:
  assumes "0 \<le> r" and "b_jitter opts = Equal" and "0 < baseDelayMs attempt opts"
  shows "round (baseDelayMs attempt opts / 2) \<le> nextDelayMs r attempt opts"
  using assms by (simp add: nextDelayMs_def Let_def round_mono)

text \<open>The base never shrinks from one attempt to the next.\<close>

lemma js_overflow_pos: "0 < js_overflow"
  by (simp add: js_overflow_def)

lemma baseDelay_value:
  assumes "1 \<le> a" and "0 < b_initialMs opts" and "1 \<le> b_multiplier opts"
  shows "baseDelayMs a opts =
    (if js_overflow \<le> b_multiplier opts ^ nat (a - 1)
        \<or> js_overflow \<le> b_initialMs opts * b_multiplier opts ^ nat (a - 1) then b_maxMs opts
     else min (b_maxMs opts) (b_initialMs opts * b_multiplier opts ^ nat (a - 1)))"
proof -
  let ?g = "b_multiplier opts ^ nat (a - 1)"
  have g: "0 < ?g" using assms(3) by simp
  then have "\<not> ?g \<le> - js_overflow" and "\<not> b_initialMs opts * ?g \<le> - js_overflow"
    using js_overflow_pos mult_pos_pos [OF assms(2) g] by linarith+
  then show ?thesis
    using assms(1,2) by (auto simp: baseDelayMs_def js_pow_def js_of_def Let_def)
qed

lemma baseDelayMs_mono:
  assumes "1 \<le> a" and "a \<le> b" and "0 < b_initialMs opts" and "1 \<le> b_multiplier opts"
  shows "baseDelayMs a opts \<le> baseDelayMs b opts"
proof -
  define P Q where "P = b_multiplier opts ^ nat (a - 1)" and "Q = b_multiplier opts ^ nat (b - 1)"
  define X Y where "X = b_initialMs opts * P" and "Y = b_initialMs opts * Q"
  have le: "P \<le> Q" unfolding P_def Q_def using assms by (intro power_increasing) simp_all
  then have "X \<le> Y" unfolding X_def Y_def using assms(3) by simp
  moreover have "baseDelayMs a opts =
      (if js_overflow \<le> P \<or> js_overflow \<le> X then b_maxMs opts else min (b_maxMs opts) X)"
    unfolding X_def P_def by (rule baseDelay_value [OF assms(1,3,4)])
  moreover have "baseDelayMs b opts =
      (if js_overflow \<le> Q \<or> js_overflow \<le> Y then b_maxMs opts else min (b_maxMs opts) Y)"
    unfolding Y_def Q_def by (rule baseDelay_value) (use assms in simp_all)
  ultimately show ?thesis using le by (auto simp: min_def)
qed

text \<open>
  A zero initial delay means no delay until the growth overflows: then \<open>0 * Infinity\<close> is NaN, and
  the guard meant for infinity answers \<open>maxMs\<close>.
\<close>

lemma zero_initial_delay:
  assumes "b_initialMs opts = 0" and "1 \<le> a" and "1 \<le> b_multiplier opts"
  shows "baseDelayMs a opts =
    (if js_overflow \<le> b_multiplier opts ^ nat (a - 1) then b_maxMs opts else min (b_maxMs opts) 0)"
proof -
  have "0 < b_multiplier opts ^ nat (a - 1)" using assms(3) by simp
  then have "\<not> b_multiplier opts ^ nat (a - 1) \<le> - js_overflow" using js_overflow_pos by linarith
  then show ?thesis
    using assms(1,2) js_overflow_pos by (simp add: baseDelayMs_def js_pow_def js_of_def Let_def)
qed

end
