(* ===== verification/Config.thy ===== *)
theory Config
  imports Backoff Db_Access
begin

text \<open>
  packages/core/src/config.ts: the configuration read from the environment, its field ranges and
  the constraints across fields. How Zod coerces a text to a number is a parameter: \<open>num s\<close> is
  None for NaN. A field that is unset or empty takes its default. A problem is the name of the
  variable it is reported under (the message is not modelled), one per invalid field. Texts are
  taken as ASCII: lengths are counted in bytes.
\<close>

datatype node_env = Development | Test | Production

record config =
  cf_nodeEnv :: node_env
  cf_databaseUrl :: string
  cf_dbPoolMax :: int
  cf_dbPoolMin :: int
  cf_dbStatementTimeoutMs :: int
  cf_dbConnectTimeoutMs :: int
  cf_logLevel :: string
  cf_logPayloads :: bool
  cf_workerQueues :: "string list"
  cf_workerConcurrency :: int
  cf_workerClaimBatchMax :: int
  cf_workerPollIntervalMs :: int
  cf_workerJobTimeoutMs :: int
  cf_workerShutdownGraceMs :: int
  cf_workerHeartbeatFraction :: rat
  cf_defaultMaxAttempts :: int
  cf_defaultLeaseSeconds :: int
  cf_maxPayloadBytes :: int
  cf_backoffInitialMs :: int
  cf_backoffMultiplier :: rat
  cf_backoffMaxMs :: int
  cf_backoffJitter :: jitter_strategy
  cf_maxErrorHistory :: int
  cf_maxErrorTextBytes :: int
  cf_reaperEnabled :: bool
  cf_reaperIntervalMs :: int
  cf_reaperBatchMax :: int
  cf_schedulerEnabled :: bool
  cf_schedulerIntervalMs :: int
  cf_schedulerBatchMax :: int
  cf_retentionEnabled :: bool
  cf_retentionIntervalMs :: int
  cf_retentionBatchMax :: int
  cf_retentionArchive :: bool
  cf_port :: int
  cf_host :: string
  cf_apiBootstrapKey :: "string option"
  cf_rateLimitWindowMs :: int
  cf_rateLimitMax :: int
  cf_sseMaxSubscribers :: int
  cf_corsOrigin :: string

type_synonym environ = "string \<Rightarrow> string option"
type_synonym coercion = "string \<Rightarrow> rat option"

subsection \<open>One field\<close>

text \<open>The value of a field with the problems it reports; an invalid field has its default.\<close>

definition field :: "(string \<Rightarrow> 'a option) \<Rightarrow> environ \<Rightarrow> string \<Rightarrow> 'a \<Rightarrow> string list \<times> 'a" where
  "field parse env name dflt =
     (case env name of
        None \<Rightarrow> ([], dflt)
      | Some s \<Rightarrow> if s = [] then ([], dflt)
                  else (case parse s of None \<Rightarrow> ([name], dflt) | Some v \<Rightarrow> ([], v)))"

definition int_in :: "coercion \<Rightarrow> int \<Rightarrow> int \<Rightarrow> string \<Rightarrow> int option" where
  "int_in num lo hi s =
     (case num s of
        None \<Rightarrow> None
      | Some r \<Rightarrow> if r = of_int \<lfloor>r\<rfloor> \<and> lo \<le> \<lfloor>r\<rfloor> \<and> \<lfloor>r\<rfloor> \<le> hi then Some \<lfloor>r\<rfloor> else None)"

definition number_in :: "coercion \<Rightarrow> rat \<Rightarrow> rat \<Rightarrow> string \<Rightarrow> rat option" where
  "number_in num lo hi s =
     (case num s of None \<Rightarrow> None | Some r \<Rightarrow> if lo \<le> r \<and> r \<le> hi then Some r else None)"

definition bool_of :: "string \<Rightarrow> bool option" where
  "bool_of s =
     (if s \<in> {''true'', ''1''} then Some True
      else if s \<in> {''false'', ''0''} then Some False else None)"

definition node_env_of :: "string \<Rightarrow> node_env option" where
  "node_env_of s =
     (if s = ''development'' then Some Development else if s = ''test'' then Some Test
      else if s = ''production'' then Some Production else None)"

definition jitter_of :: "string \<Rightarrow> jitter_strategy option" where
  "jitter_of s =
     (if s = ''full'' then Some Full else if s = ''equal'' then Some Equal
      else if s = ''none'' then Some No_jitter else None)"

definition log_level_of :: "string \<Rightarrow> string option" where
  "log_level_of s =
     (if s \<in> {''trace'', ''debug'', ''info'', ''warn'', ''error'', ''fatal'', ''silent''}
      then Some s else None)"

fun split_commas :: "string \<Rightarrow> string list" where
  "split_commas [] = [[]]"
| "split_commas (c # cs) =
     (if c = CHR '','' then [] # split_commas cs
      else (case split_commas cs of [] \<Rightarrow> [[c]] | w # ws \<Rightarrow> (c # w) # ws))"

definition queues_of :: "string \<Rightarrow> string list" where
  "queues_of s = filter (\<lambda>q. 0 < length q) (map trim (split_commas s))"

subsection \<open>The schema\<close>

definition configSchema :: "coercion \<Rightarrow> environ \<Rightarrow> string list \<times> config" where
  "configSchema num env =
     (let int_f = (\<lambda>name lo hi d. field (int_in num lo hi) env name d);
          bool_f = (\<lambda>name d. field bool_of env name d);
          text_f = (\<lambda>name d. field Some env name d);
          nodeEnv = field node_env_of env ''NODE_ENV'' Development;
          url = field (\<lambda>s. Some (Some s)) env ''DATABASE_URL'' None;
          poolMax = int_f ''DB_POOL_MAX'' 1 500 10;
          poolMin = int_f ''DB_POOL_MIN'' 0 500 0;
          stmtMs = int_f ''DB_STATEMENT_TIMEOUT_MS'' 100 600000 10000;
          connMs = int_f ''DB_CONNECT_TIMEOUT_MS'' 100 120000 10000;
          level = field log_level_of env ''LOG_LEVEL'' ''info'';
          payloads = bool_f ''LOG_PAYLOADS'' False;
          queues = field (\<lambda>s. Some (queues_of s)) env ''WORKER_QUEUES'' [''default''];
          concurrency = int_f ''WORKER_CONCURRENCY'' 1 10000 10;
          claimMax = int_f ''WORKER_CLAIM_BATCH_MAX'' 1 1000 20;
          pollMs = int_f ''WORKER_POLL_INTERVAL_MS'' 10 300000 1000;
          jobMs = int_f ''WORKER_JOB_TIMEOUT_MS'' 100 86400000 300000;
          graceMs = int_f ''WORKER_SHUTDOWN_GRACE_MS'' 0 600000 30000;
          fraction = field (number_in num (5 / 100) (9 / 10)) env
                              ''WORKER_HEARTBEAT_FRACTION'' (1 / 2);
          attempts = int_f ''DEFAULT_MAX_ATTEMPTS'' 1 1000 5;
          lease = int_f ''DEFAULT_LEASE_SECONDS'' 1 86400 30;
          maxPayload = int_f ''MAX_PAYLOAD_BYTES'' 1 10485760 262144;
          initialMs = int_f ''BACKOFF_INITIAL_MS'' 0 3600000 1000;
          multiplier = field (number_in num 1 100) env ''BACKOFF_MULTIPLIER'' 2;
          maxMs = int_f ''BACKOFF_MAX_MS'' 0 604800000 3600000;
          jitter = field jitter_of env ''BACKOFF_JITTER'' Full;
          history = int_f ''MAX_ERROR_HISTORY'' 1 100 5;
          errorBytes = int_f ''MAX_ERROR_TEXT_BYTES'' 64 1048576 4096;
          reaper = bool_f ''REAPER_ENABLED'' True;
          reaperMs = int_f ''REAPER_INTERVAL_MS'' 100 3600000 5000;
          reaperMax = int_f ''REAPER_BATCH_MAX'' 1 100000 1000;
          scheduler = bool_f ''SCHEDULER_ENABLED'' True;
          schedulerMs = int_f ''SCHEDULER_INTERVAL_MS'' 100 3600000 5000;
          schedulerMax = int_f ''SCHEDULER_BATCH_MAX'' 1 10000 100;
          retention = bool_f ''RETENTION_ENABLED'' True;
          retentionMs = int_f ''RETENTION_INTERVAL_MS'' 1000 86400000 60000;
          retentionMax = int_f ''RETENTION_BATCH_MAX'' 1 100000 1000;
          archive = bool_f ''RETENTION_ARCHIVE'' False;
          port = int_f ''PORT'' 1 65535 3000;
          host = text_f ''HOST'' ''0.0.0.0'';
          key = field (\<lambda>s. Some (Some s)) env ''API_BOOTSTRAP_KEY'' None;
          rateMs = int_f ''RATE_LIMIT_WINDOW_MS'' 1000 3600000 60000;
          rateMax = int_f ''RATE_LIMIT_MAX'' 1 1000000 600;
          sse = int_f ''SSE_MAX_SUBSCRIBERS'' 1 10000 50;
          cors = text_f ''CORS_ORIGIN'' ''http://localhost:5173''
      in (fst nodeEnv @ (if snd url = None then [''DATABASE_URL''] else []) @ fst poolMax @ fst
            poolMin @ fst stmtMs @ fst connMs @ fst level @ fst payloads @ fst queues @ fst
            concurrency @ fst claimMax @ fst pollMs @ fst jobMs @ fst graceMs @ fst fraction @
            fst attempts @ fst lease @ fst maxPayload @ fst initialMs @ fst multiplier @ fst
            maxMs @ fst jitter @ fst history @ fst errorBytes @ fst reaper @ fst reaperMs @ fst
            reaperMax @ fst scheduler @ fst schedulerMs @ fst schedulerMax @ fst retention @ fst
            retentionMs @ fst retentionMax @ fst archive @ fst port @ fst host @ fst key @ fst
            rateMs @ fst rateMax @ fst sse @ fst cors,
          \<lparr>cf_nodeEnv = snd nodeEnv, cf_databaseUrl = coalesce (snd url) [], cf_dbPoolMax
           = snd poolMax, cf_dbPoolMin = snd poolMin, cf_dbStatementTimeoutMs = snd stmtMs,
           cf_dbConnectTimeoutMs = snd connMs, cf_logLevel = snd level, cf_logPayloads = snd
           payloads, cf_workerQueues = snd queues, cf_workerConcurrency = snd concurrency,
           cf_workerClaimBatchMax = snd claimMax, cf_workerPollIntervalMs = snd pollMs,
           cf_workerJobTimeoutMs = snd jobMs, cf_workerShutdownGraceMs = snd graceMs,
           cf_workerHeartbeatFraction = snd fraction, cf_defaultMaxAttempts = snd attempts,
           cf_defaultLeaseSeconds = snd lease, cf_maxPayloadBytes = snd maxPayload,
           cf_backoffInitialMs = snd initialMs, cf_backoffMultiplier = snd multiplier,
           cf_backoffMaxMs = snd maxMs, cf_backoffJitter = snd jitter, cf_maxErrorHistory = snd
           history, cf_maxErrorTextBytes = snd errorBytes, cf_reaperEnabled = snd reaper,
           cf_reaperIntervalMs = snd reaperMs, cf_reaperBatchMax = snd reaperMax,
           cf_schedulerEnabled = snd scheduler, cf_schedulerIntervalMs = snd schedulerMs,
           cf_schedulerBatchMax = snd schedulerMax, cf_retentionEnabled = snd retention,
           cf_retentionIntervalMs = snd retentionMs, cf_retentionBatchMax = snd retentionMax,
           cf_retentionArchive = snd archive, cf_port = snd port, cf_host = snd host,
           cf_apiBootstrapKey = snd key, cf_rateLimitWindowMs = snd rateMs, cf_rateLimitMax =
           snd rateMax, cf_sseMaxSubscribers = snd sse, cf_corsOrigin = snd cors\<rparr>))"

subsection \<open>Constraints across fields\<close>

datatype problem =
    Pool_min_above_max
  | Initial_above_max
  | Concurrency_above_pool
  | Heartbeat_too_slow
  | Key_required
  | Key_too_short
  | Key_placeholder
  | Payloads_logged

text \<open>\<open>/dev|test|change.?me|insecure|example|password|secret/i\<close>\<close>

definition placeholder_words :: "string list" where
  "placeholder_words = [''dev'', ''test'', ''changeme'', ''insecure'', ''example'', ''password'', ''secret'']"

text \<open>\<open>change.?me\<close>: at most one character, which is no line terminator, in between.\<close>

fun contains_change_me :: "string \<Rightarrow> bool" where
  "contains_change_me [] = False"
| "contains_change_me (c # cs) =
     ((is_prefix ''change'' (c # cs)
       \<and> (is_prefix ''me'' (drop 5 cs)
          \<or> cs \<noteq> [] \<and> drop 5 cs \<noteq> [] \<and> byte (hd (drop 5 cs)) \<notin> {10, 13} \<and> is_prefix ''me'' (drop 6 cs)))
      \<or> contains_change_me cs)"

definition looks_placeholder :: "string \<Rightarrow> bool" where
  "looks_placeholder key \<longleftrightarrow>
     list_ex (\<lambda>w. contains w (map to_lower key)) placeholder_words
     \<or> contains_change_me (map to_lower key)"

definition validateCrossField :: "config \<Rightarrow> problem list" where
  "validateCrossField c =
     (if cf_dbPoolMin c > cf_dbPoolMax c then [Pool_min_above_max] else [])
     @ (if cf_backoffInitialMs c > cf_backoffMaxMs c then [Initial_above_max] else [])
     @ (if cf_workerConcurrency c > cf_dbPoolMax c * 10 then [Concurrency_above_pool] else [])
     @ (let leaseMs = of_int (cf_defaultLeaseSeconds c) * 1000;
            heartbeatMs = leaseMs * cf_workerHeartbeatFraction c
        in if heartbeatMs \<ge> leaseMs then [Heartbeat_too_slow] else [])
     @ (if cf_nodeEnv c = Production
        then (case cf_apiBootstrapKey c of
                None \<Rightarrow> [Key_required]
              | Some k \<Rightarrow>
                  if length k = 0 then [Key_required]
                  else if length k < 32 then [Key_too_short]
                  else if looks_placeholder k then [Key_placeholder] else [])
             @ (if cf_logPayloads c then [Payloads_logged] else [])
        else [])"

datatype config_error = Invalid_fields "string list" | Invalid_combination "problem list"

definition loadConfig :: "coercion \<Rightarrow> environ \<Rightarrow> config_error + config" where
  "loadConfig num env =
     (let (problems, c) = configSchema num env
      in if problems \<noteq> [] then Inl (Invalid_fields problems)
         else let extra = validateCrossField c
              in if extra \<noteq> [] then Inl (Invalid_combination extra) else Inr c)"

subsection \<open>Ranges\<close>

text \<open>A field has a value of its range whatever the environment says.\<close>

lemma field_range:
  assumes "P d" and "\<And>s v. parse s = Some v \<Longrightarrow> P v"
  shows "P (snd (field parse env name d))"
  using assms by (auto simp: field_def split: option.split)

lemma int_field_range:
  "lo \<le> d \<Longrightarrow> d \<le> hi \<Longrightarrow> lo \<le> snd (field (int_in num lo hi) env name d)
     \<and> snd (field (int_in num lo hi) env name d) \<le> hi"
  by (rule field_range) (auto simp: int_in_def split: option.splits if_splits)

lemma number_field_range:
  "lo \<le> d \<Longrightarrow> d \<le> hi \<Longrightarrow> lo \<le> snd (field (number_in num lo hi) env name d)
     \<and> snd (field (number_in num lo hi) env name d) \<le> hi"
  by (rule field_range) (auto simp: number_in_def split: option.splits if_splits)

definition config_ranges :: "config \<Rightarrow> bool" where
  "config_ranges c \<longleftrightarrow>
     1 \<le> cf_dbPoolMax c \<and> cf_dbPoolMax c \<le> 500
     \<and> 1 \<le> cf_workerConcurrency c \<and> cf_workerConcurrency c \<le> 10000
     \<and> 1 \<le> cf_workerClaimBatchMax c \<and> cf_workerClaimBatchMax c \<le> 1000
     \<and> 5 / 100 \<le> cf_workerHeartbeatFraction c \<and> cf_workerHeartbeatFraction c \<le> 9 / 10
     \<and> 1 \<le> cf_defaultMaxAttempts c \<and> cf_defaultMaxAttempts c \<le> 1000
     \<and> 1 \<le> cf_defaultLeaseSeconds c \<and> cf_defaultLeaseSeconds c \<le> 86400
     \<and> 1 \<le> cf_maxPayloadBytes c
     \<and> 0 \<le> cf_backoffInitialMs c \<and> 1 \<le> cf_backoffMultiplier c \<and> 0 \<le> cf_backoffMaxMs c
     \<and> 1 \<le> cf_maxErrorHistory c \<and> cf_maxErrorHistory c \<le> 100
     \<and> 64 \<le> cf_maxErrorTextBytes c
     \<and> 1 \<le> cf_reaperBatchMax c \<and> 1 \<le> cf_schedulerBatchMax c \<and> 1 \<le> cf_retentionBatchMax c
     \<and> 1 \<le> cf_sseMaxSubscribers c"

lemma configSchema_ranges: "config_ranges (snd (configSchema num env))"
proof -
  have "5 / 100 \<le> (1 / 2 :: rat)" and "(1 / 2 :: rat) \<le> 9 / 10" by simp_all
  note fraction = number_field_range [OF this, of num env]
  show ?thesis
    unfolding config_ranges_def configSchema_def Let_def
    by (simp add: int_field_range number_field_range) (use fraction in simp)
qed

subsection \<open>What a loaded configuration satisfies\<close>

lemma validateCrossField_none:
  "validateCrossField c = [] \<longleftrightarrow>
     cf_dbPoolMin c \<le> cf_dbPoolMax c \<and> cf_backoffInitialMs c \<le> cf_backoffMaxMs c
     \<and> cf_workerConcurrency c \<le> cf_dbPoolMax c * 10
     \<and> of_int (cf_defaultLeaseSeconds c) * 1000 * cf_workerHeartbeatFraction c
        < of_int (cf_defaultLeaseSeconds c) * 1000
     \<and> (cf_nodeEnv c = Production \<longrightarrow> \<not> cf_logPayloads c
        \<and> (\<exists>k. cf_apiBootstrapKey c = Some k \<and> 32 \<le> length k \<and> \<not> looks_placeholder k))"
  by (auto simp: validateCrossField_def Let_def not_less not_le split: option.splits if_splits)

lemma loadConfig_Inr:
  assumes "loadConfig num env = Inr c"
  shows "configSchema num env = ([], c)" and "config_ranges c" and "validateCrossField c = []"
  using assms configSchema_ranges [of num env]
  by (auto simp: loadConfig_def Let_def split: prod.splits if_splits)

text \<open>
  The ranges of the fields already exclude what the heartbeat constraint rejects: it never
  reports.
\<close>

lemma heartbeat_check_vacuous:
  assumes "config_ranges c"
  shows "Heartbeat_too_slow \<notin> set (validateCrossField c)"
proof -
  let ?l = "of_int (cf_defaultLeaseSeconds c) * 1000 :: rat"
  from assms have "0 < ?l" and "cf_workerHeartbeatFraction c < 1" by (simp_all add: config_ranges_def)
  then have "?l * cf_workerHeartbeatFraction c < ?l" by simp
  then show ?thesis by (auto simp: validateCrossField_def Let_def split: option.splits)
qed

text \<open>A field reports its variable exactly when that is set to a text it rejects.\<close>

lemma field_reports:
  "fst (field parse env name d) \<noteq> [] \<longleftrightarrow> (\<exists>s. env name = Some s \<and> s \<noteq> [] \<and> parse s = None)"
  by (auto simp: field_def split: option.splits)

lemma loadConfig_reports_pool:
  assumes "env ''DB_POOL_MAX'' = Some s" and "s \<noteq> []" and "int_in num 1 500 s = None"
    and "env ''DATABASE_URL'' = None"
  shows "\<exists>ps. loadConfig num env = Inl (Invalid_fields ps) \<and> {''DB_POOL_MAX'', ''DATABASE_URL''} \<subseteq> set ps"
proof -
  have "field (int_in num 1 500) env ''DB_POOL_MAX'' 10 = ([''DB_POOL_MAX''], 10)"
    and "snd (field (\<lambda>s. Some (Some s)) env ''DATABASE_URL'' None) = None"
    using assms by (simp_all add: field_def)
  then have "{''DB_POOL_MAX'', ''DATABASE_URL''} \<subseteq> set (fst (configSchema num env))"
    unfolding configSchema_def Let_def by simp
  then show ?thesis
    by (cases "configSchema num env") (auto simp: loadConfig_def)
qed

end
