(* ===== verification/Migrate.thy ===== *)
theory Migrate
  imports Db_Access
begin

text \<open>
  packages/core/src/migrate.ts. The files of the migrations directory are name and body; the
  digest that makes a checksum is a parameter, and so is the effect of a migration's SQL on the
  schema: \<open>apply_sql body\<close> is a function of an abstract schema, None when the SQL fails. File
  names are taken as ASCII.
\<close>

record migration =
  mg_version :: nat
  mg_name :: string
  mg_filename :: string
  mg_sql :: string
  mg_checksum :: string

record applied_migration =
  am_version :: nat
  am_name :: string
  am_checksum :: string

text \<open>The schema with its bookkeeping table, None before the table exists.\<close>

record 's schema_db =
  sd_schema :: 's
  sd_applied :: "applied_migration list option"

datatype migration_error =
    Cannot_read_directory
  | Bad_filename string
  | Duplicate_version nat string
  | Changed_migration nat
  | Migration_failed nat
  | Schema_mismatch nat nat "string list"

subsection \<open>Loading\<close>

fun nat_of_digits :: "string \<Rightarrow> nat" where
  "nat_of_digits s = fold (\<lambda>c n. 10 * n + (byte c - 48)) s 0"

definition ends_with :: "string \<Rightarrow> string \<Rightarrow> bool" where
  "ends_with suffix s \<longleftrightarrow> length suffix \<le> length s \<and> drop (length s - length suffix) s = suffix"

text \<open>\<open>/^(\d+)[_-](.+)\.sql$/\<close>\<close>

definition parse_filename :: "string \<Rightarrow> (nat \<times> string) option" where
  "parse_filename f =
     (let ds = takeWhile is_digit f; rest = dropWhile is_digit f;
          name = take (length rest - 5) (drop 1 rest)
      in if ds \<noteq> [] \<and> rest \<noteq> [] \<and> hd rest \<in> {CHR ''_'', CHR ''-''} \<and> ends_with ''.sql'' (drop 1 rest)
            \<and> name \<noteq> [] \<and> list_all (\<lambda>c. byte c \<notin> {10, 13}) name
         then Some (nat_of_digits ds, name) else None)"

fun parse_files ::
  "(string \<Rightarrow> string) \<Rightarrow> (string \<times> string) list \<Rightarrow> migration_error + migration list" where
  "parse_files digest [] = Inr []"
| "parse_files digest ((f, body) # fs) =
     (case parse_filename f of
        None \<Rightarrow> Inl (Bad_filename f)
      | Some (v, name) \<Rightarrow>
          (case parse_files digest fs of
             Inl e \<Rightarrow> Inl e
           | Inr ms \<Rightarrow> Inr (\<lparr>mg_version = v, mg_name = name, mg_filename = f, mg_sql = body,
                 mg_checksum = take 16 (digest body)\<rparr> # ms)))"

fun first_duplicate :: "nat list \<Rightarrow> migration list \<Rightarrow> migration option" where
  "first_duplicate seen [] = None"
| "first_duplicate seen (m # ms) =
     (if mg_version m \<in> set seen then Some m else first_duplicate (mg_version m # seen) ms)"

definition loadMigrations ::
  "(string \<Rightarrow> string) \<Rightarrow> (string \<times> string) list option \<Rightarrow> migration_error + migration list" where
  "loadMigrations digest dir =
     (case dir of
        None \<Rightarrow> Inl Cannot_read_directory
      | Some entries \<Rightarrow>
          (case parse_files digest (sort_key fst (filter (\<lambda>e. ends_with ''.sql'' (fst e)) entries)) of
             Inl e \<Rightarrow> Inl e
           | Inr ms \<Rightarrow>
               (case first_duplicate [] ms of
                  Some m \<Rightarrow> Inl (Duplicate_version (mg_version m) (mg_filename m))
                | None \<Rightarrow> Inr (sort_key mg_version ms))))"

subsection \<open>Migrating\<close>

definition ensureTable :: "'s schema_db \<Rightarrow> 's schema_db" where
  "ensureTable d = d\<lparr>sd_applied := Some (coalesce (sd_applied d) [])\<rparr>"

definition applied_of :: "'s schema_db \<Rightarrow> applied_migration list" where
  "applied_of d = coalesce (sd_applied d) []"

definition getApplied :: "'s schema_db \<Rightarrow> applied_migration list \<times> 's schema_db" where
  "getApplied d = (sort_key am_version (applied_of d), ensureTable d)"

definition latestVersion :: "migration list \<Rightarrow> nat" where
  "latestVersion ms = (if ms = [] then 0 else mg_version (last ms))"

text \<open>One transaction: the SQL and its record, or neither; the version is the primary key.\<close>

definition apply_one ::
  "(string \<Rightarrow> 's \<Rightarrow> 's option) \<Rightarrow> migration \<Rightarrow> 's schema_db \<Rightarrow> 's schema_db option" where
  "apply_one apply_sql m d =
     (case apply_sql (mg_sql m) (sd_schema d) of
        None \<Rightarrow> None
      | Some s \<Rightarrow>
          if mg_version m \<in> am_version ` set (applied_of d) then None
          else Some (d\<lparr>sd_schema := s, sd_applied := Some (applied_of d @
             [\<lparr>am_version = mg_version m, am_name = mg_name m, am_checksum = mg_checksum m\<rparr>])\<rparr>))"

fun apply_pending ::
  "(string \<Rightarrow> 's \<Rightarrow> 's option) \<Rightarrow> migration list \<Rightarrow> 's schema_db
   \<Rightarrow> (migration_error + nat list) \<times> 's schema_db" where
  "apply_pending apply_sql [] d = (Inr [], d)"
| "apply_pending apply_sql (m # ms) d =
     (case apply_one apply_sql m d of
        None \<Rightarrow> (Inl (Migration_failed (mg_version m)), d)
      | Some d1 \<Rightarrow>
          (case apply_pending apply_sql ms d1 of
             (Inl e, d2) \<Rightarrow> (Inl e, d2)
           | (Inr vs, d2) \<Rightarrow> (Inr (mg_version m # vs), d2)))"

record migrate_result =
  mr_applied :: "nat list"
  mr_alreadyCurrent :: bool
  mr_currentVersion :: nat

definition changed :: "applied_migration list \<Rightarrow> migration \<Rightarrow> bool" where
  "changed applied m =
     (case row_of am_version (mg_version m) applied of
        None \<Rightarrow> False | Some a \<Rightarrow> am_checksum a \<noteq> mg_checksum m)"

definition migrateUp ::
  "(string \<Rightarrow> string) \<Rightarrow> (string \<Rightarrow> 's \<Rightarrow> 's option) \<Rightarrow> (string \<times> string) list option
   \<Rightarrow> 's schema_db \<Rightarrow> (migration_error + migrate_result) \<times> 's schema_db" where
  "migrateUp digest apply_sql dir d =
     (case loadMigrations digest dir of
        Inl e \<Rightarrow> (Inl e, d)
      | Inr ms \<Rightarrow>
          (let (applied, d0) = getApplied d
           in case find (changed applied) ms of
                Some m \<Rightarrow> (Inl (Changed_migration (mg_version m)), d0)
              | None \<Rightarrow>
                  (let pending = filter (\<lambda>m. mg_version m \<notin> am_version ` set applied) ms
                   in if pending = [] then
                        (Inr \<lparr>mr_applied = [], mr_alreadyCurrent = True,
                              mr_currentVersion = latestVersion ms\<rparr>, d0)
                      else (case apply_pending apply_sql pending d0 of
                              (Inl e, d1) \<Rightarrow> (Inl e, d1)
                            | (Inr vs, d1) \<Rightarrow>
                                (Inr \<lparr>mr_applied = vs, mr_alreadyCurrent = False,
                                      mr_currentVersion = latestVersion ms\<rparr>, d1)))))"

text \<open>The gate at startup compares the highest versions.\<close>

definition assertSchemaCurrent ::
  "(string \<Rightarrow> string) \<Rightarrow> (string \<times> string) list option \<Rightarrow> 's schema_db
   \<Rightarrow> (migration_error + nat) \<times> 's schema_db" where
  "assertSchemaCurrent digest dir d =
     (case loadMigrations digest dir of
        Inl e \<Rightarrow> (Inl e, d)
      | Inr ms \<Rightarrow>
          (let (applied, d0) = getApplied d;
               expected = latestVersion ms;
               actual = (if applied = [] then 0 else Max (am_version ` set applied))
           in if actual \<noteq> expected
              then (Inl (Schema_mismatch actual expected
                     (map mg_filename (filter (\<lambda>m. mg_version m \<notin> am_version ` set applied) ms))), d0)
              else (Inr actual, d0)))"

subsection \<open>Loaded migrations\<close>

lemma first_duplicate_None:
  "first_duplicate seen ms = None \<longleftrightarrow>
     distinct (map mg_version ms) \<and> mg_version ` set ms \<inter> set seen = {}"
  by (induction ms arbitrary: seen) auto

lemma loadMigrations_sorted:
  assumes "loadMigrations digest dir = Inr ms"
  shows "sorted_wrt (<) (map mg_version ms)"
proof -
  from assms obtain ks where "ms = sort_key mg_version ks" and "first_duplicate [] ks = None"
    by (auto simp: loadMigrations_def split: option.splits sum.splits)
  then have "sorted (map mg_version ms)" and "distinct (map mg_version ms)"
    by (simp_all add: first_duplicate_None distinct_map)
  then show ?thesis by (simp add: strict_sorted_iff)
qed

lemma latestVersion_max:
  assumes "sorted_wrt (<) (map mg_version ms)" and "m \<in> set ms"
  shows "mg_version m \<le> latestVersion ms" and "latestVersion ms \<in> mg_version ` set ms"
proof -
  from assms(2) have ne: "ms \<noteq> []" by auto
  then obtain ks k where ms: "ms = ks @ [k]" by (metis append_butlast_last_id)
  with assms show "mg_version m \<le> latestVersion ms"
    by (auto simp: latestVersion_def sorted_wrt_append less_imp_le)
  from ms show "latestVersion ms \<in> mg_version ` set ms" by (simp add: latestVersion_def)
qed

subsection \<open>What a run leaves\<close>

lemma apply_pending_spec:
  assumes "apply_pending apply_sql ms d = (Inr vs, d')"
  shows "vs = map mg_version ms
    \<and> applied_of d' = applied_of d @ map (\<lambda>m. \<lparr>am_version = mg_version m, am_name = mg_name m,
        am_checksum = mg_checksum m\<rparr>) ms
    \<and> fold (\<lambda>m s. Option.bind s (apply_sql (mg_sql m))) ms (Some (sd_schema d)) = Some (sd_schema d')"
  using assms
proof (induction ms arbitrary: d vs)
  case Nil
  then show ?case by simp
next
  case (Cons m ms)
  from Cons.prems obtain d1 ws where one: "apply_one apply_sql m d = Some d1"
    and rest: "apply_pending apply_sql ms d1 = (Inr ws, d')" and vs: "vs = mg_version m # ws"
    by (auto split: option.splits sum.splits prod.splits)
  from one have "apply_sql (mg_sql m) (sd_schema d) = Some (sd_schema d1)"
    and "applied_of d1 = applied_of d @ [\<lparr>am_version = mg_version m, am_name = mg_name m,
        am_checksum = mg_checksum m\<rparr>]"
    by (auto simp: apply_one_def applied_of_def split: option.splits if_splits)
  with Cons.IH [OF rest] vs show ?case by simp
qed

text \<open>What was applied before a failing migration stays applied.\<close>

lemma apply_pending_error:
  assumes "apply_pending apply_sql ms d = (Inl e, d')"
  shows "\<exists>k < length ms. e = Migration_failed (mg_version (ms ! k))
    \<and> apply_pending apply_sql (take k ms) d = (Inr (map mg_version (take k ms)), d')"
  using assms
proof (induction ms arbitrary: d)
  case Nil
  then show ?case by simp
next
  case (Cons m ms)
  show ?case
  proof (cases "apply_one apply_sql m d")
    case None
    with Cons.prems show ?thesis by (intro exI [of _ 0]) simp
  next
    case (Some d1)
    with Cons.prems have "apply_pending apply_sql ms d1 = (Inl e, d')"
      by (auto split: sum.splits prod.splits)
    from Cons.IH [OF this] obtain k where "k < length ms"
      "e = Migration_failed (mg_version (ms ! k))"
      "apply_pending apply_sql (take k ms) d1 = (Inr (map mg_version (take k ms)), d')" by blast
    with Some show ?thesis by (intro exI [of _ "Suc k"]) simp
  qed
qed

lemma applied_of_ensure [simp]: "applied_of (ensureTable d) = applied_of d"
  by (simp add: applied_of_def ensureTable_def)

lemma ensureTable_idem: "ensureTable (ensureTable d) = ensureTable d"
  by (simp add: ensureTable_def)

lemma sort_key_Nil [simp]: "sort_key f xs = [] \<longleftrightarrow> xs = []"
  by (metis set_empty set_sort)

lemma row_of_sorted:
  "distinct (map key xs) \<Longrightarrow> row_of key k (sort_key key xs) = row_of key k xs"
proof -
  assume d: "distinct (map key xs)"
  then have ds: "distinct (map key (sort_key key xs))" by (simp add: distinct_map)
  show ?thesis
  proof (cases "row_of key k xs")
    case None
    then have "row_of key k (sort_key key xs) = None" by (simp only: row_of_None_iff set_sort) simp
    with None show ?thesis by simp
  next
    case (Some x)
    then have "x \<in> set (sort_key key xs)" "key x = k" by (auto dest: row_of_SomeD)
    with row_of_mem [OF ds] Some show ?thesis by metis
  qed
qed

definition record_of :: "migration \<Rightarrow> applied_migration" where
  "record_of m = \<lparr>am_version = mg_version m, am_name = mg_name m, am_checksum = mg_checksum m\<rparr>"

lemma record_of_version [simp]: "am_version (record_of m) = mg_version m"
  by (simp add: record_of_def)

lemma apply_pending_table:
  "apply_pending apply_sql ms d = (r, d') \<Longrightarrow> sd_applied d \<noteq> None \<Longrightarrow> sd_applied d' \<noteq> None"
proof (induction ms arbitrary: d r)
  case Nil
  then show ?case by simp
next
  case (Cons m ms)
  show ?case
  proof (cases "apply_one apply_sql m d")
    case None
    with Cons.prems show ?thesis by simp
  next
    case (Some d1)
    then have "sd_applied d1 \<noteq> None" by (auto simp: apply_one_def split: option.splits if_splits)
    moreover obtain r1 where "apply_pending apply_sql ms d1 = (r1, d')"
      using Cons.prems(1) Some by (auto split: sum.splits prod.splits)
    ultimately show ?thesis by (rule Cons.IH [rotated])
  qed
qed

text \<open>
  A successful run finds no changed migration and appends the records of the pending ones; the
  recorded versions stay distinct.
\<close>

lemma migrateUp_success:
  assumes dist: "distinct (map am_version (applied_of d))"
    and run: "migrateUp digest apply_sql dir d = (Inr r, d')"
    and load: "loadMigrations digest dir = Inr ms"
  defines "pending \<equiv> filter (\<lambda>m. mg_version m \<notin> am_version ` set (applied_of d)) ms"
  shows "applied_of d' = applied_of d @ map record_of pending" and "ensureTable d' = d'"
    and "\<forall>m \<in> set ms. \<not> changed (applied_of d) m" and "mr_applied r = map mg_version pending"
    and "mr_currentVersion r = latestVersion ms" and "distinct (map am_version (applied_of d'))"
proof -
  let ?ap = "sort_key am_version (applied_of d)"
  from run load have unchanged: "find (changed ?ap) ms = None"
    by (auto simp: migrateUp_def getApplied_def split: option.splits)
  then show "\<forall>m \<in> set ms. \<not> changed (applied_of d) m"
    by (simp add: find_None_iff changed_def row_of_sorted [OF dist])
  have "applied_of d' = applied_of d @ map record_of pending \<and> sd_applied d' \<noteq> None
    \<and> mr_applied r = map mg_version pending \<and> mr_currentVersion r = latestVersion ms"
  proof (cases "pending = []")
    case True
    with run load unchanged show ?thesis
      by (auto simp: migrateUp_def getApplied_def Let_def pending_def ensureTable_def applied_of_def)
  next
    case False
    with run load unchanged obtain vs where p: "apply_pending apply_sql pending (ensureTable d) = (Inr vs, d')"
      and r: "r = \<lparr>mr_applied = vs, mr_alreadyCurrent = False, mr_currentVersion = latestVersion ms\<rparr>"
      by (auto simp: migrateUp_def getApplied_def Let_def pending_def split: prod.splits sum.splits)
    have "sd_applied (ensureTable d) \<noteq> None" by (simp add: ensureTable_def)
    with apply_pending_spec [OF p] apply_pending_table [OF p] r show ?thesis
      by (simp add: record_of_def [abs_def])
  qed
  then show app: "applied_of d' = applied_of d @ map record_of pending" and "ensureTable d' = d'"
    and "mr_applied r = map mg_version pending" and "mr_currentVersion r = latestVersion ms"
    by (auto simp: ensureTable_def)
  have "distinct (map mg_version ms)"
    using loadMigrations_sorted [OF load] by (simp add: strict_sorted_iff)
  then have "distinct (map mg_version pending)" by (simp add: pending_def distinct_map_filter)
  then show "distinct (map am_version (applied_of d'))"
    using dist unfolding app by (force simp: comp_def pending_def)
qed

text \<open>After a successful run every migration is recorded, with the checksum it has.\<close>

lemma migrateUp_recorded:
  assumes dist: "distinct (map am_version (applied_of d))"
    and run: "migrateUp digest apply_sql dir d = (Inr r, d')"
    and load: "loadMigrations digest dir = Inr ms" and m: "m \<in> set ms"
  shows "mg_version m \<in> am_version ` set (applied_of d')" and "\<not> changed (applied_of d') m"
proof -
  let ?pending = "filter (\<lambda>m. mg_version m \<notin> am_version ` set (applied_of d)) ms"
  note S = migrateUp_success [OF dist run load]
  show "mg_version m \<in> am_version ` set (applied_of d')"
  proof (cases "mg_version m \<in> am_version ` set (applied_of d)")
    case False
    with m have "record_of m \<in> set (applied_of d')" by (simp add: S(1))
    then show ?thesis by (metis image_eqI record_of_version)
  qed (auto simp: S(1))
  show "\<not> changed (applied_of d') m"
  proof (cases "row_of am_version (mg_version m) (applied_of d)")
    case (Some a)
    with S(3) m show ?thesis by (auto simp: S(1) row_of_append changed_def)
  next
    case None
    then have "m \<in> set ?pending" using m by (simp add: row_of_None_iff)
    then have r: "record_of m \<in> set (applied_of d')" by (simp add: S(1))
    from row_of_mem [OF S(6) this] show ?thesis by (simp add: changed_def record_of_def)
  qed
qed

text \<open>A second run finds nothing to do and leaves the database as it is.\<close>

lemma migrateUp_again:
  assumes dist: "distinct (map am_version (applied_of d))"
    and run: "migrateUp digest apply_sql dir d = (Inr r, d')"
  shows "migrateUp digest apply_sql dir d' =
    (Inr \<lparr>mr_applied = [], mr_alreadyCurrent = True, mr_currentVersion = mr_currentVersion r\<rparr>, d')"
proof -
  from run obtain ms where load: "loadMigrations digest dir = Inr ms"
    by (auto simp: migrateUp_def split: sum.splits)
  note S = migrateUp_success [OF dist run load]
  note rec = migrateUp_recorded [OF dist run load]
  have "find (changed (sort_key am_version (applied_of d'))) ms = None"
    using rec(2) by (simp add: find_None_iff changed_def row_of_sorted [OF S(6)])
  moreover have "filter (\<lambda>m. mg_version m \<notin> am_version ` set (applied_of d')) ms = []"
    using rec(1) by (simp add: filter_empty_conv)
  ultimately show ?thesis using load S(2,5) by (simp add: migrateUp_def getApplied_def)
qed

text \<open>A fresh database passes the gate after one run.\<close>

lemma migrateUp_then_current:
  assumes "applied_of d = []" and run: "migrateUp digest apply_sql dir d = (Inr r, d')"
  shows "assertSchemaCurrent digest dir d' = (Inr (mr_currentVersion r), d')"
proof -
  from run obtain ms where load: "loadMigrations digest dir = Inr ms"
    by (auto simp: migrateUp_def split: sum.splits)
  have dist: "distinct (map am_version (applied_of d))" by (simp add: assms(1))
  note S = migrateUp_success [OF dist run load]
  have app: "applied_of d' = map record_of ms" by (simp add: S(1) assms(1))
  have vers: "am_version ` set (applied_of d') = mg_version ` set ms" by (simp add: app image_image)
  have "Max (mg_version ` set ms) = latestVersion ms" if "ms \<noteq> []"
    using that latestVersion_max [OF loadMigrations_sorted [OF load]]
    by (intro Max_eqI) (auto dest: hd_in_set)
  then show ?thesis
    using load S(2,5) vers by (auto simp: assertSchemaCurrent_def getApplied_def Let_def latestVersion_def app)
qed

text \<open>The gate looks at the highest version only: a missing lower one passes.\<close>

lemma gate_ignores_gaps:
  assumes "loadMigrations digest dir = Inr ms" and "ms \<noteq> []"
    and "am_version ` set (applied_of d) = {latestVersion ms}"
  shows "assertSchemaCurrent digest dir d = (Inr (latestVersion ms), ensureTable d)"
proof -
  have "applied_of d \<noteq> []" using assms(3) by auto
  with assms show ?thesis by (simp add: assertSchemaCurrent_def getApplied_def)
qed

end
