(* ===== verification/Registry.thy ===== *)
theory Registry
  imports Errors
begin

text \<open>
  packages/core/src/worker/registry.ts. A schema is its parser (Zod is not modelled): it returns
  the parsed value or the error it throws. A handler is its outcome on the parsed value. The map
  of registrations keeps insertion order.
\<close>

datatype handler_result = Returned | Threw thrown

record registration =
  g_type :: string
  g_schema :: "json \<Rightarrow> thrown + json"
  g_handler :: "json \<Rightarrow> handler_result"

type_synonym registry = "registration list"

definition createRegistry :: registry where
  "createRegistry = []"

definition has :: "registry \<Rightarrow> string \<Rightarrow> bool" where
  "has reg ty \<longleftrightarrow> ty \<in> set (map g_type reg)"

definition register ::
  "string \<Rightarrow> (json \<Rightarrow> thrown + json) \<Rightarrow> (json \<Rightarrow> handler_result) \<Rightarrow> registry \<Rightarrow> thrown + registry" where
  "register ty schema handler reg =
     (if has reg ty
      then Inl (Thrown_error (mk_error Plain_Error
             (''Handler for job type '' @ ty @ '' is already registered'')))
      else Inr (reg @ [\<lparr>g_type = ty, g_schema = schema, g_handler = handler\<rparr>]))"

definition types :: "registry \<Rightarrow> string list" where
  "types reg = sort (map g_type reg)"

definition resolve :: "registry \<Rightarrow> string \<Rightarrow> thrown + registration" where
  "resolve reg ty =
     (case row_of g_type ty reg of
        None \<Rightarrow> Inl (Thrown_error (mk_error NoHandlerError
                   (''No handler registered for job type '' @ ty)))
      | Some g \<Rightarrow> Inr g)"

definition parse :: "registry \<Rightarrow> string \<Rightarrow> json \<Rightarrow> thrown + json" where
  "parse reg ty payload =
     (case resolve reg ty of Inl e \<Rightarrow> Inl e | Inr g \<Rightarrow> g_schema g payload)"

definition run_handler :: "registry \<Rightarrow> string \<Rightarrow> json \<Rightarrow> handler_result" where
  "run_handler reg ty payload =
     (case resolve reg ty of
        Inl e \<Rightarrow> Threw e
      | Inr g \<Rightarrow>
          (case g_schema g payload of Inl e \<Rightarrow> Threw e | Inr parsed \<Rightarrow> g_handler g parsed))"

lemma register_distinct:
  "distinct (map g_type reg) \<Longrightarrow> register ty s h reg = Inr reg' \<Longrightarrow> distinct (map g_type reg')"
  by (auto simp: register_def has_def split: if_splits)

lemma resolve_registered:
  assumes "register ty s h reg = Inr reg'"
  shows "resolve reg' ty = Inr \<lparr>g_type = ty, g_schema = s, g_handler = h\<rparr>"
proof -
  from assms have "ty \<notin> g_type ` set reg"
    and "reg' = reg @ [\<lparr>g_type = ty, g_schema = s, g_handler = h\<rparr>]"
    by (auto simp: register_def has_def split: if_splits)
  moreover from this(1) have "row_of g_type ty reg = None" by (simp add: row_of_None_iff)
  ultimately show ?thesis by (simp add: resolve_def row_of_append)
qed

lemma resolve_other:
  assumes "register ty s h reg = Inr reg'" and "ty' \<noteq> ty"
  shows "resolve reg' ty' = resolve reg ty'"
proof -
  from assms have "reg' = reg @ [\<lparr>g_type = ty, g_schema = s, g_handler = h\<rparr>]"
    by (auto simp: register_def split: if_splits)
  with assms(2) show ?thesis by (auto simp: resolve_def row_of_append split: option.splits)
qed

end
