(* ===== verification/Runner.thy ===== *)
theory Runner
  imports Registry Backoff Client System
begin

text \<open>
  packages/core/src/worker/runner.ts: one delivery of one job. While the handler is executing,
  heartbeats, the timeout and whatever other sessions do to the database come as events in some
  order; when it settles, the outcome is reported. \<open>env n\<close> is what others do before the n-th
  statement of the report. Logs and metrics are not modelled; a handler that never settles has no
  run here, as the source awaits it without limit.
\<close>

record runner_options =
  ro_workerId :: string
  ro_heartbeatFraction :: rat
  ro_backoff :: backoff_options
  ro_maxErrorHistory :: int
  ro_maxErrorTextBytes :: nat

datatype run_outcome = O_succeeded | O_retried | O_dead | O_cancelled | O_ownership_lost

definition heartbeatMs :: "claimed_job \<Rightarrow> runner_options \<Rightarrow> int" where
  "heartbeatMs job opts =
     max 500 \<lfloor>of_int (c_lease_seconds job) * 1000 * ro_heartbeatFraction opts\<rfloor>"

subsection \<open>While the handler executes\<close>

record run_state =
  ru_cancelRequested :: bool
  ru_timedOut :: bool
  ru_abort :: "error_class option"

definition run_start :: run_state where
  "run_start = \<lparr>ru_cancelRequested = False, ru_timedOut = False, ru_abort = None\<rparr>"

text \<open>Only the first abort of a controller sets the reason.\<close>

definition abort :: "error_class \<Rightarrow> run_state \<Rightarrow> run_state" where
  "abort c s = (case ru_abort s of None \<Rightarrow> s\<lparr>ru_abort := Some c\<rparr> | Some _ \<Rightarrow> s)"

text \<open>What a failed query throws; the text of a driver error is not modelled.\<close>

definition fault_thrown :: "fault \<Rightarrow> thrown" where
  "fault_thrown f =
     (case f of
        Passed_through _ \<Rightarrow>
          Thrown_error (Js_error Plain_Error ''error'' [] None (Some UNIQUE_VIOLATION) False 0 None)
      | Wrapped _ \<Rightarrow> Thrown_error (mk_error DatabaseError [])
      | Fault c _ \<Rightarrow> Thrown_error (mk_error c []))"

definition ownership_lost :: thrown where
  "ownership_lost = Thrown_error (mk_error OwnershipLostError ''Lost ownership of job'')"

text \<open>The error is thrown to whoever called: the handler, or the timer that only logs it.\<close>

definition doHeartbeat ::
  "instant \<Rightarrow> claimed_job \<Rightarrow> string \<Rightarrow> run_state \<times> db \<Rightarrow> thrown option \<times> run_state \<times> db" where
  "doHeartbeat now job w sd =
     (let (s, d) = sd
      in case query (heartbeatJob now (c_lease_seconds job) (token_of w job)) d of
           Inl e \<Rightarrow> (Some (fault_thrown e), s, d)
         | Inr ([], d') \<Rightarrow> (Some ownership_lost, abort OwnershipLostError s, d')
         | Inr ((_, requested) # _, d') \<Rightarrow>
             if requested \<noteq> None \<and> \<not> ru_cancelRequested s
             then (None, abort JobCancelledError (s\<lparr>ru_cancelRequested := True\<rparr>), d')
             else (None, s, d'))"

datatype run_event = Beat instant | Timeout_fires | Others "db \<Rightarrow> db"

fun run_event_step ::
  "claimed_job \<Rightarrow> string \<Rightarrow> run_event \<Rightarrow> run_state \<times> db \<Rightarrow> run_state \<times> db" where
  "run_event_step job w (Beat now) sd = snd (doHeartbeat now job w sd)"
| "run_event_step job w Timeout_fires (s, d) = (abort HandlerTimeoutError (s\<lparr>ru_timedOut := True\<rparr>), d)"
| "run_event_step job w (Others f) (s, d) = (s, f d)"

definition run_events :: "claimed_job \<Rightarrow> string \<Rightarrow> run_event list \<Rightarrow> run_state \<times> db \<Rightarrow> run_state \<times> db"
where
  "run_events job w evs sd = fold (run_event_step job w) evs sd"

subsection \<open>Classification\<close>

definition isZodError :: "thrown \<Rightarrow> bool" where
  "isZodError e = (case e of Thrown_error x \<Rightarrow> x_issues x | Thrown_value _ _ _ i \<Rightarrow> i | _ \<Rightarrow> False)"

definition instance_of :: "error_class \<Rightarrow> thrown \<Rightarrow> bool" where
  "instance_of c e = (case e of Thrown_error x \<Rightarrow> x_class x = c | _ \<Rightarrow> False)"

definition classify :: "thrown \<Rightarrow> error_kind" where
  "classify e =
     (if instance_of HandlerTimeoutError e then Timeout
      else if instance_of NonRetryableError e then Handler_error
      else if isZodError e then Validation_kind
      else if pgErrorCode e = Some ''NO_HANDLER'' then No_handler
      else Handler_error)"

definition non_retryable :: "error_kind \<Rightarrow> thrown \<Rightarrow> bool" where
  "non_retryable kind e \<longleftrightarrow> isNonRetryable e \<or> kind = Validation_kind \<or> kind = No_handler"

definition retry_delay :: "rat \<Rightarrow> thrown \<Rightarrow> int \<Rightarrow> backoff_options \<Rightarrow> rat" where
  "retry_delay rand e attempt b =
     (case e of
        Thrown_error x \<Rightarrow>
          if x_class x = RetryAfterError then min (x_retryDelayMs x) (b_maxMs b) / 1000
          else nextDelaySeconds rand attempt b
      | _ \<Rightarrow> nextDelaySeconds rand attempt b)"

definition error_record :: "normalized \<Rightarrow> string \<Rightarrow> job_error" where
  "error_record z w = \<lparr>e_attempt = z_attempt z, e_at = z_at z, e_kind = z_kind z,
     e_name = Some (z_name z), e_message = Some (z_message z), e_stack = Some (z_stack z),
     e_worker_id = Some w\<rparr>"

definition fail_params_of ::
  "instant \<Rightarrow> rat \<Rightarrow> runner_options \<Rightarrow> claimed_job \<Rightarrow> bool \<Rightarrow> thrown \<Rightarrow> fail_params" where
  "fail_params_of cnow rand opts job timedOut e =
     (let kind = (if timedOut then Timeout else classify e)
      in \<lparr>fp_nonRetryable = non_retryable kind e,
          fp_retryDelaySeconds = retry_delay rand e (c_attempt job) (ro_backoff opts),
          fp_maxErrorHistory = ro_maxErrorHistory opts,
          fp_error = error_record (normalizeError cnow e (c_attempt job) kind
            (ro_maxErrorTextBytes opts)) (ro_workerId opts)\<rparr>)"

subsection \<open>Reporting\<close>

text \<open>The failure statement and what its result means.\<close>

definition fail_report ::
  "instant \<Rightarrow> fail_params \<Rightarrow> fence \<Rightarrow> db \<Rightarrow> (fault + run_outcome) \<times> db" where
  "fail_report now q tok d =
     (case query (failJob now q tok) d of
        Inl f \<Rightarrow> (Inl f, d)
      | Inr ([], d1) \<Rightarrow> (Inr O_ownership_lost, d1)
      | Inr (row # _, d1) \<Rightarrow> (Inr (if fr_state row = Dead then O_dead else O_retried), d1))"

definition reportFailure ::
  "env \<Rightarrow> instant \<Rightarrow> instant \<Rightarrow> rat \<Rightarrow> runner_options \<Rightarrow> claimed_job \<Rightarrow> thrown \<Rightarrow> run_state \<Rightarrow> db
   \<Rightarrow> (fault + run_outcome) \<times> db" where
  "reportFailure env now cnow rand opts job e s d =
     (let tok = token_of (ro_workerId opts) job;
          params = fail_params_of cnow rand opts job (ru_timedOut s) e
      in if instance_of OwnershipLostError e then (Inr O_ownership_lost, d)
         else if ru_cancelRequested s \<or> instance_of JobCancelledError e
         then let d0 = env 4 d
              in case query (acknowledgeCancellation now tok) d0 of
                   Inl f \<Rightarrow> (Inl f, d0)
                 | Inr (_ # _, d1) \<Rightarrow> (Inr O_cancelled, d1)
                 | Inr ([], d1) \<Rightarrow> fail_report now params tok (env 5 d1)
         else fail_report now params tok (env 5 d))"

text \<open>
  The rest of the \<open>try\<close> block after the handler returned, and its \<open>catch\<close>: a report that throws is
  itself reported as a failure.
\<close>

definition settle ::
  "env \<Rightarrow> instant \<Rightarrow> instant \<Rightarrow> rat \<Rightarrow> runner_options \<Rightarrow> claimed_job \<Rightarrow> handler_result \<Rightarrow> run_state \<Rightarrow> db
   \<Rightarrow> (fault + run_outcome) \<times> db" where
  "settle env now cnow rand opts job res s d =
     (let tok = token_of (ro_workerId opts) job;
          failed = (\<lambda>e d0. reportFailure env now cnow rand opts job e s d0);
          complete = (\<lambda>d0.
            case query (completeJob now tok) d0 of
              Inl f \<Rightarrow> failed (fault_thrown f) d0
            | Inr ([], d1) \<Rightarrow> (Inr O_ownership_lost, d1)
            | Inr (_ # _, d1) \<Rightarrow> (Inr O_succeeded, d1))
      in case res of
           Threw e \<Rightarrow> failed e d
         | Returned \<Rightarrow>
             if ru_cancelRequested s
             then let d0 = env 2 d
                  in case query (acknowledgeCancellation now tok) d0 of
                       Inl f \<Rightarrow> failed (fault_thrown f) d0
                     | Inr (_ # _, d1) \<Rightarrow> (Inr O_cancelled, d1)
                     | Inr ([], d1) \<Rightarrow> complete (env 3 d1)
             else complete (env 3 d))"

definition run_job ::
  "env \<Rightarrow> instant \<Rightarrow> instant \<Rightarrow> rat \<Rightarrow> runner_options \<Rightarrow> registry \<Rightarrow> claimed_job \<Rightarrow> run_event list \<Rightarrow> db
   \<Rightarrow> (fault + run_outcome) \<times> db" where
  "run_job env now cnow rand opts reg job evs d =
     (let (s, d') = run_events job (ro_workerId opts) evs (run_start, d)
      in settle env now cnow rand opts job (run_handler reg (c_type job) (c_payload job)) s d')"

definition release_job :: "instant \<Rightarrow> runner_options \<Rightarrow> claimed_job \<Rightarrow> db \<Rightarrow> (fault + bool) \<times> db" where
  "release_job now opts job d =
     (case query (releaseJob now (token_of (ro_workerId opts) job)) d of
        Inl f \<Rightarrow> (Inl f, d)
      | Inr (rows, d') \<Rightarrow> (Inr (rows \<noteq> []), d'))"

end
