(* ===== verification/Listener.thy ===== *)
theory Listener
  imports Client
begin

text \<open>
  packages/core/src/worker/listener.ts: channel names, the checks before LISTEN, the mapping of
  a notification to its queue and the reconnect backoff. The connection itself is the driver's;
  an event of it is a step on the listener's state. Channel texts are ASCII, so lower case is
  ASCII lower case.
\<close>

definition channelFor :: "string \<Rightarrow> string" where
  "channelFor q = ''pgjobq_'' @ q"

datatype channel_error = Unsafe_channel string | Channel_too_long string

definition assertSafeChannel :: "string \<Rightarrow> channel_error + unit" where
  "assertSafeChannel ch =
     (if \<not> (take 7 ch = ''pgjobq_'' \<and> drop 7 ch \<noteq> [] \<and> list_all name_char (drop 7 ch))
      then Inl (Unsafe_channel ch)
      else if 63 < length ch then Inl (Channel_too_long ch)
      else Inr ())"

definition lowered :: "string \<Rightarrow> string" where
  "lowered s = map to_lower s"

definition queueForChannel :: "string list \<Rightarrow> string \<Rightarrow> string option" where
  "queueForChannel queues ch = find (\<lambda>q. lowered (channelFor q) = lowered ch) queues"

text \<open>The LISTEN statements of a fresh connection, in order; the first unsafe name ends it.\<close>

fun listen_all :: "string list \<Rightarrow> channel_error + string list" where
  "listen_all [] = Inr []"
| "listen_all (q # qs) =
     (case assertSafeChannel (channelFor q) of
        Inl e \<Rightarrow> Inl e
      | Inr _ \<Rightarrow> (case listen_all qs of Inl e \<Rightarrow> Inl e | Inr chs \<Rightarrow> Inr (channelFor q # chs)))"

record listener =
  li_queues :: "string list"
  li_looping :: bool
  li_stopped :: bool
  li_connected :: bool
  li_attempt :: nat

definition new_listener :: "string list \<Rightarrow> listener" where
  "new_listener queues = \<lparr>li_queues = queues, li_looping = False, li_stopped = False, li_connected = False, li_attempt = 0\<rparr>"

definition reconnectDelay :: "rat option \<Rightarrow> rat option \<Rightarrow> nat \<Rightarrow> rat" where
  "reconnectDelay initialMs maxMs attempt =
     min (coalesce maxMs 30000) (coalesce initialMs 500 * 2 ^ min (attempt - 1) 10)"

text \<open>
  One turn of the loop: the connection is made or not (\<open>connects\<close>), its LISTENs run, and it ends
  with an error or cleanly. The result is the delay before the next turn, None for no delay.
\<close>

datatype session_end = Never_connected | Ended_cleanly | Ended_with_error

definition session ::
  "rat option \<Rightarrow> rat option \<Rightarrow> rat \<Rightarrow> session_end \<Rightarrow> listener \<Rightarrow> int option \<times> listener" where
  "session initialMs maxMs rand how l =
     (let failed = (\<lambda>k. if li_stopped k then (None, k)
            else let a = li_attempt k + 1
                 in (Some (round (rand * reconnectDelay initialMs maxMs a)),
                     k\<lparr>li_connected := False, li_attempt := a\<rparr>))
      in if li_stopped l then (None, l)
         else case how of
             Never_connected \<Rightarrow> failed l
           | _ \<Rightarrow> (case listen_all (li_queues l) of
                Inl _ \<Rightarrow> failed l
              | Inr _ \<Rightarrow>
                  (let up = l\<lparr>li_connected := True, li_attempt := 0\<rparr>
                   in if how = Ended_cleanly then (None, up\<lparr>li_connected := False\<rparr>)
                      else failed up)))"

definition start_listener :: "listener \<Rightarrow> listener" where
  "start_listener l = (if li_looping l then l else l\<lparr>li_looping := True\<rparr>)"

definition stop_listener :: "listener \<Rightarrow> listener" where
  "stop_listener l = l\<lparr>li_stopped := True, li_connected := False, li_looping := False\<rparr>"

text \<open>A stopped listener never connects again, not even when it is started again.\<close>

lemma stopped_for_good:
  "session i m rand how (start_listener (stop_listener l)) = (None, start_listener (stop_listener l))"
  by (simp add: session_def start_listener_def stop_listener_def Let_def)

subsection \<open>Channels\<close>

text \<open>The listener and the trigger of the migration compute the same name.\<close>

lemma channelFor_trigger: "channelFor q = channel_of q"
  by (simp add: channelFor_def channel_of_def)

lemma channelFor_parts [simp]: "take 7 (channelFor q) = ''pgjobq_''" "drop 7 (channelFor q) = q"
  "length (channelFor q) = length q + 7"
  by (simp_all add: channelFor_def)

lemma validateName_ok:
  "validateName q = Inr () \<longleftrightarrow> q \<noteq> [] \<and> length q \<le> 128 \<and> list_all name_char q"
  by (auto simp: validateName_def)

text \<open>A valid queue name has a channel exactly when it has at most 56 characters.\<close>

lemma safe_channel_iff:
  "assertSafeChannel (channelFor q) = Inr () \<longleftrightarrow> validateName q = Inr () \<and> length q \<le> 56"
  by (auto simp: assertSafeChannel_def validateName_ok)

lemma listen_all_iff:
  "(\<exists>chs. listen_all qs = Inr chs) \<longleftrightarrow> (\<forall>q \<in> set qs. assertSafeChannel (channelFor q) = Inr ())"
  by (induction qs) (auto split: sum.splits)

lemma listen_all_channels: "listen_all qs = Inr chs \<Longrightarrow> chs = map channelFor qs"
  by (induction qs arbitrary: chs) (auto split: sum.splits)

text \<open>A name among the queues that no other matches up to case is found for its own channel.\<close>

lemma queueForChannel_found:
  assumes "q \<in> set qs" and "\<forall>r \<in> set qs. lowered r = lowered q \<longrightarrow> r = q"
  shows "queueForChannel qs (channelFor q) = Some q"
  using assms by (induction qs) (auto simp: queueForChannel_def channelFor_def lowered_def)

subsection \<open>Reconnecting\<close>

lemma reconnectDelay_le: "reconnectDelay i m a \<le> coalesce m 30000"
  by (simp add: reconnectDelay_def)

lemma reconnectDelay_mono:
  assumes "0 \<le> coalesce i 500" and "a \<le> b"
  shows "reconnectDelay i m a \<le> reconnectDelay i m b"
proof -
  have "(2 :: rat) ^ min (a - 1) 10 \<le> 2 ^ min (b - 1) 10"
    using assms(2) by (intro power_increasing) auto
  then have "coalesce i 500 * 2 ^ min (a - 1) 10 \<le> coalesce i 500 * (2 :: rat) ^ min (b - 1) 10"
    using assms(1) by (rule mult_left_mono)
  then show ?thesis unfolding reconnectDelay_def by linarith
qed

text \<open>
  One queue whose channel is refused keeps the listener from ever being connected, for all its
  queues; polling is all that is left.
\<close>

lemma session_refused:
  assumes "\<not> li_connected l" and "q \<in> set (li_queues l)" and "56 < length q"
    and "session i m r how l = (del, l')"
  shows "\<not> li_connected l'" and "li_queues l' = li_queues l"
    and "\<not> li_stopped l \<Longrightarrow> li_attempt l' = Suc (li_attempt l)"
proof -
  have "\<not> (\<exists>chs. listen_all (li_queues l) = Inr chs)"
    unfolding listen_all_iff safe_channel_iff using assms(2,3) by fastforce
  then obtain e where e: "listen_all (li_queues l) = Inl e"
    by (cases "listen_all (li_queues l)") auto
  from assms(1,4) e show "\<not> li_connected l'" and "li_queues l' = li_queues l"
    and "\<not> li_stopped l \<Longrightarrow> li_attempt l' = Suc (li_attempt l)"
    by (auto simp: session_def Let_def split: session_end.splits if_splits)
qed

end
