(* ===== verification/Pool.thy ===== *)
theory Pool
  imports Runner Listener
begin

text \<open>
  packages/core/src/worker/pool.ts: slot accounting, the claim step, the end of a delivery and the
  shutdown. The maps \<open>inFlight\<close> and \<open>active\<close> of the source are keyed by job id, so the model keeps
  the ids of \<open>inFlight\<close> and the jobs of \<open>active\<close> in insertion order, and beside them the deliveries
  that really execute. Wherever the code awaits, handlers may end, a stop may be asked for and
  other sessions may change the database: \<open>others n\<close> is whatever happens during the n-th await.
  The sleeping of an idle pool (\<open>idleWait\<close>, the pause after an error) changes no state and is left
  out, as are the gauges.
\<close>

record counters =
  ct_claimed :: nat
  ct_succeeded :: nat
  ct_failed :: nat
  ct_dead :: nat
  ct_cancelled :: nat
  ct_ownershipLost :: nat

record pool =
  po_queues :: "string list"
  po_concurrency :: nat
  po_claimBatchMax :: nat
  po_options :: runner_options
  po_running :: bool
  po_draining :: bool
  po_inFlight :: "ident list"
  po_active :: "claimed_job list"
  po_deliveries :: "claimed_job list"
  po_counters :: counters
  po_configs :: "string \<Rightarrow> (instant \<times> queue_defaults) option"
  po_listener :: "listener option"

type_synonym meanwhile = "nat \<Rightarrow> pool \<times> db \<Rightarrow> pool \<times> db"

text \<open>The constructor; \<open>listens\<close> says that a connection string for the listener was given.\<close>

definition new_pool :: "string list \<Rightarrow> nat \<Rightarrow> nat \<Rightarrow> runner_options \<Rightarrow> bool \<Rightarrow> pool" where
  "new_pool queues concurrency claimBatchMax opts listens =
     \<lparr>po_queues = queues, po_concurrency = concurrency, po_claimBatchMax = claimBatchMax,
      po_options = opts, po_running = False, po_draining = False, po_inFlight = [], po_active = [],
      po_deliveries = [],
      po_counters = \<lparr>ct_claimed = 0, ct_succeeded = 0, ct_failed = 0, ct_dead = 0, ct_cancelled = 0,
        ct_ownershipLost = 0\<rparr>,
      po_configs = (\<lambda>_. None),
      po_listener = (if listens then Some (new_listener queues) else None)\<rparr>"

definition start :: "pool \<Rightarrow> pool" where
  "start p =
     (if po_running p then p
      else p\<lparr>po_running := True, po_draining := False,
             po_listener := map_option start_listener (po_listener p)\<rparr>)"

definition free_slots :: "pool \<Rightarrow> nat" where
  "free_slots p = po_concurrency p - length (po_inFlight p)"

record pool_stats =
  ps_workerId :: string
  ps_inFlight :: nat
  ps_concurrency :: nat
  ps_running :: bool
  ps_counters :: counters

definition stats :: "pool \<Rightarrow> pool_stats" where
  "stats p = \<lparr>ps_workerId = ro_workerId (po_options p), ps_inFlight = length (po_inFlight p),
     ps_concurrency = po_concurrency p, ps_running = po_running p, ps_counters = po_counters p\<rparr>"

subsection \<open>Claiming\<close>

definition configFor :: "instant \<Rightarrow> string \<Rightarrow> pool \<Rightarrow> db \<Rightarrow> queue_defaults \<times> pool" where
  "configFor cnow q p d =
     (let fresh = (fetch_defaults q d,
            p\<lparr>po_configs := (po_configs p)(q \<mapsto> (cnow, fetch_defaults q d))\<rparr>)
      in case po_configs p q of
           Some (since, row) \<Rightarrow> if cnow - since < us_per_ms * 5000 then (row, p) else fresh
         | None \<Rightarrow> fresh)"

definition claim_statement ::
  "instant \<Rightarrow> ident set \<Rightarrow> queue_defaults \<Rightarrow> claim_params \<Rightarrow> claimed_job list stmt" where
  "claim_statement now locked cfg cp =
     (case qd_aging_threshold_s cfg of
        Some thr \<Rightarrow> if qd_priority_aging cfg then claimJobsWithAging now locked cp thr
                    else claimJobs now locked cp
      | None \<Rightarrow> claimJobs now locked cp)"

definition claim_queue ::
  "instant \<Rightarrow> instant \<Rightarrow> ident set \<Rightarrow> string \<Rightarrow> nat \<Rightarrow> pool \<Rightarrow> db
   \<Rightarrow> (fault + claimed_job list) \<times> pool \<times> db" where
  "claim_queue now cnow locked q limit p d =
     (let (cfg, p') = configFor cnow q p d;
          cp = \<lparr>cp_queue = q, cp_limit = limit, cp_workerId = ro_workerId (po_options p)\<rparr>
      in case query (claim_statement now locked cfg cp) d of
           Inl e \<Rightarrow> (Inl e, p', d)
         | Inr (jobs, d') \<Rightarrow>
             (Inr jobs,
              p'\<lparr>po_counters := (po_counters p')\<lparr>ct_claimed := ct_claimed (po_counters p') + length jobs\<rparr>\<rparr>,
              d'))"

text \<open>\<open>Map.set\<close>: a known key keeps its place.\<close>

definition map_set :: "('a \<Rightarrow> 'k) \<Rightarrow> 'a \<Rightarrow> 'a list \<Rightarrow> 'a list" where
  "map_set key x xs = (if key x \<in> key ` set xs then map (\<lambda>y. if key y = key x then x else y) xs
     else xs @ [x])"

definition spawn :: "claimed_job \<Rightarrow> pool \<Rightarrow> pool" where
  "spawn job p = p\<lparr>
     po_active := map_set c_id job (po_active p),
     po_inFlight := map_set (\<lambda>i. i) (c_id job) (po_inFlight p),
     po_deliveries := po_deliveries p @ [job]\<rparr>"

text \<open>
  One turn of the loop over the queues: a stopped pool and a full one end it, an error ends it
  with what was claimed so far already started. The limit of a claim is computed before its await.
\<close>

fun claim_round ::
  "meanwhile \<Rightarrow> nat \<Rightarrow> (nat \<Rightarrow> instant) \<Rightarrow> (nat \<Rightarrow> instant) \<Rightarrow> (nat \<Rightarrow> ident set) \<Rightarrow> string list
   \<Rightarrow> pool \<Rightarrow> db \<Rightarrow> (fault + bool) \<times> pool \<times> db" where
  "claim_round others n now cnow locked [] p d = (Inr False, p, d)"
| "claim_round others n now cnow locked (q # qs) p d =
     (if \<not> po_running p then (Inr False, p, d)
      else if free_slots p = 0 then (Inr False, p, d)
      else
        let limit = min (free_slots p) (po_claimBatchMax p);
            (p0, d0) = others n (p, d)
        in case claim_queue (now n) (cnow n) (locked n) q limit p0 d0 of
             (Inl e, p', d') \<Rightarrow> (Inl e, p', d')
           | (Inr jobs, p', d') \<Rightarrow>
               (case claim_round others (Suc n) now cnow locked qs (fold spawn jobs p') d' of
                  (Inl e, p'', d'') \<Rightarrow> (Inl e, p'', d'')
                | (Inr any, p'', d'') \<Rightarrow> (Inr (jobs \<noteq> [] \<or> any), p'', d'')))"

definition claim_turn ::
  "meanwhile \<Rightarrow> (nat \<Rightarrow> instant) \<Rightarrow> (nat \<Rightarrow> instant) \<Rightarrow> (nat \<Rightarrow> ident set) \<Rightarrow> pool \<Rightarrow> db
   \<Rightarrow> (fault + bool) \<times> pool \<times> db" where
  "claim_turn others now cnow locked p d =
     (if \<not> po_running p \<or> free_slots p = 0 then (Inr False, p, d)
      else claim_round others 0 now cnow locked (po_queues p) p d)"

subsection \<open>Finishing\<close>

text \<open>
  What a delivery does when its run ends: it counts the outcome (None when the run threw) and its
  \<open>finally\<close> drops the map entries of its job id.
\<close>

definition count_outcome :: "run_outcome option \<Rightarrow> counters \<Rightarrow> counters" where
  "count_outcome out c =
     (case out of
        None \<Rightarrow> c
      | Some O_succeeded \<Rightarrow> c\<lparr>ct_succeeded := ct_succeeded c + 1\<rparr>
      | Some O_retried \<Rightarrow> c\<lparr>ct_failed := ct_failed c + 1\<rparr>
      | Some O_dead \<Rightarrow> c\<lparr>ct_dead := ct_dead c + 1\<rparr>
      | Some O_cancelled \<Rightarrow> c\<lparr>ct_cancelled := ct_cancelled c + 1\<rparr>
      | Some O_ownership_lost \<Rightarrow> c\<lparr>ct_ownershipLost := ct_ownershipLost c + 1\<rparr>)"

definition finish :: "run_outcome option \<Rightarrow> nat \<Rightarrow> pool \<Rightarrow> pool" where
  "finish out n p =
     (if n < length (po_deliveries p)
      then let i = c_id (po_deliveries p ! n)
           in p\<lparr>po_active := filter (\<lambda>j. c_id j \<noteq> i) (po_active p),
                po_inFlight := filter (\<lambda>k. k \<noteq> i) (po_inFlight p),
                po_deliveries := take n (po_deliveries p) @ drop (Suc n) (po_deliveries p),
                po_counters := count_outcome out (po_counters p)\<rparr>
      else p)"

subsection \<open>Shutdown\<close>

text \<open>
  After the grace period the jobs still active are released one by one; the loop walks the live
  map, so a job whose delivery has ended by then is passed over. A failed release is left to the
  lease.
\<close>

fun release_all ::
  "meanwhile \<Rightarrow> nat \<Rightarrow> (nat \<Rightarrow> instant) \<Rightarrow> claimed_job list \<Rightarrow> pool \<Rightarrow> db \<Rightarrow> pool \<times> db" where
  "release_all others n now [] p d = (p, d)"
| "release_all others n now (j # js) p d =
     (if c_id j \<in> c_id ` set (po_active p)
      then let (p', d') = others n (p, d)
           in release_all others (Suc n) now js p' (snd (release_job (now n) (po_options p') j d'))
      else release_all others n now js p d)"

text \<open>
  Stopping: the flag, the end of the claim loop (await 0), the grace period when something is in
  flight (await 1; \<open>timedOut\<close> when it passes before the handlers are done), the releases, the
  listener.
\<close>

definition stop :: "meanwhile \<Rightarrow> (nat \<Rightarrow> instant) \<Rightarrow> bool \<Rightarrow> pool \<Rightarrow> db \<Rightarrow> pool \<times> db" where
  "stop others now timedOut p d =
     (if \<not> po_running p then (p, d)
      else
        let (p1, d1) = others 0 (p\<lparr>po_running := False, po_draining := True\<rparr>, d);
            (p3, d3) =
              (if po_inFlight p1 = [] then (p1, d1)
               else let (p2, d2) = others 1 (p1, d1)
                    in if timedOut \<and> po_active p2 \<noteq> []
                       then release_all others 2 now (po_active p2) p2 d2 else (p2, d2))
        in (p3\<lparr>po_draining := False, po_listener := map_option stop_listener (po_listener p3)\<rparr>, d3))"

end
