(* ===== verification/Pool_Laws.thy ===== *)
theory Pool_Laws
  imports Pool
begin

text \<open>
  What the worker pool (theory Pool) guarantees: its slots count the handlers that execute, a turn
  of the claim loop stays within the concurrency whatever happens while it awaits, and a shutdown
  hands the jobs still active back.
\<close>

subsection \<open>Slots\<close>

lemma map_set_length: "length (map_set key x xs) \<le> Suc (length xs)"
  by (simp add: map_set_def)

lemma spawn_fixed [simp]:
  "po_concurrency (spawn job p) = po_concurrency p" "po_running (spawn job p) = po_running p"
  "po_claimBatchMax (spawn job p) = po_claimBatchMax p" "po_queues (spawn job p) = po_queues p"
  "po_options (spawn job p) = po_options p"
  by (simp_all add: spawn_def)

lemma fold_spawn_fixed [simp]: "po_concurrency (fold spawn jobs p) = po_concurrency p"
  by (induction jobs arbitrary: p) simp_all

lemma fold_spawn_inFlight: "length (po_inFlight (fold spawn jobs p)) \<le> length (po_inFlight p) + length jobs"
proof (induction jobs arbitrary: p)
  case (Cons j js)
  have "length (po_inFlight (spawn j p)) \<le> Suc (length (po_inFlight p))"
    by (simp add: spawn_def map_set_length)
  with Cons.IH [of "spawn j p"] show ?case by simp
qed simp

text \<open>While no job is in flight twice, the maps have one entry per delivery that executes.\<close>

definition slots_exact :: "pool \<Rightarrow> bool" where
  "slots_exact p \<longleftrightarrow> distinct (map c_id (po_deliveries p)) \<and> po_inFlight p = map c_id (po_deliveries p)
     \<and> po_active p = po_deliveries p"

lemma new_pool_exact: "slots_exact (new_pool qs c m opts l)"
  by (simp add: slots_exact_def new_pool_def)

lemma spawn_exact:
  assumes "slots_exact p" and "c_id job \<notin> set (po_inFlight p)"
  shows "slots_exact (spawn job p)" and "set (po_inFlight (spawn job p)) = insert (c_id job) (set (po_inFlight p))"
proof -
  have "c_id job \<notin> c_id ` set (po_active p)" using assms by (auto simp: slots_exact_def)
  then have s: "po_active (spawn job p) = po_active p @ [job]" by (simp add: spawn_def map_set_def)
  from assms(2) have i: "po_inFlight (spawn job p) = po_inFlight p @ [c_id job]"
    by (simp add: spawn_def map_set_def)
  have d: "po_deliveries (spawn job p) = po_deliveries p @ [job]" by (simp add: spawn_def)
  show "slots_exact (spawn job p)" using assms by (simp add: slots_exact_def s i d)
  show "set (po_inFlight (spawn job p)) = insert (c_id job) (set (po_inFlight p))" by (simp add: i)
qed

lemma fold_spawn_exact:
  assumes "slots_exact p" and "distinct (map c_id jobs)" and "c_id ` set jobs \<inter> set (po_inFlight p) = {}"
  shows "slots_exact (fold spawn jobs p)
    \<and> set (po_inFlight (fold spawn jobs p)) = set (po_inFlight p) \<union> c_id ` set jobs"
  using assms
proof (induction jobs arbitrary: p)
  case (Cons job jobs)
  have new: "c_id job \<notin> set (po_inFlight p)" using Cons.prems(3) by simp
  with Cons.IH [OF spawn_exact(1) [OF Cons.prems(1) new]] spawn_exact(2) [OF Cons.prems(1) new] Cons.prems(2,3)
  show ?case by auto
qed simp

lemma filter_remove_nth:
  "distinct (map f xs) \<Longrightarrow> n < length xs \<Longrightarrow>
    filter (\<lambda>x. f x \<noteq> f (xs ! n)) xs = take n xs @ drop (Suc n) xs"
proof (induction xs arbitrary: n)
  case (Cons x xs)
  show ?case
  proof (cases n)
    case 0
    have "f y \<noteq> f x" if "y \<in> set xs" for y using Cons.prems(1) that by (metis distinct.simps(2) image_eqI list.set_map list.simps(9))
    with 0 show ?thesis by (auto intro!: filter_True)
  next
    case (Suc m)
    with Cons.prems have "f (xs ! m) \<in> f ` set xs" "f x \<notin> f ` set xs" by simp_all
    then have "f x \<noteq> f (xs ! m)" by metis
    with Suc Cons show ?thesis by simp
  qed
qed simp

lemma finish_exact:
  assumes "slots_exact p"
  shows "slots_exact (finish out n p)"
proof (cases "n < length (po_deliveries p)")
  case True
  let ?ds = "po_deliveries p" and ?rest = "take n (po_deliveries p) @ drop (Suc n) (po_deliveries p)"
  let ?i = "c_id (?ds ! n)"
  have ids: "po_inFlight p = map c_id ?ds" "po_active p = ?ds" and dist: "distinct (map c_id ?ds)"
    using assms by (auto simp: slots_exact_def)
  note rest = filter_remove_nth [OF dist True]
  have "filter (\<lambda>k. k \<noteq> ?i) (po_inFlight p) = map c_id ?rest"
    unfolding ids(1) filter_map rest [symmetric] by (simp add: o_def)
  moreover have "distinct (map c_id ?rest)"
    unfolding rest [symmetric] using dist by (rule distinct_map_filter)
  moreover have "po_inFlight (finish out n p) = filter (\<lambda>k. k \<noteq> ?i) (po_inFlight p)"
    "po_active (finish out n p) = filter (\<lambda>j. c_id j \<noteq> ?i) (po_active p)"
    "po_deliveries (finish out n p) = ?rest"
    using True by (simp_all add: finish_def Let_def)
  ultimately show ?thesis unfolding slots_exact_def ids(2) rest by (simp only: simp_thms)
next
  case False
  with assms show ?thesis by (simp add: finish_def)
qed

lemma finish_fixed [simp]:
  "po_concurrency (finish out n p) = po_concurrency p" "po_running (finish out n p) = po_running p"
  by (simp_all add: finish_def Let_def)

lemma finish_shrinks: "set (po_inFlight (finish out n p)) \<subseteq> set (po_inFlight p)"
    "length (po_inFlight (finish out n p)) \<le> length (po_inFlight p)"
  by (auto simp: finish_def Let_def)

text \<open>
  A job claimed again while its first delivery still executes takes no second slot, and the end
  of either delivery frees the only one.
\<close>

lemma reclaim_undercounts:
  assumes "slots_exact p" and "c_id job \<in> set (po_inFlight p)"
  shows "length (po_inFlight (spawn job p)) = length (po_inFlight p)"
    and "length (po_deliveries (spawn job p)) = Suc (length (po_inFlight p))"
    and "c_id job \<notin> set (po_inFlight (finish out (length (po_deliveries p)) (spawn job p)))"
  using assms by (auto simp: slots_exact_def spawn_def map_set_def finish_def Let_def nth_append)

subsection \<open>One claim\<close>

lemma configFor_fixed:
  assumes "configFor cnow q p d = (cfg, p')"
  shows "po_inFlight p' = po_inFlight p" "po_concurrency p' = po_concurrency p"
    "po_deliveries p' = po_deliveries p" "po_active p' = po_active p"
    "po_options p' = po_options p" "po_running p' = po_running p"
    "po_claimBatchMax p' = po_claimBatchMax p"
  using assms by (auto simp: configFor_def Let_def split: option.splits if_splits)

text \<open>A job that waits to be claimed, now or later.\<close>

definition waiting :: "db \<Rightarrow> ident \<Rightarrow> bool" where
  "waiting d i \<longleftrightarrow> (\<exists>j. job_at d i = Some j \<and> j_state j = Available)"

lemma claim_statement_rows:
  assumes inv: "db_inv d" and ok: "claim_statement now locked cfg cp d = Inr (jobs, d')"
  shows "length jobs \<le> cp_limit cp" and "db_inv d'" and "distinct (map c_id jobs)"
    and "\<forall>i \<in> c_id ` set jobs. waiting d i \<and> \<not> waiting d' i"
    and "\<forall>i. i \<notin> c_id ` set jobs \<longrightarrow> waiting d' i = waiting d i"
proof -
  obtain ord :: "job \<Rightarrow> int \<times> instant \<times> ident" where
    "returning toClaimedJob (claim_with ord now locked cp) d = Inr (jobs, d')"
    using ok by (auto simp: claim_statement_def claimJobs_def claimJobsWithAging_def split: option.splits if_splits)
  then obtain rs where rs: "claim_with ord now locked cp d = Inr (rs, d')" and jobs: "jobs = map toClaimedJob rs"
    by (auto simp: returning_Inr)
  show "length jobs \<le> cp_limit cp" "db_inv d'"
    using claim_with_count [OF inv rs] claim_with_contract(1) [OF inv rs] by (simp_all add: jobs)
  have ids: "map c_id jobs = map j_id rs" by (simp add: jobs toClaimedJob_def)
  then have set_ids: "c_id ` set jobs = j_id ` set rs" by (metis list.set_map)
  show "distinct (map c_id jobs)" using claim_with_ids(2) [OF inv rs] by (simp add: ids)
  show "\<forall>i \<in> c_id ` set jobs. waiting d i \<and> \<not> waiting d' i"
  proof
    fix i
    assume "i \<in> c_id ` set jobs"
    then obtain r where "r \<in> set rs" "i = j_id r" by (auto simp: set_ids)
    with claim_with_row [OF inv rs] obtain j where "job_at d i = Some j" "j_state j = Available"
      "job_at d' i = Some (claim_row now (cp_workerId cp) j)" by (metis eligible_def)
    then show "waiting d i \<and> \<not> waiting d' i" by (simp add: waiting_def)
  qed
  show "\<forall>i. i \<notin> c_id ` set jobs \<longrightarrow> waiting d' i = waiting d i"
    using claim_with_frame [OF inv rs] by (simp add: set_ids waiting_def)
qed

subsection \<open>Turns of the claim loop\<close>

text \<open>
  The state a pool keeps: its slots count its handlers, are within the concurrency, and no job in
  flight waits to be claimed. What happens during an await may end handlers and change the
  database, but starts no handler, and makes no job in flight wait again (it reaps none of their
  leases, and no retry comes before its handler has ended).
\<close>

definition pool_ok :: "pool \<Rightarrow> db \<Rightarrow> bool" where
  "pool_ok p d \<longleftrightarrow> db_inv d \<and> slots_exact p \<and> length (po_inFlight p) \<le> po_concurrency p
     \<and> (\<forall>i \<in> set (po_inFlight p). \<not> waiting d i)"

definition others_ok :: "meanwhile \<Rightarrow> bool" where
  "others_ok others \<longleftrightarrow> (\<forall>n p d p' d'. pool_ok p d \<longrightarrow> others n (p, d) = (p', d') \<longrightarrow>
     pool_ok p' d' \<and> po_concurrency p' = po_concurrency p
     \<and> length (po_inFlight p') \<le> length (po_inFlight p))"

lemma others_okD:
  assumes "others_ok others" and "pool_ok p d" and "others n (p, d) = (p', d')"
  shows "pool_ok p' d' \<and> po_concurrency p' = po_concurrency p \<and> length (po_inFlight p') \<le> length (po_inFlight p)"
  using assms unfolding others_ok_def by blast

lemma finish_ok: "pool_ok p d \<Longrightarrow> pool_ok (finish out n p) d"
  unfolding pool_ok_def using finish_exact finish_shrinks by (metis finish_fixed(1) order_trans subsetD)

text \<open>Ending handlers, a request to stop, and statements on other jobs are such events.\<close>

lemma others_ok_finish: "others_ok (\<lambda>n (p, d). (finish (out n) (which n) p, d))"
  unfolding others_ok_def using finish_ok finish_shrinks(2) by auto

lemma others_ok_stop: "others_ok (\<lambda>n (p, d). (p\<lparr>po_running := False, po_draining := True\<rparr>, d))"
  by (auto simp: others_ok_def pool_ok_def slots_exact_def)

lemma others_ok_env:
  assumes "\<And>n e. db_inv e \<Longrightarrow> db_inv (env n e)" and "\<And>n e i. waiting (env n e) i \<Longrightarrow> waiting e i"
  shows "others_ok (\<lambda>n (p, d). (p, env n d))"
  using assms by (auto simp: others_ok_def pool_ok_def)

lemma spawn_claimed_ok:
  assumes inv: "pool_ok p d" and st: "claim_statement now locked cfg cp d = Inr (jobs, d')"
    and room: "length (po_inFlight p) + cp_limit cp \<le> po_concurrency p"
  shows "pool_ok (fold spawn jobs p) d'"
proof -
  note rows = claim_statement_rows [OF _ st]
  have I: "db_inv d" "slots_exact p" "\<forall>i \<in> set (po_inFlight p). \<not> waiting d i"
    using inv by (simp_all add: pool_ok_def)
  with rows have "c_id ` set jobs \<inter> set (po_inFlight p) = {}" by blast
  note S = fold_spawn_exact [OF I(2) rows(3) [OF I(1)] this]
  moreover have "length (po_inFlight (fold spawn jobs p)) \<le> po_concurrency p"
    using fold_spawn_inFlight [of jobs p] rows(1) [OF I(1)] room by linarith
  moreover have "\<forall>i \<in> set (po_inFlight (fold spawn jobs p)). \<not> waiting d' i"
    using S I(3) rows(4,5) [OF I(1)] by blast
  ultimately show ?thesis using rows(2) [OF I(1)] by (simp add: pool_ok_def)
qed

lemma pool_ok_cong:
  assumes "pool_ok p d" and "po_inFlight p' = po_inFlight p" "po_concurrency p' = po_concurrency p"
    "po_deliveries p' = po_deliveries p" "po_active p' = po_active p"
  shows "pool_ok p' d"
  using assms(1) unfolding pool_ok_def slots_exact_def assms(2-) .

lemma claim_queue_ok:
  assumes inv: "pool_ok p d" and room: "length (po_inFlight p) + limit \<le> po_concurrency p"
    and cq: "claim_queue now cnow locked q limit p d = (r, p', d')"
  shows "po_concurrency p' = po_concurrency p
    \<and> (case r of Inl e \<Rightarrow> pool_ok p' d' | Inr jobs \<Rightarrow> pool_ok (fold spawn jobs p') d')"
proof -
  obtain cfg p1 where cfg: "configFor cnow q p d = (cfg, p1)" by fastforce
  note fixed = configFor_fixed [OF cfg]
  have ok1: "pool_ok p1 d" by (rule pool_ok_cong [OF inv]) (simp_all add: fixed)
  let ?cp = "\<lparr>cp_queue = q, cp_limit = limit, cp_workerId = ro_workerId (po_options p)\<rparr>"
  show ?thesis
  proof (cases "query (claim_statement now locked cfg ?cp) d")
    case (Inl e)
    with cq cfg fixed ok1 show ?thesis by (auto simp: claim_queue_def Let_def)
  next
    case (Inr x)
    obtain jobs d1 where x: "x = (jobs, d1)" by fastforce
    with Inr have st: "claim_statement now locked cfg ?cp d = Inr (jobs, d1)" by simp
    let ?p2 = "p1\<lparr>po_counters := (po_counters p1)\<lparr>ct_claimed := ct_claimed (po_counters p1) + length jobs\<rparr>\<rparr>"
    have "r = Inr jobs" "p' = ?p2" "d' = d1" using cq cfg Inr x by (auto simp: claim_queue_def Let_def)
    moreover have "pool_ok ?p2 d" by (rule pool_ok_cong [OF ok1]) simp_all
    with spawn_claimed_ok [OF _ st, of ?p2] room fixed have "pool_ok (fold spawn jobs ?p2) d1" by simp
    ultimately show ?thesis using fixed by simp
  qed
qed

lemma claim_round_ok:
  assumes "others_ok others" and "pool_ok p d"
    and "claim_round others n now cnow locked qs p d = (r, p', d')"
  shows "pool_ok p' d' \<and> po_concurrency p' = po_concurrency p"
  using assms
proof (induction others n now cnow locked qs p d arbitrary: r p' d' rule: claim_round.induct)
  case (1 others n now cnow locked p d)
  then show ?case by simp
next
  case (2 others n now cnow locked q qs p d)
  show ?case
  proof (cases "\<not> po_running p \<or> free_slots p = 0")
    case True
    with "2.prems" show ?thesis by (auto split: if_splits)
  next
    case False
    then have go: "po_running p" "free_slots p \<noteq> 0" by simp_all
    let ?n = "min (free_slots p) (po_claimBatchMax p)"
    obtain p0 d0 where o: "others n (p, d) = (p0, d0)" by fastforce
    note O = others_okD [OF "2.prems"(1,2) o]
    have "length (po_inFlight p) \<le> po_concurrency p" using "2.prems"(2) by (simp add: pool_ok_def)
    then have room: "length (po_inFlight p0) + ?n \<le> po_concurrency p0"
      using O unfolding free_slots_def by linarith
    obtain r1 p1 d1 where cq: "claim_queue (now n) (cnow n) (locked n) q ?n p0 d0 = (r1, p1, d1)"
      by (metis prod_cases3)
    note Q = claim_queue_ok [OF conjunct1 [OF O] room cq]
    show ?thesis
    proof (cases r1)
      case (Inl e)
      with "2.prems"(3) go o cq have "p' = p1 \<and> d' = d1" by (simp add: Let_def)
      with Q O Inl show ?thesis by simp
    next
      case (Inr jobs)
      obtain r2 p2 d2 where rest: "claim_round others (Suc n) now cnow locked qs (fold spawn jobs p1) d1 = (r2, p2, d2)"
        by (metis prod_cases3)
      have "pool_ok (fold spawn jobs p1) d1" using Q Inr by simp
      from "2.IH" [OF _ go(2) refl o [symmetric] refl cq [unfolded Inr, symmetric] refl refl "2.prems"(1) this rest] go(1) Q O
      have "pool_ok p2 d2 \<and> po_concurrency p2 = po_concurrency p" by simp
      moreover have "p' = p2 \<and> d' = d2"
        using "2.prems"(3) go o cq rest Inr by (auto simp: Let_def split: sum.splits)
      ultimately show ?thesis by simp
    qed
  qed
qed

lemma claim_turn_ok:
  assumes "others_ok others" and "pool_ok p d" and "claim_turn others now cnow locked p d = (r, p', d')"
  shows "pool_ok p' d' \<and> po_concurrency p' = po_concurrency p"
  using claim_round_ok [OF assms(1,2)] assms(2,3) by (auto simp: claim_turn_def split: if_splits)

text \<open>A pool that is stopped or full asks the database for nothing.\<close>

lemma claim_turn_idle:
  "\<not> po_running p \<or> free_slots p = 0 \<Longrightarrow> claim_turn others now cnow locked p d = (Inr False, p, d)"
  by (simp add: claim_turn_def)

subsection \<open>Shutdown\<close>

text \<open>A release makes the job available exactly when the fence of its delivery still holds.\<close>

lemma release_job_effect:
  assumes inv: "db_inv d"
  shows "\<exists>r d'. release_job now opts job d = (r, d') \<and> db_inv d'
    \<and> (\<forall>k. job_at d' k = map_option
         (\<lambda>j. if owns (token_of (ro_workerId opts) job) j then release_row now j else j) (job_at d k))"
proof -
  let ?p = "token_of (ro_workerId opts) job"
  have id: "owns ?p j \<Longrightarrow> k = f_id ?p" if "job_at d k = Some j" for k j
    using db_inv_jobD [OF inv that] by (simp add: owns_def)
  show ?thesis
  proof (cases "owned d ?p")
    case True
    then obtain j where j: "job_at d (f_id ?p) = Some j" "owns ?p j"
      by (auto simp: owned_def split: option.splits)
    obtain d' where r: "releaseJob now ?p d = Inr ([f_id ?p], d')" and rep: "reported ?p (release_row now) d d'"
      using releaseJob_lands [OF inv j] by blast
    have "job_at d' k = map_option (\<lambda>j. if owns ?p j then release_row now j else j) (job_at d k)" for k
    proof (cases "k = f_id ?p")
      case True
      with rep j show ?thesis by (auto simp: reported_def)
    next
      case False
      with rep have same: "job_at d' k = job_at d k" by (auto simp: reported_def)
      show ?thesis
      proof (cases "job_at d k")
        case (Some x)
        with id [OF Some] False have "\<not> owns ?p x" by blast
        with same Some show ?thesis by simp
      qed (simp add: same)
    qed
    with r rep show ?thesis by (simp add: release_job_def reported_def)
  next
    case False
    then have "\<not> owns ?p j" if "job_at d k = Some j" for k j
      using id [OF that] that by (auto simp: owned_def)
    then have "job_at d k = map_option (\<lambda>j. if owns ?p j then release_row now j else j) (job_at d k)" for k
      by (cases "job_at d k") auto
    with False inv show ?thesis by (simp add: release_job_def release.rejected)
  qed
qed

lemma release_all_effect:
  assumes "db_inv d" and "c_id ` set js \<subseteq> c_id ` set (po_active p)"
  shows "\<exists>d'. release_all (\<lambda>_ s. s) n (\<lambda>_. now) js p d = (p, d') \<and> db_inv d'
    \<and> (\<forall>k. job_at d' k = map_option
         (\<lambda>j. if \<exists>job \<in> set js. owns (token_of (ro_workerId (po_options p)) job) j
              then release_row now j else j) (job_at d k))"
  using assms
proof (induction js arbitrary: n d)
  case Nil
  then show ?case by (simp add: option.map_ident)
next
  case (Cons job js)
  let ?w = "ro_workerId (po_options p)"
  obtain r d1 where r: "release_job now (po_options p) job d = (r, d1)" and inv: "db_inv d1"
    and at1: "\<And>k. job_at d1 k = map_option
         (\<lambda>j. if owns (token_of ?w job) j then release_row now j else j) (job_at d k)"
    using release_job_effect [OF Cons.prems(1)] by blast
  from Cons.IH [OF inv, of "Suc n"] Cons.prems(2) obtain d2 where
    d2: "release_all (\<lambda>_ s. s) (Suc n) (\<lambda>_. now) js p d1 = (p, d2)" "db_inv d2"
    and at2: "\<And>k. job_at d2 k = map_option
         (\<lambda>j. if \<exists>job \<in> set js. owns (token_of ?w job) j then release_row now j else j) (job_at d1 k)"
    by auto
  have "\<not> owns q (release_row now j)" for q j by (rule final_rows_gone)
  with at1 at2 have "job_at d2 k = map_option
      (\<lambda>j. if \<exists>job \<in> set (job # js). owns (token_of ?w job) j then release_row now j else j) (job_at d k)" for k
    by (cases "job_at d k") auto
  with d2 r Cons.prems(2) show ?case by simp
qed

text \<open>
  An undisturbed shutdown whose grace period passes: every job whose delivery still owns it becomes
  available, everything else is as before.
\<close>

lemma stop_releases:
  assumes "db_inv d" and "po_running p" and "slots_exact p"
    and "stop (\<lambda>_ s. s) (\<lambda>_. now) True p d = (p', d')"
  shows "job_at d' k = map_option
      (\<lambda>j. if \<exists>job \<in> set (po_deliveries p). owns (token_of (ro_workerId (po_options p)) job) j
           then release_row now j else j) (job_at d k)"
    and "\<not> po_running p'" and "\<not> po_draining p'" and "db_inv d'"
proof -
  let ?q = "p\<lparr>po_running := False, po_draining := True\<rparr>"
  obtain e where e: "release_all (\<lambda>_ s. s) 2 (\<lambda>_. now) (po_active p) ?q d = (?q, e)" "db_inv e"
    and at: "\<And>k. job_at e k = map_option
         (\<lambda>j. if \<exists>job \<in> set (po_active p). owns (token_of (ro_workerId (po_options p)) job) j
              then release_row now j else j) (job_at d k)"
    using release_all_effect [OF assms(1), of "po_active p" ?q 2 now] by auto
  have act: "po_active p = po_deliveries p" "po_inFlight p = map c_id (po_deliveries p)"
    using assms(3) by (auto simp: slots_exact_def)
  have "d' = (if po_deliveries p = [] then d else e) \<and> \<not> po_running p' \<and> \<not> po_draining p'"
    using assms(2,4) e(1) act by (auto simp: stop_def Let_def split: if_splits)
  with e(2) at assms(1) act show "job_at d' k = map_option
      (\<lambda>j. if \<exists>job \<in> set (po_deliveries p). owns (token_of (ro_workerId (po_options p)) job) j
           then release_row now j else j) (job_at d k)"
    and "\<not> po_running p'" and "\<not> po_draining p'" and "db_inv d'"
    by (auto simp: option.map_ident)
qed

text \<open>
  In general a shutdown waits for the claim loop (await 0) before anything is released: whatever
  the loop does until it ends, no release comes first.
\<close>

lemma stop_waits_for_loop:
  assumes "po_running p" and "others 0 (p\<lparr>po_running := False, po_draining := True\<rparr>, d) = (p1, d1)"
    and "po_inFlight p1 = []"
  shows "snd (stop others now timedOut p d) = d1"
  using assms by (simp add: stop_def Let_def)

end
