(* ===== verification/Loops.thy ===== *)
theory Loops
  imports Backoff Client Stmt_Reap Stmt_Retention
begin

text \<open>
  packages/core/src/engine/reaper.ts and packages/core/src/engine/retention.ts: one bounded pass
  each, and the loop that repeats passes until one comes back short. \<open>running n\<close> is the stop flag
  read before the n-th pass; the sleep between two rounds, logs and metrics are not modelled.
\<close>

subsection \<open>The drain loop\<close>

text \<open>None stands for a loop that has not come to an end within the fuel.\<close>

fun drain ::
  "(nat \<Rightarrow> db \<Rightarrow> (fault + nat) \<times> db) \<Rightarrow> (nat \<Rightarrow> bool) \<Rightarrow> nat \<Rightarrow> nat \<Rightarrow> nat \<Rightarrow> nat \<Rightarrow> db
   \<Rightarrow> ((fault + nat) \<times> db) option" where
  "drain pass running batchMax n 0 acc d = None"
| "drain pass running batchMax n (Suc fuel) acc d =
     (if \<not> running n then Some (Inr acc, d)
      else case pass n d of
             (Inl e, d') \<Rightarrow> Some (Inl e, d')
           | (Inr k, d') \<Rightarrow>
               if k < batchMax then Some (Inr (acc + k), d')
               else drain pass running batchMax (Suc n) fuel (acc + k) d')"

text \<open>
  A pass that reports how much of a finite amount of work it did. The clock may advance between
  passes: the work is bounded by what there is, not by what is due.
\<close>

locale bounded_batch =
  fixes pass :: "nat \<Rightarrow> db \<Rightarrow> (fault + nat) \<times> db" and work :: "db \<Rightarrow> nat"
  assumes does: "db_inv d \<Longrightarrow>
    \<exists>k d'. pass n d = (Inr k, d') \<and> db_inv d' \<and> work d' + k = work d"
begin

lemma drain_ends:
  assumes "db_inv d" and "0 < b" and "work d < fuel * b"
  shows "\<exists>k d'. drain pass running b n fuel acc d = Some (Inr (acc + k), d')
    \<and> db_inv d' \<and> work d' + k = work d"
  using assms
proof (induction fuel arbitrary: n acc d)
  case 0
  then show ?case by simp
next
  case (Suc fuel)
  from does [OF Suc.prems(1), of n] obtain k d1 where
    p: "pass n d = (Inr k, d1)" "db_inv d1" "work d1 + k = work d" by blast
  show ?case
  proof (cases "\<not> running n \<or> k < b")
    case True
    then show ?thesis
    proof (cases "running n")
      case False
      with Suc.prems(1) show ?thesis by simp
    next
      case running: True
      with True p show ?thesis by simp
    qed
  next
    case False
    with p(3) Suc.prems(3) have "work d1 < fuel * b" by simp
    from Suc.IH [OF p(2) Suc.prems(2) this, of "Suc n" "acc + k"] obtain m d2 where
      "drain pass running b (Suc n) fuel (acc + k) d1 = Some (Inr (acc + k + m), d2)"
      "db_inv d2" "work d2 + m = work d1" by blast
    with False p show ?thesis by (intro exI [of _ "k + m"] exI [of _ d2]) simp
  qed
qed

lemma drain_keeps:
  assumes "\<And>n d k d'. db_inv d \<Longrightarrow> pass n d = (Inr k, d') \<Longrightarrow> P d \<Longrightarrow> P d'"
    and "db_inv d" and "P d" and "drain pass running b n fuel acc d = Some (Inr m, d')"
  shows "P d'"
  using assms(2-)
proof (induction fuel arbitrary: n acc d)
  case 0
  then show ?case by simp
next
  case (Suc fuel)
  from does [OF Suc.prems(1), of n] obtain k d1 where p: "pass n d = (Inr k, d1)" "db_inv d1" by blast
  with assms(1) [OF Suc.prems(1) p(1) Suc.prems(2)] Suc show ?case by (auto split: if_splits)
qed

end

text \<open>
  A pass that takes all there is up to its bound: with no one else at work, a loop that is not
  stopped leaves nothing.
\<close>

locale exhaustive_batch = bounded_batch pass work
  for pass :: "nat \<Rightarrow> db \<Rightarrow> (fault + nat) \<times> db" and work :: "db \<Rightarrow> nat" +
  fixes batchMax :: nat
  assumes full: "db_inv d \<Longrightarrow> pass n d = (Inr k, d') \<Longrightarrow> k = min batchMax (work d)"
begin

lemma drain_empties:
  assumes "db_inv d" and "0 < batchMax" and "work d < fuel * batchMax"
  shows "\<exists>d'. drain pass (\<lambda>_. True) batchMax n fuel acc d = Some (Inr (acc + work d), d')
    \<and> db_inv d' \<and> work d' = 0"
  using assms(1,3)
proof (induction fuel arbitrary: n acc d)
  case 0
  then show ?case by simp
next
  case (Suc fuel)
  from does [OF Suc.prems(1), of n] obtain k d1 where
    p: "pass n d = (Inr k, d1)" "db_inv d1" "work d1 + k = work d" by blast
  have k: "k = min batchMax (work d)" by (rule full [OF Suc.prems(1) p(1)])
  show ?case
  proof (cases "k < batchMax")
    case True
    with k p show ?thesis by auto
  next
    case False
    with k p(3) Suc.prems(2) have "work d1 < fuel * batchMax" by (auto simp: min_def split: if_splits)
    from Suc.IH [OF p(2) this, of "Suc n" "acc + k"] False p show ?thesis
      by (auto simp: add.assoc add.commute [of k])
  qed
qed

end

subsection \<open>The reaper\<close>

record reap_result =
  re_recovered :: nat
  re_deadLettered :: nat

definition reapOnce ::
  "instant \<Rightarrow> ident set \<Rightarrow> rat \<Rightarrow> backoff_options \<Rightarrow> nat \<Rightarrow> db \<Rightarrow> (fault + reap_result) \<times> db" where
  "reapOnce now locked rand b batchMax d =
     (case query (reapExpiredLeases now locked
              \<lparr>rp_limit = batchMax, rp_retryDelaySeconds = nextDelaySeconds rand 1 b\<rparr>) d of
        Inl e \<Rightarrow> (Inl e, d)
      | Inr (rows, d') \<Rightarrow>
          (Inr \<lparr>re_recovered = length (filter (\<lambda>r. rr_state r \<noteq> Dead) rows),
                re_deadLettered = length (filter (\<lambda>r. rr_state r = Dead) rows)\<rparr>, d'))"

definition reap_pass ::
  "(nat \<Rightarrow> instant) \<Rightarrow> (nat \<Rightarrow> ident set) \<Rightarrow> (nat \<Rightarrow> rat) \<Rightarrow> backoff_options \<Rightarrow> nat \<Rightarrow> nat \<Rightarrow> db
   \<Rightarrow> (fault + nat) \<times> db" where
  "reap_pass now locked rand b batchMax n d =
     (case reapOnce (now n) (locked n) (rand n) b batchMax d of
        (Inl e, d') \<Rightarrow> (Inl e, d')
      | (Inr r, d') \<Rightarrow> (Inr (re_recovered r + re_deadLettered r), d'))"

definition reaper_round ::
  "(nat \<Rightarrow> instant) \<Rightarrow> (nat \<Rightarrow> ident set) \<Rightarrow> (nat \<Rightarrow> rat) \<Rightarrow> backoff_options \<Rightarrow> (nat \<Rightarrow> bool) \<Rightarrow> nat
   \<Rightarrow> nat \<Rightarrow> db \<Rightarrow> ((fault + nat) \<times> db) option" where
  "reaper_round now locked rand b running batchMax fuel d =
     drain (reap_pass now locked rand b batchMax) running batchMax 0 fuel 0 d"

definition reportOverdue :: "instant \<Rightarrow> db \<Rightarrow> nat" where
  "reportOverdue now d = countOverdueLeases now d"

definition running_jobs :: "db \<Rightarrow> nat" where
  "running_jobs d = length (filter (\<lambda>j. j_state j = Running) (db_jobs d))"

lemma reapOnce_counts:
  assumes "db_inv d"
  shows "\<exists>r d'. reapOnce now locked rand b n d = (Inr r, d') \<and> db_inv d'
    \<and> running_jobs d' + (re_recovered r + re_deadLettered r) = running_jobs d"
proof -
  let ?p = "\<lparr>rp_limit = n, rp_retryDelaySeconds = nextDelaySeconds rand 1 b\<rparr>"
  let ?I = "set (expired_ids now locked n d)" and ?f = "reap_row now (nextDelaySeconds rand 1 b)"
  let ?rows = "map (reap_returning \<circ> ?f) (filter (\<lambda>j. j_id j \<in> ?I) (db_jobs d))"
  let ?d = "d\<lparr>db_jobs := upd_where (\<lambda>j. j_id j \<in> ?I) ?f (db_jobs d)\<rparr>"
  have ok: "reapExpiredLeases now locked ?p d = Inr (?rows, ?d)"
    using reap_lands [OF assms, of now locked ?p] by simp
  have inv: "db_inv ?d" by (rule reap.inv [OF assms ok])
  have "length (filter (\<lambda>r. rr_state r \<noteq> Dead) ?rows) + length (filter (\<lambda>r. rr_state r = Dead) ?rows)
      = length ?rows"
    using sum_length_filter_compl [of "\<lambda>r. rr_state r = Dead" ?rows] by simp
  moreover have "length (filter (\<lambda>j. j_state j = Running) (upd_where (\<lambda>j. j_id j \<in> ?I) ?f js))
      + length (filter (\<lambda>j. j_id j \<in> ?I) js) = length (filter (\<lambda>j. j_state j = Running) js)"
    if "\<forall>j \<in> set js. j_id j \<in> ?I \<longrightarrow> j_state j = Running" for js
    using that by (induction js) (auto simp: reap_row_def)
  moreover have "\<forall>j \<in> set (db_jobs d). j_id j \<in> ?I \<longrightarrow> j_state j = Running"
    using expired_ids_expired [OF assms] by (fastforce simp: lease_expired_def)
  ultimately show ?thesis
    using inv by (simp add: reapOnce_def ok running_jobs_def)
qed

interpretation reaper: bounded_batch "reap_pass now locked rand b batchMax" running_jobs
  for now locked rand b batchMax
proof unfold_locales
  fix d n
  assume "db_inv d"
  from reapOnce_counts [OF this, of "now n" "locked n" "rand n" b batchMax]
  show "\<exists>k d'. reap_pass now locked rand b batchMax n d = (Inr k, d') \<and> db_inv d'
      \<and> running_jobs d' + k = running_jobs d"
    by (auto simp: reap_pass_def)
qed

text \<open>While no one holds a row, a pass recovers every expired lease it has room for.\<close>

interpretation overdue:
  exhaustive_batch "reap_pass (\<lambda>_. now) (\<lambda>_. {}) rand b batchMax" "countOverdueLeases now" batchMax
  for now rand b batchMax
proof unfold_locales
  fix d n
  assume inv: "db_inv d"
  let ?p = "\<lparr>rp_limit = batchMax, rp_retryDelaySeconds = nextDelaySeconds (rand n) 1 b\<rparr>"
  obtain rows d1 where ok: "reapExpiredLeases now {} ?p d = Inr (rows, d1)"
    using reap_lands [OF inv] by blast
  note R = reap_overdue_after [OF inv ok]
  have "length (filter (\<lambda>r. rr_state r \<noteq> Dead) rows) + length (filter (\<lambda>r. rr_state r = Dead) rows)
      = length rows"
    using sum_length_filter_compl [of "\<lambda>r. rr_state r = Dead" rows] by simp
  then have pass: "reap_pass (\<lambda>_. now) (\<lambda>_. {}) rand b batchMax n d = (Inr (length rows), d1)"
    by (simp add: reap_pass_def reapOnce_def ok)
  with R(1) [symmetric] reap.inv [OF inv ok]
  show "\<exists>k d'. reap_pass (\<lambda>_. now) (\<lambda>_. {}) rand b batchMax n d = (Inr k, d')
      \<and> db_inv d' \<and> countOverdueLeases now d' + k = countOverdueLeases now d" by blast
  show "k = min batchMax (countOverdueLeases now d)"
    if "reap_pass (\<lambda>_. now) (\<lambda>_. {}) rand b batchMax n d = (Inr k, d')" for k d'
    using that pass R(2) by simp
qed

subsection \<open>Retention\<close>

record retention_options =
  ret_batchMax :: nat
  ret_archive :: bool
  ret_succeeded :: int
  ret_dead :: int

definition count_by :: "string list \<Rightarrow> string \<Rightarrow> nat" where
  "count_by qs = fold (\<lambda>q out. out(q := out q + 1)) qs (\<lambda>_. 0)"

abbreviation prune_params_of :: "retention_options \<Rightarrow> prune_params" where
  "prune_params_of opts \<equiv> \<lparr>pp_limit = ret_batchMax opts, pp_defaultRetainSucceeded = ret_succeeded opts,
     pp_defaultRetainDead = ret_dead opts\<rparr>"

definition pruneOnce ::
  "instant \<Rightarrow> ident set \<Rightarrow> retention_options \<Rightarrow> db \<Rightarrow> (fault + nat \<times> (string \<Rightarrow> nat)) \<times> db" where
  "pruneOnce now locked opts d =
     (let p = prune_params_of opts;
          statement = (if ret_archive opts then archiveTerminalJobs now locked p
                       else pruneTerminalJobs now locked p)
      in case query statement d of
           Inl e \<Rightarrow> (Inl e, d)
         | Inr (rows, d') \<Rightarrow> (Inr (length rows, count_by (map (fst \<circ> snd) rows)), d'))"

definition prune_pass ::
  "(nat \<Rightarrow> instant) \<Rightarrow> (nat \<Rightarrow> ident set) \<Rightarrow> retention_options \<Rightarrow> nat \<Rightarrow> db \<Rightarrow> (fault + nat) \<times> db" where
  "prune_pass now locked opts n d =
     (case pruneOnce (now n) (locked n) opts d of
        (Inl e, d') \<Rightarrow> (Inl e, d') | (Inr (k, _), d') \<Rightarrow> (Inr k, d'))"

definition isoDate :: "nat \<Rightarrow> nat \<Rightarrow> string" where
  "isoDate year month = isoDate_of \<lparr>u_year = year, u_month = month, u_day = 1, u_ms = 0\<rparr>"

text \<open>\<open>Date.UTC(year, month + k, 1)\<close> carries a month past December into the next year.\<close>

definition month_start :: "nat \<Rightarrow> nat \<Rightarrow> nat \<times> nat" where
  "month_start year month = (year + month div 12, month mod 12)"

definition ensure_partition :: "instant \<Rightarrow> nat \<Rightarrow> (ddl_error + unit stmt)" where
  "ensure_partition cnow offset =
     (let u = utc_of (nat (cnow div us_per_ms));
          (sy, sm) = month_start (u_year u) (u_month u + offset);
          (ey, em) = month_start (u_year u) (u_month u + offset + 1)
      in createArchivePartition (partitionName sy (sm + 1)) (isoDate sy sm) (isoDate ey em))"

definition run_ddl :: "(ddl_error + unit stmt) \<Rightarrow> db \<Rightarrow> (fault + unit) \<times> db" where
  "run_ddl s d =
     (case s of
        Inl _ \<Rightarrow> (Inl (Fault Plain_Error No_details), d)
      | Inr st \<Rightarrow> (case query st d of Inl e \<Rightarrow> (Inl e, d) | Inr (_, d') \<Rightarrow> (Inr (), d')))"

definition ensurePartitions :: "instant \<Rightarrow> db \<Rightarrow> (fault + unit) \<times> db" where
  "ensurePartitions cnow d =
     (case run_ddl (ensure_partition cnow 0) d of
        (Inl e, d') \<Rightarrow> (Inl e, d')
      | (Inr _, d') \<Rightarrow> run_ddl (ensure_partition cnow 1) d')"

definition terminal_jobs :: "db \<Rightarrow> nat" where
  "terminal_jobs d = length (filter (\<lambda>j. terminal_state (j_state j)) (db_jobs d))"

lemma victims_terminal:
  assumes "db_inv d" and "j \<in> set (db_jobs d)" and "j_id j \<in> set (retention_victims now locked p d)"
  shows "terminal_state (j_state j)"
  using retention_victim_past [OF assms] by (auto simp: past_retention_def)

lemma remove_terminal:
  assumes "\<forall>j \<in> set js. j_id j \<in> I \<longrightarrow> terminal_state (j_state j)"
  shows "length (filter (\<lambda>j. terminal_state (j_state j)) (filter (\<lambda>j. j_id j \<notin> I) js))
    + length (filter (\<lambda>j. j_id j \<in> I) js) = length (filter (\<lambda>j. terminal_state (j_state j)) js)"
  using assms by (induction js) auto

interpretation pruner: bounded_batch "prune_pass now locked (opts\<lparr>ret_archive := False\<rparr>)" terminal_jobs
  for now locked opts
proof unfold_locales
  fix d n
  assume inv: "db_inv d"
  let ?p = "prune_params_of opts"
  let ?V = "set (retention_victims (now n) (locked n) ?p d)"
  note ok = prune_lands [of "now n" "locked n" ?p d]
  have "db_inv (d\<lparr>db_jobs := filter (\<lambda>j. j_id j \<notin> ?V) (db_jobs d)\<rparr>)"
    by (rule prune.inv [OF inv ok])
  moreover have "\<forall>j \<in> set (db_jobs d). j_id j \<in> ?V \<longrightarrow> terminal_state (j_state j)"
    using victims_terminal [OF inv] by blast
  note remove_terminal [OF this]
  ultimately show "\<exists>k d'. prune_pass now locked (opts\<lparr>ret_archive := False\<rparr>) n d = (Inr k, d')
      \<and> db_inv d' \<and> terminal_jobs d' + k = terminal_jobs d"
    by (simp add: prune_pass_def pruneOnce_def Let_def ok terminal_jobs_def)
qed

interpretation expired:
  exhaustive_batch "prune_pass (\<lambda>_. now) (\<lambda>_. {}) (opts\<lparr>ret_archive := False\<rparr>)"
    "\<lambda>d. length (filter (past_retention now {} (prune_params_of opts) d) (db_jobs d))"
    "ret_batchMax opts"
  for now opts
proof unfold_locales
  fix d n
  assume inv: "db_inv d"
  let ?p = "prune_params_of opts"
  let ?pass = "prune_pass (\<lambda>_. now) (\<lambda>_. {}) (opts\<lparr>ret_archive := False\<rparr>)"
  obtain rows d1 where ok: "pruneTerminalJobs now {} ?p d = Inr (rows, d1)"
    using prune_lands by blast
  have pass: "?pass n d = (Inr (length rows), d1)"
    by (simp add: prune_pass_def pruneOnce_def Let_def ok)
  from prune_remaining [OF inv ok] prune.inv [OF inv ok] pass
  show "\<exists>k d'. ?pass n d = (Inr k, d') \<and> db_inv d'
      \<and> length (filter (past_retention now {} ?p d') (db_jobs d')) + k
        = length (filter (past_retention now {} ?p d) (db_jobs d))" by blast
  show "k = min (ret_batchMax opts) (length (filter (past_retention now {} ?p d) (db_jobs d)))"
    if "?pass n d = (Inr k, d')" for k d'
    using that pass prune_count [OF inv ok] by simp
qed

definition retention_round ::
  "(nat \<Rightarrow> instant) \<Rightarrow> (nat \<Rightarrow> ident set) \<Rightarrow> retention_options \<Rightarrow> (nat \<Rightarrow> bool) \<Rightarrow> nat \<Rightarrow> db
   \<Rightarrow> ((fault + nat) \<times> db) option" where
  "retention_round now locked opts running fuel d =
     (case (if ret_archive opts then ensurePartitions (now 0) d else (Inr (), d)) of
        (Inl e, d') \<Rightarrow> Some (Inl e, d')
      | (Inr _, d') \<Rightarrow> drain (prune_pass now locked opts) running (ret_batchMax opts) 0 fuel 0 d')"

text \<open>A pass deletes nothing but what is past its window, and it leaves the configuration alone.\<close>

lemma retention_round_exact:
  assumes inv: "db_inv d" and arch: "\<not> ret_archive opts" and b: "0 < ret_batchMax opts"
    and fuel: "length (filter (past_retention now {} (prune_params_of opts) d) (db_jobs d)) < fuel * ret_batchMax opts"
  shows "\<exists>d'. retention_round (\<lambda>_. now) (\<lambda>_. {}) opts (\<lambda>_. True) fuel d
      = Some (Inr (length (filter (past_retention now {} (prune_params_of opts) d) (db_jobs d))), d')
    \<and> db_jobs d' = filter (\<lambda>j. \<not> past_retention now {} (prune_params_of opts) d j) (db_jobs d)"
proof -
  let ?p = "prune_params_of opts"
  let ?past = "past_retention now {} ?p"
  let ?pass = "prune_pass (\<lambda>_. now) (\<lambda>_. {}) (opts\<lparr>ret_archive := False\<rparr>)"
  let ?P = "\<lambda>e. db_config e = db_config d
    \<and> filter (\<lambda>j. \<not> ?past d j) (db_jobs e) = filter (\<lambda>j. \<not> ?past d j) (db_jobs d)"
  have keeps: "?P e'" if "db_inv e" "?pass n e = (Inr k, e')" "?P e" for n e k e'
  proof -
    let ?V = "set (retention_victims now {} ?p e)"
    from that(2) have e': "e' = e\<lparr>db_jobs := filter (\<lambda>j. j_id j \<notin> ?V) (db_jobs e)\<rparr>"
      by (simp add: prune_pass_def pruneOnce_def prune_lands Let_def)
    have "?past d = ?past e" using that(3) by (intro past_retention_config) simp
    then have "filter (\<lambda>j. j_id j \<notin> ?V \<and> \<not> ?past d j) (db_jobs e) = filter (\<lambda>j. \<not> ?past d j) (db_jobs e)"
      using retention_victim_past [OF that(1)] by (intro filter_cong) auto
    with e' that(3) show ?thesis by simp
  qed
  have o: "opts\<lparr>ret_archive := False\<rparr> = opts" using arch by simp
  from expired.drain_empties [OF inv b fuel, of 0 0] obtain d' where
    run: "drain ?pass (\<lambda>_. True) (ret_batchMax opts) 0 fuel 0 d = Some (Inr (length (filter (?past d) (db_jobs d))), d')"
    and none: "length (filter (?past d') (db_jobs d')) = 0" by auto
  from pruner.drain_keeps [of "\<lambda>_. now" "\<lambda>_. {}" opts ?P, OF keeps inv _ run] have P: "?P d'" by simp
  then have "?past d' = ?past d" by (intro past_retention_config) simp
  with none have "filter (\<lambda>j. \<not> ?past d j) (db_jobs d') = db_jobs d'"
    by (simp add: filter_empty_conv)
  with P run arch o show ?thesis by (simp add: retention_round_def)
qed

end
