(* ===== verification/Runtime.thy ===== *)
theory Runtime
  imports Config Migrate Pool_Laws Loops Scheduler
begin

text \<open>
  The wiring of packages/core/src/index.ts (class Runtime): what the components are given of a
  loaded configuration, the start behind its two gates (the database answers, the schema is
  current), the stop in the order of the dependencies, and the signal handlers. The three loops of
  packages/core/src/engine/ appear with their settings and their running flag; their rounds are
  those of the theories Loops and Scheduler. The logger and the metrics are left out.
\<close>

subsection \<open>The loops as objects\<close>

record reaper =
  rea_intervalMs :: int
  rea_batchMax :: nat
  rea_backoff :: backoff_options
  rea_running :: bool

record scheduler =
  sch_intervalMs :: int
  sch_batchMax :: nat
  sch_running :: bool

record retention =
  rtn_intervalMs :: int
  rtn_options :: retention_options
  rtn_running :: bool

definition start_reaper :: "reaper \<Rightarrow> reaper" where
  "start_reaper r = (if rea_running r then r else r\<lparr>rea_running := True\<rparr>)"

definition stop_reaper :: "reaper \<Rightarrow> reaper" where
  "stop_reaper r = r\<lparr>rea_running := False\<rparr>"

definition start_scheduler :: "scheduler \<Rightarrow> scheduler" where
  "start_scheduler s = (if sch_running s then s else s\<lparr>sch_running := True\<rparr>)"

definition stop_scheduler :: "scheduler \<Rightarrow> scheduler" where
  "stop_scheduler s = s\<lparr>sch_running := False\<rparr>"

definition start_retention :: "retention \<Rightarrow> retention" where
  "start_retention r = (if rtn_running r then r else r\<lparr>rtn_running := True\<rparr>)"

definition stop_retention :: "retention \<Rightarrow> retention" where
  "stop_retention r = r\<lparr>rtn_running := False\<rparr>"

subsection \<open>What the configuration gives\<close>

definition client_of :: "config \<Rightarrow> client" where
  "client_of c = new_client\<lparr>cl_defaults :=
     \<lparr>df_maxAttempts = cf_defaultMaxAttempts c, df_leaseSeconds = cf_defaultLeaseSeconds c,
      df_maxPayloadBytes = nat (cf_maxPayloadBytes c)\<rparr>\<rparr>"

definition backoff_of :: "config \<Rightarrow> backoff_options" where
  "backoff_of c = \<lparr>b_initialMs = of_int (cf_backoffInitialMs c), b_multiplier = cf_backoffMultiplier c,
     b_maxMs = of_int (cf_backoffMaxMs c), b_jitter = cf_backoffJitter c\<rparr>"

text \<open>The worker id (host, process and a random part) is a parameter.\<close>

definition runner_of :: "config \<Rightarrow> string \<Rightarrow> runner_options" where
  "runner_of c workerId = \<lparr>ro_workerId = workerId, ro_heartbeatFraction = cf_workerHeartbeatFraction c,
     ro_backoff = backoff_of c, ro_maxErrorHistory = cf_maxErrorHistory c,
     ro_maxErrorTextBytes = nat (cf_maxErrorTextBytes c)\<rparr>"

definition pool_of :: "config \<Rightarrow> string \<Rightarrow> pool" where
  "pool_of c workerId = new_pool (cf_workerQueues c) (nat (cf_workerConcurrency c))
     (nat (cf_workerClaimBatchMax c)) (runner_of c workerId) True"

definition reaper_of :: "config \<Rightarrow> reaper" where
  "reaper_of c = \<lparr>rea_intervalMs = cf_reaperIntervalMs c, rea_batchMax = nat (cf_reaperBatchMax c),
     rea_backoff = backoff_of c, rea_running = False\<rparr>"

definition scheduler_of :: "config \<Rightarrow> scheduler" where
  "scheduler_of c = \<lparr>sch_intervalMs = cf_schedulerIntervalMs c, sch_batchMax = nat (cf_schedulerBatchMax c),
     sch_running = False\<rparr>"

text \<open>The intervals '24 hours' and '30 days', in microseconds.\<close>

definition retention_of :: "config \<Rightarrow> retention" where
  "retention_of c = \<lparr>rtn_intervalMs = cf_retentionIntervalMs c,
     rtn_options = \<lparr>ret_batchMax = nat (cf_retentionBatchMax c), ret_archive = cf_retentionArchive c,
       ret_succeeded = us_per_second * (24 * 3600), ret_dead = us_per_second * (30 * 24 * 3600)\<rparr>,
     rtn_running = False\<rparr>"

subsection \<open>The runtime\<close>

record runtime_options =
  op_config :: config
  op_registry :: "registry option"
  op_skipSchemaCheck :: bool

record runtime =
  rt_options :: runtime_options
  rt_client :: client
  rt_pool :: "pool option"
  rt_reaper :: "reaper option"
  rt_scheduler :: "scheduler option"
  rt_retention :: "retention option"
  rt_open :: bool
  rt_started :: bool

definition createRuntime :: "runtime_options \<Rightarrow> string \<Rightarrow> runtime" where
  "createRuntime opts workerId =
     (let c = op_config opts
      in \<lparr>rt_options = opts, rt_client = client_of c,
          rt_pool = (case op_registry opts of None \<Rightarrow> None | Some _ \<Rightarrow> Some (pool_of c workerId)),
          rt_reaper = (if cf_reaperEnabled c then Some (reaper_of c) else None),
          rt_scheduler = (if cf_schedulerEnabled c then Some (scheduler_of c) else None),
          rt_retention = (if cf_retentionEnabled c then Some (retention_of c) else None),
          rt_open = True, rt_started = False\<rparr>)"

text \<open>
  The worker program (packages/worker/src/main.ts) builds the same parts without a client and a
  scheduler, and starts and stops them in the same order.
\<close>

definition worker_runtime :: "config \<Rightarrow> registry \<Rightarrow> string \<Rightarrow> runtime" where
  "worker_runtime c reg workerId =
     (createRuntime \<lparr>op_config = c, op_registry = Some reg, op_skipSchemaCheck = False\<rparr> workerId)
       \<lparr>rt_scheduler := None\<rparr>"

datatype start_error = No_database wait_result | Wrong_schema migration_error

definition runtime_start ::
  "(string \<Rightarrow> string) \<Rightarrow> (string \<times> string) list option \<Rightarrow> (nat \<Rightarrow> thrown option) \<Rightarrow> 's schema_db \<Rightarrow> runtime
   \<Rightarrow> (start_error + unit) \<times> 's schema_db \<times> runtime" where
  "runtime_start digest dir ping sd rt =
     (let go = rt\<lparr>rt_reaper := map_option start_reaper (rt_reaper rt),
            rt_scheduler := map_option start_scheduler (rt_scheduler rt),
            rt_retention := map_option start_retention (rt_retention rt),
            rt_pool := map_option Pool.start (rt_pool rt), rt_started := True\<rparr>
      in if rt_started rt then (Inr (), sd, rt)
         else case waitForDatabase ping 30 of
             Connected _ \<Rightarrow>
               if op_skipSchemaCheck (rt_options rt) then (Inr (), sd, go)
               else (case assertSchemaCurrent digest dir sd of
                       (Inl e, sd') \<Rightarrow> (Inl (Wrong_schema e), sd', rt)
                     | (Inr _, sd') \<Rightarrow> (Inr (), sd', go))
           | failed \<Rightarrow> (Inl (No_database failed), sd, rt))"

definition runtime_stop ::
  "meanwhile \<Rightarrow> (nat \<Rightarrow> instant) \<Rightarrow> bool \<Rightarrow> runtime \<Rightarrow> db \<Rightarrow> runtime \<times> db" where
  "runtime_stop others now timedOut rt d =
     (if \<not> rt_started rt then (rt, d)
      else
        let (pool, d') =
              (case rt_pool rt of
                 None \<Rightarrow> (None, d)
               | Some p \<Rightarrow> let (p', d') = Pool.stop others now timedOut p d in (Some p', d'))
        in (rt\<lparr>rt_pool := pool, rt_reaper := map_option stop_reaper (rt_reaper rt),
              rt_scheduler := map_option stop_scheduler (rt_scheduler rt),
              rt_retention := map_option stop_retention (rt_retention rt),
              rt_open := False, rt_started := False\<rparr>, d'))"

text \<open>
  The signal handlers: the first signal starts the drain, whose end or failure exits the process;
  a second one exits at once. In the worker program an unhandled rejection counts as a signal.
\<close>

datatype process_state = Serving | Shutting_down | Exited nat

datatype process_event = Signal | Stopped | Stop_failed

fun process_step :: "process_event \<Rightarrow> process_state \<Rightarrow> process_state" where
  "process_step Signal Serving = Shutting_down"
| "process_step Signal Shutting_down = Exited 1"
| "process_step Stopped Shutting_down = Exited 0"
| "process_step Stop_failed Shutting_down = Exited 1"
| "process_step _ s = s"

subsection \<open>The migration command\<close>

text \<open>
  packages/core/src/cli/migrate.ts: the exit code of \<open>migrate <command>\<close> and what becomes of the
  schema; without an argument the command is \<open>up\<close>.
\<close>

definition migrate_cli ::
  "(string \<Rightarrow> string) \<Rightarrow> (string \<Rightarrow> 's \<Rightarrow> 's option) \<Rightarrow> (string \<times> string) list option
   \<Rightarrow> (nat \<Rightarrow> thrown option) \<Rightarrow> string option \<Rightarrow> 's schema_db \<Rightarrow> nat \<times> 's schema_db" where
  "migrate_cli digest apply_sql dir ping arg sd =
     (let command = coalesce arg ''up''
      in case waitForDatabase ping 20 of
           Connected _ \<Rightarrow>
             if command = ''up'' then
               (case migrateUp digest apply_sql dir sd of (Inl _, sd') \<Rightarrow> (1, sd') | (Inr _, sd') \<Rightarrow> (0, sd'))
             else if command = ''status'' then (0, snd (getApplied sd))
             else (1, sd)
         | _ \<Rightarrow> (1, sd))"

subsection \<open>What can be started and stopped\<close>

text \<open>The contract of everything the runtime starts and stops.\<close>

locale service =
  fixes start stop :: "'s \<Rightarrow> 's" and running :: "'s \<Rightarrow> bool"
  assumes runs: "running (start s)"
    and stops: "\<not> running (stop s)"
    and again: "running s \<Longrightarrow> start s = s"
begin

lemma start_twice: "start (start s) = start s"
  by (rule again [OF runs])

lemma last_decides:
  "running (fold (\<lambda>go. if go then start else stop) gs s) = (if gs = [] then running s else last gs)"
  by (induction gs arbitrary: s) (simp_all add: runs stops)

end

interpretation reaper_service: service start_reaper stop_reaper rea_running
  by unfold_locales (simp_all add: start_reaper_def stop_reaper_def)

interpretation scheduler_service: service start_scheduler stop_scheduler sch_running
  by unfold_locales (simp_all add: start_scheduler_def stop_scheduler_def)

interpretation retention_service: service start_retention stop_retention rtn_running
  by unfold_locales (simp_all add: start_retention_def stop_retention_def)

lemma release_all_pool: "fst (release_all (\<lambda>_ s. s) n now js q e) = q"
  by (induction js arbitrary: n e) simp_all

lemma pool_stops: "\<not> po_running (fst (Pool.stop (\<lambda>_ s. s) now timedOut p d))"
proof (cases "po_running p")
  case True
  let ?q = "p\<lparr>po_running := False, po_draining := True\<rparr>"
  obtain e where "release_all (\<lambda>_ s. s) 2 now (po_active p) ?q d = (?q, e)"
    using release_all_pool [of 2 now "po_active p" ?q d] by (metis prod.collapse)
  with True show ?thesis by (simp add: Pool.stop_def Let_def)
qed (simp add: Pool.stop_def)

interpretation pool_service:
  service Pool.start "\<lambda>p. fst (Pool.stop (\<lambda>_ s. s) now timedOut p d)" po_running for now timedOut d
  by unfold_locales (simp_all add: Pool.start_def pool_stops)

subsection \<open>Started and stopped\<close>

definition all_running :: "runtime \<Rightarrow> bool" where
  "all_running rt \<longleftrightarrow> (\<forall>p \<in> set_option (rt_pool rt). po_running p)
     \<and> (\<forall>r \<in> set_option (rt_reaper rt). rea_running r)
     \<and> (\<forall>s \<in> set_option (rt_scheduler rt). sch_running s)
     \<and> (\<forall>r \<in> set_option (rt_retention rt). rtn_running r)"

definition none_running :: "runtime \<Rightarrow> bool" where
  "none_running rt \<longleftrightarrow> (\<forall>p \<in> set_option (rt_pool rt). \<not> po_running p)
     \<and> (\<forall>r \<in> set_option (rt_reaper rt). \<not> rea_running r)
     \<and> (\<forall>s \<in> set_option (rt_scheduler rt). \<not> sch_running s)
     \<and> (\<forall>r \<in> set_option (rt_retention rt). \<not> rtn_running r)"

lemma created_idle: "none_running (createRuntime opts w) \<and> \<not> rt_started (createRuntime opts w)"
  by (auto simp: none_running_def createRuntime_def Let_def pool_of_def new_pool_def reaper_of_def
      scheduler_of_def retention_of_def split: option.splits)

lemmas start_flags = reaper_service.runs scheduler_service.runs retention_service.runs pool_service.runs

text \<open>A start ends in one of three ways, and only behind both gates does anything run.\<close>

lemma runtime_start_cases:
  assumes "\<not> rt_started rt"
  shows "case runtime_start digest dir ping sd rt of
      (Inr _, sd', rt') \<Rightarrow> (\<exists>k. 1 \<le> k \<and> k \<le> 30 \<and> ping k = None \<and> transient_until ping 1 k)
        \<and> (op_skipSchemaCheck (rt_options rt) \<and> sd' = sd
           \<or> (\<exists>v. assertSchemaCurrent digest dir sd = (Inr v, sd')))
        \<and> rt_started rt' \<and> all_running rt'
    | (Inl (No_database w), sd', rt') \<Rightarrow> rt' = rt \<and> sd' = sd \<and> waitForDatabase ping 30 = w \<and> (\<forall>k. w \<noteq> Connected k)
    | (Inl (Wrong_schema e), sd', rt') \<Rightarrow> rt' = rt \<and> assertSchemaCurrent digest dir sd = (Inl e, sd')"
proof -
  have "all_running (rt\<lparr>rt_reaper := map_option start_reaper (rt_reaper rt),
            rt_scheduler := map_option start_scheduler (rt_scheduler rt),
            rt_retention := map_option start_retention (rt_retention rt),
            rt_pool := map_option Pool.start (rt_pool rt), rt_started := True\<rparr>)"
    by (auto simp: all_running_def start_flags)
  moreover have "1 \<le> k \<and> k \<le> 30 \<and> ping k = None \<and> transient_until ping 1 k"
    if "waitForDatabase ping 30 = Connected k" for k
    using that wait_loop_spec [where ping = ping and a = 1 and n = 30 and le = Thrown_undefined]
    by (simp add: waitForDatabase_def)
  ultimately show ?thesis
    using assms
    by (auto simp: runtime_start_def Let_def split: wait_result.splits prod.splits sum.splits)
qed

lemma restart_is_nothing:
  "runtime_start digest dir ping sd rt = (Inr (), sd', rt') \<Longrightarrow> rt_started rt' \<Longrightarrow>
    runtime_start digest dir ping' sd'' rt' = (Inr (), sd'', rt')"
  by (simp add: runtime_start_def Let_def)

text \<open>A stop that no one disturbs leaves nothing running and closes the database last.\<close>

lemma runtime_stopped:
  assumes "rt_started rt" and "runtime_stop (\<lambda>_ s. s) now timedOut rt d = (rt', d')"
  shows "none_running rt' \<and> \<not> rt_open rt' \<and> \<not> rt_started rt'"
proof -
  have "\<not> po_running p'" if "rt_pool rt' = Some p'" for p'
    using assms that pool_service.stops [of now timedOut _ d]
    by (auto simp: runtime_stop_def Let_def split: option.splits prod.splits) (metis fst_conv)
  with assms show ?thesis
    by (auto simp: runtime_stop_def Let_def none_running_def reaper_service.stops
        scheduler_service.stops retention_service.stops split: option.splits prod.splits)
qed

text \<open>
  A fresh database that the command has migrated lets every runtime with the same migrations start
  as soon as it answers.
\<close>

lemma migrated_then_started:
  assumes "applied_of sd = []" and "migrate_cli digest apply_sql dir ping None sd = (0, sd')"
    and "\<not> rt_started rt" and "ping' 1 = None"
  shows "\<exists>sd'' rt'. runtime_start digest dir ping' sd' rt = (Inr (), sd'', rt') \<and> all_running rt'"
proof -
  obtain r where "migrateUp digest apply_sql dir sd = (Inr r, sd')"
    using assms(2) by (auto simp: migrate_cli_def Let_def split: wait_result.splits prod.splits sum.splits)
  from migrateUp_then_current [OF assms(1) this]
  have "assertSchemaCurrent digest dir sd' = (Inr (mr_currentVersion r), sd')" .
  moreover have "waitForDatabase ping' 30 = Connected 1"
    using assms(4) by (simp add: waitForDatabase_def eval_nat_numeral)
  ultimately show ?thesis
    using assms(3) runtime_start_cases [OF assms(3), where digest = digest and dir = dir and ping = ping' and sd = sd']
    by (simp add: runtime_start_def Let_def split: if_splits)
qed

lemma two_signals_exit:
  "process_step Signal (process_step Signal Serving) = Exited 1"
  by simp

end
