(* ===== verification/Intake_Laws.thy ===== *)
theory Intake_Laws
  imports Routes_Laws Dedup_Laws Schemas Runtime
begin

text \<open>
  The enqueue route as a whole, from the request schema over the client to the insert: what a
  request that passes the schema is answered, and that the client of a loaded configuration keeps
  what this needs.
\<close>

subsection \<open>The client of a loaded configuration\<close>

definition defaults_ok :: "queue_defaults \<Rightarrow> bool" where
  "defaults_ok r \<longleftrightarrow> (\<forall>n. qd_max_attempts r = Some n \<longrightarrow> 1 \<le> n \<and> n \<le> 1000)
     \<and> (\<forall>l. qd_lease_seconds r = Some l \<longrightarrow> 1 \<le> l \<and> is_integer l)"

definition serves :: "config \<Rightarrow> client \<Rightarrow> bool" where
  "serves c cl \<longleftrightarrow> cl_defaults cl = cl_defaults (client_of c)
     \<and> (\<forall>q since r. cl_queueCache cl q = Some (since, r) \<longrightarrow> defaults_ok r)"

lemma client_serves: "serves c (client_of c)"
  by (simp add: serves_def client_of_def new_client_def)

lemma fetch_defaults_ok:
  assumes "db_inv d"
  shows "defaults_ok (fetch_defaults q d)"
proof (cases "row_of qc_queue q (db_config d)")
  case None
  then show ?thesis by (simp add: defaults_ok_def fetch_defaults_def resolveQueueDefaults_def)
next
  case (Some r)
  then have "config_checks r" using assms by (auto simp: db_inv_def dest: row_of_SomeD)
  with Some show ?thesis
    by (auto simp: defaults_ok_def fetch_defaults_def resolveQueueDefaults_def config_checks_def)
qed

lemma queueDefaults_serves:
  assumes "db_inv d" and "serves c cl" and "queueDefaults cnow q cl d = (qc, cl')"
  shows "serves c cl' \<and> defaults_ok qc \<and> cl_defaults cl' = cl_defaults cl"
  using assms(2,3) fetch_defaults_ok [OF assms(1)]
  by (auto simp: queueDefaults_def serves_def Let_def split: option.splits if_splits)

lemma default_ranges:
  assumes "loadConfig num environ = Inr c" and "serves c cl" and "defaults_ok qc"
  shows "1 \<le> coalesce (qd_max_attempts qc) (df_maxAttempts (cl_defaults cl))"
    and "coalesce (qd_max_attempts qc) (df_maxAttempts (cl_defaults cl)) \<le> 1000"
    and "1 \<le> coalesce (qd_lease_seconds qc) (df_leaseSeconds (cl_defaults cl))"
    and "is_integer (coalesce (qd_lease_seconds qc) (df_leaseSeconds (cl_defaults cl)))"
  using assms(2,3) loadConfig_Inr(2) [OF assms(1)]
  by (auto simp: serves_def client_of_def config_ranges_def defaults_ok_def is_integer_def coalesce_def
      split: option.splits)

subsection \<open>The request\<close>

definition options_of :: "enqueue_body \<Rightarrow> string option \<Rightarrow> enqueue_options" where
  "options_of b tr = (case tr of None \<Rightarrow> coalesce (eb_options b) no_options
     | Some t \<Rightarrow> (coalesce (eb_options b) no_options)\<lparr>o_traceContext := Some t\<rparr>)"

lemma options_of_schema:
  assumes "enqueueBodySchema b"
  shows "enqueueOptionsSchema ((options_of b tr)\<lparr>o_traceContext := None\<rparr>)"
proof -
  have "enqueueOptionsSchema (coalesce (eb_options b) no_options)"
    using assms by (cases "eb_options b") (simp_all add: enqueueBodySchema_def enqueueOptionsSchema_def no_options_def)
  then show ?thesis by (cases tr) (simp_all add: options_of_def enqueueOptionsSchema_def)
qed

lemma conflict_response: "fault_response (Fault ConflictError x) = Failed 409 CONFLICT"
  by (simp add: fault_response_def caught_fault_def errorHandler_def failed_def Let_def)

lemma post_job_answers:
  assumes inv: "db_inv d" and may: "permitted_caller Scope_enqueue (Some q) rec"
    and schema: "name_schema q" "enqueueBodySchema b"
    and size: "length (stringify (eb_payload b)) \<le> df_maxPayloadBytes (cl_defaults cl)"
    and qd: "queueDefaults cnow q cl d = (qc, cl')"
    and att: "1 \<le> coalesce (qd_max_attempts qc) (df_maxAttempts (cl_defaults cl))"
      "coalesce (qd_max_attempts qc) (df_maxAttempts (cl_defaults cl)) \<le> 1000"
    and lease: "1 \<le> coalesce (qd_lease_seconds qc) (df_leaseSeconds (cl_defaults cl))"
      "is_integer (coalesce (qd_lease_seconds qc) (df_leaseSeconds (cl_defaults cl)))"
  shows "\<exists>resp d'. post_job alone now cnow rec q b tr (cl, d) = (resp, cl', d')
    \<and> ((\<exists>j. resp = Answered 201 \<lparr>er_id = Some (j_id j), er_deduplicated = False\<rparr>
          \<and> db_jobs d' = db_jobs d @ [j] \<and> j_queue j = q \<and> j_type j = eb_type b
          \<and> j_payload j = eb_payload b \<and> j_state j = Available)
       \<or> db_jobs d' = db_jobs d \<and> (resp = Failed 409 CONFLICT
          \<or> (\<exists>j \<in> set (db_jobs d). j_queue j = q
               \<and> resp = Answered 200 \<lparr>er_id = Some (j_id j), er_deduplicated = True\<rparr>)))"
proof -
  from schema_row [OF options_of_schema [OF schema(2), of tr] size qd att lease,
      where ty = "eb_type b" and now = now] obtain row where
    row: "buildRow cnow q (eb_type b) (eb_payload b) (options_of b tr) cl d = (Inr row, cl')"
    and adm: "admissible now row" by blast
  note F = buildRow_fields [OF row]
  have pay: "n_payload row = eb_payload b"
    using row by (auto simp: buildRow_def Let_def split: if_splits prod.splits)
  have names: "validateName q = Inr ()" "validateName (eb_type b) = Inr ()"
    using schema by (simp_all add: name_schema_iff enqueueBodySchema_def)
  from submit_total [OF inv adm F(1) F(7)] obtain r d' where
    sub: "submit alone now q row d = (r, d')" and out: "r = Inr \<lparr>er_id = Some (db_job_seq d), er_deduplicated = False\<rparr>
         \<and> db_jobs d' = db_jobs d @ [new_job now row (db_job_seq d)]
       \<or> db_jobs d' = db_jobs d \<and> ((\<exists>j \<in> set (db_jobs d). j_queue j = q
               \<and> r = Inr \<lparr>er_id = Some (j_id j), er_deduplicated = True\<rparr>)
            \<or> (\<exists>x. r = Inl (Fault ConflictError x)))" by blast
  have "(requireScope Scope_enqueue (Some q) rec :: unit error_response option) = None"
    using may by (simp add: permitted_iff)
  then have post: "post_job alone now cnow rec q b tr (cl, d) =
      (respond (\<lambda>x. if er_deduplicated x then 200 else 201) (\<lambda>x. x) r, cl', d')"
    using schema enqueue_built [OF names row, of now] sub
    by (simp add: post_job_def guarded_def Let_def flip: options_of_def)
  from out show ?thesis
  proof (elim disjE conjE bexE exE)
    assume "r = Inr \<lparr>er_id = Some (db_job_seq d), er_deduplicated = False\<rparr>"
      "db_jobs d' = db_jobs d @ [new_job now row (db_job_seq d)]"
    with post F pay show ?thesis
      by (intro exI [of _ d'] exI conjI disjI1 exI [of _ "new_job now row (db_job_seq d)"])
        (simp_all add: respond_def new_job_def)
  qed (use post in \<open>auto simp: respond_def conflict_response\<close>)
qed

end
