(* ===== verification/Scheduler_Laws.thy ===== *)
theory Scheduler_Laws
  imports Scheduler Client_Laws
begin

text \<open>
  What a tick guarantees: one job per occurrence whoever processes it, and a schedule that moves
  past the time it was processed at. What is relied on of croner is named \<open>croner_law\<close>: the next
  run lies strictly after the given time.
\<close>

definition croner_law :: "croner \<Rightarrow> bool" where
  "croner_law nextRun \<longleftrightarrow> (\<forall>c z t u. nextRun c z t = Inr (Some u) \<longrightarrow> t < u)"

abbreviation schedule_at :: "db \<Rightarrow> ident \<Rightarrow> schedule option" where
  "schedule_at d i \<equiv> row_of s_id i (db_schedules d)"

lemma advanceSchedule_eq:
  "advanceSchedule now p d = Inr (map s_id (map (advance_row now p) (filter (\<lambda>s. s_id s = ap_id p) (db_schedules d))),
     d\<lparr>db_schedules := upd_where (\<lambda>s. s_id s = ap_id p) (advance_row now p) (db_schedules d)\<rparr>)"
  by (simp add: advanceSchedule_def returning_def update_schedules_def)

lemma advance_to_eq:
  "advance_to now i nxt job d = (Inr (), d\<lparr>db_schedules := upd_where (\<lambda>s. s_id s = i)
     (advance_row now \<lparr>ap_id = i, ap_nextRunAt = nxt, ap_lastJobId = job\<rparr>) (db_schedules d)\<rparr>)"
  by (simp add: advance_to_def advanceSchedule_eq)

lemma advance_schedule_at:
  "schedule_at (d\<lparr>db_schedules := upd_where (\<lambda>s. s_id s = i) (advance_row now p) (db_schedules d)\<rparr>) k =
     map_option (\<lambda>s. if s_id s = i then advance_row now p s else s) (schedule_at d k)"
  by (simp add: row_of_upd_where advance_row_def)

lemma occurrence_row_admissible: "admissible now (occurrence_row row)"
  by (simp add: admissible_def Let_def new_job_def occurrence_row_def is_smallint_def is_integer_def
      job_checks_def)

lemma insert_occurrence:
  assumes inv: "db_inv d" and s: "d_id row \<in> s_id ` set (db_schedules d)"
  shows "\<exists>ids d1. insertJob now (occurrence_row row) d = Inr (ids, d1) \<and> db_inv d1
    \<and> db_schedules d1 = db_schedules d
    \<and> (\<exists>!j. j \<in> set (db_jobs d1) \<and> j_queue j = d_queue row
         \<and> j_idempotency_key j = Some (occurrenceKey (d_id row) (d_planned_for row)))
    \<and> (ids = [] \<longrightarrow> db_jobs d1 = db_jobs d)"
proof -
  let ?r = "occurrence_row row" and ?k = "occurrenceKey (d_id row) (d_planned_for row)"
  have r: "n_queue ?r = d_queue row" "n_idempotencyKey ?r = Some ?k" "n_uniqueKey ?r = None"
    by (simp_all add: occurrence_row_def)
  have "\<exists>ids d1. insertJob now ?r d = Inr (ids, d1) \<and> db_schedules d1 = db_schedules d"
    using occurrence_row_admissible [of now row] s
    unfolding admissible_iff [of now ?r now "db_job_seq d"]
    by (auto simp: insertJob_def insert_row_def Let_def new_job_def occurrence_row_def)
  then obtain ids d1 where ins: "insertJob now ?r d = Inr (ids, d1)" "db_schedules d1 = db_schedules d"
    by blast
  have inv1: "db_inv d1" by (rule insert.inv [OF inv ins(1)])
  from insertJob_key_held [OF ins(1) r(2,3)] r(1) obtain i where
    "i \<in> set (findByIdempotencyKey (d_queue row) ?k d1)" by (metis list.set_intros(1) neq_Nil_conv)
  then obtain j where j: "j \<in> set (db_jobs d1)" "j_queue j = d_queue row" "j_idempotency_key j = Some ?k"
    by (auto simp: findByIdempotencyKey_iff)
  have "\<exists>!j. j \<in> set (db_jobs d1) \<and> j_queue j = d_queue row \<and> j_idempotency_key j = Some ?k"
  proof (rule ex1I [of _ j])
    fix k assume "k \<in> set (db_jobs d1) \<and> j_queue k = d_queue row \<and> j_idempotency_key k = Some ?k"
    with j inv1 show "k = j"
      by (intro unique_onD [of idem_slot "db_jobs d1" k j "(d_queue row, ?k)"])
        (auto simp: db_inv_def index_ok_def idem_slot_def)
  qed (use j in blast)
  moreover have "ids = [] \<longrightarrow> db_jobs d1 = db_jobs d"
    using ins(1) by (cases rule: insertJob_cases) auto
  ultimately show ?thesis using ins inv1 by blast
qed

lemma advance_moves:
  assumes inv: "db_inv d" and s: "d_id row \<in> s_id ` set (db_schedules d)"
    and a: "advance_to now (d_id row) nxt job d = (Inr (), d')"
  shows "db_inv d' \<and> (\<exists>s'. schedule_at d' (d_id row) = Some s' \<and> s_next_run_at s' = nxt)
    \<and> (\<forall>k. k \<noteq> d_id row \<longrightarrow> schedule_at d' k = schedule_at d k)
    \<and> s_id ` set (db_schedules d') = s_id ` set (db_schedules d) \<and> db_jobs d' = db_jobs d"
proof -
  let ?p = "\<lparr>ap_id = d_id row, ap_nextRunAt = nxt, ap_lastJobId = job\<rparr>"
  from a have d': "d' = d\<lparr>db_schedules := upd_where (\<lambda>s. s_id s = d_id row) (advance_row now ?p)
      (db_schedules d)\<rparr>" by (simp add: advance_to_eq)
  note at = advance_schedule_at [where d = d and i = "d_id row" and now = now and p = ?p, folded d']
  have "advanceSchedule now ?p d = Inr (map s_id (map (advance_row now ?p)
      (filter (\<lambda>s. s_id s = ap_id ?p) (db_schedules d))), d')"
    by (simp add: advanceSchedule_eq d')
  from advance.inv [OF inv this] have "db_inv d'" .
  moreover from s obtain s0 where s0: "schedule_at d (d_id row) = Some s0"
    by (metis not_None_eq row_of_None_iff)
  then have "s_id s0 = d_id row" by (auto dest: row_of_SomeD)
  with s0 at have "schedule_at d' (d_id row) = Some (advance_row now ?p s0)" by simp
  moreover have "schedule_at d' k = schedule_at d k" if "k \<noteq> d_id row" for k
  proof (cases "schedule_at d k")
    case (Some s)
    then have "s_id s = k" by (auto dest: row_of_SomeD)
    with Some that at show ?thesis by simp
  qed (use at in simp)
  moreover have "map s_id (db_schedules d') = map s_id (db_schedules d)"
    by (simp add: d' map_upd_where advance_row_def)
  then have "s_id ` set (db_schedules d') = s_id ` set (db_schedules d)" by (metis list.set_map)
  moreover have "db_jobs d' = db_jobs d" by (simp add: d')
  ultimately show ?thesis by (simp add: advance_row_def)
qed

text \<open>A processed row never throws while its schedule exists, and moves the schedule on.\<close>

lemma process_row_spec:
  assumes inv: "db_inv d" and s: "d_id row \<in> s_id ` set (db_schedules d)" and law: "croner_law nextRun"
  shows "\<exists>c u d'. process_row nextRun alone now cnow row d = (Inr (c, u), d') \<and> db_inv d'
    \<and> c + u \<le> 1
    \<and> (\<exists>s'. schedule_at d' (d_id row) = Some s' \<and> cnow < s_next_run_at s')
    \<and> (\<forall>k. k \<noteq> d_id row \<longrightarrow> schedule_at d' k = schedule_at d k)
    \<and> s_id ` set (db_schedules d') = s_id ` set (db_schedules d)
    \<and> (c + u = 1 \<longrightarrow> (\<exists>!j. j \<in> set (db_jobs d') \<and> j_queue j = d_queue row
         \<and> j_idempotency_key j = Some (occurrenceKey (d_id row) (d_planned_for row))))"
proof -
  note moved = advance_moves [of _ row, where now = now]
  show ?thesis
  proof (cases "nextOccurrence nextRun (d_cron row) (d_timezone row) cnow")
    case (Inl e)
    obtain d' where a: "advance_to now (d_id row) (cnow + us_per_ms * 3600000) None d = (Inr (), d')"
      by (simp add: advance_to_eq)
    with moved [OF inv s a] Inl show ?thesis
      by (auto simp: process_row_def us_per_ms_def)
  next
    case (Inr nxt)
    with law have later: "cnow < nxt"
      by (auto simp: nextOccurrence_def croner_law_def split: sum.splits option.splits)
    show ?thesis
    proof (cases "shouldFire row cnow")
      case False
      obtain d' where a: "advance_to now (d_id row) nxt None d = (Inr (), d')"
        by (simp add: advance_to_eq)
      with moved [OF inv s a] Inr False later show ?thesis by (auto simp: process_row_def)
    next
      case True
      from insert_occurrence [OF inv s, of now] obtain ids d1 where
        ins: "insertJob now (occurrence_row row) d = Inr (ids, d1)" "db_inv d1"
        "db_schedules d1 = db_schedules d"
        "\<exists>!j. j \<in> set (db_jobs d1) \<and> j_queue j = d_queue row
         \<and> j_idempotency_key j = Some (occurrenceKey (d_id row) (d_planned_for row))" by blast
      obtain d' where a: "advance_to now (d_id row) nxt (case ids of [] \<Rightarrow> None | i # _ \<Rightarrow> Some i) d1
          = (Inr (), d')" by (simp add: advance_to_eq)
      have s1: "d_id row \<in> s_id ` set (db_schedules d1)" using s ins(3) by simp
      from moved [OF ins(2) s1 a] later have "\<exists>s'. schedule_at d' (d_id row) = Some s' \<and> cnow < s_next_run_at s'"
        by blast
      with moved [OF ins(2) s1 a] Inr True ins a show ?thesis
        by (simp add: process_row_def)
    qed
  qed
qed

text \<open>An occurrence whose job is there already creates no other.\<close>

definition occurrence_stored :: "db \<Rightarrow> due_row \<Rightarrow> bool" where
  "occurrence_stored d row \<longleftrightarrow> (\<exists>j \<in> set (db_jobs d). j_queue j = d_queue row
     \<and> j_idempotency_key j = Some (occurrenceKey (d_id row) (d_planned_for row)))"

lemma process_row_stored:
  assumes "occurrence_stored d row"
    and "process_row nextRun alone now cnow row d = (Inr (c, u), d')"
  shows "c = 0"
proof -
  let ?r = "occurrence_row row"
  have "conflicts (db_jobs d) (new_job now ?r (db_job_seq d))"
    using assms(1) by (auto simp: new_conflict_iff occurrence_stored_def occurrence_row_def)
  from insertJob_conflict [OF this] occurrence_row_admissible
  have "insertJob now ?r d = Inr ([], d\<lparr>db_job_seq := Suc (db_job_seq d)\<rparr>)" by simp
  with assms(2) show ?thesis
    by (auto simp: process_row_def advance_to_eq split: sum.splits if_splits)
qed

text \<open>Two schedulers that process the same due row, one after the other, create one job at most.\<close>

lemma process_row_twice:
  assumes inv: "db_inv d" and s: "d_id row \<in> s_id ` set (db_schedules d)" and law: "croner_law nextRun"
    and r1: "process_row nextRun alone now cnow row d = (Inr (c, u), d1)"
    and r2: "process_row nextRun alone now' cnow' row d1 = (Inr (c', u'), d2)"
  shows "c + c' \<le> 1"
proof (cases "c = 0")
  case True
  from process_row_spec [OF inv s law, of now cnow] r1
  have "db_inv d1" "d_id row \<in> s_id ` set (db_schedules d1)" using s by auto
  from process_row_spec [OF this law, of now' cnow'] r2 True show ?thesis by auto
next
  case False
  with process_row_spec [OF inv s law, of now cnow] r1 have c: "c + u = 1" by auto
  with process_row_spec [OF inv s law, of now cnow] r1 have "occurrence_stored d1 row"
    unfolding occurrence_stored_def by (simp, elim conjE) blast
  from process_row_stored [OF this r2] c show ?thesis by simp
qed

lemma process_rows_spec:
  assumes "db_inv d" and "\<forall>r \<in> set rows. d_id r \<in> s_id ` set (db_schedules d)"
    and "distinct (map d_id rows)" and law: "croner_law nextRun"
  shows "\<exists>c u d'. process_rows nextRun alone now clock n rows d = (Inr (c, u), d') \<and> db_inv d'
    \<and> c + u \<le> length rows
    \<and> (\<forall>k. k \<notin> d_id ` set rows \<longrightarrow> schedule_at d' k = schedule_at d k)
    \<and> (\<forall>m < length rows. \<exists>s'. schedule_at d' (d_id (rows ! m)) = Some s'
         \<and> clock (n + m) < s_next_run_at s')"
  using assms(1-3)
proof (induction rows arbitrary: n d)
  case Nil
  then show ?case by simp
next
  case (Cons r rows)
  from process_row_spec [OF Cons.prems(1) _ law, of r now "clock n"] Cons.prems(2)
  obtain c u d1 where p: "process_row nextRun alone now (clock n) r d = (Inr (c, u), d1)" "db_inv d1"
    "c + u \<le> 1" "\<exists>s'. schedule_at d1 (d_id r) = Some s' \<and> clock n < s_next_run_at s'"
    "\<forall>k. k \<noteq> d_id r \<longrightarrow> schedule_at d1 k = schedule_at d k"
    "s_id ` set (db_schedules d1) = s_id ` set (db_schedules d)" by auto
  have pre: "\<forall>r \<in> set rows. d_id r \<in> s_id ` set (db_schedules d1)" "distinct (map d_id rows)"
    using Cons.prems(2,3) p(6) by auto
  from Cons.IH [OF p(2) pre, of "Suc n"] obtain c' u' d' where
    q: "process_rows nextRun alone now clock (Suc n) rows d1 = (Inr (c', u'), d')" "db_inv d'"
    "c' + u' \<le> length rows" "\<forall>k. k \<notin> d_id ` set rows \<longrightarrow> schedule_at d' k = schedule_at d1 k"
    "\<forall>m < length rows. \<exists>s'. schedule_at d' (d_id (rows ! m)) = Some s'
         \<and> clock (Suc n + m) < s_next_run_at s'" by blast
  have fresh: "d_id r \<notin> d_id ` set rows" using Cons.prems(3) by simp
  have each: "\<exists>s'. schedule_at d' (d_id ((r # rows) ! m)) = Some s' \<and> clock (n + m) < s_next_run_at s'"
    if "m < length (r # rows)" for m
  proof (cases m)
    case 0
    with p(4) q(4) fresh show ?thesis by auto
  next
    case (Suc k)
    with that q(5) show ?thesis by simp
  qed
  have "process_rows nextRun alone now clock n (r # rows) d = (Inr (c + c', u + u'), d')"
    using p(1) q(1) by simp
  moreover have "c + c' + (u + u') \<le> length (r # rows)" using p(3) q(3) by simp
  moreover have "\<forall>k. k \<notin> d_id ` set (r # rows) \<longrightarrow> schedule_at d' k = schedule_at d k"
    using q(4) p(5) by simp
  ultimately show ?case using q(2) each by blast
qed

text \<open>The due rows of a claim are distinct schedules that exist.\<close>

lemma claimDue_eq:
  "claimDueSchedules now locked n d =
     Inr (map due_returning (map (claim_schedule_row now)
            (filter (\<lambda>s. s_id s \<in> set (due_ids now locked n d)) (db_schedules d))),
       d\<lparr>db_schedules := upd_where (\<lambda>s. s_id s \<in> set (due_ids now locked n d))
            (claim_schedule_row now) (db_schedules d)\<rparr>)"
  by (simp add: claimDueSchedules_def returning_def update_schedules_def)

lemma claimDue_rows:
  assumes "db_inv d" and "claimDueSchedules now locked n d = Inr (due, d')"
  shows "distinct (map d_id due)" "\<forall>r \<in> set due. d_id r \<in> s_id ` set (db_schedules d')"
    "d_id ` set due = set (due_ids now locked n d)"
proof -
  let ?f = "filter (\<lambda>s. s_id s \<in> set (due_ids now locked n d)) (db_schedules d)"
  have due: "map d_id due = map s_id ?f"
    using assms(2) by (auto simp: claimDue_eq due_returning_def claim_schedule_row_def)
  show "distinct (map d_id due)"
    unfolding due using assms(1) by (simp add: db_inv_def distinct_map_filter)
  have ids: "map s_id (db_schedules d') = map s_id (db_schedules d)"
    using assms(2) by (auto simp: claimDue_eq map_upd_where claim_schedule_row_def)
  have "d_id ` set due = s_id ` set ?f" by (metis due list.set_map)
  moreover have "s_id ` set (db_schedules d') = s_id ` set (db_schedules d)" by (metis ids list.set_map)
  ultimately show "\<forall>r \<in> set due. d_id r \<in> s_id ` set (db_schedules d')" by auto
  have "set (due_ids now locked n d) \<subseteq> s_id ` set (db_schedules d)"
    using set_order_limit_subset by (fastforce simp: due_ids_def)
  with \<open>d_id ` set due = s_id ` set ?f\<close> show "d_id ` set due = set (due_ids now locked n d)" by auto
qed

lemma tick_spec:
  assumes inv: "db_inv d" and law: "croner_law nextRun" and clock: "\<forall>m. t0 \<le> clock m"
  shows "\<exists>r d'. tick nextRun alone now clock locked n d = (Inr r, d') \<and> db_inv d'
    \<and> tr_processed r = min n (length (filter (schedule_due now locked) (db_schedules d)))
    \<and> tr_created r + tr_deduplicated r \<le> tr_processed r
    \<and> (\<forall>i \<in> set (due_ids now locked n d). \<exists>s'. schedule_at d' i = Some s' \<and> t0 < s_next_run_at s')"
proof -
  obtain due d1 where c: "claimDueSchedules now locked n d = Inr (due, d1)"
    by (simp add: claimDue_eq)
  note R = claimDue_rows [OF inv c]
  have inv1: "db_inv d1" by (rule claim_due.inv [OF inv c])
  from process_rows_spec [OF inv1 R(2,1) law, of now clock 0] obtain a u d' where
    p: "process_rows nextRun alone now clock 0 due d1 = (Inr (a, u), d')" "db_inv d'"
    "a + u \<le> length due" "\<forall>m < length due. \<exists>s'. schedule_at d' (d_id (due ! m)) = Some s'
         \<and> clock (0 + m) < s_next_run_at s'" by blast
  have dd: "distinct (due_ids now locked n d)"
    unfolding due_ids_def
    by (rule distinct_map_order_limit) (use inv in \<open>simp add: db_inv_def distinct_map_filter\<close>)
  have "length due = card (d_id ` set due)" using distinct_card [OF R(1)] by simp
  also have "\<dots> = length (due_ids now locked n d)" unfolding R(3) by (rule distinct_card [OF dd])
  finally have "length due = length (due_ids now locked n d)" .
  then have len: "length due = min n (length (filter (schedule_due now locked) (db_schedules d)))"
    by (simp add: due_ids_def)
  have moved: "\<exists>s'. schedule_at d' i = Some s' \<and> t0 < s_next_run_at s'"
    if "i \<in> set (due_ids now locked n d)" for i
  proof -
    have "i \<in> d_id ` set due" using that R(3) by simp
    then obtain r where "r \<in> set due" "d_id r = i" by (elim imageE) simp
    then obtain m where "m < length due" "d_id (due ! m) = i" by (metis in_set_conv_nth)
    with p(4) clock show ?thesis by (metis le_less_trans)
  qed
  have "tick nextRun alone now clock locked n d =
      (Inr \<lparr>tr_processed = length due, tr_created = a, tr_deduplicated = u\<rparr>, d')"
    using c p(1) by (simp add: tick_def)
  with p(2,3) len moved show ?thesis by simp
qed

end
