(* ===== verification/App.thy ===== *)
theory App
  imports Runtime Routes Events
begin

text \<open>
  The assembly of the server, packages/server/src/app.ts and packages/server/src/main.ts: the
  middleware in front of the routes in its order (cross-origin headers, authentication, rate
  limit, routes), the readiness probe, the start of the process and the broadcast of snapshots.
  Express, helmet and the rate limiter are libraries: the limiter is the parameter \<open>allows\<close>, which
  decides on the key the code gives it. The description page and the metrics endpoint are left out.
\<close>

subsection \<open>Cross-origin requests\<close>

definition allowed_origin :: "string \<Rightarrow> string option \<Rightarrow> string option" where
  "allowed_origin corsOrigin origin =
     (case origin of
        None \<Rightarrow> None
      | Some o' \<Rightarrow> if corsOrigin = ''*'' \<or> o' = corsOrigin then Some o' else None)"

definition cors_headers :: "string \<Rightarrow> string option \<Rightarrow> (string \<times> string) list" where
  "cors_headers corsOrigin origin =
     (case allowed_origin corsOrigin origin of
        None \<Rightarrow> []
      | Some o' \<Rightarrow>
          [(''Access-Control-Allow-Origin'', o'), (''Vary'', ''Origin''),
           (''Access-Control-Allow-Methods'', ''GET,POST,DELETE,OPTIONS''),
           (''Access-Control-Allow-Headers'', ''Authorization,Content-Type,traceparent''),
           (''Access-Control-Max-Age'', ''600'')])"

text \<open>An OPTIONS request is answered here, whatever its path; any other passes on.\<close>

definition cors ::
  "string \<Rightarrow> string \<Rightarrow> string option \<Rightarrow> ('s \<Rightarrow> 'b response \<times> 's) \<Rightarrow> 's
   \<Rightarrow> (string \<times> string) list \<times> (nat + 'b response) \<times> 's" where
  "cors corsOrigin meth origin rest st =
     (let hs = cors_headers corsOrigin origin
      in if meth = ''OPTIONS'' then (hs, Inl 204, st)
         else let (r, st') = rest st in (hs, Inr r, st'))"

subsection \<open>Readiness\<close>

datatype readiness = Ready | Not_ready "thrown + migration_error"

definition ready_route ::
  "(string \<Rightarrow> string) \<Rightarrow> (string \<times> string) list option \<Rightarrow> thrown option \<Rightarrow> 's schema_db
   \<Rightarrow> (nat \<times> readiness) \<times> 's schema_db" where
  "ready_route digest dir ping sd =
     (case ping of
        Some e \<Rightarrow> ((503, Not_ready (Inl e)), sd)
      | None \<Rightarrow>
          (case assertSchemaCurrent digest dir sd of
             (Inl e, sd') \<Rightarrow> ((503, Not_ready (Inr e)), sd')
           | (Inr _, sd') \<Rightarrow> ((200, Ready), sd')))"

subsection \<open>The versioned API\<close>

text \<open>The key of the rate limiter: that of the caller, or the (normalised) address.\<close>

definition limit_key :: "caller \<Rightarrow> string \<Rightarrow> string" where
  "limit_key rec ip = (case rec of None \<Rightarrow> ip | Some r \<Rightarrow> show_nat (kr_id r))"

definition v1 ::
  "hasher \<Rightarrow> instant \<Rightarrow> instant \<Rightarrow> (string \<Rightarrow> bool) \<Rightarrow> string \<Rightarrow> string option
   \<Rightarrow> (caller \<Rightarrow> client \<times> db \<Rightarrow> 'b response \<times> client \<times> db) \<Rightarrow> client \<times> db \<Rightarrow> 'b response \<times> client \<times> db" where
  "v1 hash now cnow allows ip header route st =
     (case requireAuth hash now cnow header (snd st) of
        (Inl e, d') \<Rightarrow> (failed e, fst st, d')
      | (Inr r, d') \<Rightarrow>
          if \<not> allows (limit_key (Some r) ip) then (Failed 429 RATE_LIMITED, fst st, d')
          else route (Some r) (fst st, d'))"

text \<open>A route that needs the database only.\<close>

definition on_db :: "(db \<Rightarrow> 'b response \<times> db) \<Rightarrow> client \<times> db \<Rightarrow> 'b response \<times> client \<times> db" where
  "on_db f st = (let (r, d') = f (snd st) in (r, fst st, d'))"

subsection \<open>The process\<close>

record api =
  ap_client :: client
  ap_reaper :: "reaper option"
  ap_scheduler :: "scheduler option"
  ap_retention :: "retention option"
  ap_events :: event_stream

datatype api_error = Api_start start_error | Key_missing

definition api_start ::
  "hasher \<Rightarrow> instant \<Rightarrow> (string \<Rightarrow> string) \<Rightarrow> (string \<times> string) list option \<Rightarrow> (nat \<Rightarrow> thrown option)
   \<Rightarrow> config \<Rightarrow> 's schema_db \<Rightarrow> db \<Rightarrow> (api_error + api) \<times> 's schema_db \<times> db" where
  "api_start hash now digest dir ping c sd d =
     (let built = \<lparr>ap_client = client_of c,
            ap_reaper = (if cf_reaperEnabled c then Some (start_reaper (reaper_of c)) else None),
            ap_scheduler = (if cf_schedulerEnabled c then Some (start_scheduler (scheduler_of c)) else None),
            ap_retention = (if cf_retentionEnabled c then Some (start_retention (retention_of c)) else None),
            ap_events = new_stream (nat (cf_sseMaxSubscribers c))\<rparr>
      in case waitForDatabase ping 30 of
           Connected _ \<Rightarrow>
             (case assertSchemaCurrent digest dir sd of
                (Inl e, sd') \<Rightarrow> (Inl (Api_start (Wrong_schema e)), sd', d)
              | (Inr _, sd') \<Rightarrow>
                  (case cf_apiBootstrapKey c of
                     Some k \<Rightarrow>
                       if 0 < length k then (Inr built, sd', ensureBootstrapKey hash now k d)
                       else if cf_nodeEnv c = Production then (Inl Key_missing, sd', d)
                       else (Inr built, sd', d)
                   | None \<Rightarrow>
                       if cf_nodeEnv c = Production then (Inl Key_missing, sd', d) else (Inr built, sd', d)))
         | w \<Rightarrow> (Inl (Api_start (No_database w)), sd, d))"

text \<open>
  The snapshot timer: nothing is read while no one listens. \<open>render\<close> gives the frame of the
  event (the JSON text of the numbers is the platform's).
\<close>

record queue_snapshot =
  sn_queue :: string
  sn_counts :: "job_state \<Rightarrow> nat option"
  sn_oldestWait :: int

definition snapshot :: "instant \<Rightarrow> db \<Rightarrow> queue_snapshot list" where
  "snapshot now d =
     map (\<lambda>q. \<lparr>sn_queue = q, sn_counts = coalesce (queue_stats d q) (\<lambda>_. None),
            sn_oldestWait = coalesce (map_option ql_oldest_wait (row_of ql_queue q (queueLag now d))) 0\<rparr>)
       (remdups (map fst (queueStats d)))"

definition snapshot_tick ::
  "instant \<Rightarrow> (queue_snapshot list \<Rightarrow> string) \<Rightarrow> (nat \<Rightarrow> bool) \<Rightarrow> db \<Rightarrow> event_stream \<Rightarrow> event_stream" where
  "snapshot_tick now render slow d s =
     (if subscriberCount s = 0 then s else publish slow (render (snapshot now d)) s)"

subsection \<open>What the assembly guarantees\<close>

definition presented :: "string option \<Rightarrow> string option" where
  "presented header =
     (case header of
        None \<Rightarrow> None
      | Some h \<Rightarrow> if is_prefix bearer h then Some (trim (drop (length bearer) h)) else None)"

text \<open>The record of a presented key that lets a request in.\<close>

definition admits :: "hasher \<Rightarrow> instant \<Rightarrow> string option \<Rightarrow> db \<Rightarrow> api_key \<Rightarrow> bool" where
  "admits hash cnow header d k \<longleftrightarrow>
     (\<exists>key. presented header = Some key \<and> is_prefix PREFIX key
        \<and> k \<in> set (db_keys d) \<and> k_hash k = hash key \<and> live_key cnow k)"

lemma authenticate_state:
  assumes "keys_inv d" and "k \<in> set (db_keys d)" and "k_hash k = hash key"
    and "is_prefix PREFIX key" and "live_key cnow k"
  shows "authenticate hash now cnow key d = (Some (record_of_key k), touch_key now (k_id k) d)"
proof -
  have "keys_with_hash (hash key) d = [k]" using keys_with_hash_single [OF assms(1,2)] assms(3) by simp
  with assms(3-5) show ?thesis by (auto simp: authenticate_def live_key_def not_le split: option.splits)
qed

lemma authenticate_refused:
  assumes "fst (authenticate hash now cnow key d) = None"
  shows "authenticate hash now cnow key d = (None, d)"
  using assms by (auto simp: authenticate_def split: list.splits option.splits if_splits)

lemma v1_refused:
  assumes "keys_inv d" and "\<forall>k. \<not> admits hash cnow header d k"
  shows "v1 hash now cnow allows ip header route (cl, d) = (Failed 401 UNAUTHENTICATED, cl, d)"
proof (cases "presented header")
  case None
  then show ?thesis
    by (auto simp: v1_def presented_def requireAuth_def failed_def plain_error_def split: option.splits if_splits)
next
  case (Some key)
  then obtain h where h: "header = Some h" "is_prefix bearer h" "key = trim (drop (length bearer) h)"
    by (auto simp: presented_def split: option.splits if_splits)
  from assms Some have "fst (authenticate hash now cnow key d) \<noteq> Some r" for r
    unfolding authenticate_iff [OF assms(1)] admits_def by blast
  then have "authenticate hash now cnow key d = (None, d)"
    by (intro authenticate_refused) (metis not_None_eq)
  with h show ?thesis by (simp add: v1_def requireAuth_def failed_def plain_error_def)
qed

lemma v1_admitted:
  assumes "keys_inv d" and "admits hash cnow header d k"
  shows "v1 hash now cnow allows ip header route (cl, d) =
    (if allows (show_nat (k_id k)) then route (Some (record_of_key k)) (cl, touch_key now (k_id k) d)
     else (Failed 429 RATE_LIMITED, cl, touch_key now (k_id k) d))"
proof -
  obtain key where key: "presented header = Some key" "is_prefix PREFIX key" "k \<in> set (db_keys d)"
    "k_hash k = hash key" "live_key cnow k"
    using assms(2) by (auto simp: admits_def)
  then obtain h where h: "header = Some h" "is_prefix bearer h" "key = trim (drop (length bearer) h)"
    by (auto simp: presented_def split: option.splits if_splits)
  note a = authenticate_state [where hash = hash and key = key, OF assms(1) key(3,4,2,5), of now]
  have "requireAuth hash now cnow header d
      = (Inr (record_of_key k) :: unit error_response + api_key_record, touch_key now (k_id k) d)"
    using h(1,2) a [unfolded h(3)] by (simp add: requireAuth_def)
  then show ?thesis by (simp add: v1_def limit_key_def record_of_key_def)
qed

text \<open>An origin is never echoed unless it is the configured one or every one is allowed.\<close>

lemma cors_headers_origin:
  "cors_headers corsOrigin origin \<noteq> [] \<longleftrightarrow>
    (\<exists>x. origin = Some x \<and> (corsOrigin = ''*'' \<or> x = corsOrigin))"
  by (auto simp: cors_headers_def allowed_origin_def split: option.splits)

text \<open>The probe agrees with the gate of the start: it is 200 exactly when both gates are open.\<close>

lemma ready_iff:
  "fst (fst (ready_route digest dir ping sd)) = 200 \<longleftrightarrow>
    ping = None \<and> (\<exists>v. fst (assertSchemaCurrent digest dir sd) = Inr v)"
  by (auto simp: ready_route_def split: option.splits prod.splits sum.splits)

text \<open>
  A production server never starts without a bootstrap key, even if the configuration was not
  validated; started with one of the right form, it has a caller that is let in.
\<close>

lemma production_needs_key:
  assumes "api_start hash now digest dir ping c sd d = (Inr a, sd', d')" and "cf_nodeEnv c = Production"
  shows "\<exists>k. cf_apiBootstrapKey c = Some k \<and> 0 < length k"
  using assms by (auto simp: api_start_def Let_def split: wait_result.splits prod.splits sum.splits option.splits if_splits)

lemma snapshot_reaches_all:
  assumes "subscriberCount s \<noteq> 0"
  shows "ev_subscribers (snapshot_tick now render (\<lambda>_. False) d s)
    = map (write_frame (render (snapshot now d))) (ev_subscribers s)"
  using assms by (auto simp: snapshot_tick_def publish_def subscriberCount_def)

end
