(* ===== verification/Service_Samples.thy ===== *)
theory Service_Samples
  imports Client_Samples Intake_Laws Scheduler_Laws App
begin

text \<open>Concrete callers, requests, schedules and options the witnesses of the services evaluate on.\<close>

definition reader :: api_key_record where
  "reader = \<lparr>kr_id = 1, kr_name = ''r'', kr_scopes = [''read''], kr_queues = None\<rparr>"

definition first_page :: list_jobs_query where
  "first_page = \<lparr>lq_state = None, lq_type = None, lq_from = None, lq_to = None, lq_cursor = None,
     lq_limit = 1\<rparr>"

definition sample_backoff :: backoff_options where
  "sample_backoff = \<lparr>b_initialMs = 100, b_multiplier = 2, b_maxMs = 1000, b_jitter = Full\<rparr>"

definition sample_retention :: retention_options where
  "sample_retention = \<lparr>ret_batchMax = 1, ret_archive = False, ret_succeeded = 10, ret_dead = 10\<rparr>"

subsection \<open>A schedule\<close>

definition every_minute :: croner where
  "every_minute c z t = Inr (Some (t + 60000000))"

lemma every_minute_law: "croner_law every_minute"
  by (simp add: croner_law_def every_minute_def)

definition db_scheduled :: db where
  "db_scheduled = exec (Do_create_schedule 0 \<lparr>sp_name = ''s'', sp_queue = ''q'', sp_type = ''t'',
     sp_payload = JNull, sp_cron = ''* * * * *'', sp_timezone = ''UTC'', sp_catchupPolicy = Run_once,
     sp_enabled = True, sp_nextRunAt = 5\<rparr>) empty_db"

lemma reachable_scheduled: "reachable db_scheduled"
  unfolding db_scheduled_def by (intro reachable.intros)

definition sample_schedule :: schedule where
  "sample_schedule = \<lparr>s_id = 1, s_name = ''s'', s_queue = ''q'', s_type = ''t'', s_payload = JNull,
     s_cron = ''* * * * *'', s_timezone = ''UTC'', s_catchup_policy = Run_once, s_enabled = True,
     s_next_run_at = 5, s_last_run_at = None, s_last_job_id = None, s_updated_at = 0\<rparr>"

lemma scheduled_rows: "db_schedules db_scheduled = [sample_schedule]"
  by (simp add: db_scheduled_def sample_schedule_def commit_def createSchedule_def new_schedule_def
      Let_def empty_db_def)

subsection \<open>An archive\<close>

definition db_archiving :: db where
  "db_archiving = exec (Do_create_partition ''job_archive_1970_01'' ''1970-01-01'' ''1970-02-01'') db_dead"

lemma reachable_archiving: "reachable db_archiving"
  unfolding db_archiving_def by (rule reachable.Step [OF reachable_samples(1)])

lemma pad_dec_small: "pad_dec 2 n = [digit_char (n div 10 mod 10), digit_char (n mod 10)]"
    "pad_dec 4 n = [digit_char (n div 10 div 10 div 10 mod 10), digit_char (n div 10 div 10 mod 10),
       digit_char (n div 10 mod 10), digit_char (n mod 10)]"
proof -
  have w: "(2 :: nat) = Suc (Suc 0)" "(4 :: nat) = Suc (Suc (Suc (Suc 0)))" by simp_all
  show "pad_dec 2 n = [digit_char (n div 10 mod 10), digit_char (n mod 10)]" unfolding w(1) by simp
  show "pad_dec 4 n = [digit_char (n div 10 div 10 div 10 mod 10), digit_char (n div 10 div 10 mod 10),
      digit_char (n div 10 mod 10), digit_char (n mod 10)]"
    unfolding w(2) pad_dec.simps append_Nil append_Cons ..
qed

lemma epoch_utc: "utc_of 0 = \<lparr>u_year = 1970, u_month = 0, u_day = 1, u_ms = 0\<rparr>"
  by (simp add: utc_of_def split_year.simps [of 1970 0] year_days_def month_days_def)

lemma minute_utc: "u_year (utc_of 60000) = 1970"
  by (simp add: utc_of_def split_year.simps [of 1970 0] year_days_def month_days_def ms_per_day_def)

lemma epoch_day: "day_of 40 = ''1970-01-01''"
  by (simp add: day_of_def us_per_ms_def epoch_utc isoDate_of_def pad_dec_small digit_char_def char_of_def bit_0)

lemma archiving_eq: "db_archiving = db_dead\<lparr>db_partitions :=
    [\<lparr>p_name = ''job_archive_1970_01'', p_from = ''1970-01-01'', p_to = ''1970-02-01''\<rparr>]\<rparr>"
proof -
  have "db_partitions db_dead = []" by (simp add: db_dead_eq db_claimed_eq db_enqueued_eq empty_db_def)
  moreover have "''1970-01-01'' < (''1970-02-01'' :: string)" by (simp add: less_char_def)
  ultimately show ?thesis by (simp add: db_archiving_def commit_def create_partition_def)
qed

lemma archive_sample:
  "\<exists>rs d'. archiveTerminalJobs 40 {} (prune_params_of sample_retention) db_archiving = Inr (rs, d')"
  by (simp add: archiveTerminalJobs_def archiving_eq epoch_day covers_def delete_jobs_def
      less_char_def)

subsection \<open>A pool, keys, migrations and requests\<close>

definition sample_runner :: runner_options where
  "sample_runner = \<lparr>ro_workerId = ''w'', ro_heartbeatFraction = 1 / 2, ro_backoff = sample_backoff,
     ro_maxErrorHistory = 5, ro_maxErrorTextBytes = 100\<rparr>"

definition sample_pool :: pool where
  "sample_pool = Pool.start (new_pool [''q''] 1 10 sample_runner False)"

text \<open>The pool that executes the claimed sample job.\<close>

definition busy_pool :: pool where
  "busy_pool = spawn (toClaimedJob job_claimed) sample_pool"

lemma sample_pool_fields [simp]:
  "po_running sample_pool" "po_inFlight sample_pool = []" "po_deliveries sample_pool = []"
  "po_active sample_pool = []" "po_concurrency sample_pool = 1" "po_options sample_pool = sample_runner"
  by (simp_all add: sample_pool_def Pool.start_def new_pool_def)

lemma sample_pool_exact: "slots_exact sample_pool"
  by (simp add: slots_exact_def)

lemma busy_pool_exact: "slots_exact busy_pool"
  unfolding busy_pool_def by (rule spawn_exact(1) [OF sample_pool_exact]) simp

definition plain_hash :: hasher where
  "plain_hash s = map byte s"

definition db_with_key :: db where
  "db_with_key = snd (create plain_hash ''x'' 0 ''k'' [Scope_read] None None empty_db)"

lemma keys_with_key: "keys_inv db_with_key"
proof -
  have "keys_inv empty_db" by (simp add: keys_inv_def empty_db_def)
  then show ?thesis unfolding db_with_key_def by (rule create_inv) (rule surjective_pairing)
qed

definition sample_migrations :: "(string \<times> string) list option" where
  "sample_migrations = Some [(''1_a.sql'', ''x'')]"

definition blank_schema :: "unit schema_db" where
  "blank_schema = \<lparr>sd_schema = (), sd_applied = None\<rparr>"

lemma parse_sample: "parse_filename ''1_a.sql'' = Some (1, ''a'')"
  by (simp add: parse_filename_def Let_def ends_with_def is_digit_def byte_def)

lemma load_sample: "loadMigrations (\<lambda>s. s) sample_migrations = Inr
    [\<lparr>mg_version = 1, mg_name = ''a'', mg_filename = ''1_a.sql'', mg_sql = ''x'', mg_checksum = ''x''\<rparr>]"
  by (simp add: loadMigrations_def sample_migrations_def ends_with_def parse_sample)

lemma migrate_sample: "\<exists>r d'. migrateUp (\<lambda>s. s) (\<lambda>_. Some) sample_migrations blank_schema = (Inr r, d')"
  by (simp add: migrateUp_def load_sample blank_schema_def getApplied_def applied_of_def ensureTable_def
      changed_def apply_one_def)

definition sample_body :: enqueue_body where
  "sample_body = \<lparr>eb_type = ''t'', eb_payload = JNull, eb_options = None\<rparr>"

definition producer :: api_key_record where
  "producer = \<lparr>kr_id = 2, kr_name = ''p'', kr_scopes = [''enqueue''], kr_queues = Some [''q'']\<rparr>"

definition sample_environ :: environ where
  "sample_environ name = (if name = ''DATABASE_URL'' then Some ''x'' else None)"

definition no_route :: "caller \<Rightarrow> client \<times> db \<Rightarrow> unit response \<times> client \<times> db" where
  "no_route rec st = (Failed 404 JOB_NOT_FOUND, st)"

lemma trim_sample: "trim (PREFIX @ ''x'') = PREFIX @ ''x''"
  by (simp add: trim_def PREFIX_def is_space_def byte_def)

lemma admits_sample: "\<exists>k. k_id k = 1 \<and> admits plain_hash 1 (Some (bearer @ PREFIX @ ''x'')) db_with_key k"
  using trim_sample
  by (simp add: admits_def presented_def bearer_def db_with_key_def create_def Let_def generateKey_def
      insert_key_def empty_db_def live_key_def PREFIX_def)

definition sample_config :: config where
  "sample_config = snd (configSchema (\<lambda>_. None) sample_environ)"

lemma sample_config_loads: "loadConfig (\<lambda>_. None) sample_environ = Inr sample_config"
  by (simp add: loadConfig_def sample_config_def configSchema_def Let_def field_def sample_environ_def
      validateCrossField_def)

lemma sample_config_payload: "cf_maxPayloadBytes sample_config = 262144"
  by (simp add: sample_config_def configSchema_def Let_def field_def sample_environ_def)

definition sample_runtime :: runtime where
  "sample_runtime = createRuntime \<lparr>op_config = sample_config, op_registry = None, op_skipSchemaCheck = False\<rparr> ''w''"

lemma sample_runtime_idle: "\<not> rt_started sample_runtime"
  by (simp add: sample_runtime_def created_idle)

lemma token_claimed: "token_of ''w'' (toClaimedJob job_claimed) = sample_fence"
  by (simp add: token_of_def toClaimedJob_def sample_fence_def)

end
