(* ===== verification/Delivery_Laws.thy ===== *)
theory Delivery_Laws
  imports Samples
begin

text \<open>
  What the histories of the system (theory System) do to one job: which actions change its state,
  its attempt, or remove it, and under which condition of the row; how the claim order and the
  retry bookkeeping come out in the table.
\<close>

subsection \<open>State changes\<close>

lemma step_change:
  assumes "db_inv d" and "job_at d i = Some j" and "job_at (exec a d) i = Some j'"
    and "j_state j \<noteq> j_state j'"
  shows "\<exists>l \<in> labels_of a. canTransition (j_state j) (j_state j')
    \<and> (\<forall>r. reason_of l = Some r \<longrightarrow> (j_state j, j_state j', r) \<in> set REASONS)
    \<and> (reason_of l = None \<longrightarrow> (\<exists>w k. l = L_release w k))"
proof -
  from exec_row_step [OF assms(1-3)] obtain l where
    l: "l \<in> labels_of a" "life_step (Some (life_of j)) l (Some (life_of j'))" by blast
  have ne: "l_state (life_of j) \<noteq> l_state (life_of j')" using assms(4) by (simp add: life_of_def)
  have "canTransition (j_state j) (j_state j')"
    using life_step_permitted [OF l(2) ne] by (simp add: life_of_def)
  moreover have "(j_state j, j_state j', r) \<in> set REASONS" if "reason_of l = Some r" for r
    using life_step_reason [OF l(2) that] by (simp add: life_of_def)
  moreover have "\<exists>w k. l = L_release w k" if "reason_of l = None"
    by (rule life_step_unexplained [OF l(2) ne that])
  ultimately show ?thesis using l(1) by (intro bexI [of _ l]) simp_all
qed

text \<open>The action behind a release is \<open>releaseJob\<close>, behind a cancellation of a running job the acknowledgement.\<close>

lemma release_label: "L_release w k \<in> labels_of a \<Longrightarrow>
    \<exists>now p. a = Do_release now p \<and> f_workerId p = w \<and> f_attempt p = k"
  by (cases a) auto

lemma ack_label: "L_cancel_ack w k \<in> labels_of a \<Longrightarrow>
    \<exists>now p. a = Do_ack now p \<and> f_workerId p = w \<and> f_attempt p = k"
  by (cases a) auto

lemma claim_label: "L_claim w \<in> labels_of a \<Longrightarrow>
    \<exists>now locked p. cp_workerId p = w \<and> (a = Do_claim now locked p \<or> (\<exists>thr. a = Do_claim_aging now locked p thr))"
  by (cases a) auto

lemma running_to_cancelled:
  assumes inv: "db_inv d" and j: "job_at d i = Some j" "j_state j = Running"
    and j': "job_at (exec a d) i = Some j'" "j_state j' = Cancelled"
  shows "\<exists>now p. a = Do_ack now p \<and> owns p j \<and> j_cancel_requested_at j \<noteq> None"
proof -
  from exec_row_step [OF inv j(1) j'(1)] obtain l where
    l: "l \<in> labels_of a" "life_step (Some (life_of j)) l (Some (life_of j'))" by blast
  from life_step_cancel_needs_request [OF l(2)] j(2) j'(2)
  obtain w k where c: "j_cancel_requested_at j \<noteq> None" and lb: "l = L_cancel_ack w k"
    and o: "owned_by w k (life_of j)"
    by (auto simp: life_of_def)
  from ack_label l(1) lb obtain now p where a: "a = Do_ack now p" "f_workerId p = w" "f_attempt p = k"
    by blast
  have "f_id p = i"
  proof (rule ccontr)
    assume "f_id p \<noteq> i"
    moreover obtain rs d' where "acknowledgeCancellation now p d = Inr (rs, d')" "exec a d = d'"
    proof (cases "acknowledgeCancellation now p d")
      case (Inl e)
      then have "exec a d = d" by (simp add: a(1) commit_def)
      with j j' show thesis by simp
    next
      case (Inr x)
      with that show thesis by (cases x) (simp add: a(1) commit_def)
    qed
    ultimately have "job_at (exec a d) i = job_at d i" using ack.frame [OF inv] by metis
    with j j' show False by simp
  qed
  moreover have "j_id j = i" using db_inv_jobD [OF inv j(1)] by simp
  ultimately have "owns p j" using o a j(2) by (simp add: owned_by_def life_of_def owns_def)
  with a(1) c show ?thesis by blast
qed

subsection \<open>Attempts\<close>

text \<open>Short of a replay, the attempt goes up by one when the job starts running, and never else.\<close>

lemma step_attempt:
  assumes inv: "db_inv d" and nr: "\<not> is_replay a"
    and j: "job_at d i = Some j" and j': "job_at (exec a d) i = Some j'"
  shows "j_attempt j' = (if j_state j \<noteq> Running \<and> j_state j' = Running then j_attempt j + 1 else j_attempt j)
    \<and> j_attempt j' \<le> j_max_attempts j' \<and> j_max_attempts j' = j_max_attempts j"
proof -
  from exec_row_step [OF inv j j'] obtain l where
    l: "l \<in> labels_of a" "life_step (Some (life_of j)) l (Some (life_of j'))" by blast
  with nr have "l \<noteq> L_replay" by (auto simp: is_replay_def)
  moreover have "job_checks j'" using db_inv_jobD [OF exec_inv [OF inv] j'] by simp
  ultimately show ?thesis
    using l(2) by (auto simp: life_of_def owned_by_def job_checks_def elim!: life_step_SomeE split: if_splits)
qed

subsection \<open>Removal\<close>

definition may_remove :: "db \<Rightarrow> action \<Rightarrow> job \<Rightarrow> bool" where
  "may_remove d a j \<longleftrightarrow>
     (\<exists>locked q states n. a = Do_purge locked q states n \<and> j_queue j = q \<and> j_state j \<in> set states)
     \<or> (\<exists>now locked p. (a = Do_prune now locked p \<or> a = Do_archive now locked p)
          \<and> past_retention now locked p d j)"

lemma delete_jobs_gone:
  "delete_jobs P d = Inr (rs, d') \<Longrightarrow> j \<in> set (db_jobs d) \<Longrightarrow> j \<notin> set (db_jobs d') \<Longrightarrow> P j"
  by (auto simp: delete_jobs_def)

lemma delete_label: "L_delete \<in> labels_of a \<Longrightarrow>
    (\<exists>locked q states n. a = Do_purge locked q states n)
    \<or> (\<exists>now locked p. a = Do_prune now locked p \<or> a = Do_archive now locked p)"
  by (cases a) auto

lemma removed_why:
  assumes inv: "db_inv d" and j: "job_at d i = Some j" and gone: "job_at (exec a d) i = None"
  shows "may_remove d a j"
proof -
  have mem: "j \<in> set (db_jobs d)" "j_id j = i" using db_inv_jobD [OF inv j] by simp_all
  from gone mem have out: "j \<notin> set (db_jobs (exec a d))" by (auto simp: row_of_None_iff)
  from exec_refines [OF inv, of a i] j gone obtain l where
    "l \<in> labels_of a" "life_step (Some (life_of j)) l None" by (auto simp: life_at_def)
  then have "L_delete \<in> labels_of a" by (auto elim: life_step_SomeE)
  from delete_label [OF this] show ?thesis
  proof (elim disjE exE)
    fix locked q states n assume a: "a = Do_purge locked q states n"
    with out mem have "j_id j \<in> set (purge_victims locked q states n d)"
      by (auto simp: commit_def purge_bounded [OF inv])
    from purge_victim_match [OF inv mem(1) this] a show ?thesis by (auto simp: may_remove_def)
  next
    fix now locked p assume a: "a = Do_prune now locked p"
    with out mem have "j_id j \<in> set (retention_victims now locked p d)"
      by (auto simp: commit_def prune_lands)
    from retention_victim_past [OF inv mem(1) this] a show ?thesis by (auto simp: may_remove_def)
  next
    fix now locked p assume a: "a = Do_archive now locked p"
    obtain r d' where "archiveTerminalJobs now locked p d = Inr (r, d')" "exec a d = d'"
    proof (cases "archiveTerminalJobs now locked p d")
      case (Inl e)
      then have "exec a d = d" by (simp add: a commit_def)
      with mem out show thesis by simp
    next
      case (Inr x)
      with that show thesis by (cases x) (simp add: a commit_def)
    qed
    with archive_InrD(2) out mem have "j_id j \<in> set (retention_victims now locked p d)" by fastforce
    from retention_victim_past [OF inv mem(1) this] a show ?thesis by (auto simp: may_remove_def)
  qed
qed

subsection \<open>Claim order\<close>

lemma pick_least:
  assumes dist: "distinct (map j_id js)" and j: "j \<in> set js" "j_id j \<in> set (pick ord n P js)"
    and k: "k \<in> set js" "P k" "j_id k \<notin> set (pick ord n P js)"
  shows "ord j \<le> ord k"
proof -
  from j(2) obtain x where x: "x \<in> set (order_limit ord n (filter P js))" "j_id x = j_id j"
    by (auto simp: pick_def)
  then have "x \<in> set js" using set_order_limit_subset by fastforce
  with x(2) distinct_map_key_inj [OF dist j(1)] have "x = j" by metis
  with x(1) have jin: "j \<in> set (order_limit ord n (filter P js))" by simp
  moreover have "k \<notin> set (order_limit ord n (filter P js))" using k(3) by (auto simp: pick_def)
  ultimately show ?thesis using order_limit_least [of j ord n "filter P js" k] k(1,2) by simp
qed

lemma claim_with_order:
  assumes inv: "db_inv d" and ok: "claim_with ord now locked p d = Inr (rs, d')"
    and r: "r \<in> set rs" and k: "k \<in> set (db_jobs d)" "eligible now locked (cp_queue p) d k"
      "j_id k \<notin> j_id ` set rs"
  shows "\<exists>j. job_at d (j_id r) = Some j \<and> eligible now locked (cp_queue p) d j \<and> ord j \<le> ord k"
proof -
  from claim_with_row [OF inv ok r] obtain j where
    j: "job_at d (j_id r) = Some j" "eligible now locked (cp_queue p) d j" by blast
  from db_inv_jobD [OF inv j(1)] have m: "j \<in> set (db_jobs d)" "j_id j = j_id r" by simp_all
  note ids = claim_with_ids(1) [OF inv ok]
  have "j_id j \<in> set (claim_candidates ord now locked p d)"
    using r m(2) ids by (metis image_eqI list.set_map)
  moreover have "j_id k \<notin> set (claim_candidates ord now locked p d)" using k(3) ids by simp
  ultimately have "ord j \<le> ord k"
    unfolding claim_candidates_def
    using pick_least [where P = "eligible now locked (cp_queue p) d", OF db_inv_distinct [OF inv] m(1) _ k(1,2)]
    by blast
  with j show ?thesis by blast
qed

subsection \<open>Error history\<close>

lemma push_error_bound:
  "1 \<le> n \<Longrightarrow> int (length es) \<le> n \<Longrightarrow> int (length (push_error n e es)) \<le> n"
  by (auto simp: push_error_def)

lemma push_error_last: "last (push_error n e es) = e"
  by (simp add: push_error_def)

end
