(* ===== verification/Runner_Laws.thy ===== *)
theory Runner_Laws
  imports Runner Client_Laws
begin

text \<open>
  What a run's outcome says of the database: a report is accepted exactly when the fence holds at
  that moment, an outcome other than lost ownership is the state the job is left in, and the run
  never throws.
\<close>

definition env_ok :: "env \<Rightarrow> bool" where
  "env_ok env \<longleftrightarrow> (\<forall>n d. db_inv d \<longrightarrow> db_inv (env n d))"

lemma env_okD: "env_ok env \<Longrightarrow> db_inv d \<Longrightarrow> db_inv (env n d)"
  by (simp add: env_ok_def)

lemma alone_ok: "env_ok alone"
  by (simp add: env_ok_def)

subsection \<open>The statements of a report\<close>

lemma ownedE:
  assumes "owned d p"
  obtains j where "job_at d (f_id p) = Some j" "owns p j"
  using assms by (auto simp: owned_def split: option.splits)

lemma complete_query:
  assumes "db_inv d"
  shows "(owned d p \<and> (\<exists>d'. query (completeJob now p) d = Inr ([f_id p], d')
      \<and> reported p (complete_row now) d d'))
    \<or> (\<not> owned d p \<and> query (completeJob now p) d = Inr ([], d))"
proof (cases "owned d p")
  case True
  then obtain j where "job_at d (f_id p) = Some j" "owns p j" by (rule ownedE)
  with True completeJob_lands [OF assms this, of now] show ?thesis by auto
next
  case False
  with complete.rejected [OF assms] show ?thesis by simp
qed

lemma fail_query:
  assumes "db_inv d"
  shows "(owned d p \<and> (\<exists>d' j. query (failJob now q p) d = Inr ([fail_returning (fail_row now q j)], d')
      \<and> reported p (fail_row now q) d d' \<and> job_at d (f_id p) = Some j))
    \<or> (\<not> owned d p \<and> query (failJob now q p) d = Inr ([], d))"
proof (cases "owned d p")
  case True
  then obtain j where "job_at d (f_id p) = Some j" "owns p j" by (rule ownedE)
  with True failJob_lands [OF assms this, of now q] show ?thesis by auto
next
  case False
  with failing.rejected [OF assms] show ?thesis by simp
qed

definition cancel_pending :: "db \<Rightarrow> ident \<Rightarrow> bool" where
  "cancel_pending d i \<longleftrightarrow>
     (case job_at d i of None \<Rightarrow> False | Some j \<Rightarrow> j_cancel_requested_at j \<noteq> None)"

lemma ack_query:
  assumes "db_inv d"
  shows "(owned d p \<and> cancel_pending d (f_id p) \<and>
      (\<exists>d'. query (acknowledgeCancellation now p) d = Inr ([f_id p], d') \<and> reported p (ack_row now) d d'))
    \<or> (\<not> (owned d p \<and> cancel_pending d (f_id p)) \<and> query (acknowledgeCancellation now p) d = Inr ([], d))"
proof (cases "owned d p")
  case False
  with ack.rejected [OF assms] show ?thesis by simp
next
  case True
  then obtain j where j: "job_at d (f_id p) = Some j" "owns p j" by (rule ownedE)
  show ?thesis
  proof (cases "j_cancel_requested_at j = None")
    case True
    with j acknowledge_unrequested [OF assms j(1)] show ?thesis by (simp add: cancel_pending_def)
  next
    case False
    with j True acknowledge_lands [OF assms j False] show ?thesis by (auto simp: cancel_pending_def)
  qed
qed

subsection \<open>Outcomes\<close>

text \<open>What an outcome says of the database the run leaves.\<close>

definition outcome_holds ::
  "instant \<Rightarrow> fail_params \<Rightarrow> fence \<Rightarrow> run_outcome \<Rightarrow> db \<Rightarrow> bool" where
  "outcome_holds now q p out d' =
     (case out of
        O_succeeded \<Rightarrow> \<exists>d0. reported p (complete_row now) d0 d'
      | O_cancelled \<Rightarrow> \<exists>d0. reported p (ack_row now) d0 d' \<and> cancel_pending d0 (f_id p)
      | O_dead \<Rightarrow> \<exists>d0. reported p (fail_row now q) d0 d' \<and>
          (\<exists>j. job_at d' (f_id p) = Some j \<and> j_state j = Dead)
      | O_retried \<Rightarrow> \<exists>d0. reported p (fail_row now q) d0 d' \<and>
          (\<exists>j. job_at d' (f_id p) = Some j \<and> j_state j = Available)
      | O_ownership_lost \<Rightarrow> db_inv d')"

lemma fail_row_state: "j_state (fail_row now q j) = Dead \<or> j_state (fail_row now q j) = Available"
  by (simp add: row_defs)

lemma fail_outcome:
  assumes inv: "db_inv d0"
    and r: "fail_report now q p d0 = (r, d')"
  shows "\<exists>out. r = Inr out \<and> outcome_holds now q p out d' \<and> (out \<in> {O_dead, O_retried} \<longleftrightarrow> owned d0 p)
    \<and> (\<not> owned d0 p \<longrightarrow> out = O_ownership_lost \<and> d' = d0)"
  using fail_query [OF inv, of p now q]
proof
  assume "owned d0 p \<and> (\<exists>d' j. query (failJob now q p) d0 = Inr ([fail_returning (fail_row now q j)], d')
      \<and> reported p (fail_row now q) d0 d' \<and> job_at d0 (f_id p) = Some j)"
  then obtain d1 j where "owned d0 p"
    and q: "query (failJob now q p) d0 = Inr ([fail_returning (fail_row now q j)], d1)"
    and rep: "reported p (fail_row now q) d0 d1" and j: "job_at d0 (f_id p) = Some j" by blast
  from rep j have at: "job_at d1 (f_id p) = Some (fail_row now q j)" by (auto simp: reported_def)
  from q r have "d' = d1"
    and "r = Inr (if j_state (fail_row now q j) = Dead then O_dead else O_retried)"
    by (auto simp: fail_report_def fail_returning_def)
  with rep at fail_row_state [of now q j] \<open>owned d0 p\<close> show ?thesis
    by (auto simp: outcome_holds_def)
next
  assume "\<not> owned d0 p \<and> query (failJob now q p) d0 = Inr ([], d0)"
  with r inv show ?thesis by (auto simp: fail_report_def outcome_holds_def)
qed

lemma reportFailure_sound:
  assumes env: "env_ok env" and inv: "db_inv d"
    and r: "reportFailure env now cnow rand opts job e s d = (r, d')"
  defines "p \<equiv> token_of (ro_workerId opts) job"
    and "q \<equiv> fail_params_of cnow rand opts job (ru_timedOut s) e"
  shows "\<exists>out. r = Inr out \<and> outcome_holds now q p out d' \<and> out \<noteq> O_succeeded"
proof (cases "instance_of OwnershipLostError e")
  case True
  with r inv show ?thesis by (auto simp: reportFailure_def Let_def outcome_holds_def)
next
  case notlost: False
  have fail: "\<exists>out. r = Inr out \<and> outcome_holds now q p out d' \<and> out \<noteq> O_succeeded"
    if "db_inv d0" and "fail_report now q p d0 = (r, d')" for d0
    using fail_outcome [OF that] by (cases "owned d0 p") auto
  show ?thesis
  proof (cases "ru_cancelRequested s \<or> instance_of JobCancelledError e")
    case False
    with notlost r fail [OF env_okD [OF env inv, of 5]] show ?thesis
      by (simp add: reportFailure_def Let_def p_def q_def)
  next
    case True
    have inv0: "db_inv (env 4 d)" by (rule env_okD [OF env inv])
    from ack_query [OF inv0, of p now] show ?thesis
    proof
      assume "owned (env 4 d) p \<and> cancel_pending (env 4 d) (f_id p) \<and>
        (\<exists>d'. query (acknowledgeCancellation now p) (env 4 d) = Inr ([f_id p], d')
          \<and> reported p (ack_row now) (env 4 d) d')"
      then obtain d1 where "query (acknowledgeCancellation now p) (env 4 d) = Inr ([f_id p], d1)"
        and "reported p (ack_row now) (env 4 d) d1" and "cancel_pending (env 4 d) (f_id p)" by blast
      with True notlost r show ?thesis
        by (auto simp: reportFailure_def Let_def p_def outcome_holds_def)
    next
      assume "\<not> (owned (env 4 d) p \<and> cancel_pending (env 4 d) (f_id p)) \<and>
        query (acknowledgeCancellation now p) (env 4 d) = Inr ([], env 4 d)"
      with True notlost r fail [OF env_okD [OF env inv0, of 5]] show ?thesis
        by (simp add: reportFailure_def Let_def p_def q_def)
    qed
  qed
qed

text \<open>The parameters of the failure report a run can make.\<close>

lemma settle_sound:
  assumes env: "env_ok env" and inv: "db_inv d"
    and r: "settle env now cnow rand opts job res s d = (r, d')"
  shows "\<exists>out e. r = Inr out \<and> outcome_holds now (fail_params_of cnow rand opts job (ru_timedOut s) e)
    (token_of (ro_workerId opts) job) out d'"
proof (cases res)
  case (Threw e)
  with r have "reportFailure env now cnow rand opts job e s d = (r, d')"
    by (simp add: settle_def)
  from reportFailure_sound [OF env inv this] show ?thesis by blast
next
  case Returned
  let ?p = "token_of (ro_workerId opts) job"
  let ?q = "fail_params_of cnow rand opts job (ru_timedOut s)"
  have complete: "\<exists>out e. r = Inr out \<and> outcome_holds now (?q e) ?p out d'"
    if i: "db_inv d0" and "(case query (completeJob now ?p) d0 of
              Inl f \<Rightarrow> reportFailure env now cnow rand opts job (fault_thrown f) s d0
            | Inr ([], d1) \<Rightarrow> (Inr O_ownership_lost, d1)
            | Inr (_ # _, d1) \<Rightarrow> (Inr O_succeeded, d1)) = (r, d')" for d0
    using complete_query [OF i, of ?p now]
  proof
    assume "owned d0 ?p \<and> (\<exists>d'. query (completeJob now ?p) d0 = Inr ([f_id ?p], d')
      \<and> reported ?p (complete_row now) d0 d')"
    with that(2) have "r = Inr O_succeeded" and "reported ?p (complete_row now) d0 d'" by auto
    then show ?thesis by (auto simp: outcome_holds_def)
  next
    assume "\<not> owned d0 ?p \<and> query (completeJob now ?p) d0 = Inr ([], d0)"
    with that show ?thesis by (auto simp: outcome_holds_def)
  qed
  show ?thesis
  proof (cases "ru_cancelRequested s")
    case False
    with Returned r complete [OF env_okD [OF env inv, of 3]] show ?thesis
      by (simp add: settle_def Let_def)
  next
    case True
    have inv2: "db_inv (env 2 d)" by (rule env_okD [OF env inv])
    from ack_query [OF inv2, of ?p now] show ?thesis
    proof
      assume "owned (env 2 d) ?p \<and> cancel_pending (env 2 d) (f_id ?p) \<and>
        (\<exists>d'. query (acknowledgeCancellation now ?p) (env 2 d) = Inr ([f_id ?p], d')
          \<and> reported ?p (ack_row now) (env 2 d) d')"
      with True Returned r show ?thesis by (auto simp: settle_def Let_def outcome_holds_def; blast)
    next
      assume "\<not> (owned (env 2 d) ?p \<and> cancel_pending (env 2 d) (f_id ?p)) \<and>
        query (acknowledgeCancellation now ?p) (env 2 d) = Inr ([], env 2 d)"
      with True Returned r complete [OF env_okD [OF env inv2, of 3]] show ?thesis
        by (simp add: settle_def Let_def)
    qed
  qed
qed

text \<open>
  With no one in between, a run whose fence holds records its outcome, and a run whose fence is
  gone records nothing.
\<close>

lemma reportFailure_alone:
  assumes inv: "db_inv d" and r: "reportFailure alone now cnow rand opts job e s d = (r, d')"
  defines "p \<equiv> token_of (ro_workerId opts) job"
  shows "\<not> owned d p \<Longrightarrow> r = Inr O_ownership_lost \<and> d' = d"
    and "owned d p \<Longrightarrow> \<not> instance_of OwnershipLostError e \<Longrightarrow>
      \<exists>out. r = Inr out \<and> out \<in> {O_cancelled, O_dead, O_retried}"
proof -
  let ?q = "fail_params_of cnow rand opts job (ru_timedOut s) e"
  have fail: "(\<not> owned d p \<longrightarrow> fail_report now ?q p d = (Inr O_ownership_lost, d))
    \<and> (owned d p \<longrightarrow> (\<exists>out d1. fail_report now ?q p d = (Inr out, d1) \<and> out \<in> {O_dead, O_retried}))"
    using fail_outcome [OF inv, of now ?q p "fst (fail_report now ?q p d)" "snd (fail_report now ?q p d)"]
    by (cases "fail_report now ?q p d") auto
  show "\<not> owned d p \<Longrightarrow> r = Inr O_ownership_lost \<and> d' = d"
    using r fail ack_query [OF inv, of p now]
    by (auto simp: reportFailure_def Let_def p_def split: if_splits)
  show "owned d p \<Longrightarrow> \<not> instance_of OwnershipLostError e \<Longrightarrow>
      \<exists>out. r = Inr out \<and> out \<in> {O_cancelled, O_dead, O_retried}"
    using r fail ack_query [OF inv, of p now]
    by (auto simp: reportFailure_def Let_def p_def split: if_splits)
qed

lemma settle_alone:
  assumes inv: "db_inv d" and r: "settle alone now cnow rand opts job res s d = (r, d')"
  defines "p \<equiv> token_of (ro_workerId opts) job"
  shows "\<not> owned d p \<Longrightarrow> r = Inr O_ownership_lost \<and> d' = d"
    and "owned d p \<Longrightarrow> (\<forall>e. res = Threw e \<longrightarrow> \<not> instance_of OwnershipLostError e) \<Longrightarrow>
      \<exists>out. r = Inr out \<and> out \<noteq> O_ownership_lost"
proof -
  show "\<not> owned d p \<Longrightarrow> r = Inr O_ownership_lost \<and> d' = d"
    using r ack_query [OF inv, of p now] complete_query [OF inv, of p now]
      reportFailure_alone(1) [OF inv, of now cnow rand opts job _ s r d', folded p_def]
    by (cases res) (auto simp: settle_def Let_def p_def [symmetric] split: if_splits)
  show "owned d p \<Longrightarrow> (\<forall>e. res = Threw e \<longrightarrow> \<not> instance_of OwnershipLostError e) \<Longrightarrow>
      \<exists>out. r = Inr out \<and> out \<noteq> O_ownership_lost"
    using r ack_query [OF inv, of p now] complete_query [OF inv, of p now]
      reportFailure_alone(2) [OF inv, of now cnow rand opts job _ s r d', folded p_def]
    by (cases res) (fastforce simp: settle_def Let_def p_def [symmetric] split: if_splits)+
qed

subsection \<open>The whole run\<close>

definition event_ok :: "run_event \<Rightarrow> bool" where
  "event_ok ev \<longleftrightarrow> (\<forall>f. ev = Others f \<longrightarrow> (\<forall>d. db_inv d \<longrightarrow> db_inv (f d)))"

lemma doHeartbeat_inv:
  assumes "db_inv d" and "doHeartbeat now job w (s, d) = (e, s', d')"
  shows "db_inv d'"
  using assms heartbeat.keeps_inv [OF assms(1), of now "c_lease_seconds job" "token_of w job"]
  by (auto simp: doHeartbeat_def split: sum.splits list.splits if_splits)

text \<open>
  A beat that finds the fence gone aborts the handler; one that finds it valid renews the lease
  and learns of a cancellation request, and of nothing else.
\<close>

lemma doHeartbeat_lost:
  assumes "db_inv d" and "\<not> owned d (token_of w job)"
  shows "doHeartbeat now job w (s, d) = (Some ownership_lost, abort OwnershipLostError s, d)"
  using heartbeat.rejected [OF assms] by (simp add: doHeartbeat_def)

lemma doHeartbeat_owned:
  assumes "db_inv d" and "job_at d (c_id job) = Some j" and "owns (token_of w job) j"
  shows "\<exists>d'. doHeartbeat now job w (s, d) =
      (None, (if j_cancel_requested_at j \<noteq> None \<and> \<not> ru_cancelRequested s
              then abort JobCancelledError (s\<lparr>ru_cancelRequested := True\<rparr>) else s), d')
    \<and> reported (token_of w job) (heartbeat_row now (c_lease_seconds job)) d d'"
proof -
  have id: "f_id (token_of w job) = c_id job" by (simp add: token_of_def)
  from heartbeatJob_lands [OF assms(1), of "token_of w job" j now "c_lease_seconds job"] assms(2,3)
  obtain d' where "heartbeatJob now (c_lease_seconds job) (token_of w job) d =
      Inr ([heartbeat_returning (heartbeat_row now (c_lease_seconds job) j)], d')"
    and "reported (token_of w job) (heartbeat_row now (c_lease_seconds job)) d d'"
    by (auto simp: id)
  moreover have "heartbeat_returning (heartbeat_row now (c_lease_seconds job) j) =
      (Some (now + us_per_second * c_lease_seconds job), j_cancel_requested_at j)"
    by (simp add: heartbeat_returning_def row_defs)
  ultimately show ?thesis by (simp add: doHeartbeat_def)
qed

lemma run_event_inv:
  assumes "db_inv d" and "event_ok ev" and "run_event_step job w ev (s, d) = (s', d')"
  shows "db_inv d'"
proof (cases ev)
  case (Beat now)
  obtain e s1 d1 where b: "doHeartbeat now job w (s, d) = (e, s1, d1)" by (metis prod_cases3)
  with Beat assms(3) have "d' = d1" by simp
  with doHeartbeat_inv [OF assms(1) b] show ?thesis by simp
qed (use assms in \<open>auto simp: event_ok_def\<close>)

lemma run_events_inv:
  "db_inv d \<Longrightarrow> list_all event_ok evs \<Longrightarrow> run_events job w evs (s, d) = (s', d') \<Longrightarrow> db_inv d'"
proof (induction evs arbitrary: s d)
  case (Cons ev evs)
  obtain s1 d1 where e: "run_event_step job w ev (s, d) = (s1, d1)" by fastforce
  from run_event_inv [OF Cons.prems(1) _ e] Cons.prems(2) have "db_inv d1" by simp
  with Cons.IH [of d1 s1] Cons.prems(2,3) e show ?case by (simp add: run_events_def)
qed (simp add: run_events_def)

lemma run_job_sound:
  assumes "env_ok env" and "list_all event_ok evs" and inv: "db_inv d"
    and r: "run_job env now cnow rand opts reg job evs d = (r, d')"
  shows "\<exists>out b e. r = Inr out \<and> outcome_holds now (fail_params_of cnow rand opts job b e)
    (token_of (ro_workerId opts) job) out d'"
proof -
  obtain s d1 where e: "run_events job (ro_workerId opts) evs (run_start, d) = (s, d1)" by fastforce
  have inv1: "db_inv d1" by (rule run_events_inv [OF inv assms(2) e])
  from r e have "settle env now cnow rand opts job
      (run_handler reg (c_type job) (c_payload job)) s d1 = (r, d')"
    by (simp add: run_job_def)
  from settle_sound [OF assms(1) inv1 this] show ?thesis by blast
qed

end
