(* ===== verification/Metrics.thy ===== *)
theory Metrics
  imports Job_Types
begin

text \<open>
  packages/core/src/observability/metrics.ts: the bound on the label values a job type can take.
  The collectors of prom-client (counters, gauges, histograms, the text exposition) are a library
  and are not modelled. The set of known types keeps insertion order.
\<close>

definition OTHER :: string where
  "OTHER = ''other''"

record metrics =
  me_known :: "string list"
  me_maxKnown :: nat

definition new_metrics :: "string list option \<Rightarrow> nat option \<Rightarrow> metrics" where
  "new_metrics knownTypes maxKnownTypes =
     \<lparr>me_known = remdups (coalesce knownTypes []), me_maxKnown = coalesce maxKnownTypes 200\<rparr>"

definition labelType :: "string \<Rightarrow> metrics \<Rightarrow> string \<times> metrics" where
  "labelType ty m =
     (if ty \<in> set (me_known m) then (ty, m)
      else if length (me_known m) < me_maxKnown m then (ty, m\<lparr>me_known := me_known m @ [ty]\<rparr>)
      else (OTHER, m))"

text \<open>A sequence of calls: the labels handed out, in order.\<close>

fun label_all :: "string list \<Rightarrow> metrics \<Rightarrow> string list \<times> metrics" where
  "label_all [] m = ([], m)"
| "label_all (ty # tys) m =
     (let (l, m1) = labelType ty m; (ls, m2) = label_all tys m1 in (l # ls, m2))"

lemma labelType_known:
  assumes "labelType ty m = (l, m')" and "distinct (me_known m)"
  shows "set (me_known m) \<subseteq> set (me_known m')" and "l \<in> insert OTHER (set (me_known m'))"
    and "distinct (me_known m')" and "me_maxKnown m' = me_maxKnown m"
    and "length (me_known m') \<le> max (length (me_known m)) (me_maxKnown m)"
  using assms by (auto simp: labelType_def split: if_splits)

text \<open>A type that got its own label keeps it.\<close>

lemma labelType_stable:
  assumes "labelType ty m = (l, m')"
  shows "labelType ty m' = (l, m')"
  using assms by (auto simp: labelType_def split: if_splits)

lemma labelType_keeps:
  assumes "labelType ty m = (l, m')" and "t \<in> set (me_known m)"
  shows "labelType t m' = (t, m')"
  using assms by (auto simp: labelType_def split: if_splits)

lemma label_all_bound:
  assumes "label_all tys m = (ls, m')" and "distinct (me_known m)"
  shows "set ls \<subseteq> insert OTHER (set (me_known m')) \<and> set (me_known m) \<subseteq> set (me_known m')
    \<and> distinct (me_known m') \<and> length (me_known m') \<le> max (length (me_known m)) (me_maxKnown m)"
  using assms
proof (induction tys arbitrary: m ls m')
  case Nil
  then show ?case by simp
next
  case (Cons ty tys)
  obtain l m1 where l: "labelType ty m = (l, m1)" by fastforce
  obtain ks m2 where k: "label_all tys m1 = (ks, m2)" by fastforce
  note L = labelType_known [OF l Cons.prems(2)]
  from Cons.IH [OF k L(3)] L Cons.prems(1) l k show ?case
    by (auto simp: le_max_iff_disj max_def split: if_splits)
qed

lemma label_all_card:
  assumes "label_all tys m = (ls, m')" and "distinct (me_known m)"
  shows "card (set ls) \<le> Suc (max (length (me_known m)) (me_maxKnown m))"
proof -
  note B = label_all_bound [OF assms]
  have "card (set ls) \<le> card (insert OTHER (set (me_known m')))"
    using B by (intro card_mono) auto
  also have "\<dots> \<le> Suc (card (set (me_known m')))" by (rule card_insert_le_m1) auto
  also have "card (set (me_known m')) = length (me_known m')" using B by (simp add: distinct_card)
  finally show ?thesis using B by linarith
qed

end
