(* ===== verification/Chaos.thy ===== *)
theory Chaos
  imports Runtime
begin

text \<open>
  bench/chaos/effect.ts, bench/chaos/victim.ts, bench/chaos/kill-test.ts and
  bench/chaos/durability.ts: the harnesses that kill workers between a side effect and the report
  of it. The database of the harness is the queue's with two tables of its own, one row per
  delivery and one per applied effect. A worker process is a program counter; killing it removes
  the process and nothing else, which is what SIGKILL does. Creating and dropping the two tables,
  the polling of the parent and its output are not modelled.
\<close>

subsection \<open>The bookkeeping tables\<close>

datatype effect_mode = Idempotent | Naive

record execution =
  x_job :: ident
  x_attempt :: int
  x_worker :: string

record chaos =
  ch_db :: db
  ch_execution :: "execution list"
  ch_effect :: "ident list"

definition recordExecution :: "ident \<Rightarrow> int \<Rightarrow> string \<Rightarrow> chaos \<Rightarrow> chaos" where
  "recordExecution i attempt w s =
     s\<lparr>ch_execution := ch_execution s @ [\<lparr>x_job = i, x_attempt = attempt, x_worker = w\<rparr>]\<rparr>"

definition applyEffect :: "ident \<Rightarrow> effect_mode \<Rightarrow> chaos \<Rightarrow> chaos" where
  "applyEffect i mode s =
     (case mode of
        Idempotent \<Rightarrow> if i \<in> set (ch_effect s) then s else s\<lparr>ch_effect := ch_effect s @ [i]\<rparr>
      | Naive \<Rightarrow> s\<lparr>ch_effect := ch_effect s @ [i]\<rparr>)"

definition countExecutions :: "ident option \<Rightarrow> chaos \<Rightarrow> nat" where
  "countExecutions jobId s =
     (case jobId of
        Some i \<Rightarrow> length (filter (\<lambda>x. x_job x = i) (ch_execution s))
      | None \<Rightarrow> length (ch_execution s))"

definition countEffects :: "ident option \<Rightarrow> chaos \<Rightarrow> nat" where
  "countEffects jobId s =
     (case jobId of
        Some i \<Rightarrow> length (filter (\<lambda>x. x = i) (ch_effect s))
      | None \<Rightarrow> length (ch_effect s))"

subsection \<open>The worker process\<close>

definition flag_value :: "string \<Rightarrow> string list \<Rightarrow> string option" where
  "flag_value flag argv =
     (case dropWhile (\<lambda>a. a \<noteq> flag) argv of _ # v # _ \<Rightarrow> Some v | _ \<Rightarrow> None)"

datatype victim_mode = Drain | Single effect_mode

record victim_args =
  va_queue :: string
  va_mode :: victim_mode
  va_workerId :: string

text \<open>\<open>pid\<close> is the text of the process id, in the default name of the worker.\<close>

definition victim_parse :: "string \<Rightarrow> string list \<Rightarrow> victim_args" where
  "victim_parse pid argv =
     (let mode = coalesce (flag_value ''--mode'' argv) ''idempotent''
      in \<lparr>va_queue = coalesce (flag_value ''--queue'' argv) ''chaos'',
          va_mode = (if mode = ''drain'' then Drain
                     else Single (if mode = ''naive'' then Naive else Idempotent)),
          va_workerId = coalesce (flag_value ''--worker-id'' argv) (''victim-'' @ pid)\<rparr>)"

text \<open>
  Where the process stands: about to claim, holding a job before its execution is recorded,
  before its effect is applied, before it is completed, waiting forever, or gone with an exit
  code.
\<close>

datatype victim_pc =
    Looking
  | Holding claimed_job
  | Recorded claimed_job
  | Applied claimed_job
  | Hung
  | Exited nat

record process =
  pr_args :: victim_args
  pr_pc :: victim_pc

text \<open>One statement of the process; a statement that throws ends it with exit code 1.\<close>

definition victim_claims :: "instant \<Rightarrow> ident set \<Rightarrow> victim_args \<Rightarrow> chaos \<Rightarrow> victim_pc \<times> chaos" where
  "victim_claims now locked a s =
     (case query (claimJobs now locked
              \<lparr>cp_queue = va_queue a, cp_limit = 1, cp_workerId = va_workerId a\<rparr>) (ch_db s) of
        Inl _ \<Rightarrow> (Exited 1, s)
      | Inr ([], d) \<Rightarrow> (case va_mode a of Drain \<Rightarrow> Looking | Single _ \<Rightarrow> Exited 2, s\<lparr>ch_db := d\<rparr>)
      | Inr (job # _, d) \<Rightarrow> (Holding job, s\<lparr>ch_db := d\<rparr>))"

definition victim_completes :: "instant \<Rightarrow> string \<Rightarrow> claimed_job \<Rightarrow> chaos \<Rightarrow> victim_pc \<times> chaos" where
  "victim_completes now w job s =
     (case query (completeJob now (token_of w job)) (ch_db s) of
        Inl _ \<Rightarrow> (Exited 1, s)
      | Inr (_, d) \<Rightarrow> (Looking, s\<lparr>ch_db := d\<rparr>))"

definition victim_step :: "instant \<Rightarrow> ident set \<Rightarrow> victim_args \<Rightarrow> victim_pc \<Rightarrow> chaos \<Rightarrow> victim_pc \<times> chaos"
where
  "victim_step now locked a pc s =
     (case pc of
        Looking \<Rightarrow> victim_claims now locked a s
      | Holding job \<Rightarrow>
          (Recorded job, recordExecution (c_id job) (c_attempt job) (va_workerId a) s)
      | Recorded job \<Rightarrow>
          (case va_mode a of
             Drain \<Rightarrow> (Applied job, applyEffect (c_id job) Idempotent s)
           | Single mode \<Rightarrow> (Hung, applyEffect (c_id job) mode s))
      | Applied job \<Rightarrow> victim_completes now (va_workerId a) job s
      | Hung \<Rightarrow> (Hung, s)
      | Exited n \<Rightarrow> (Exited n, s))"

subsection \<open>Processes that come and go\<close>

text \<open>
  Any number of processes run at once, each statement of each at any time; a process is spawned
  and killed at any time, and \<open>Elsewhere\<close> is whatever others do to the queue: producers,
  operators, the reaper, other workers.
\<close>

datatype chaos_event =
    Spawn nat victim_args
  | Runs nat instant "ident set"
  | Killed nat
  | Elsewhere action

type_synonym harness = "(nat \<Rightarrow> process option) \<times> chaos"

fun chaos_step :: "chaos_event \<Rightarrow> harness \<Rightarrow> harness" where
  "chaos_step (Spawn p a) (procs, s) =
     (case procs p of
        None \<Rightarrow> (procs(p \<mapsto> \<lparr>pr_args = a, pr_pc = Looking\<rparr>), s)
      | Some _ \<Rightarrow> (procs, s))"
| "chaos_step (Runs p now locked) (procs, s) =
     (case procs p of
        None \<Rightarrow> (procs, s)
      | Some r \<Rightarrow>
          (let (pc, s') = victim_step now locked (pr_args r) (pr_pc r) s
           in (procs(p \<mapsto> r\<lparr>pr_pc := pc\<rparr>), s')))"
| "chaos_step (Killed p) (procs, s) = (procs(p := None), s)"
| "chaos_step (Elsewhere a) (procs, s) = (procs, s\<lparr>ch_db := exec a (ch_db s)\<rparr>)"

definition no_processes :: "nat \<Rightarrow> process option" where
  "no_processes p = None"

definition fresh_harness :: "db \<Rightarrow> harness" where
  "fresh_harness d = (no_processes, \<lparr>ch_db = d, ch_execution = [], ch_effect = []\<rparr>)"

subsection \<open>The kill test\<close>

text \<open>
  SQL \<open>LIKE\<close>: \<open>%\<close> stands for any text, \<open>_\<close> for any character (the patterns of the harnesses have
  no escapes).
\<close>

fun like :: "string \<Rightarrow> string \<Rightarrow> bool" where
  "like [] s = (s = [])"
| "like (p # ps) s =
     (if p = CHR ''%'' then list_ex (\<lambda>n. like ps (drop n s)) [0..<Suc (length s)]
      else case s of [] \<Rightarrow> False | c # cs \<Rightarrow> (p = CHR ''_'' \<or> p = c) \<and> like ps cs)"

definition cleanup_chaos :: "string \<Rightarrow> chaos \<Rightarrow> chaos" where
  "cleanup_chaos queuePrefix s =
     s\<lparr>ch_db := commit (delete_jobs (\<lambda>j. like (queuePrefix @ ''%'') (j_queue j))) (ch_db s),
       ch_execution := [], ch_effect := []\<rparr>"

definition mode_name :: "effect_mode \<Rightarrow> string" where
  "mode_name mode = (case mode of Idempotent \<Rightarrow> ''idempotent'' | Naive \<Rightarrow> ''naive'')"

definition chaos_queue :: "effect_mode \<Rightarrow> string" where
  "chaos_queue mode = ''chaos_'' @ mode_name mode"

definition LEASE_SECONDS :: int where
  "LEASE_SECONDS = 3"

definition chaos_backoff :: backoff_options where
  "chaos_backoff = \<lparr>b_initialMs = 1, b_multiplier = 1, b_maxMs = 1, b_jitter = No_jitter\<rparr>"

definition chaos_options :: enqueue_options where
  "chaos_options = \<lparr>o_priority = None, o_runAt = None, o_delaySeconds = None,
     o_maxAttempts = Some 5, o_leaseSeconds = Some LEASE_SECONDS, o_idempotencyKey = None,
     o_uniqueKey = None, o_metadata = None, o_traceContext = None\<rparr>"

text \<open>When the statements of a scenario run, and how many the victim gets to run before the kill.\<close>

record scenario_times =
  st_enqueue :: instant
  st_victim :: instant
  st_steps :: nat
  st_reap :: instant
  st_claim :: instant
  st_complete :: instant

fun victim_run :: "nat \<Rightarrow> instant \<Rightarrow> victim_args \<Rightarrow> victim_pc \<times> chaos \<Rightarrow> victim_pc \<times> chaos" where
  "victim_run 0 now a (pc, s) = (pc, s)"
| "victim_run (Suc n) now a (pc, s) = victim_run n now a (victim_step now {} a pc s)"

text \<open>
  The second half: a second worker claims the job and completes it. The result is the outcomes of
  the checks, in order.
\<close>

definition redeliver ::
  "effect_mode \<Rightarrow> scenario_times \<Rightarrow> string \<Rightarrow> ident \<Rightarrow> chaos \<Rightarrow> (fault + bool list) \<times> chaos" where
  "redeliver mode t q jobId s =
     (let w = ''redeliver-'' @ mode_name mode
      in case query (claimJobs (st_claim t) {} \<lparr>cp_queue = q, cp_limit = 1, cp_workerId = w\<rparr>) (ch_db s) of
           Inl f \<Rightarrow> (Inl f, s)
         | Inr ([], d1) \<Rightarrow> (Inr [False], s\<lparr>ch_db := d1\<rparr>)
         | Inr (job # _, d1) \<Rightarrow>
             (let s1 = applyEffect (c_id job) mode
                    (recordExecution (c_id job) (c_attempt job) w (s\<lparr>ch_db := d1\<rparr>))
              in case query (completeJob (st_complete t) (token_of w job)) (ch_db s1) of
                   Inl f \<Rightarrow> (Inl f, s1)
                 | Inr (rows, d2) \<Rightarrow>
                     (let s2 = s1\<lparr>ch_db := d2\<rparr>
                      in (Inr [True, c_attempt job = 2, length rows = 1,
                            countExecutions (Some jobId) s2 = 2,
                            map_option j_state (job_at d2 jobId) = Some Succeeded,
                            countEffects (Some jobId) s2
                              = (case mode of Idempotent \<Rightarrow> 1 | Naive \<Rightarrow> 2)],
                          s2))))"

text \<open>From the kill on: the job is still running, the reaper hands it back, a second worker runs it.\<close>

definition recover ::
  "effect_mode \<Rightarrow> scenario_times \<Rightarrow> string \<Rightarrow> ident \<Rightarrow> victim_pc \<Rightarrow> chaos \<Rightarrow> (fault + bool list) \<times> chaos"
where
  "recover mode t q jobId pc s =
     (let before = job_at (ch_db s) jobId;
          c1 = [map_option j_state before = Some Running, map_option j_attempt before = Some 1,
                case pc of Exited _ \<Rightarrow> False | _ \<Rightarrow> True,
                map_option j_state before = Some Running]
      in case reapOnce (st_reap t) {} 0 chaos_backoff 100 (ch_db s) of
           (Inl f, d1) \<Rightarrow> (Inl f, s\<lparr>ch_db := d1\<rparr>)
         | (Inr reaped, d1) \<Rightarrow>
             (let after = job_at d1 jobId;
                  c2 = [re_recovered reaped = 1, map_option j_state after = Some Available,
                        map_option j_attempt after = Some 1,
                        map_option j_worker_id after = Some None]
              in case redeliver mode t q jobId (s\<lparr>ch_db := d1\<rparr>) of
                   (Inl f, s') \<Rightarrow> (Inl f, s')
                 | (Inr c3, s') \<Rightarrow> (Inr (c1 @ c2 @ c3), s')))"

text \<open>An enqueue without a key always has an id, so the third branch is never taken.\<close>

definition runScenario ::
  "effect_mode \<Rightarrow> scenario_times \<Rightarrow> client \<Rightarrow> chaos \<Rightarrow> (fault + bool list) \<times> chaos" where
  "runScenario mode t cl s =
     (let q = chaos_queue mode;
          s0 = cleanup_chaos q s
      in case enqueue alone (st_enqueue t) (st_enqueue t) q ''chaos.job''
             (JObj [(''mode'', JStr (mode_name mode))]) chaos_options cl (ch_db s0) of
           (Inl f, _, d1) \<Rightarrow> (Inl f, s0\<lparr>ch_db := d1\<rparr>)
         | (Inr r, _, d1) \<Rightarrow>
             (case er_id r of
                None \<Rightarrow> (Inr [False], s0\<lparr>ch_db := d1\<rparr>)
              | Some jobId \<Rightarrow>
                  (let (pc, s1) = victim_run (st_steps t) (st_victim t)
                         \<lparr>va_queue = q, va_mode = Single mode, va_workerId = ''victim-'' @ mode_name mode\<rparr>
                         (Looking, s0\<lparr>ch_db := d1\<rparr>);
                       committed = 0 < countEffects (Some jobId) s1
                   in if \<not> committed then (Inr [True, False], s1)
                      else case recover mode t q jobId pc s1 of
                             (Inl f, s') \<Rightarrow> (Inl f, s')
                           | (Inr cs, s') \<Rightarrow> (Inr ([True, True] @ cs), s'))))"

end
