(* ===== verification/Chaos_Laws.thy ===== *)
theory Chaos_Laws
  imports Chaos Samples Dedup_Laws
begin

text \<open>
  What the harnesses of theory Chaos show. However workers are killed and whatever else happens to
  the queue, a job whose completion comes from a worker that applies its effect idempotently first
  has the effect exactly once; and the kill test passes.
\<close>

subsection \<open>Exactly one effect\<close>

definition succeeded :: "db \<Rightarrow> ident \<Rightarrow> bool" where
  "succeeded d i \<longleftrightarrow> map_option j_state (job_at d i) = Some Succeeded"

text \<open>A job becomes succeeded by a completion of its own, by nothing else.\<close>

lemma succeed_label: "L_succeed w k \<in> labels_of a \<Longrightarrow> \<exists>now p. a = Do_complete now p"
  by (cases a) auto

lemma succeeded_why:
  assumes inv: "db_inv d" and new: "succeeded (exec a d) i" and old: "\<not> succeeded d i"
  shows "\<exists>now p. a = Do_complete now p \<and> f_id p = i"
proof -
  from exec_refines [OF inv, of a i] new obtain l y where
    l: "l \<in> labels_of a" "life_step (life_at d i) l (Some y)" and y: "l_state y = Succeeded"
    by (auto simp: succeeded_def life_at_def life_of_def)
  moreover from old have "life_at d i \<noteq> Some x" if "l_state x = Succeeded" for x
    using that by (auto simp: succeeded_def life_at_def life_of_def)
  ultimately have "\<exists>w k. l = L_succeed w k"
    by (cases "life_at d i") (auto elim!: life_step_NoneE life_step_SomeE simp: owned_by_def)
  with l(1) succeed_label obtain now p where a: "a = Do_complete now p" by blast
  have "f_id p = i"
  proof (rule ccontr)
    assume ne: "f_id p \<noteq> i"
    have "job_at (exec a d) i = job_at d i"
    proof (cases "completeJob now p d")
      case (Inr x)
      then show ?thesis using complete.frame [OF inv, of now p] ne by (cases x) (simp add: a commit_def)
    qed (simp add: a commit_def)
    with new old show False by (simp add: succeeded_def)
  qed
  with a show ?thesis by blast
qed

text \<open>The state of a run: \<open>S\<close> are the jobs that had succeeded before it.\<close>

definition effects_ok :: "ident set \<Rightarrow> harness \<Rightarrow> bool" where
  "effects_ok S h \<longleftrightarrow>
     (let (procs, s) = h
      in db_inv (ch_db s) \<and> distinct (ch_effect s)
         \<and> (\<forall>p r. procs p = Some r \<longrightarrow> va_mode (pr_args r) \<noteq> Single Naive
              \<and> (\<forall>c. pr_pc r = Applied c \<longrightarrow> c_id c \<in> set (ch_effect s)))
         \<and> (\<forall>i. succeeded (ch_db s) i \<longrightarrow> i \<in> S \<or> i \<in> set (ch_effect s)))"

text \<open>No process runs the control experiment, and no one else completes jobs.\<close>

definition effect_safe :: "chaos_event \<Rightarrow> bool" where
  "effect_safe e \<longleftrightarrow>
     (case e of
        Spawn _ a \<Rightarrow> va_mode a \<noteq> Single Naive
      | Elsewhere a \<Rightarrow> (case a of Do_complete _ _ \<Rightarrow> False | _ \<Rightarrow> True)
      | _ \<Rightarrow> True)"

lemma query_commit: "query st d = Inr (r, d') \<Longrightarrow> d' = commit st d"
  by (auto simp: commit_def)

lemma effects_okI:
  assumes "effects_ok S (procs, s)" and "db_inv (ch_db s')"
    and "distinct (ch_effect s')" and "set (ch_effect s) \<subseteq> set (ch_effect s')"
    and "\<And>i. succeeded (ch_db s') i \<Longrightarrow> succeeded (ch_db s) i \<or> i \<in> set (ch_effect s')"
    and "\<And>q r. procs' q = Some r \<Longrightarrow> procs q = Some r \<or>
      va_mode (pr_args r) \<noteq> Single Naive \<and> (\<forall>c. pr_pc r = Applied c \<longrightarrow> c_id c \<in> set (ch_effect s'))"
  shows "effects_ok S (procs', s')"
  using assms unfolding effects_ok_def by (simp add: subset_iff) blast

lemma victim_step_effects:
  assumes ok: "effects_ok S (procs, s)" and p: "procs p = Some r"
    and st: "victim_step now locked (pr_args r) (pr_pc r) s = (pc, s')"
  shows "db_inv (ch_db s') \<and> distinct (ch_effect s') \<and> set (ch_effect s) \<subseteq> set (ch_effect s')
    \<and> (\<forall>i. succeeded (ch_db s') i \<longrightarrow> succeeded (ch_db s) i \<or> i \<in> set (ch_effect s'))
    \<and> (\<forall>c. pc = Applied c \<longrightarrow> c_id c \<in> set (ch_effect s'))"
proof -
  from ok p have inv: "db_inv (ch_db s)" and dist: "distinct (ch_effect s)"
    and mode: "va_mode (pr_args r) \<noteq> Single Naive"
    and app: "\<And>c. pr_pc r = Applied c \<Longrightarrow> c_id c \<in> set (ch_effect s)"
    by (auto simp: effects_ok_def)
  show ?thesis
  proof (cases "pr_pc r")
    case Looking
    let ?p = "\<lparr>cp_queue = va_queue (pr_args r), cp_limit = 1, cp_workerId = va_workerId (pr_args r)\<rparr>"
    have "succeeded (ch_db s) i" if "succeeded (exec (Do_claim now locked ?p) (ch_db s)) i" for i
      using succeeded_why [OF inv that] by blast
    with st Looking inv dist exec_inv [OF inv, of "Do_claim now locked ?p"] show ?thesis
      by (auto simp: victim_step_def victim_claims_def commit_def
          split: sum.splits list.splits victim_mode.splits)
  next
    case (Holding job)
    with st inv dist show ?thesis by (auto simp: victim_step_def recordExecution_def)
  next
    case (Recorded job)
    with st inv dist mode show ?thesis
      by (auto simp: victim_step_def applyEffect_def split: victim_mode.splits effect_mode.splits if_splits)
  next
    case (Applied job)
    let ?a = "Do_complete now (token_of (va_workerId (pr_args r)) job)"
    have "s' = s\<lparr>ch_db := exec ?a (ch_db s)\<rparr>" and "\<forall>c. pc \<noteq> Applied c"
      using st Applied by (auto simp: victim_step_def victim_completes_def commit_def split: sum.splits)
    moreover have "succeeded (ch_db s) i \<or> i \<in> set (ch_effect s)" if "succeeded (exec ?a (ch_db s)) i" for i
      using succeeded_why [OF inv that] app [OF Applied] by (auto simp: token_of_def)
    ultimately show ?thesis using dist exec_inv [OF inv, of ?a] by simp
  next
    case Hung
    with st inv dist show ?thesis by (auto simp: victim_step_def)
  next
    case (Exited n)
    with st inv dist show ?thesis by (auto simp: victim_step_def)
  qed
qed

lemma chaos_step_effects:
  assumes ok: "effects_ok S h" and safe: "effect_safe e"
  shows "effects_ok S (chaos_step e h)"
proof -
  obtain procs s where h: "h = (procs, s)" by fastforce
  note ok = ok [unfolded h]
  have inv: "db_inv (ch_db s)" and dist: "distinct (ch_effect s)" using ok by (simp_all add: effects_ok_def)
  show ?thesis
  proof (cases e)
    case (Spawn p a)
    with safe show ?thesis
      by (auto simp: h effect_safe_def inv dist intro!: effects_okI [OF ok] ok split: option.splits if_splits)
  next
    case (Runs p now locked)
    show ?thesis
    proof (cases "procs p")
      case None
      with Runs ok show ?thesis by (simp add: h)
    next
      case (Some r)
      obtain pc s' where st: "victim_step now locked (pr_args r) (pr_pc r) s = (pc, s')" by fastforce
      note V = victim_step_effects [OF ok Some st]
      have mode: "va_mode (pr_args r) \<noteq> Single Naive" using ok Some by (simp add: effects_ok_def)
      have "effects_ok S (procs(p \<mapsto> r\<lparr>pr_pc := pc\<rparr>), s')"
        by (rule effects_okI [OF ok]) (use V mode in \<open>auto split: if_splits\<close>)
      with Runs Some st show ?thesis by (simp add: h)
    qed
  next
    case (Killed p)
    then show ?thesis
      by (auto simp: h inv dist intro!: effects_okI [OF ok] split: if_splits)
  next
    case (Elsewhere a)
    have "succeeded (ch_db s) i" if "succeeded (exec a (ch_db s)) i" for i
    proof (rule ccontr)
      assume "\<not> succeeded (ch_db s) i"
      with succeeded_why [OF inv that] obtain now p where "a = Do_complete now p" by blast
      with safe Elsewhere show False by (simp add: effect_safe_def)
    qed
    with Elsewhere show ?thesis
      by (auto simp: h dist exec_inv [OF inv] intro!: effects_okI [OF ok])
  qed
qed

lemma chaos_run_effects:
  "effects_ok S h \<Longrightarrow> list_all effect_safe es \<Longrightarrow> effects_ok S (fold chaos_step es h)"
  by (induction es arbitrary: h) (simp_all add: chaos_step_effects)

lemma count_distinct:
  "distinct xs \<Longrightarrow> length (filter (\<lambda>x. x = i) xs) = (if i \<in> set xs then 1 else 0)"
  by (induction xs) auto

lemma effects_once:
  assumes "effects_ok S (procs, s)"
  shows "countEffects (Some i) s \<le> 1"
    and "succeeded (ch_db s) i \<Longrightarrow> i \<notin> S \<Longrightarrow> countEffects (Some i) s = 1"
  using assms by (auto simp: effects_ok_def countEffects_def count_distinct)

subsection \<open>One job alone in its queue\<close>

text \<open>Nothing else is in the queue, and no other lease has expired by \<open>t\<close>.\<close>

definition sole :: "string \<Rightarrow> instant \<Rightarrow> job \<Rightarrow> db \<Rightarrow> bool" where
  "sole q t j d \<longleftrightarrow> db_inv d \<and> \<not> queue_paused d q \<and> j \<in> set (db_jobs d) \<and> j_queue j = q
     \<and> (\<forall>k \<in> set (db_jobs d). k \<noteq> j \<longrightarrow> j_queue k \<noteq> q \<and> \<not> lease_expired t {} k)"

lemma sole_at: "sole q t j d \<Longrightarrow> job_at d (j_id j) = Some j"
  by (simp add: sole_def db_inv_job_at)

lemma filter_sole:
  assumes "distinct xs" and "x \<in> set xs" and "\<forall>y \<in> set xs. P y \<longleftrightarrow> y = x"
  shows "filter P xs = [x]"
proof -
  have "filter P xs = filter (\<lambda>y. y = x) xs" using assms(3) by (intro filter_cong) simp_all
  moreover from assms(1,2) have "filter (\<lambda>y. y = x) xs = [x]"
  proof (induction xs)
    case (Cons y ys)
    then show ?case by (cases "y = x") (auto simp: filter_empty_conv)
  qed simp
  ultimately show ?thesis by simp
qed

lemma db_inv_distinct_jobs: "db_inv d \<Longrightarrow> distinct (db_jobs d)"
  by (simp add: db_inv_def distinct_map)

lemma pick_sole:
  assumes "sole q t j d" and "\<forall>k \<in> set (db_jobs d). P k \<longleftrightarrow> k = j" and "1 \<le> n"
  shows "pick ord n P (db_jobs d) = [j_id j]"
proof -
  have "filter P (db_jobs d) = [j]"
    using filter_sole [OF db_inv_distinct_jobs _ assms(2)] assms(1) by (simp add: sole_def)
  with assms(3) show ?thesis by (simp add: pick_def order_limit_def)
qed

lemma sole_update:
  assumes sole: "sole q t j d" and u: "update_jobs P f d = Inr (rs, d')" and f: "keeps_identity f"
    and hit: "\<forall>k \<in> set (db_jobs d). P k \<longleftrightarrow> k = j"
  shows "rs = [f j] \<and> sole q t (f j) d'"
proof -
  from sole have inv: "db_inv d" and mem: "j \<in> set (db_jobs d)" by (simp_all add: sole_def)
  note D = update_jobs_InrD [OF u]
  have "filter P (db_jobs d) = [j]" by (rule filter_sole [OF db_inv_distinct_jobs [OF inv] mem hit])
  then have "rs = [f j]" by (simp add: D(1))
  moreover have "db_inv d'" by (rule update_jobs_inv [OF inv u f])
  moreover have "queue_paused d' q = queue_paused d q" by (simp add: D(2) queue_paused_def)
  moreover have "f j \<in> set (db_jobs d')" using mem hit by (auto simp: D(2) set_upd_where)
  moreover have "j_queue k \<noteq> q \<and> \<not> lease_expired t {} k" if k: "k \<in> set (db_jobs d')" "k \<noteq> f j" for k
    using k hit sole by (auto simp: D(2) set_upd_where sole_def)
  ultimately show ?thesis
    using sole keeps_identityD [OF f] by (auto simp: sole_def)
qed

lemma sole_hit: "sole q t j d \<Longrightarrow> \<forall>k \<in> set (db_jobs d). j_id k = j_id j \<longleftrightarrow> k = j"
  by (metis db_inv_job_at option.inject sole_def)

text \<open>The claim takes it.\<close>

lemma sole_claim:
  assumes sole: "sole q t j d" and j: "j_state j = Available" "j_run_at j \<le> now" "j_attempt j < j_max_attempts j"
    and p: "cp_queue p = q" "cp_limit p = 1"
  shows "\<exists>d'. claimJobs now {} p d = Inr ([toClaimedJob (claim_row now (cp_workerId p) j)], d')
    \<and> sole q t (claim_row now (cp_workerId p) j) d'"
proof -
  from sole have inv: "db_inv d" by (simp add: sole_def)
  have "\<forall>k \<in> set (db_jobs d). eligible now {} q d k \<longleftrightarrow> k = j"
    using sole j by (auto simp: sole_def eligible_def)
  from pick_sole [OF sole this, of 1 claim_order]
  have cand: "claim_candidates claim_order now {} p d = [j_id j]"
    by (simp add: claim_candidates_def p)
  have "\<not> (\<exists>k \<in> set (db_jobs d). j_id k \<in> set [j_id j] \<and> j_attempt k = j_max_attempts k)"
    using sole_hit [OF sole] j(3) by auto
  with claim_with_cases [OF inv, of claim_order now "{}" p] obtain rs d' where
    c: "claim_with claim_order now {} p d = Inr (rs, d')"
    unfolding cand by auto
  from sole_update [OF sole c [unfolded claim_with_def cand] claim_row_keeps] sole_hit [OF sole]
  have "rs = [claim_row now (cp_workerId p) j]" "sole q t (claim_row now (cp_workerId p) j) d'" by simp_all
  with c show ?thesis by (simp add: claimJobs_def returning_def)
qed

text \<open>Once its lease is over, the reaper recovers it.\<close>

lemma sole_reap:
  assumes sole: "sole q t j d" and j: "lease_expired t {} j" "j_attempt j < j_max_attempts j" and n: "1 \<le> n"
  shows "\<exists>d'. reapOnce t {} rand b n d = (Inr \<lparr>re_recovered = 1, re_deadLettered = 0\<rparr>, d')
    \<and> sole q t (reap_row t (nextDelaySeconds rand 1 b) j) d'"
proof -
  let ?p = "\<lparr>rp_limit = n, rp_retryDelaySeconds = nextDelaySeconds rand 1 b\<rparr>"
  let ?f = "reap_row t (nextDelaySeconds rand 1 b)"
  from sole have inv: "db_inv d" by (simp add: sole_def)
  have "\<forall>k \<in> set (db_jobs d). lease_expired t {} k \<longleftrightarrow> k = j"
    using sole j by (auto simp: sole_def)
  from pick_sole [OF sole this n, of lease_order]
  have ids: "expired_ids t {} n d = [j_id j]" by (simp add: expired_ids_def)
  obtain rs d' where r: "reapExpiredLeases t {} ?p d = Inr (rs, d')"
    using reap_lands [OF inv] by blast
  then obtain ss where u: "update_jobs (\<lambda>k. j_id k \<in> set [j_id j]) ?f d = Inr (ss, d')"
    and rs: "rs = map reap_returning ss"
    by (auto simp: reapExpiredLeases_def returning_Inr ids)
  from sole_update [OF sole u reap_row_keeps] sole_hit [OF sole]
  have "ss = [?f j]" "sole q t (?f j) d'" by simp_all
  with r rs j(2) show ?thesis by (simp add: reapOnce_def reap_returning_def reap_row_def)
qed

text \<open>Its owner completes it.\<close>

lemma sole_complete:
  assumes sole: "sole q t j d" and own: "owns p j"
  shows "\<exists>d'. completeJob now p d = Inr ([j_id j], d') \<and> sole q t (complete_row now j) d'"
proof -
  from sole have inv: "db_inv d" by (simp add: sole_def)
  have i: "f_id p = j_id j" using own by (simp add: owns_def)
  from completeJob_lands [OF inv _ own, of now] sole_at [OF sole] obtain d' where
    c: "completeJob now p d = Inr ([j_id j], d')" by (auto simp: i)
  then obtain ss where u: "update_jobs (owns p) (complete_row now) d = Inr (ss, d')"
    by (auto simp: completeJob_def returning_Inr)
  have "\<forall>k \<in> set (db_jobs d). owns p k \<longleftrightarrow> k = j"
    using sole_hit [OF sole] own by (auto simp: owns_def)
  from sole_update [OF sole u _ this] c show ?thesis by (simp add: keeps_identity_def complete_row_def)
qed

subsection \<open>The kill test passes\<close>

definition chaos_row :: "effect_mode \<Rightarrow> enqueue_row" where
  "chaos_row mode = \<lparr>n_queue = chaos_queue mode, n_type = ''chaos.job'',
     n_payload = JObj [(''mode'', JStr (mode_name mode))], n_metadata = None, n_priority = 0,
     n_maxAttempts = 5, n_leaseSeconds = 3, n_runAt = None, n_idempotencyKey = None,
     n_uniqueKey = None, n_traceContext = None, n_scheduleId = None\<rparr>"

lemma chaos_names: "validateName (chaos_queue mode) = Inr ()" "validateName ''chaos.job'' = Inr ()"
  by (cases mode; simp add: validateName_def name_char_def byte_def chaos_queue_def mode_name_def)+

lemma chaos_payload: "length (stringify (JObj [(''mode'', JStr (mode_name mode))])) \<le> 262144"
  by (cases mode; simp add: mode_name_def quoted_def escape_char_def byte_def Let_def)

lemma chaos_build:
  "\<exists>cl'. buildRow now (chaos_queue mode) ''chaos.job'' (JObj [(''mode'', JStr (mode_name mode))])
     chaos_options new_client d = (Inr (chaos_row mode), cl')"
  using chaos_payload [of mode]
  by (simp add: buildRow_def chaos_options_def chaos_row_def LEASE_SECONDS_def new_client_def DEFAULTS_def
      queueDefaults_def Let_def)

lemma chaos_swept: "like (chaos_queue mode @ ''%'') (chaos_queue mode)"
  by (cases mode; simp add: chaos_queue_def mode_name_def)

lemma chaos_enqueue:
  assumes inv: "db_inv d" and free: "\<not> queue_paused d (chaos_queue mode)"
    "\<forall>k \<in> set (db_jobs d). j_queue k \<noteq> chaos_queue mode \<and> \<not> lease_expired t {} k"
  shows "\<exists>cl' d'. enqueue alone now now (chaos_queue mode) ''chaos.job''
      (JObj [(''mode'', JStr (mode_name mode))]) chaos_options new_client d
      = (Inr \<lparr>er_id = Some (db_job_seq d), er_deduplicated = False\<rparr>, cl', d')
    \<and> sole (chaos_queue mode) t (new_job now (chaos_row mode) (db_job_seq d)) d'"
proof -
  let ?j = "new_job now (chaos_row mode) (db_job_seq d)"
  have adm: "admissible now (chaos_row mode)"
    by (simp add: admissible_def Let_def new_job_def chaos_row_def is_smallint_def is_integer_def job_checks_def)
  have nc: "\<not> conflicts (db_jobs d) ?j" by (simp add: new_conflict_iff chaos_row_def)
  obtain d' where ins: "insertJob now (chaos_row mode) d = Inr ([db_job_seq d], d')"
    and jobs: "db_jobs d' = db_jobs d @ [?j]"
    using insertJob_fresh [OF nc adm] by (auto simp: chaos_row_def)
  have "queue_paused d' q = queue_paused d q" for q
    using ins by (auto simp: insertJob_def insert_row_def Let_def queue_paused_def split: if_splits)
  moreover have "j_queue ?j = chaos_queue mode" by (simp add: chaos_row_def)
  ultimately have "sole (chaos_queue mode) t ?j d'"
    using insert.inv [OF inv ins] free jobs by (auto simp: sole_def)
  moreover obtain cl' where "buildRow now (chaos_queue mode) ''chaos.job''
      (JObj [(''mode'', JStr (mode_name mode))]) chaos_options new_client d = (Inr (chaos_row mode), cl')"
    using chaos_build by blast
  ultimately show ?thesis
    using enqueue_built [OF chaos_names, where now = now] ins by (simp add: submit_def)
qed

lemma victim_run_hung: "victim_run n now a (Hung, s) = (Hung, s)"
  by (induction n) (simp_all add: victim_step_def)

text \<open>The victim claims the job, records the delivery, applies the effect, and hangs.\<close>

lemma victim_delivers:
  assumes sole: "sole q t j (ch_db s)" and j: "j_state j = Available" "j_run_at j \<le> now" "j_attempt j < j_max_attempts j"
    and a: "va_queue a = q" "va_mode a = Single mode" and n: "3 \<le> n"
  shows "\<exists>d'. victim_run n now a (Looking, s) =
      (Hung, applyEffect (j_id j) mode (recordExecution (j_id j) (j_attempt j + 1) (va_workerId a) (s\<lparr>ch_db := d'\<rparr>)))
    \<and> sole q t (claim_row now (va_workerId a) j) d'"
proof -
  obtain m where m: "n = Suc (Suc (Suc m))" using n by (metis Suc_le_D numeral_3_eq_3 Suc_le_mono)
  let ?p = "\<lparr>cp_queue = va_queue a, cp_limit = 1, cp_workerId = va_workerId a\<rparr>"
  obtain d' where d': "claimJobs now {} ?p (ch_db s) = Inr ([toClaimedJob (claim_row now (va_workerId a) j)], d')"
    and sole': "sole q t (claim_row now (va_workerId a) j) d'"
    using sole_claim [OF sole j, of ?p] a by auto
  with a show ?thesis
    by (intro exI [of _ d']) (simp add: m victim_step_def victim_claims_def victim_run_hung toClaimedJob_def)
qed

lemma chaos_delay: "nextDelaySeconds 0 1 chaos_backoff = 1 / 1000"
  by (simp add: nextDelaySeconds_def nextDelayMs_def baseDelayMs_def chaos_backoff_def Let_def
      js_pow_def js_of_def js_overflow_def)

text \<open>The second half of a scenario, on the job the reaper gave back.\<close>

lemma redeliver_passes:
  assumes sole: "sole q t j (ch_db s)" and j: "j_state j = Available" "j_run_at j \<le> st_claim ti"
    "j_attempt j = 1" "1 < j_max_attempts j"
    and x: "ch_execution s = [x]" "x_job x = j_id j" and e: "ch_effect s = [j_id j]"
  shows "\<exists>s'. redeliver mode ti q (j_id j) s = (Inr (replicate 6 True), s')"
proof -
  let ?w = "''redeliver-'' @ mode_name mode"
  let ?p = "\<lparr>cp_queue = q, cp_limit = 1, cp_workerId = ?w\<rparr>" and ?c = "claim_row (st_claim ti) ?w j"
  from sole_claim [OF sole j(1,2), of ?p] j(3,4) obtain d1 where
    c: "claimJobs (st_claim ti) {} ?p (ch_db s) = Inr ([toClaimedJob ?c], d1)" and s1: "sole q t ?c d1"
    by auto
  have "owns (token_of ?w (toClaimedJob ?c)) ?c" by (simp add: owns_def token_of_def toClaimedJob_def)
  from sole_complete [OF s1 this, of "st_complete ti"] obtain d2 where
    d: "completeJob (st_complete ti) (token_of ?w (toClaimedJob ?c)) d1 = Inr ([j_id j], d2)"
    and s2: "sole q t (complete_row (st_complete ti) ?c) d2" by auto
  have "map_option j_state (job_at d2 (j_id j)) = Some Succeeded"
    using sole_at [OF s2] by (simp add: complete_row_def)
  moreover have "c_id (toClaimedJob ?c) = j_id j" "c_attempt (toClaimedJob ?c) = 2"
    using j(3) by (simp_all add: toClaimedJob_def)
  ultimately show ?thesis
    using c d x e
    by (cases mode) (simp_all add: redeliver_def Let_def applyEffect_def recordExecution_def
        countExecutions_def countEffects_def numeral_eq_Suc)
qed

lemma recover_passes:
  assumes sole: "sole q (st_reap ti) j (ch_db s)" and j: "j_state j = Running" "j_attempt j = 1" "1 < j_max_attempts j"
    "j_lease_expires_at j = Some l" "l < st_reap ti" and ti: "st_reap ti + us_per_ms \<le> st_claim ti"
    and x: "ch_execution s = [x]" "x_job x = j_id j" and e: "ch_effect s = [j_id j]"
    and pc: "\<forall>n. pc \<noteq> Exited n"
  shows "\<exists>s'. recover mode ti q (j_id j) pc s = (Inr (replicate 14 True), s')"
proof -
  let ?r = "reap_row (st_reap ti) (nextDelaySeconds 0 1 chaos_backoff) j"
  have "lease_expired (st_reap ti) {} j" using j by (simp add: lease_expired_def)
  from sole_reap [OF sole this _ , of 100 0 chaos_backoff] j(2,3) obtain d1 where
    r: "reapOnce (st_reap ti) {} 0 chaos_backoff 100 (ch_db s) = (Inr \<lparr>re_recovered = 1, re_deadLettered = 0\<rparr>, d1)"
    and s1: "sole q (st_reap ti) ?r d1" by auto
  have r1: "j_id ?r = j_id j" "j_state ?r = Available" "j_attempt ?r = 1" "1 < j_max_attempts ?r"
    "j_worker_id ?r = None" "j_run_at ?r = st_reap ti + us_per_ms"
    using j by (simp_all add: reap_row_def chaos_delay make_interval_secs_def us_per_ms_def)
  from redeliver_passes [of q "st_reap ti" ?r "s\<lparr>ch_db := d1\<rparr>" ti x mode] s1 r1 ti x e obtain s' where
    d: "redeliver mode ti q (j_id j) (s\<lparr>ch_db := d1\<rparr>) = (Inr (replicate 6 True), s')" by auto
  have "(case pc of Exited _ \<Rightarrow> False | _ \<Rightarrow> True)" using pc by (cases pc) simp_all
  then show ?thesis
    using r d sole_at [OF sole] sole_at [OF s1] r1 j
    by (simp add: recover_def Let_def numeral_eq_Suc)
qed

lemma scenario_passes:
  assumes inv: "db_inv (ch_db s)" and free: "\<not> queue_paused (ch_db s) (chaos_queue mode)"
    and idle: "\<forall>k \<in> set (db_jobs (ch_db s)). like (chaos_queue mode @ ''%'') (j_queue k) \<or> \<not> lease_expired (st_reap ti) {} k"
    and steps: "3 \<le> st_steps ti" and ti: "st_enqueue ti \<le> st_victim ti"
      "st_victim ti + us_per_second * LEASE_SECONDS < st_reap ti" "st_reap ti + us_per_ms \<le> st_claim ti"
  shows "\<exists>s'. runScenario mode ti new_client s = (Inr (replicate 16 True), s')"
proof -
  let ?q = "chaos_queue mode" and ?w = "''victim-'' @ mode_name mode"
  let ?s0 = "cleanup_chaos ?q s"
  have inv0: "db_inv (ch_db ?s0)"
    using delete_jobs_inv [OF inv, of "\<lambda>j. like (?q @ ''%'') (j_queue j)"]
    by (simp add: cleanup_chaos_def commit_def delete_jobs_def)
  have paused: "\<not> queue_paused (ch_db ?s0) ?q"
    using free by (simp add: cleanup_chaos_def commit_def delete_jobs_def queue_paused_def)
  have others: "\<forall>k \<in> set (db_jobs (ch_db ?s0)). j_queue k \<noteq> ?q \<and> \<not> lease_expired (st_reap ti) {} k"
    using idle chaos_swept [of mode] by (auto simp: cleanup_chaos_def commit_def delete_jobs_def)
  let ?i = "db_job_seq (ch_db ?s0)"
  let ?j = "new_job (st_enqueue ti) (chaos_row mode) ?i"
  from chaos_enqueue [OF inv0 paused others, of "st_enqueue ti"] obtain cl' d1 where
    enq: "enqueue alone (st_enqueue ti) (st_enqueue ti) ?q ''chaos.job''
      (JObj [(''mode'', JStr (mode_name mode))]) chaos_options new_client (ch_db ?s0)
      = (Inr \<lparr>er_id = Some ?i, er_deduplicated = False\<rparr>, cl', d1)"
    and s1: "sole ?q (st_reap ti) ?j d1" by blast
  let ?a = "\<lparr>va_queue = ?q, va_mode = Single mode, va_workerId = ?w\<rparr>"
  have j: "j_run_at ?j \<le> st_victim ti" "j_attempt ?j < j_max_attempts ?j" "j_lease_seconds ?j = 3"
    using ti(1) by (simp_all add: new_job_def chaos_row_def)
  from victim_delivers [of ?q "st_reap ti" ?j "?s0\<lparr>ch_db := d1\<rparr>" "st_victim ti" ?a mode "st_steps ti"]
    s1 j steps obtain d2 where
    v: "victim_run (st_steps ti) (st_victim ti) ?a (Looking, ?s0\<lparr>ch_db := d1\<rparr>) =
      (Hung, applyEffect ?i mode (recordExecution ?i 1 ?w (?s0\<lparr>ch_db := d2\<rparr>)))"
    and s2: "sole ?q (st_reap ti) (claim_row (st_victim ti) ?w ?j) d2"
    by auto
  let ?s2 = "applyEffect ?i mode (recordExecution ?i 1 ?w (?s0\<lparr>ch_db := d2\<rparr>))"
  have s2': "ch_db ?s2 = d2" "ch_execution ?s2 = [\<lparr>x_job = ?i, x_attempt = 1, x_worker = ?w\<rparr>]" "ch_effect ?s2 = [?i]"
    by (cases mode; simp add: applyEffect_def recordExecution_def cleanup_chaos_def)+
  from recover_passes [of ?q ti "claim_row (st_victim ti) ?w ?j" ?s2, where mode = mode and pc = Hung
      and l = "st_victim ti + us_per_second * 3"] s2 s2' j ti(2,3) obtain s' where
    r: "recover mode ti ?q ?i Hung ?s2 = (Inr (replicate 14 True), s')"
    by (auto simp: LEASE_SECONDS_def chaos_row_def new_job_def claim_row_def)
  have "0 < countEffects (Some ?i) ?s2" unfolding countEffects_def s2'(3) by simp
  then show ?thesis
    using enq v r by (simp add: runScenario_def Let_def numeral_eq_Suc)
qed

end
