(* ===== verification/Durability.thy ===== *)
theory Durability
  imports Chaos_Laws
begin

text \<open>
  bench/chaos/durability.ts: what its main program does once workers have been killed. The loop
  that drains what is left is given the times of its iterations, as many as its budget allows.
  That it settles every job is the liveness half of the delivery guarantee (the safety half,
  that each effect is applied once, is in theory Chaos_Laws).
\<close>

definition DURABILITY_QUEUE :: string where
  "DURABILITY_QUEUE = ''chaos_durability''"

definition TOTAL_JOBS :: nat where
  "TOTAL_JOBS = 150"

definition stateCounts :: "db \<Rightarrow> job_state \<Rightarrow> nat option" where
  "stateCounts d s =
     (let n = length (filter (\<lambda>j. j_queue j = DURABILITY_QUEUE \<and> j_state j = s) (db_jobs d))
      in if n = 0 then None else Some n)"

definition terminalCount :: "db \<Rightarrow> nat" where
  "terminalCount d =
     length (filter (\<lambda>j. j_queue j = DURABILITY_QUEUE \<and> j_state j \<in> {Succeeded, Dead, Cancelled}) (db_jobs d))"

text \<open>The jobs of one claim, delivered one after the other.\<close>

fun deliver_all :: "instant \<Rightarrow> string \<Rightarrow> claimed_job list \<Rightarrow> chaos \<Rightarrow> (fault + unit) \<times> chaos" where
  "deliver_all now w [] s = (Inr (), s)"
| "deliver_all now w (job # jobs) s =
     (let s1 = applyEffect (c_id job) Idempotent (recordExecution (c_id job) (c_attempt job) w s)
      in case query (completeJob now (token_of w job)) (ch_db s1) of
           Inl f \<Rightarrow> (Inl f, s1)
         | Inr (_, d) \<Rightarrow> deliver_all now w jobs (s1\<lparr>ch_db := d\<rparr>))"

definition finisher :: string where
  "finisher = ''durability-finisher''"

fun drainRemaining :: "(nat \<Rightarrow> instant) \<Rightarrow> nat \<Rightarrow> nat \<Rightarrow> chaos \<Rightarrow> (fault + unit) \<times> chaos" where
  "drainRemaining now 0 n s = (Inr (), s)"
| "drainRemaining now (Suc budget) n s =
     (case query (claimJobs (now n) {}
              \<lparr>cp_queue = DURABILITY_QUEUE, cp_limit = 20, cp_workerId = finisher\<rparr>) (ch_db s) of
        Inl f \<Rightarrow> (Inl f, s)
      | Inr ([], d) \<Rightarrow>
          if TOTAL_JOBS \<le> terminalCount d then (Inr (), s\<lparr>ch_db := d\<rparr>)
          else (case reapOnce (now n) {} 0 chaos_backoff 500 d of
                  (Inl f, d1) \<Rightarrow> (Inl f, s\<lparr>ch_db := d1\<rparr>)
                | (Inr _, d1) \<Rightarrow> drainRemaining now budget (Suc n) (s\<lparr>ch_db := d1\<rparr>))
      | Inr (job # jobs, d) \<Rightarrow>
          (case deliver_all (now n) finisher (job # jobs) (s\<lparr>ch_db := d\<rparr>) of
             (Inl f, s1) \<Rightarrow> (Inl f, s1)
           | (Inr _, s1) \<Rightarrow> drainRemaining now budget (Suc n) s1))"

subsection \<open>One batch\<close>

lemma upd_where_cong: "(\<And>x. x \<in> set xs \<Longrightarrow> P x = Q x) \<Longrightarrow> upd_where P f xs = upd_where Q f xs"
  by (simp add: upd_where_def)

lemma upd_where_twice:
  assumes "\<And>x. x \<in> set xs \<Longrightarrow> P x \<Longrightarrow> \<not> Q (f x)"
  shows "upd_where Q f (upd_where P f xs) = upd_where (\<lambda>x. P x \<or> Q x) f xs"
  using assms by (auto simp: upd_where_def)

lemma upd_where_after:
  assumes "\<And>x. x \<in> set xs \<Longrightarrow> Q (f x) = Q x" and "\<And>x. x \<in> set xs \<Longrightarrow> P x = Q x"
  shows "upd_where Q g (upd_where P f xs) = upd_where P (g \<circ> f) xs"
  using assms by (auto simp: upd_where_def)

lemma filter_upd_where:
  assumes "\<forall>x \<in> set xs. P x \<longrightarrow> A x \<and> \<not> A (f x)"
  shows "length (filter A (upd_where P f xs)) + length (filter P xs) = length (filter A xs)"
  using assms by (induction xs) auto

lemma deliver_all_spec:
  assumes "db_inv (ch_db s)" and "distinct (map c_id cs)" and "\<forall>c \<in> set cs. owned (ch_db s) (token_of w c)"
  shows "\<exists>s'. deliver_all now w cs s = (Inr (), s') \<and> db_inv (ch_db s')
    \<and> ch_db s' = (ch_db s)\<lparr>db_jobs := upd_where (\<lambda>j. j_id j \<in> c_id ` set cs) (complete_row now) (db_jobs (ch_db s))\<rparr>"
  using assms
proof (induction cs arbitrary: s)
  case Nil
  then show ?case by (auto simp: upd_where_none)
next
  case (Cons c cs)
  let ?tok = "token_of w c" and ?d = "ch_db s"
  from Cons.prems(3) obtain j where j: "job_at ?d (c_id c) = Some j" "owns ?tok j"
    by (auto simp: owned_def token_of_def split: option.splits)
  obtain d1 where c: "completeJob now ?tok ?d = Inr ([c_id c], d1)"
    using completeJob_lands [OF Cons.prems(1) _ j(2), of now] j(1) by (auto simp: token_of_def)
  then obtain ss where "update_jobs (owns ?tok) (complete_row now) ?d = Inr (ss, d1)"
    by (auto simp: completeJob_def returning_Inr)
  then have d1: "d1 = ?d\<lparr>db_jobs := upd_where (owns ?tok) (complete_row now) (db_jobs ?d)\<rparr>"
    by (rule update_jobs_InrD(2))
  have "owns ?tok k \<longleftrightarrow> j_id k = c_id c" if "k \<in> set (db_jobs ?d)" for k
  proof -
    have "job_at ?d (j_id k) = Some k" by (rule db_inv_job_at [OF Cons.prems(1) that])
    with j show ?thesis by (auto simp: owns_def token_of_def)
  qed
  then have d1': "d1 = ?d\<lparr>db_jobs := upd_where (\<lambda>k. j_id k = c_id c) (complete_row now) (db_jobs ?d)\<rparr>"
    unfolding d1 by (simp cong: upd_where_cong)
  let ?s1 = "(applyEffect (c_id c) Idempotent (recordExecution (c_id c) (c_attempt c) w s))\<lparr>ch_db := d1\<rparr>"
  have inv1: "db_inv d1" by (rule complete.keeps_inv [OF Cons.prems(1) c])
  have owned1: "owned d1 (token_of w e)" if e: "e \<in> set cs" for e
  proof -
    have "c_id e \<noteq> f_id ?tok" using Cons.prems(2) e by (simp add: token_of_def) (metis image_eqI)
    from complete.frame [OF Cons.prems(1) c this] have "job_at d1 (c_id e) = job_at ?d (c_id e)" .
    with Cons.prems(3) e show ?thesis by (simp add: owned_def token_of_def)
  qed
  have fields: "ch_db ?s1 = d1" "ch_db (applyEffect (c_id c) Idempotent (recordExecution (c_id c) (c_attempt c) w s)) = ?d"
    by (simp_all add: applyEffect_def recordExecution_def)
  from Cons.IH [of ?s1] inv1 owned1 Cons.prems(2) obtain s' where
    r: "deliver_all now w cs ?s1 = (Inr (), s')" "db_inv (ch_db s')"
      "ch_db s' = d1\<lparr>db_jobs := upd_where (\<lambda>j. j_id j \<in> c_id ` set cs) (complete_row now) (db_jobs d1)\<rparr>"
    by (auto simp: fields)
  have "upd_where (\<lambda>j. j_id j \<in> c_id ` set cs) (complete_row now) (db_jobs d1)
      = upd_where (\<lambda>j. j_id j = c_id c \<or> j_id j \<in> c_id ` set cs) (complete_row now) (db_jobs ?d)"
    using Cons.prems(2) by (auto simp: d1' complete_row_def intro!: upd_where_twice)
  with r c fields show ?case
    by (intro exI [of _ s']) (simp add: d1' Let_def)
qed

subsection \<open>The state of the drain\<close>

text \<open>
  Every worker is gone: what is running belongs to the queue and its lease is over, what is
  available may be claimed.
\<close>

definition settling :: "instant \<Rightarrow> db \<Rightarrow> bool" where
  "settling t d \<longleftrightarrow> db_inv d \<and> \<not> queue_paused d DURABILITY_QUEUE
     \<and> (\<forall>j \<in> set (db_jobs d).
          (j_state j = Running \<longrightarrow> j_queue j = DURABILITY_QUEUE \<and> lease_expired t {} j)
          \<and> (j_queue j = DURABILITY_QUEUE \<and> j_state j = Available \<longrightarrow>
               j_attempt j < j_max_attempts j \<and> j_run_at j \<le> t))"

definition waiting_jobs :: "db \<Rightarrow> nat" where
  "waiting_jobs d = length (filter (\<lambda>j. j_queue j = DURABILITY_QUEUE \<and> active_state (j_state j)) (db_jobs d))"

definition queue_size :: "db \<Rightarrow> nat" where
  "queue_size d = length (filter (\<lambda>j. j_queue j = DURABILITY_QUEUE) (db_jobs d))"

lemma settling_later: "settling t d \<Longrightarrow> t \<le> t' \<Longrightarrow> settling t' d"
  by (fastforce simp: settling_def lease_expired_def split: option.splits)

lemma split_count:
  "(\<And>x. x \<in> set xs \<Longrightarrow> (A x \<longleftrightarrow> B x \<or> C x) \<and> \<not> (B x \<and> C x)) \<Longrightarrow>
   length (filter A xs) = length (filter B xs) + length (filter C xs)"
  by (induction xs) auto

lemma filter_count_mono:
  "(\<And>x. x \<in> set xs \<Longrightarrow> A x \<Longrightarrow> B x) \<Longrightarrow> length (filter A xs) \<le> length (filter B xs)"
  by (induction xs) auto

lemma terminal_and_waiting: "terminalCount d + waiting_jobs d = queue_size d"
proof -
  have "s = Succeeded \<or> s = Dead \<or> s = Cancelled \<or> s = Available \<or> s = Running" for s
    by (cases s) simp_all
  then show ?thesis
    unfolding terminalCount_def waiting_jobs_def queue_size_def
    by (intro split_count [symmetric]) (auto simp: active_state_def)
qed

lemma queue_size_update:
  assumes "\<And>j. j_queue (f j) = j_queue j"
  shows "queue_size (d\<lparr>db_jobs := upd_where P f (db_jobs d)\<rparr>) = queue_size d"
proof -
  have "length (filter (\<lambda>j. j_queue j = q) (upd_where P f js)) = length (filter (\<lambda>j. j_queue j = q) js)" for q js
    using assms by (induction js) simp_all
  then show ?thesis by (simp add: queue_size_def)
qed

definition drain_claim :: claim_params where
  "drain_claim = \<lparr>cp_queue = DURABILITY_QUEUE, cp_limit = 20, cp_workerId = finisher\<rparr>"

text \<open>An iteration that finds something to claim completes it.\<close>

lemma claiming_pass:
  assumes ok: "settling t d" and j: "j \<in> set (db_jobs d)" "j_queue j = DURABILITY_QUEUE" "j_state j = Available"
  shows "\<exists>c cs d1. claimJobs t {} drain_claim d = Inr (c # cs, d1)
    \<and> (\<forall>s. \<exists>s'. deliver_all t finisher (c # cs) (s\<lparr>ch_db := d1\<rparr>) = (Inr (), s')
        \<and> settling t (ch_db s') \<and> waiting_jobs (ch_db s') < waiting_jobs d
        \<and> running_jobs (ch_db s') = running_jobs d \<and> queue_size (ch_db s') = queue_size d)"
proof -
  let ?I = "set (claim_candidates claim_order t {} drain_claim d)"
  let ?P = "\<lambda>j. j_id j \<in> ?I" and ?f = "claim_row t finisher"
  from ok have inv: "db_inv d" by (simp add: settling_def)
  have elig: "j_queue k = DURABILITY_QUEUE \<and> j_state k = Available \<and> j_attempt k < j_max_attempts k"
    if k: "k \<in> set (db_jobs d)" "?P k" for k
    using candidates_eligible [OF inv k] ok k(1) by (auto simp: eligible_def settling_def drain_claim_def)
  obtain rs d1 where c: "claim_with claim_order t {} drain_claim d = Inr (rs, d1)"
    using claim_with_cases [OF inv, of claim_order t "{}" drain_claim] elig by fastforce
  note D = update_jobs_InrD [OF c [unfolded claim_with_def]]
  have inv1: "db_inv d1" by (rule claim_with_contract(1) [OF inv c])
  note ids = claim_with_ids [OF inv c]
  have "eligible t {} DURABILITY_QUEUE d j" using ok j by (auto simp: settling_def eligible_def)
  then have "filter (eligible t {} DURABILITY_QUEUE d) (db_jobs d) \<noteq> []" using j(1) by (auto simp: filter_empty_conv)
  then have some: "0 < length rs" using claim_with_count [OF inv c] by (simp add: drain_claim_def)
  let ?cs = "map toClaimedJob rs"
  have claimed: "claimJobs t {} drain_claim d = Inr (?cs, d1)" by (simp add: claimJobs_def returning_def c)
  have cids: "map c_id ?cs = map j_id rs" by (simp add: toClaimedJob_def)
  have cset: "c_id ` set ?cs = ?I" using ids(1) cids by (metis list.set_map)
  have own: "\<forall>c \<in> set ?cs. owned d1 (token_of finisher c)"
    using claim_owns [OF inv claimed] by (simp add: drain_claim_def)
  let ?g = "complete_row t \<circ> ?f"
  let ?d2 = "d\<lparr>db_jobs := upd_where ?P ?g (db_jobs d)\<rparr>"
  have two: "d1\<lparr>db_jobs := upd_where ?P (complete_row t) (db_jobs d1)\<rparr> = ?d2"
    by (simp add: D(2) upd_where_after drain_claim_def)
  have hit: "length (filter ?P (db_jobs d)) = length rs" by (simp add: D(1))
  have waiting: "waiting_jobs ?d2 + length rs = waiting_jobs d"
    using filter_upd_where [of "db_jobs d" ?P "\<lambda>j. j_queue j = DURABILITY_QUEUE \<and> active_state (j_state j)" ?g] elig
    by (simp add: waiting_jobs_def hit complete_row_def)
  have same: "length (filter (\<lambda>j. j_state j = Running) (upd_where ?P ?g js)) = length (filter (\<lambda>j. j_state j = Running) js)"
    if "\<forall>k \<in> set js. ?P k \<longrightarrow> j_state k = Available" for js
    using that by (induction js) (auto simp: complete_row_def)
  have running: "running_jobs ?d2 = running_jobs d"
    using same [of "db_jobs d"] elig by (simp add: running_jobs_def)
  have settled: "settling t ?d2" if "db_inv ?d2"
  proof -
    have "k \<in> set (db_jobs d) \<or> j_state k = Succeeded" if "k \<in> set (db_jobs ?d2)" for k
      using that by (auto simp: set_upd_where complete_row_def)
    with ok that show ?thesis by (fastforce simp: settling_def queue_paused_def)
  qed
  have dist: "distinct (map c_id ?cs)" unfolding cids by (rule ids(2))
  have all: "\<exists>s'. deliver_all t finisher ?cs (s\<lparr>ch_db := d1\<rparr>) = (Inr (), s') \<and> db_inv (ch_db s') \<and> ch_db s' = ?d2" for s
  proof -
    have "\<exists>s'. deliver_all t finisher ?cs (s\<lparr>ch_db := d1\<rparr>) = (Inr (), s') \<and> db_inv (ch_db s')
      \<and> ch_db s' = d1\<lparr>db_jobs := upd_where (\<lambda>j. j_id j \<in> c_id ` set ?cs) (complete_row t) (db_jobs d1)\<rparr>"
      using deliver_all_spec [of "s\<lparr>ch_db := d1\<rparr>" ?cs finisher t, OF _ dist] inv1 own by simp
    then show ?thesis unfolding cset two .
  qed
  have size: "queue_size ?d2 = queue_size d"
    by (rule queue_size_update) (simp add: complete_row_def claim_row_def)
  from some obtain c cs where cc: "?cs = c # cs" by (cases rs) auto
  have "\<exists>s'. deliver_all t finisher (c # cs) (s\<lparr>ch_db := d1\<rparr>) = (Inr (), s')
      \<and> settling t (ch_db s') \<and> waiting_jobs (ch_db s') < waiting_jobs d
      \<and> running_jobs (ch_db s') = running_jobs d \<and> queue_size (ch_db s') = queue_size d" for s
  proof -
    from all [of s] obtain s' where s': "deliver_all t finisher (c # cs) (s\<lparr>ch_db := d1\<rparr>) = (Inr (), s')"
      "db_inv (ch_db s')" "ch_db s' = ?d2" unfolding cc by blast
    have "waiting_jobs ?d2 < waiting_jobs d" using waiting some by linarith
    with s' settled running size show ?thesis by (intro exI [of _ s']) simp
  qed
  moreover have "claimJobs t {} drain_claim d = Inr (c # cs, d1)" using claimed cc by simp
  ultimately show ?thesis by blast
qed

lemma reap_stops: "j_state (reap_row now delay j) \<noteq> Running"
  by (simp add: reap_row_def)

text \<open>An iteration that finds nothing reaps everything that was left running.\<close>

lemma reaping_pass:
  assumes ok: "settling t d" and none: "\<forall>j \<in> set (db_jobs d). j_queue j = DURABILITY_QUEUE \<longrightarrow> j_state j \<noteq> Available"
    and size: "queue_size d \<le> 500"
  shows "claimJobs t {} drain_claim d = Inr ([], d)
    \<and> (\<exists>r d1. reapOnce t {} 0 chaos_backoff 500 d = (Inr r, d1) \<and> settling (t + us_per_ms) d1
        \<and> waiting_jobs d1 \<le> waiting_jobs d \<and> running_jobs d1 = 0 \<and> queue_size d1 = queue_size d)"
proof
  from ok have inv: "db_inv d" by (simp add: settling_def)
  have "\<forall>j \<in> set (db_jobs d). j_id j \<notin> set (claim_candidates claim_order t {} drain_claim d)"
    using candidates_eligible [OF inv] none by (fastforce simp: eligible_def drain_claim_def)
  from update_jobs_none [OF inv this] show "claimJobs t {} drain_claim d = Inr ([], d)"
    by (simp add: claimJobs_def claim_with_def returning_def)
next
  from ok have inv: "db_inv d" by (simp add: settling_def)
  let ?f = "reap_row t (nextDelaySeconds 0 1 chaos_backoff)"
  let ?d1 = "d\<lparr>db_jobs := upd_where (\<lambda>j. j_state j = Running) ?f (db_jobs d)\<rparr>"
  have exp: "lease_expired t {} j \<longleftrightarrow> j_state j = Running" if "j \<in> set (db_jobs d)" for j
    using ok that by (auto simp: settling_def lease_expired_def)
  have "length (filter (lease_expired t {}) (db_jobs d)) \<le> queue_size d"
    unfolding queue_size_def using ok exp by (intro filter_count_mono) (auto simp: settling_def)
  then have "set (expired_ids t {} 500 d) = j_id ` {j \<in> set (db_jobs d). lease_expired t {} j}"
    unfolding expired_ids_def using size by (intro pick_all) simp
  then have picked: "j_id j \<in> set (expired_ids t {} 500 d) \<longleftrightarrow> j_state j = Running" if "j \<in> set (db_jobs d)" for j
    using that exp distinct_map_key_inj [OF db_inv_distinct [OF inv]] by (auto simp: image_iff)
  have up: "upd_where (\<lambda>j. j_id j \<in> set (expired_ids t {} 500 d)) ?f (db_jobs d)
      = upd_where (\<lambda>j. j_state j = Running) ?f (db_jobs d)"
    by (rule upd_where_cong) (rule picked)
  obtain r where r: "reapOnce t {} 0 chaos_backoff 500 d = (Inr r, ?d1)"
    using reap_lands [OF inv, of t "{}" "\<lparr>rp_limit = 500, rp_retryDelaySeconds = nextDelaySeconds 0 1 chaos_backoff\<rparr>"]
    by (simp add: reapOnce_def up)
  moreover have "db_inv ?d1"
    using reapOnce_counts [OF inv, of t "{}" 0 chaos_backoff 500] r by auto
  moreover have row: "k \<in> set (db_jobs d) \<and> j_state k \<noteq> Running \<or> (\<exists>j \<in> set (db_jobs d). j_state j = Running \<and> k = ?f j)"
    if "k \<in> set (db_jobs ?d1)" for k
    using that by (auto simp: upd_where_def)
  moreover have "j_run_at (?f j) = t + us_per_ms" if "j_attempt j < j_max_attempts j" for j
    using that by (simp add: reap_row_def chaos_delay make_interval_secs_def us_per_ms_def)
  moreover have "(j_state (?f j) = Available \<longrightarrow> j_attempt (?f j) < j_max_attempts (?f j)) \<and> j_state (?f j) \<noteq> Running
      \<and> j_queue (?f j) = j_queue j" for j
    by (simp add: reap_row_def)
  moreover have "us_per_ms = 1000" by (simp add: us_per_ms_def)
  ultimately have settled: "settling (t + us_per_ms) ?d1"
    using ok none unfolding settling_def by (fastforce simp: queue_paused_def reap_row_def)
  have "running_jobs ?d1 = 0"
  proof -
    have "j_state k \<noteq> Running" if "k \<in> set (db_jobs ?d1)" for k
      using row [OF that] reap_stops by metis
    then have "filter (\<lambda>j. j_state j = Running) (db_jobs ?d1) = []" by (simp only: filter_empty_conv) blast
    then show ?thesis by (simp add: running_jobs_def)
  qed
  moreover have "length (filter (\<lambda>j. j_queue j = q \<and> active_state (j_state j)) (upd_where (\<lambda>j. j_state j = Running) ?f js))
      \<le> length (filter (\<lambda>j. j_queue j = q \<and> active_state (j_state j)) js)" for q js
    by (induction js) (auto simp: reap_row_def)
  then have "waiting_jobs ?d1 \<le> waiting_jobs d" by (simp add: waiting_jobs_def)
  moreover have "queue_size ?d1 = queue_size d" by (rule queue_size_update) (simp add: reap_row_def)
  ultimately show "\<exists>r d1. reapOnce t {} 0 chaos_backoff 500 d = (Inr r, d1) \<and> settling (t + us_per_ms) d1
        \<and> waiting_jobs d1 \<le> waiting_jobs d \<and> running_jobs d1 = 0 \<and> queue_size d1 = queue_size d"
    using r settled by blast
qed

text \<open>
  The drain settles the queue: as many iterations as there are jobs left, and two more, are enough.
\<close>

lemma drain_settles:
  assumes "settling (now n) (ch_db s)" and "\<forall>k. now k + us_per_ms \<le> now (Suc k)"
    and "queue_size (ch_db s) = TOTAL_JOBS"
    and "waiting_jobs (ch_db s) + (if running_jobs (ch_db s) = 0 then 0 else 1) < budget"
  shows "\<exists>s'. drainRemaining now budget n s = (Inr (), s') \<and> waiting_jobs (ch_db s') = 0
    \<and> queue_size (ch_db s') = TOTAL_JOBS"
  using assms(1,3,4)
proof (induction budget arbitrary: n s)
  case (Suc budget)
  let ?d = "ch_db s" and ?t = "now n"
  note ok = Suc.prems(1) and size = Suc.prems(2)
  have next_t: "?t + us_per_ms \<le> now (Suc n)" using assms(2) by blast
  moreover have "0 \<le> us_per_ms" by (simp add: us_per_ms_def)
  ultimately have later: "?t \<le> now (Suc n)" by linarith
  show ?case
  proof (cases "\<exists>j \<in> set (db_jobs ?d). j_queue j = DURABILITY_QUEUE \<and> j_state j = Available")
    case True
    then obtain j where "j \<in> set (db_jobs ?d)" "j_queue j = DURABILITY_QUEUE" "j_state j = Available" by blast
    from claiming_pass [OF ok this] obtain c cs d1 s1 where
      c: "claimJobs ?t {} drain_claim ?d = Inr (c # cs, d1)"
      "deliver_all ?t finisher (c # cs) (s\<lparr>ch_db := d1\<rparr>) = (Inr (), s1)" and
      s1: "settling ?t (ch_db s1)" "waiting_jobs (ch_db s1) < waiting_jobs ?d"
        "running_jobs (ch_db s1) = running_jobs ?d" "queue_size (ch_db s1) = queue_size ?d" by blast
    from Suc.IH [OF settling_later [OF s1(1) later]] s1 size Suc.prems(3) c show ?thesis
      by (simp add: drain_claim_def del: deliver_all.simps split: if_splits)
  next
    case False
    then have none: "\<forall>j \<in> set (db_jobs ?d). j_queue j = DURABILITY_QUEUE \<longrightarrow> j_state j \<noteq> Available" by blast
    from reaping_pass [OF ok none] size obtain r d1 where
      c: "claimJobs ?t {} drain_claim ?d = Inr ([], ?d)" and
      r: "reapOnce ?t {} 0 chaos_backoff 500 ?d = (Inr r, d1)" "settling (?t + us_per_ms) d1"
        "waiting_jobs d1 \<le> waiting_jobs ?d" "running_jobs d1 = 0" "queue_size d1 = queue_size ?d"
      by (auto simp: TOTAL_JOBS_def)
    show ?thesis
    proof (cases "TOTAL_JOBS \<le> terminalCount ?d")
      case True
      with c size terminal_and_waiting [of ?d] show ?thesis by (simp add: drain_claim_def)
    next
      case more: False
      have "running_jobs ?d \<noteq> 0"
      proof
        assume "running_jobs ?d = 0"
        with none have "waiting_jobs ?d = 0"
          by (auto simp: waiting_jobs_def running_jobs_def filter_empty_conv active_state_def)
        with more size terminal_and_waiting [of ?d] show False by simp
      qed
      with Suc.IH [of "Suc n" "s\<lparr>ch_db := d1\<rparr>"] settling_later [OF r(2) next_t] r c more size Suc.prems(3)
      show ?thesis by (simp add: drain_claim_def)
    qed
  qed
qed simp

lemma none_waiting:
  "waiting_jobs d = 0 \<longleftrightarrow> (\<forall>j \<in> set (db_jobs d). j_queue j = DURABILITY_QUEUE \<longrightarrow> terminal_state (j_state j))"
  by (auto simp: waiting_jobs_def filter_empty_conv active_not_terminal)

end
