(* ===== verification/Json.thy ===== *)
theory Json
  imports Client
begin

text \<open>
  \<open>JSON.parse\<close>, the inverse of \<open>JSON.stringify\<close> (theory Client), which the dashboard
  (packages/dashboard/src/api.ts) uses on what the server writes. Texts are bytes. A numeral stays
  the text it was written as, an object keeps its members in their order, and a lone surrogate of
  an escape is written with the three bytes of its code. The recursion has fuel, of which every
  call takes one; twice the length of the text is enough (lemma \<open>parsers_agree\<close>).
\<close>

subsection \<open>Strings\<close>

definition is_ws :: "char \<Rightarrow> bool" where
  "is_ws c \<longleftrightarrow> byte c \<in> {9, 10, 13, 32}"

definition skip_ws :: "string \<Rightarrow> string" where
  "skip_ws s = dropWhile is_ws s"

definition hex_value :: "char \<Rightarrow> nat option" where
  "hex_value c =
     (let b = byte c
      in if 48 \<le> b \<and> b \<le> 57 then Some (b - 48)
         else if 97 \<le> b \<and> b \<le> 102 then Some (b - 87)
         else if 65 \<le> b \<and> b \<le> 70 then Some (b - 55)
         else None)"

definition hex4 :: "string \<Rightarrow> (nat \<times> string) option" where
  "hex4 s =
     (case s of
        a # b # c # d # r \<Rightarrow>
          (case (hex_value a, hex_value b, hex_value c, hex_value d) of
             (Some w, Some x, Some y, Some z) \<Rightarrow> Some (4096 * w + 256 * x + 16 * y + z, r)
           | _ \<Rightarrow> None)
      | _ \<Rightarrow> None)"

definition utf8_encode :: "nat \<Rightarrow> string" where
  "utf8_encode n =
     (if n < 128 then [char_of n]
      else if n < 2048 then [char_of (192 + n div 64), char_of (128 + n mod 64)]
      else if n < 65536 then
        [char_of (224 + n div 4096), char_of (128 + n div 64 mod 64), char_of (128 + n mod 64)]
      else [char_of (240 + n div 262144), char_of (128 + n div 4096 mod 64),
            char_of (128 + n div 64 mod 64), char_of (128 + n mod 64)])"

text \<open>What follows \<open>\u\<close>; two escapes that form a surrogate pair are one character.\<close>

definition low_half :: "string \<Rightarrow> (nat \<times> string) option" where
  "low_half s =
     (case s of
        a # b # r \<Rightarrow>
          if byte a = 92 \<and> byte b = 117 then
            (case hex4 r of
               Some (l, r') \<Rightarrow> if 56320 \<le> l \<and> l < 57344 then Some (l - 56320, r') else None
             | None \<Rightarrow> None)
          else None
      | _ \<Rightarrow> None)"

definition unicode_escape :: "string \<Rightarrow> (string \<times> string) option" where
  "unicode_escape s =
     (case hex4 s of
        None \<Rightarrow> None
      | Some (h, r) \<Rightarrow>
          (if 55296 \<le> h \<and> h < 56320
           then (case low_half r of
                   Some (l, r') \<Rightarrow> Some (utf8_encode (65536 + 1024 * (h - 55296) + l), r')
                 | None \<Rightarrow> Some (utf8_encode h, r))
           else Some (utf8_encode h, r)))"

definition simple_escape :: "char \<Rightarrow> char option" where
  "simple_escape c =
     (let b = byte c
      in if b \<in> {34, 92, 47} then Some c
         else if b = 98 then Some (char_of (8 :: nat))
         else if b = 102 then Some (char_of (12 :: nat))
         else if b = 110 then Some (char_of (10 :: nat))
         else if b = 114 then Some (char_of (13 :: nat))
         else if b = 116 then Some (char_of (9 :: nat))
         else None)"

definition after_backslash :: "string \<Rightarrow> (string \<times> string) option" where
  "after_backslash s =
     (case s of
        [] \<Rightarrow> None
      | c # r \<Rightarrow>
          if byte c = 117 then unicode_escape r
          else map_option (\<lambda>d. ([d], r)) (simple_escape c))"

lemma hex4_shorter: "hex4 s = Some (n, r) \<Longrightarrow> length r < length s"
  by (auto simp: hex4_def split: list.splits option.splits)

lemma low_half_shorter: "low_half s = Some (n, r) \<Longrightarrow> length r < length s"
  by (auto simp: low_half_def split: list.splits option.splits if_splits dest!: hex4_shorter)

lemma after_backslash_shorter: "after_backslash s = Some (t, r) \<Longrightarrow> length r < length s"
  by (auto simp: after_backslash_def unicode_escape_def split: list.splits option.splits if_splits
      dest!: hex4_shorter low_half_shorter)

text \<open>The characters up to the closing quote.\<close>

function string_body :: "string \<Rightarrow> (string \<times> string) option" where
  "string_body [] = None"
| "string_body (c # s) =
     (if byte c = 34 then Some ([], s)
      else if byte c < 32 then None
      else if byte c = 92 then
        (case after_backslash s of
           None \<Rightarrow> None
         | Some (t, r) \<Rightarrow> map_option (\<lambda>(u, r'). (t @ u, r')) (string_body r))
      else map_option (\<lambda>(u, r'). (c # u, r')) (string_body s))"
  by pat_completeness auto

termination
  by (relation "measure length") (auto dest: after_backslash_shorter)

subsection \<open>Numerals\<close>

definition digits1 :: "string \<Rightarrow> (string \<times> string) option" where
  "digits1 s =
     (let ds = takeWhile is_digit s in if ds = [] then None else Some (ds, dropWhile is_digit s))"

definition int_part :: "string \<Rightarrow> (string \<times> string) option" where
  "int_part s =
     (case s of
        [] \<Rightarrow> None
      | c # r \<Rightarrow> if byte c = 48 then Some ([c], r) else digits1 s)"

definition frac_part :: "string \<Rightarrow> (string \<times> string) option" where
  "frac_part s =
     (case s of
        [] \<Rightarrow> Some ([], [])
      | c # r \<Rightarrow> if byte c = 46 then map_option (\<lambda>(ds, r'). (c # ds, r')) (digits1 r) else Some ([], s))"

definition exp_part :: "string \<Rightarrow> (string \<times> string) option" where
  "exp_part s =
     (case s of
        [] \<Rightarrow> Some ([], [])
      | c # r \<Rightarrow>
          if byte c \<in> {69, 101} then
            (case r of
               [] \<Rightarrow> None
             | g # r' \<Rightarrow>
                 if byte g \<in> {43, 45} then map_option (\<lambda>(ds, t). (c # g # ds, t)) (digits1 r')
                 else map_option (\<lambda>(ds, t). (c # ds, t)) (digits1 r))
          else Some ([], s))"

definition unsigned_part :: "string \<Rightarrow> (string \<times> string) option" where
  "unsigned_part s =
     (case int_part s of
        None \<Rightarrow> None
      | Some (i, r) \<Rightarrow>
          (case frac_part r of
             None \<Rightarrow> None
           | Some (f, r') \<Rightarrow> map_option (\<lambda>(e, t). (i @ f @ e, t)) (exp_part r')))"

definition number_scan :: "string \<Rightarrow> (string \<times> string) option" where
  "number_scan s =
     (case s of
        [] \<Rightarrow> None
      | c # r \<Rightarrow>
          if byte c = 45 then map_option (\<lambda>(n, t). (c # n, t)) (unsigned_part r)
          else unsigned_part s)"

definition is_numeral :: "string \<Rightarrow> bool" where
  "is_numeral s \<longleftrightarrow> number_scan s = Some (s, [])"

subsection \<open>Values\<close>

definition keyword :: "string \<Rightarrow> (json \<times> string) option" where
  "keyword s =
     (if is_prefix ''null'' s then Some (JNull, drop 4 s)
      else if is_prefix ''true'' s then Some (JBool True, drop 4 s)
      else if is_prefix ''false'' s then Some (JBool False, drop 5 s)
      else None)"

definition starts :: "nat \<Rightarrow> string \<Rightarrow> bool" where
  "starts b s \<longleftrightarrow> s \<noteq> [] \<and> byte (hd s) = b"

fun parse_value :: "nat \<Rightarrow> string \<Rightarrow> (json \<times> string) option"
and parse_items :: "nat \<Rightarrow> string \<Rightarrow> (json list \<times> string) option"
and parse_members :: "nat \<Rightarrow> string \<Rightarrow> ((string \<times> json) list \<times> string) option"
where
  "parse_value 0 s = None"
| "parse_value (Suc n) s =
     (let t = skip_ws s
      in if starts 34 t then map_option (\<lambda>(x, r). (JStr x, r)) (string_body (tl t))
         else if starts 91 t then
           (let u = skip_ws (tl t)
            in if starts 93 u then Some (JArr [], tl u)
               else map_option (\<lambda>(xs, r). (JArr xs, r)) (parse_items n u))
         else if starts 123 t then
           (let u = skip_ws (tl t)
            in if starts 125 u then Some (JObj [], tl u)
               else map_option (\<lambda>(fs, r). (JObj fs, r)) (parse_members n u))
         else case keyword t of
                Some (v, r) \<Rightarrow> Some (v, r)
              | None \<Rightarrow> map_option (\<lambda>(x, r). (JNum x, r)) (number_scan t))"
| "parse_items 0 s = None"
| "parse_items (Suc n) s =
     (case parse_value n s of
        None \<Rightarrow> None
      | Some (v, r) \<Rightarrow>
          (let t = skip_ws r
           in if starts 93 t then Some ([v], tl t)
              else if starts 44 t then map_option (\<lambda>(vs, r'). (v # vs, r')) (parse_items n (tl t))
              else None))"
| "parse_members 0 s = None"
| "parse_members (Suc n) s =
     (let q = skip_ws s
      in if starts 34 q then
           (case string_body (tl q) of
              None \<Rightarrow> None
            | Some (k, r) \<Rightarrow>
                (let t = skip_ws r
                 in if starts 58 t then
                      (case parse_value n (tl t) of
                         None \<Rightarrow> None
                       | Some (v, r') \<Rightarrow>
                           (let u = skip_ws r'
                            in if starts 125 u then Some ([(k, v)], tl u)
                               else if starts 44 u then
                                 map_option (\<lambda>(fs, r''). ((k, v) # fs, r'')) (parse_members n (tl u))
                               else None))
                    else None))
         else None)"

definition json_parse :: "string \<Rightarrow> json option" where
  "json_parse s =
     (case parse_value (Suc (2 * length s)) s of
        Some (v, r) \<Rightarrow> if skip_ws r = [] then Some v else None
      | None \<Rightarrow> None)"

text \<open>A repeated key of an object counts once, with its last value.\<close>

definition json_field :: "string \<Rightarrow> (string \<times> json) list \<Rightarrow> json option" where
  "json_field k fs = map_of (rev fs) k"

subsection \<open>Reading back what was written\<close>

lemma byte_char_of: "n < 256 \<Longrightarrow> byte (char_of n) = n"
  by (simp add: byte_def)

lemma byte_less: "byte c < 256"
  by (simp add: byte_def)

lemma char_of_byte: "char_of (byte c) = c"
  by (simp add: byte_def)

lemma hex_value_digit: "n < 16 \<Longrightarrow> hex_value (hex_digit n) = Some n"
  by (auto simp: hex_value_def hex_digit_def digit_char_def byte_char_of Let_def)

lemma hex4_control: "b < 32 \<Longrightarrow> hex4 (''00'' @ [hex_digit (b div 16), hex_digit (b mod 16)] @ r) = Some (b, r)"
proof -
  assume "b < 32"
  then have "hex_value (hex_digit (b div 16)) = Some (b div 16)" "hex_value (hex_digit (b mod 16)) = Some (b mod 16)"
    by (intro hex_value_digit; simp)+
  moreover have "hex_value (CHR ''0'') = Some 0" by (simp add: hex_value_def byte_def)
  ultimately show ?thesis by (simp add: hex4_def)
qed

text \<open>One escaped character, read.\<close>

lemma string_body_plain:
  "byte c \<noteq> 34 \<Longrightarrow> \<not> byte c < 32 \<Longrightarrow> byte c \<noteq> 92 \<Longrightarrow>
   string_body (c # s) = map_option (\<lambda>(u, r). (c # u, r)) (string_body s)"
  by simp

lemma string_body_escape:
  "after_backslash t = Some ([c], s) \<Longrightarrow>
   string_body (char_of (92 :: nat) # t) = map_option (\<lambda>(u, r). (c # u, r)) (string_body s)"
  by (simp add: byte_char_of)

text \<open>The characters with a short escape, and what follows the backslash.\<close>

definition short_escapes :: "(nat \<times> nat) list" where
  "short_escapes = [(34, 34), (92, 92), (8, 98), (12, 102), (10, 110), (13, 114), (9, 116)]"

lemma short_escape:
  assumes "(byte c, b) \<in> set short_escapes"
  shows "escape_char c = map char_of [92, b] \<and> after_backslash (char_of b # s) = Some ([c], s)"
proof -
  have c: "c = char_of (byte c)" by (simp add: char_of_byte)
  have "escape_char c = map char_of [92, b]"
    using assms by (auto simp: short_escapes_def escape_char_def Let_def)
  moreover have "simple_escape (char_of b) = Some (char_of (byte c))" and "b \<noteq> 117" "b < 256"
    using assms by (auto simp: short_escapes_def simple_escape_def byte_char_of Let_def)
  ultimately show ?thesis using c by (simp add: after_backslash_def byte_char_of)
qed

lemma control_escape:
  assumes "byte c < 32" and "byte c \<notin> {8, 12, 10, 13, 9}"
  shows "\<exists>t. escape_char c = char_of (92 :: nat) # t \<and> after_backslash (t @ s) = Some ([c], s)"
proof -
  let ?h = "''00'' @ [hex_digit (byte c div 16), hex_digit (byte c mod 16)]"
  have "escape_char c = char_of (92 :: nat) # (CHR ''u'' # ?h)"
    using assms by (simp add: escape_char_def Let_def)
  moreover have "unicode_escape (?h @ s) = Some ([c], s)"
    using assms(1) hex4_control [OF assms(1), of s] by (simp add: unicode_escape_def utf8_encode_def char_of_byte)
  then have "after_backslash ((CHR ''u'' # ?h) @ s) = Some ([c], s)"
    by (simp add: after_backslash_def byte_def)
  ultimately show ?thesis by blast
qed

lemma string_body_char:
  "string_body (escape_char c @ s) = map_option (\<lambda>(u, r). (c # u, r)) (string_body s)"
proof (cases "byte c < 32 \<and> byte c \<notin> {8, 12, 10, 13, 9}")
  case True
  with control_escape [of c s] obtain t where
    "escape_char c = char_of (92 :: nat) # t" "after_backslash (t @ s) = Some ([c], s)" by blast
  then show ?thesis using string_body_escape by simp
next
  case control: False
  show ?thesis
  proof (cases "\<exists>b. (byte c, b) \<in> set short_escapes")
    case True
    then obtain b where b: "(byte c, b) \<in> set short_escapes" by blast
    from short_escape [OF b, of s] string_body_escape show ?thesis by simp
  next
    case False
    with control have p: "byte c \<noteq> 34" "\<not> byte c < 32" "byte c \<noteq> 92" by (auto simp: short_escapes_def)
    then have "escape_char c = [c]" by (simp add: escape_char_def Let_def)
    with string_body_plain [OF p] show ?thesis by simp
  qed
qed

lemma string_body_quoted: "string_body (concat (map escape_char x) @ char_of (34 :: nat) # r) = Some (x, r)"
proof (induction x)
  case Nil
  show ?case by (simp add: byte_char_of)
next
  case (Cons c x)
  then show ?case by (simp add: string_body_char del: string_body.simps)
qed

subsection \<open>Numerals, read\<close>

text \<open>What may follow a numeral.\<close>

definition stops :: "string \<Rightarrow> bool" where
  "stops r \<longleftrightarrow> r = [] \<or> \<not> is_digit (hd r) \<and> byte (hd r) \<notin> {46, 69, 101}"

lemma digit_byte: "is_digit c \<longleftrightarrow> 48 \<le> byte c \<and> byte c \<le> 57"
  by (simp add: is_digit_def byte_def)

lemma take_drop_stops:
  "stops r \<Longrightarrow> takeWhile is_digit (s @ r) = takeWhile is_digit s \<and> dropWhile is_digit (s @ r) = dropWhile is_digit s @ r"
  by (induction s) (auto simp: stops_def takeWhile_eq_Nil_iff dropWhile_eq_self_iff)

lemma digits1_append: "stops r \<Longrightarrow> digits1 s = Some (ds, t) \<Longrightarrow> digits1 (s @ r) = Some (ds, t @ r)"
  using take_drop_stops [of r s] by (auto simp: digits1_def Let_def split: if_splits)

lemma int_part_append: "stops r \<Longrightarrow> int_part s = Some (ds, t) \<Longrightarrow> int_part (s @ r) = Some (ds, t @ r)"
  using digits1_append [of r s] by (auto simp: int_part_def split: list.splits if_splits)

lemma frac_part_append: "stops r \<Longrightarrow> frac_part s = Some (ds, t) \<Longrightarrow> frac_part (s @ r) = Some (ds, t @ r)"
  using digits1_append [of r]
  by (cases s; cases r) (fastforce simp: frac_part_def stops_def split: if_splits)+

lemma exp_part_append: "stops r \<Longrightarrow> exp_part s = Some (ds, t) \<Longrightarrow> exp_part (s @ r) = Some (ds, t @ r)"
  using digits1_append [of r]
  by (cases s; cases r) (fastforce simp: exp_part_def stops_def split: list.splits if_splits)+

lemma unsigned_part_append:
  "stops r \<Longrightarrow> unsigned_part s = Some (ds, t) \<Longrightarrow> unsigned_part (s @ r) = Some (ds, t @ r)"
  by (auto simp: unsigned_part_def int_part_append frac_part_append exp_part_append split: option.splits)

lemma number_scan_append:
  "stops r \<Longrightarrow> number_scan s = Some (n, t) \<Longrightarrow> number_scan (s @ r) = Some (n, t @ r)"
  using unsigned_part_append [of r] by (cases s) (fastforce simp: number_scan_def split: if_splits)+

lemma number_first:
  assumes "is_numeral n"
  obtains c cs where "n = c # cs" and "byte c = 45 \<or> is_digit c"
proof (cases n)
  case Nil
  with assms show ?thesis by (simp add: is_numeral_def number_scan_def)
next
  case (Cons c cs)
  have "byte c = 45 \<or> is_digit c"
  proof (rule ccontr)
    assume "\<not> ?thesis"
    then have "byte c \<noteq> 45" "byte c \<noteq> 48" "\<not> is_digit c" by (auto simp: digit_byte)
    then have "number_scan n = None"
      by (simp add: Cons number_scan_def unsigned_part_def int_part_def digits1_def)
    with assms show False by (simp add: is_numeral_def)
  qed
  with Cons show ?thesis by (rule that)
qed

lemma show_nat_leading: "show_nat n = c # cs \<Longrightarrow> byte c = 48 \<Longrightarrow> n = 0"
proof (induction n arbitrary: cs rule: show_nat.induct)
  case (1 n)
  show ?case
  proof (cases "n < 10")
    case True
    with "1.prems" have "byte (char_of (48 + n)) = 48" by (simp add: show_nat.simps digit_char_def)
    with True show ?thesis by (simp add: byte_char_of)
  next
    case False
    obtain d ds where d: "show_nat (n div 10) = d # ds"
      using show_nat_nonempty [of "n div 10"] by (cases "show_nat (n div 10)") auto
    have "show_nat n = show_nat (n div 10) @ [digit_char (n mod 10)]"
      using False by (subst show_nat.simps) simp
    with "1.prems" d have "d = c" by simp
    with "1.IH" [OF False] d "1.prems" have "n div 10 = 0" by blast
    with False show ?thesis by simp
  qed
qed

lemma show_nat_numeral: "is_numeral (show_nat n)"
proof -
  have all: "takeWhile is_digit (show_nat n) = show_nat n" "dropWhile is_digit (show_nat n) = []"
    using show_nat_digits [of _ n] by (auto simp: takeWhile_eq_all_conv dropWhile_eq_Nil_conv)
  obtain c cs where s: "show_nat n = c # cs" using show_nat_nonempty [of n] by (cases "show_nat n") auto
  then have "is_digit c" using show_nat_digits [of c n] by simp
  moreover have "cs = []" if "byte c = 48"
    using show_nat_leading [OF s that] s by (simp add: show_nat.simps)
  ultimately have "int_part (show_nat n) = Some (show_nat n, [])"
    using all s by (auto simp: int_part_def digits1_def Let_def)
  moreover from \<open>is_digit c\<close> have "byte c \<noteq> 45" by (simp add: digit_byte)
  ultimately show ?thesis
    using s by (simp add: is_numeral_def number_scan_def unsigned_part_def frac_part_def exp_part_def)
qed

subsection \<open>Values, read\<close>

fun json_ok :: "json \<Rightarrow> bool" where
  "json_ok (JNum n) = is_numeral n"
| "json_ok (JArr xs) = list_all json_ok xs"
| "json_ok (JObj fs) = list_all (\<lambda>(k, v). json_ok v) fs"
| "json_ok _ = True"

lemma skip_ws_stop: "\<not> is_ws c \<Longrightarrow> skip_ws (c # s) = c # s"
  by (simp add: skip_ws_def)

lemma stringify_first:
  assumes "json_ok j"
  obtains c cs where "stringify j = c # cs" and "\<not> is_ws c" and "byte c \<noteq> 93" and "byte c \<noteq> 125"
proof (cases j)
  case (JNum n)
  with assms have "is_numeral n" by simp
  then obtain c cs where "n = c # cs" "byte c = 45 \<or> is_digit c" by (rule number_first)
  with JNum that show ?thesis by (auto simp: is_ws_def digit_byte)
next
  case (JBool b)
  with that show ?thesis by (cases b) (auto simp: is_ws_def byte_def)
qed (use that in \<open>auto simp: quoted_def is_ws_def byte_def\<close>)

text \<open>A value that is read back in front of anything that may follow it.\<close>

definition reads :: "json \<Rightarrow> bool" where
  "reads v \<longleftrightarrow> (\<forall>n r. length (stringify v) \<le> n \<longrightarrow> stops r \<longrightarrow> parse_value n (stringify v @ r) = Some (v, r))"

lemma stops_punctuation: "byte c \<in> {44, 93, 125, 10} \<Longrightarrow> stops (c # r)"
  by (auto simp: stops_def digit_byte)

lemma length_pos: "json_ok v \<Longrightarrow> 0 < length (stringify v)"
  by (metis length_greater_0_conv list.distinct(1) stringify_first)

lemma items_read:
  assumes "xs \<noteq> []" and "\<forall>v \<in> set xs. json_ok v \<and> reads v" and "length (commas (map stringify xs)) < n"
  shows "parse_items n (commas (map stringify xs) @ CHR '']'' # r) = Some (xs, r)"
  using assms
proof (induction xs arbitrary: n rule: list_nonempty_induct)
  case (single v)
  then obtain m where n: "n = Suc m" by (cases n) auto
  have "parse_value m (stringify v @ CHR '']'' # r) = Some (v, CHR '']'' # r)"
    using single.prems n by (auto simp: reads_def stops_punctuation byte_def)
  then show ?case by (simp add: n skip_ws_stop is_ws_def starts_def byte_def)
next
  case (cons v vs)
  then obtain m where n: "n = Suc m" by (cases n) auto
  obtain w ws where vs: "vs = w # ws" using cons.hyps by (cases vs) auto
  let ?t = "commas (map stringify vs) @ CHR '']'' # r"
  have shape: "commas (map stringify (v # vs)) @ CHR '']'' # r = stringify v @ CHR '','' # ?t"
    by (simp add: vs)
  have "length (stringify v) + 1 + length (commas (map stringify vs)) < n"
    using cons.prems(2) by (simp add: vs)
  then have l: "length (stringify v) \<le> m" "length (commas (map stringify vs)) < m"
    using length_pos [of v] cons.prems(1) n by auto
  have "parse_value m (stringify v @ CHR '','' # ?t) = Some (v, CHR '','' # ?t)"
    using cons.prems(1) l(1) by (auto simp: reads_def stops_punctuation byte_def)
  moreover have "parse_items m ?t = Some (vs, r)" using cons.IH [OF _ l(2)] cons.prems(1) by simp
  ultimately show ?case
    unfolding shape n by (simp add: skip_ws_stop is_ws_def starts_def byte_def)
qed

lemma members_read:
  assumes "fs \<noteq> []" and "\<forall>(k, v) \<in> set fs. json_ok v \<and> reads v"
    and "length (commas (map (\<lambda>(k, v). quoted k @ '':'' @ stringify v) fs)) < n"
  shows "parse_members n (commas (map (\<lambda>(k, v). quoted k @ '':'' @ stringify v) fs) @ CHR ''}'' # r) = Some (fs, r)"
  using assms
proof (induction fs arbitrary: n rule: list_nonempty_induct)
  case (single f)
  obtain k v where f: "f = (k, v)" by fastforce
  from single obtain m where n: "n = Suc m" by (cases n) auto
  have "parse_value m (stringify v @ CHR ''}'' # r) = Some (v, CHR ''}'' # r)"
    using single.prems n by (auto simp: f reads_def stops_punctuation byte_def)
  moreover have "string_body (concat (map escape_char k) @ char_of (34 :: nat) # CHR '':'' # s) = Some (k, CHR '':'' # s)" for s
    by (rule string_body_quoted)
  ultimately show ?case
    by (simp add: f n quoted_def skip_ws_stop is_ws_def starts_def byte_def)
next
  case (cons f fs)
  obtain k v where f: "f = (k, v)" by fastforce
  from cons obtain m where n: "n = Suc m" by (cases n) auto
  obtain g gs where fs: "fs = g # gs" using cons.hyps by (cases fs) auto
  let ?w = "\<lambda>(k, v). quoted k @ '':'' @ stringify v"
  let ?t = "commas (map ?w fs) @ CHR ''}'' # r"
  have shape: "commas (map ?w (f # fs)) @ CHR ''}'' # r = quoted k @ CHR '':'' # stringify v @ CHR '','' # ?t"
    by (simp add: fs f)
  have "length (quoted k) + 2 + length (stringify v) + length (commas (map ?w fs)) < n"
    using cons.prems(2) by (simp add: fs f)
  then have l: "length (stringify v) \<le> m" "length (commas (map ?w fs)) < m"
    using n by auto
  have "parse_value m (stringify v @ CHR '','' # ?t) = Some (v, CHR '','' # ?t)"
    using cons.prems(1) l(1) by (auto simp: f reads_def stops_punctuation byte_def)
  moreover have "parse_members m ?t = Some (fs, r)" using cons.IH [OF _ l(2)] cons.prems(1) by simp
  moreover have "string_body (concat (map escape_char k) @ char_of (34 :: nat) # CHR '':'' # s) = Some (k, CHR '':'' # s)" for s
    by (rule string_body_quoted)
  ultimately show ?case
    unfolding shape n by (simp add: quoted_def skip_ws_stop is_ws_def starts_def byte_def f)
qed

lemma is_prefix_first: "is_prefix (c # p) (d # s) \<Longrightarrow> c = d"
  by simp

text \<open>\<open>JSON.parse\<close> reads back what \<open>JSON.stringify\<close> wrote.\<close>

lemma value_reads: "json_ok j \<Longrightarrow> reads j"
proof (induction j rule: stringify.induct)
  case 1
  show ?case
    unfolding reads_def
    by (intro allI impI, case_tac n) (simp_all add: skip_ws_stop is_ws_def starts_def byte_def keyword_def)
next
  case (2 b)
  show ?case
    unfolding reads_def
    by (intro allI impI, case_tac n; cases b)
      (simp_all add: skip_ws_stop is_ws_def starts_def byte_def keyword_def)
next
  case (3 x)
  then have x: "is_numeral x" by simp
  from x obtain c cs where c: "x = c # cs" "byte c = 45 \<or> is_digit c" by (rule number_first)
  then have b: "\<not> is_ws c" "byte c \<notin> {34, 91, 123, 110, 116, 102}" by (auto simp: is_ws_def digit_byte)
  have "parse_value n (x @ r) = Some (JNum x, r)" if l: "length x \<le> n" and st: "stops r" for n r
  proof -
    obtain m where n: "n = Suc m" using l c(1) by (cases n) auto
    have "number_scan (x @ r) = Some (x, r)"
      using number_scan_append [OF st, of x x "[]"] x by (simp add: is_numeral_def)
    moreover have "keyword (x @ r) = None"
      using b(2) c(1) by (auto simp: keyword_def byte_def dest!: is_prefix_first)
    ultimately show ?thesis
      using b c(1) by (simp add: n skip_ws_stop starts_def)
  qed
  then show ?case by (simp add: reads_def)
next
  case (4 s)
  have "parse_value n (quoted s @ r) = Some (JStr s, r)" if l: "length (quoted s) \<le> n" for n r
  proof -
    obtain m where n: "n = Suc m" using l by (cases n) (auto simp: quoted_def)
    show ?thesis
      by (simp add: n quoted_def skip_ws_stop is_ws_def starts_def byte_def string_body_quoted [unfolded byte_def])
  qed
  then show ?case by (simp add: reads_def)
next
  case (5 xs)
  then have ok: "\<forall>v \<in> set xs. json_ok v \<and> reads v" by (auto simp: list_all_iff)
  have "parse_value n (stringify (JArr xs) @ r) = Some (JArr xs, r)" if l: "length (stringify (JArr xs)) \<le> n" for n r
  proof -
    obtain m where n: "n = Suc m" using l by (cases n) auto
    show ?thesis
    proof (cases "xs = []")
      case True
      then show ?thesis by (simp add: n skip_ws_stop is_ws_def starts_def byte_def)
    next
      case False
      have "parse_items m (commas (map stringify xs) @ CHR '']'' # r) = Some (xs, r)"
        using items_read [OF False ok] l n by simp
      moreover obtain c cs where "commas (map stringify xs) = c # cs" "\<not> is_ws c" "byte c \<noteq> 93"
      proof -
        obtain v vs where "xs = v # vs" using False by (cases xs) auto
        moreover from this ok have "json_ok v" by simp
        then obtain c cs where "stringify v = c # cs" "\<not> is_ws c" "byte c \<noteq> 93" "byte c \<noteq> 125"
          by (rule stringify_first)
        ultimately show ?thesis using that by (cases vs) auto
      qed
      ultimately show ?thesis
        by (simp add: n skip_ws_stop is_ws_def starts_def byte_def)
    qed
  qed
  then show ?case by (simp add: reads_def)
next
  case (6 fs)
  then have ok: "\<forall>(k, v) \<in> set fs. json_ok v \<and> reads v" by (fastforce simp: list_all_iff)
  let ?w = "\<lambda>(k, v). quoted k @ '':'' @ stringify v"
  have "parse_value n (stringify (JObj fs) @ r) = Some (JObj fs, r)" if l: "length (stringify (JObj fs)) \<le> n" for n r
  proof -
    obtain m where n: "n = Suc m" using l by (cases n) auto
    show ?thesis
    proof (cases "fs = []")
      case True
      then show ?thesis by (simp add: n skip_ws_stop is_ws_def starts_def byte_def)
    next
      case False
      have "parse_members m (commas (map ?w fs) @ CHR ''}'' # r) = Some (fs, r)"
        using members_read [OF False ok] l n by simp
      moreover obtain cs where "commas (map ?w fs) = char_of (34 :: nat) # cs"
      proof -
        obtain f gs where "fs = f # gs" using False by (cases fs) auto
        then show ?thesis using that by (cases gs; cases f) (auto simp: quoted_def)
      qed
      ultimately show ?thesis
        by (simp add: n skip_ws_stop is_ws_def starts_def byte_def)
    qed
  qed
  then show ?case by (simp add: reads_def)
qed

lemma json_round_trip: "json_ok j \<Longrightarrow> json_parse (stringify j) = Some j"
  using value_reads [of j, unfolded reads_def, rule_format, of "Suc (2 * length (stringify j))" "[]"]
  by (simp add: json_parse_def stops_def skip_ws_def del: parse_value.simps)

subsection \<open>The fuel is enough\<close>

lemma skip_ws_length: "length (skip_ws s) \<le> length s"
  by (simp add: skip_ws_def length_dropWhile_le)

lemma string_body_shorter: "string_body s = Some (x, r) \<Longrightarrow> length r < length s"
proof (induction s arbitrary: x r rule: string_body.induct)
  case (2 c s)
  show ?case
  proof (cases "byte c = 92")
    case True
    then show ?thesis
      using "2.prems" "2.IH"(1) by (fastforce split: option.splits dest: after_backslash_shorter)
  next
    case False
    then show ?thesis using "2.prems" "2.IH"(2) by (auto split: if_splits)
  qed
qed simp

lemma digits1_shorter: "digits1 s = Some (x, r) \<Longrightarrow> length r < length s"
proof -
  assume d: "digits1 s = Some (x, r)"
  have "length (takeWhile is_digit s) + length (dropWhile is_digit s) = length s"
    by (metis length_append takeWhile_dropWhile_id)
  moreover from d have "takeWhile is_digit s \<noteq> []" "r = dropWhile is_digit s"
    by (auto simp: digits1_def Let_def split: if_splits)
  ultimately show ?thesis by (metis add_less_same_cancel2 length_greater_0_conv less_add_same_cancel2)
qed

lemma number_scan_shorter: "number_scan s = Some (x, r) \<Longrightarrow> length r < length s"
proof -
  have i: "int_part s = Some (x, r) \<Longrightarrow> length r < length s" for s x r
    by (auto simp: int_part_def split: list.splits if_splits dest: digits1_shorter)
  have f: "frac_part s = Some (x, r) \<Longrightarrow> length r \<le> length s" for s x r
    by (fastforce simp: frac_part_def split: list.splits if_splits dest: digits1_shorter)
  have e: "exp_part s = Some (x, r) \<Longrightarrow> length r \<le> length s" for s x r
    by (fastforce simp: exp_part_def split: list.splits if_splits dest: digits1_shorter)
  have u: "unsigned_part s = Some (x, r) \<Longrightarrow> length r < length s" for s x r
    by (fastforce simp: unsigned_part_def split: option.splits dest: i f e)
  assume "number_scan s = Some (x, r)"
  then show ?thesis by (fastforce simp: number_scan_def split: list.splits if_splits dest: u)
qed

lemma keyword_shorter: "keyword s = Some (v, r) \<Longrightarrow> length r < length s"
  by (cases s) (auto simp: keyword_def split: if_splits)

lemma starts_length: "starts b s \<Longrightarrow> length (tl s) < length s"
  by (simp add: starts_def)

text \<open>A reader of \<open>n\<close> calls that leaves a shorter rest.\<close>

definition shortens :: "(string \<Rightarrow> ('a \<times> string) option) \<Rightarrow> bool" where
  "shortens p \<longleftrightarrow> (\<forall>s v r. p s = Some (v, r) \<longrightarrow> length r < length s)"

lemma shortensD: "shortens p \<Longrightarrow> p s = Some (v, r) \<Longrightarrow> length r < length s"
  by (auto simp: shortens_def)

lemma items_shorten:
  assumes v: "shortens (parse_value n)" and i: "shortens (parse_items n)"
  shows "shortens (parse_items (Suc n))"
  unfolding shortens_def
proof (intro allI impI)
  fix s vs r
  assume p: "parse_items (Suc n) s = Some (vs, r)"
  then obtain w t where w: "parse_value n s = Some (w, t)" by (auto split: option.splits)
  note l = shortensD [OF v w] skip_ws_length [of t]
  show "length r < length s"
  proof (cases "starts 93 (skip_ws t)")
    case True
    with p w l starts_length [OF True] show ?thesis by (simp add: Let_def)
  next
    case False
    with p w have t: "starts 44 (skip_ws t)" by (auto simp: Let_def split: if_splits)
    with False p w obtain us where "parse_items n (tl (skip_ws t)) = Some (us, r)" by (auto simp: Let_def)
    from shortensD [OF i this] starts_length [OF t] l show ?thesis by linarith
  qed
qed

lemma members_shorten:
  assumes v: "shortens (parse_value n)" and m: "shortens (parse_members n)"
  shows "shortens (parse_members (Suc n))"
  unfolding shortens_def
proof (intro allI impI)
  fix s fs r
  assume p: "parse_members (Suc n) s = Some (fs, r)"
  then have q: "starts 34 (skip_ws s)" by (auto simp: Let_def split: if_splits)
  with p obtain k t where k: "string_body (tl (skip_ws s)) = Some (k, t)" by (auto simp: Let_def split: option.splits)
  with p q have c: "starts 58 (skip_ws t)" by (auto simp: Let_def split: if_splits)
  with p q k obtain w u where w: "parse_value n (tl (skip_ws t)) = Some (w, u)" by (auto simp: Let_def split: option.splits)
  note l = starts_length [OF q] skip_ws_length [of s] string_body_shorter [OF k] skip_ws_length [of t]
    starts_length [OF c] shortensD [OF v w] skip_ws_length [of u]
  show "length r < length s"
  proof (cases "starts 125 (skip_ws u)")
    case True
    with p q k c w have "r = tl (skip_ws u)" by (simp add: Let_def)
    with l starts_length [OF True] show ?thesis by simp
  next
    case False
    with p q k c w have t: "starts 44 (skip_ws u)" by (auto simp: Let_def split: if_splits)
    with False p q k c w obtain us where "parse_members n (tl (skip_ws u)) = Some (us, r)" by (auto simp: Let_def)
    from shortensD [OF m this] starts_length [OF t] l show ?thesis by linarith
  qed
qed

lemma value_shortens:
  assumes i: "shortens (parse_items n)" and m: "shortens (parse_members n)"
  shows "shortens (parse_value (Suc n))"
  unfolding shortens_def
proof (intro allI impI)
  fix s v r
  assume p: "parse_value (Suc n) s = Some (v, r)"
  let ?t = "skip_ws s" and ?u = "skip_ws (tl (skip_ws s))"
  note l = skip_ws_length [of s] skip_ws_length [of "tl (skip_ws s)"]
  consider (str) "starts 34 ?t" | (arr) "\<not> starts 34 ?t" "starts 91 ?t"
    | (obj) "\<not> starts 34 ?t" "\<not> starts 91 ?t" "starts 123 ?t"
    | (rest) "\<not> starts 34 ?t" "\<not> starts 91 ?t" "\<not> starts 123 ?t" by blast
  then show "length r < length s"
  proof cases
    case str
    with p obtain x where "string_body (tl ?t) = Some (x, r)" by (auto simp: Let_def)
    from string_body_shorter [OF this] starts_length [OF str] l show ?thesis by linarith
  next
    case arr
    show ?thesis
    proof (cases "starts 93 ?u")
      case True
      with p arr have "r = tl ?u" by (simp add: Let_def)
      with starts_length [OF True] starts_length [OF arr(2)] l show ?thesis by simp
    next
      case False
      with p arr obtain xs where "parse_items n ?u = Some (xs, r)" by (auto simp: Let_def)
      from shortensD [OF i this] starts_length [OF arr(2)] l show ?thesis by linarith
    qed
  next
    case obj
    show ?thesis
    proof (cases "starts 125 ?u")
      case True
      with p obj have "r = tl ?u" by (simp add: Let_def)
      with starts_length [OF True] starts_length [OF obj(3)] l show ?thesis by simp
    next
      case False
      with p obj obtain fs where "parse_members n ?u = Some (fs, r)" by (auto simp: Let_def)
      from shortensD [OF m this] starts_length [OF obj(3)] l show ?thesis by linarith
    qed
  next
    case rest
    with p have "keyword ?t = Some (v, r) \<or> (\<exists>x. number_scan ?t = Some (x, r))"
      by (auto simp: Let_def split: option.splits)
    with keyword_shorter number_scan_shorter l(1) show ?thesis by fastforce
  qed
qed

lemma parsers_shorten: "shortens (parse_value n) \<and> shortens (parse_items n) \<and> shortens (parse_members n)"
proof (induction n)
  case 0
  show ?case by (simp add: shortens_def)
next
  case (Suc n)
  then show ?case using value_shortens items_shorten members_shorten by blast
qed

text \<open>Two amounts of fuel above the length of the text give the same.\<close>

lemma option_case_cong:
  "x = y \<Longrightarrow> (\<And>v. y = Some v \<Longrightarrow> f v = g v) \<Longrightarrow> (case x of None \<Rightarrow> a | Some v \<Rightarrow> f v) = (case y of None \<Rightarrow> a | Some v \<Rightarrow> g v)"
  by (cases y) simp_all

lemma value_shorter: "parse_value n s = Some (v, r) \<Longrightarrow> length r < length s"
  using parsers_shorten [of n] by (auto simp: shortens_def)

lemma items_agree:
  assumes v: "parse_value n s = parse_value k s"
    and i: "\<And>t. length t < length s \<Longrightarrow> parse_items n t = parse_items k t"
  shows "parse_items (Suc n) s = parse_items (Suc k) s"
proof -
  have "parse_items n (tl (skip_ws r)) = parse_items k (tl (skip_ws r))"
    if w: "parse_value k s = Some (w, r)" and c: "starts 44 (skip_ws r)" for w r
    using value_shorter [OF w] starts_length [OF c] skip_ws_length [of r] by (intro i) linarith
  with v show ?thesis by (auto simp: Let_def split: option.splits)
qed

lemma members_agree:
  assumes v: "\<And>t. length t < length s \<Longrightarrow> parse_value n t = parse_value k t"
    and m: "\<And>t. length t < length s \<Longrightarrow> parse_members n t = parse_members k t"
  shows "parse_members (Suc n) s = parse_members (Suc k) s"
proof -
  have v': "parse_value n (tl (skip_ws r)) = parse_value k (tl (skip_ws r)) \<and> length (tl (skip_ws r)) < length s"
    if q: "starts 34 (skip_ws s)" and b: "string_body (tl (skip_ws s)) = Some (x, r)" and c: "starts 58 (skip_ws r)" for x r
  proof -
    have "length (tl (skip_ws r)) < length s"
      using starts_length [OF q] skip_ws_length [of s] string_body_shorter [OF b] skip_ws_length [of r]
        starts_length [OF c] by linarith
    with v show ?thesis by blast
  qed
  have m': "parse_members n (tl (skip_ws r')) = parse_members k (tl (skip_ws r'))"
    if l: "length (tl (skip_ws r)) < length s" and w: "parse_value k (tl (skip_ws r)) = Some (w, r')"
      and c: "starts 44 (skip_ws r')" for r w r'
    using value_shorter [OF w] starts_length [OF c] skip_ws_length [of r'] l by (intro m) linarith
  show ?thesis
    using v' m' by (auto simp: Let_def split: option.splits)
qed

lemma value_agree:
  assumes i: "\<And>t. length t < length s \<Longrightarrow> parse_items n t = parse_items k t"
    and m: "\<And>t. length t < length s \<Longrightarrow> parse_members n t = parse_members k t"
  shows "parse_value (Suc n) s = parse_value (Suc k) s"
proof -
  have "length (skip_ws (tl (skip_ws s))) < length s" if "starts b (skip_ws s)" for b
    using starts_length [OF that] skip_ws_length [of s] skip_ws_length [of "tl (skip_ws s)"] by linarith
  with i m have "starts b (skip_ws s) \<Longrightarrow> parse_items n (skip_ws (tl (skip_ws s))) = parse_items k (skip_ws (tl (skip_ws s)))"
    and "starts b (skip_ws s) \<Longrightarrow> parse_members n (skip_ws (tl (skip_ws s))) = parse_members k (skip_ws (tl (skip_ws s)))" for b
    by blast+
  then show ?thesis by (auto simp: Let_def)
qed

lemma parsers_agree:
  "(2 * length s < n \<longrightarrow> 2 * length s < m \<longrightarrow> parse_value n s = parse_value m s)
   \<and> (2 * length s + 1 < n \<longrightarrow> 2 * length s + 1 < m \<longrightarrow> parse_items n s = parse_items m s)
   \<and> (2 * length s + 1 < n \<longrightarrow> 2 * length s + 1 < m \<longrightarrow> parse_members n s = parse_members m s)"
proof (induction n arbitrary: m s)
  case (Suc n)
  show ?case
  proof (cases m)
    case (Suc k)
    have V: "parse_value n t = parse_value k t" if "2 * length t < n" "2 * length t < k" for t
      using Suc.IH [of t k] that by blast
    have I: "parse_items n t = parse_items k t" if "2 * length t + 1 < n" "2 * length t + 1 < k" for t
      using Suc.IH [of t k] that by blast
    have M: "parse_members n t = parse_members k t" if "2 * length t + 1 < n" "2 * length t + 1 < k" for t
      using Suc.IH [of t k] that by blast
    have "parse_value (Suc n) s = parse_value (Suc k) s" if "2 * length s < Suc n" "2 * length s < Suc k"
      using that by (intro value_agree I M) linarith+
    moreover have "parse_items (Suc n) s = parse_items (Suc k) s"
      if "2 * length s + 1 < Suc n" "2 * length s + 1 < Suc k"
      using that by (intro items_agree V I) linarith+
    moreover have "parse_members (Suc n) s = parse_members (Suc k) s"
      if "2 * length s + 1 < Suc n" "2 * length s + 1 < Suc k"
      using that by (intro members_agree V M) linarith+
    ultimately show ?thesis unfolding Suc by blast
  qed simp
qed simp

text \<open>A written text has no line break, so that it stays one line of an event stream.\<close>

lemma escape_no_newline: "\<forall>b \<in> byte ` set (escape_char c). b \<noteq> 10"
  by (auto simp: escape_char_def Let_def byte_char_of hex_digit_def digit_char_def byte_def)

lemma quoted_no_newline: "\<forall>c \<in> set (quoted s). byte c \<noteq> 10"
  using escape_no_newline by (auto simp: quoted_def byte_char_of)

lemma digits1_set: "digits1 s = Some (x, r) \<Longrightarrow> set x \<subseteq> Collect is_digit"
  by (auto simp: digits1_def Let_def split: if_splits dest: set_takeWhileD)

lemma numeral_chars: "is_numeral n \<Longrightarrow> c \<in> set n \<Longrightarrow> is_digit c \<or> byte c \<in> {43, 45, 46, 69, 101}"
proof -
  let ?ok = "\<lambda>c. is_digit c \<or> byte c \<in> {43, 45, 46, 69, 101}"
  have d: "digits1 s = Some (x, r) \<Longrightarrow> \<forall>c \<in> set x. ?ok c" for s x r
    using digits1_set by blast
  have i: "int_part s = Some (x, r) \<Longrightarrow> \<forall>c \<in> set x. ?ok c" for s x r
    using d by (fastforce simp: int_part_def digit_byte split: list.splits if_splits)
  have f: "frac_part s = Some (x, r) \<Longrightarrow> \<forall>c \<in> set x. ?ok c" for s x r
    using d by (fastforce simp: frac_part_def split: list.splits if_splits)
  have e: "exp_part s = Some (x, r) \<Longrightarrow> \<forall>c \<in> set x. ?ok c" for s x r
    using d by (fastforce simp: exp_part_def split: list.splits if_splits)
  have u: "unsigned_part s = Some (x, r) \<Longrightarrow> \<forall>c \<in> set x. ?ok c" for s x r
    using i f e by (fastforce simp: unsigned_part_def split: option.splits)
  assume "is_numeral n" and "c \<in> set n"
  then show ?thesis
    using u by (fastforce simp: is_numeral_def number_scan_def split: list.splits if_splits)
qed

lemma commas_set: "set (commas xs) \<subseteq> {CHR '',''} \<union> (\<Union>x \<in> set xs. set x)"
  by (induction xs rule: commas.induct) auto

lemma stringify_no_newline: "json_ok j \<Longrightarrow> \<forall>c \<in> set (stringify j). byte c \<noteq> 10"
proof (induction j rule: stringify.induct)
  case (3 n)
  then show ?case using numeral_chars [of n] by (fastforce simp: digit_byte)
next
  case (5 xs)
  then show ?case using commas_set [of "map stringify xs"] by (fastforce simp: list_all_iff byte_def)
next
  case (6 fs)
  let ?w = "\<lambda>(k, v). quoted k @ '':'' @ stringify v"
  have "byte c \<noteq> 10" if c: "c \<in> set (commas (map ?w fs))" for c
  proof -
    have "c \<in> {CHR '',''} \<union> (\<Union>x \<in> set (map ?w fs). set x)" using c commas_set by blast
    then consider "c = CHR '',''" | k v where "(k, v) \<in> set fs" "c \<in> set (quoted k) \<union> {CHR '':''} \<union> set (stringify v)"
      by fastforce
    then show ?thesis
    proof cases
      case 2
      with "6.prems" have "json_ok v" by (auto simp: list_all_iff)
      with "6.IH" 2 quoted_no_newline [of k] show ?thesis by (fastforce simp: byte_def)
    qed (simp add: byte_def)
  qed
  then show ?case by (auto simp: byte_def)
qed (use quoted_no_newline in \<open>auto simp: byte_def\<close>)

end
