(* ===== verification/Handlers.thy ===== *)
theory Handlers
  imports Runner_Laws Migrate Json
begin

text \<open>
  packages/worker/src/handlers.ts: the demo handlers. A handler sees its context: the delivery, the
  abort signal each time it looks at it, and what its explicit heartbeats throw. The module's map of
  side effects is a list of counts by key. Zod's check of an e-mail address is the parameter
  \<open>email\<close>; delays take no time here, and the delay that gives up on an abort is the signal itself.
\<close>

subsection \<open>Side effects\<close>

type_synonym effects = "(string \<times> nat) list"

definition effectCount :: "string \<Rightarrow> effects \<Rightarrow> nat" where
  "effectCount key eff = coalesce (map_of eff key) 0"

definition recordEffect :: "string \<Rightarrow> effects \<Rightarrow> bool \<times> effects" where
  "recordEffect key eff =
     (map_of eff key = None, (key, effectCount key eff + 1) # filter (\<lambda>(k, _). k \<noteq> key) eff)"

subsection \<open>Payloads\<close>

text \<open>The value of a JSON numeral, exactly (the platform rounds it to a double).\<close>

definition exponent_value :: "string \<Rightarrow> int" where
  "exponent_value s =
     (case s of
        [] \<Rightarrow> 0
      | c # ds \<Rightarrow>
          if byte c = 45 then - int (nat_of_digits ds)
          else if byte c = 43 then int (nat_of_digits ds)
          else int (nat_of_digits s))"

definition numeral_value :: "string \<Rightarrow> rat" where
  "numeral_value s =
     (let neg = (s \<noteq> [] \<and> byte (hd s) = 45);
          r = (if neg then tl s else s);
          ip = takeWhile is_digit r;
          r1 = dropWhile is_digit r;
          dot = (r1 \<noteq> [] \<and> byte (hd r1) = 46);
          fp = (if dot then takeWhile is_digit (tl r1) else []);
          r2 = (if dot then dropWhile is_digit (tl r1) else r1);
          e = exponent_value (drop 1 r2);
          m = of_nat (nat_of_digits (ip @ fp)) / 10 ^ length fp
      in (if neg then - 1 else 1) * (if 0 \<le> e then m * 10 ^ nat e else m / 10 ^ nat (- e)))"

definition zod_error :: thrown where
  "zod_error = Thrown_error (Js_error Plain_Error ''ZodError'' [] None None True 0 None)"

text \<open>\<open>z.number().int().min(lo).max(hi)\<close>; without a maximum Zod stops at the safe integers.\<close>

definition max_safe_integer :: int where
  "max_safe_integer = 9007199254740991"

definition int_value :: "json \<Rightarrow> int \<Rightarrow> int \<Rightarrow> int option" where
  "int_value v lo hi =
     (case v of
        JNum n \<Rightarrow>
          (let x = numeral_value n
           in if of_int \<lfloor>x\<rfloor> = x \<and> lo \<le> \<lfloor>x\<rfloor> \<and> \<lfloor>x\<rfloor> \<le> hi then Some \<lfloor>x\<rfloor> else None)
      | _ \<Rightarrow> None)"

text \<open>An object with one integer field that has a default; other fields are dropped.\<close>

definition int_schema :: "string \<Rightarrow> int \<Rightarrow> int \<Rightarrow> nat \<Rightarrow> json \<Rightarrow> thrown + json" where
  "int_schema key lo hi dflt payload =
     (case payload of
        JObj fs \<Rightarrow>
          (case json_field key fs of
             None \<Rightarrow> Inr (JObj [(key, JNum (show_nat dflt))])
           | Some v \<Rightarrow> if int_value v lo hi = None then Inl zod_error else Inr (JObj [(key, v)]))
      | _ \<Rightarrow> Inl zod_error)"

definition int_of_field :: "string \<Rightarrow> json \<Rightarrow> int" where
  "int_of_field key parsed =
     (case parsed of
        JObj fs \<Rightarrow> (case json_field key fs of Some (JNum n) \<Rightarrow> \<lfloor>numeral_value n\<rfloor> | _ \<Rightarrow> 0)
      | _ \<Rightarrow> 0)"

definition string_of_field :: "string \<Rightarrow> json \<Rightarrow> string" where
  "string_of_field key parsed =
     (case parsed of
        JObj fs \<Rightarrow> (case json_field key fs of Some (JStr s) \<Rightarrow> s | _ \<Rightarrow> [])
      | _ \<Rightarrow> [])"

definition email_schema :: "(string \<Rightarrow> bool) \<Rightarrow> json \<Rightarrow> thrown + json" where
  "email_schema email payload =
     (case payload of
        JObj fs \<Rightarrow>
          (case (json_field ''to'' fs, json_field ''subject'' fs, json_field ''body'' fs) of
             (Some (JStr t), Some (JStr s), b) \<Rightarrow>
               if email t \<and> 1 \<le> length s \<and> (case b of None \<Rightarrow> True | Some (JStr _) \<Rightarrow> True | _ \<Rightarrow> False)
               then Inr (JObj ([(''to'', JStr t), (''subject'', JStr s)]
                        @ (case b of None \<Rightarrow> [] | Some v \<Rightarrow> [(''body'', v)])))
               else Inl zod_error
           | _ \<Rightarrow> Inl zod_error)
      | _ \<Rightarrow> Inl zod_error)"

definition poison_schema :: "json \<Rightarrow> thrown + json" where
  "poison_schema payload =
     (case payload of
        JObj fs \<Rightarrow>
          (case json_field ''reason'' fs of
             None \<Rightarrow> Inr (JObj [(''reason'', JStr ''malformed input'')])
           | Some (JStr s) \<Rightarrow> Inr (JObj [(''reason'', JStr s)])
           | Some _ \<Rightarrow> Inl zod_error)
      | _ \<Rightarrow> Inl zod_error)"

definition empty_schema :: "json \<Rightarrow> thrown + json" where
  "empty_schema payload = (case payload of JObj _ \<Rightarrow> Inr (JObj []) | _ \<Rightarrow> Inl zod_error)"

subsection \<open>The handlers\<close>

record job_ctx =
  cx_id :: ident
  cx_attempt :: int
  cx_maxAttempts :: int
  cx_aborted :: "nat \<Rightarrow> bool"
  cx_heartbeat :: "nat \<Rightarrow> thrown option"

definition demo_email :: "job_ctx \<Rightarrow> json \<Rightarrow> handler_result" where
  "demo_email ctx payload =
     (if cx_aborted ctx 0 then Threw (Thrown_error (mk_error Plain_Error ''aborted before send completed''))
      else Returned)"

definition flaky_key :: "job_ctx \<Rightarrow> string" where
  "flaky_key ctx = ''flaky:'' @ show_nat (cx_id ctx)"

definition demo_flaky :: "job_ctx \<Rightarrow> json \<Rightarrow> effects \<Rightarrow> handler_result \<times> effects" where
  "demo_flaky ctx payload eff =
     (let (wasFirst, eff') = recordEffect (flaky_key ctx) eff
      in if cx_attempt ctx < int_of_field ''failUntilAttempt'' payload
         then (Threw (Thrown_error (mk_error Plain_Error
                (''simulated transient failure on attempt '' @ show_nat (nat (cx_attempt ctx))
                 @ '' of '' @ show_nat (nat (cx_maxAttempts ctx))))), eff')
         else (Returned, eff'))"

fun long_steps :: "job_ctx \<Rightarrow> nat \<Rightarrow> nat \<Rightarrow> handler_result" where
  "long_steps ctx i 0 = Returned"
| "long_steps ctx i (Suc n) =
     (if cx_aborted ctx i then Returned
      else case cx_heartbeat ctx i of
             Some e \<Rightarrow> Threw e
           | None \<Rightarrow> long_steps ctx (Suc i) n)"

definition demo_long :: "job_ctx \<Rightarrow> json \<Rightarrow> handler_result" where
  "demo_long ctx payload = long_steps ctx 0 (nat (int_of_field ''seconds'' payload))"

definition demo_poison :: "json \<Rightarrow> handler_result" where
  "demo_poison payload =
     Threw (Thrown_error (mk_error NonRetryableError (''Cannot process: '' @ string_of_field ''reason'' payload)))"

definition demo_throttled :: "job_ctx \<Rightarrow> json \<Rightarrow> handler_result" where
  "demo_throttled ctx payload =
     (if cx_attempt ctx < 2
      then Threw (Thrown_error (Js_error RetryAfterError ''RetryAfterError'' ''upstream returned 429'' None None
             False (of_int (int_of_field ''retryAfterSeconds'' payload * 1000)) None))
      else Returned)"

definition demo_hang :: "json \<Rightarrow> handler_result" where
  "demo_hang payload = Returned"

text \<open>The registry of one delivery: the handlers closed over its context and the effects so far.\<close>

definition createDemoRegistry :: "(string \<Rightarrow> bool) \<Rightarrow> job_ctx \<Rightarrow> effects \<Rightarrow> thrown + registry" where
  "createDemoRegistry email ctx eff =
     (case register ''demo.email'' (email_schema email) (demo_email ctx) createRegistry of
        Inl e \<Rightarrow> Inl e | Inr r1 \<Rightarrow>
      case register ''demo.flaky'' (int_schema ''failUntilAttempt'' 1 max_safe_integer 3)
             (\<lambda>p. fst (demo_flaky ctx p eff)) r1 of
        Inl e \<Rightarrow> Inl e | Inr r2 \<Rightarrow>
      case register ''demo.long'' (int_schema ''seconds'' 1 600 45) (demo_long ctx) r2 of
        Inl e \<Rightarrow> Inl e | Inr r3 \<Rightarrow>
      case register ''demo.poison'' poison_schema demo_poison r3 of
        Inl e \<Rightarrow> Inl e | Inr r4 \<Rightarrow>
      case register ''demo.throttled'' (int_schema ''retryAfterSeconds'' 1 3600 30) (demo_throttled ctx) r4 of
        Inl e \<Rightarrow> Inl e | Inr r5 \<Rightarrow>
      register ''demo.hang'' empty_schema demo_hang r5)"

text \<open>The effects after a delivery whose payload passed its schema.\<close>

definition demo_effects :: "job_ctx \<Rightarrow> string \<Rightarrow> json \<Rightarrow> effects \<Rightarrow> effects" where
  "demo_effects ctx ty parsed eff = (if ty = ''demo.flaky'' then snd (demo_flaky ctx parsed eff) else eff)"

subsection \<open>What a delivery comes to\<close>

definition undisturbed :: "claimed_job \<Rightarrow> job_ctx" where
  "undisturbed job = \<lparr>cx_id = c_id job, cx_attempt = c_attempt job, cx_maxAttempts = c_max_attempts job,
     cx_aborted = (\<lambda>_. False), cx_heartbeat = (\<lambda>_. None)\<rparr>"

lemma demo_registered:
  "createDemoRegistry email ctx eff = Inr
     [\<lparr>g_type = ''demo.email'', g_schema = email_schema email, g_handler = demo_email ctx\<rparr>,
      \<lparr>g_type = ''demo.flaky'', g_schema = int_schema ''failUntilAttempt'' 1 max_safe_integer 3,
       g_handler = \<lambda>p. fst (demo_flaky ctx p eff)\<rparr>,
      \<lparr>g_type = ''demo.long'', g_schema = int_schema ''seconds'' 1 600 45, g_handler = demo_long ctx\<rparr>,
      \<lparr>g_type = ''demo.poison'', g_schema = poison_schema, g_handler = demo_poison\<rparr>,
      \<lparr>g_type = ''demo.throttled'', g_schema = int_schema ''retryAfterSeconds'' 1 3600 30,
       g_handler = demo_throttled ctx\<rparr>,
      \<lparr>g_type = ''demo.hang'', g_schema = empty_schema, g_handler = demo_hang\<rparr>]"
  by (simp add: createDemoRegistry_def register_def has_def createRegistry_def)

lemma long_undisturbed:
  "(\<forall>i. \<not> cx_aborted ctx i) \<Longrightarrow> (\<forall>i. cx_heartbeat ctx i = None) \<Longrightarrow> long_steps ctx k n = Returned"
  by (induction n arbitrary: k) simp_all

text \<open>An aborted long job returns as if it had finished.\<close>

lemma long_aborted: "cx_aborted ctx 0 \<Longrightarrow> demo_long ctx payload = Returned"
  by (cases "nat (int_of_field ''seconds'' payload)") (simp_all add: demo_long_def)

lemma run_returned:
  assumes inv: "db_inv d" and j: "job_at d (c_id job) = Some j" "owns (token_of (ro_workerId opts) job) j"
    and r: "run_handler reg (c_type job) (c_payload job) = Returned"
  shows "\<exists>d'. run_job alone now cnow rand opts reg job [] d = (Inr O_succeeded, d')
    \<and> job_at d' (c_id job) = Some (complete_row now j)"
proof -
  from completeJob_lands [OF inv _ j(2), of now] j(1) obtain d' where
    c: "completeJob now (token_of (ro_workerId opts) job) d = Inr ([c_id job], d')"
    and rep: "reported (token_of (ro_workerId opts) job) (complete_row now) d d'"
    by (auto simp: token_of_def)
  from rep j(1) have "job_at d' (c_id job) = Some (complete_row now j)"
    by (auto simp: reported_def token_of_def)
  with c r show ?thesis by (simp add: run_job_def run_events_def settle_def run_start_def Let_def)
qed

lemma run_threw:
  assumes inv: "db_inv d" and j: "job_at d (c_id job) = Some j" "owns (token_of (ro_workerId opts) job) j"
    and r: "run_handler reg (c_type job) (c_payload job) = Threw e"
    and e: "\<not> instance_of OwnershipLostError e" "\<not> instance_of JobCancelledError e"
  shows "\<exists>d'. run_job alone now cnow rand opts reg job [] d =
      (Inr (if j_state (fail_row now (fail_params_of cnow rand opts job False e) j) = Dead then O_dead else O_retried), d')
    \<and> job_at d' (c_id job) = Some (fail_row now (fail_params_of cnow rand opts job False e) j)"
proof -
  let ?q = "fail_params_of cnow rand opts job False e" and ?p = "token_of (ro_workerId opts) job"
  from failJob_lands [OF inv _ j(2), of now ?q] j(1) obtain d' where
    c: "failJob now ?q ?p d = Inr ([fail_returning (fail_row now ?q j)], d')"
    and rep: "reported ?p (fail_row now ?q) d d'"
    by (auto simp: token_of_def)
  from rep j(1) have "job_at d' (c_id job) = Some (fail_row now ?q j)"
    by (auto simp: reported_def token_of_def)
  with c r e show ?thesis
    by (simp add: run_job_def run_events_def settle_def run_start_def Let_def reportFailure_def fail_report_def
        fail_returning_def)
qed

text \<open>What the handlers make of a parsed payload.\<close>

lemma demo_handled:
  assumes reg: "createDemoRegistry email (undisturbed job) eff = Inr reg"
    and p: "parse reg (c_type job) payload = Inr parsed"
  shows "run_handler reg (c_type job) payload =
    (if c_type job = ''demo.poison'' then demo_poison parsed
     else if c_type job = ''demo.flaky'' then fst (demo_flaky (undisturbed job) parsed eff)
     else if c_type job = ''demo.throttled'' then demo_throttled (undisturbed job) parsed
     else Returned)"
proof -
  have h: "run_handler reg (c_type job) payload = (case resolve reg (c_type job) of Inr g \<Rightarrow> g_handler g parsed | Inl e \<Rightarrow> Threw e)"
    using p by (auto simp: parse_def run_handler_def split: sum.splits)
  from p obtain g where g: "resolve reg (c_type job) = Inr g" by (auto simp: parse_def split: sum.splits)
  have "demo_email (undisturbed job) parsed = Returned" "demo_long (undisturbed job) parsed = Returned"
    "demo_hang parsed = Returned"
    by (auto simp: demo_email_def demo_long_def demo_hang_def undisturbed_def long_undisturbed)
  with reg g h show ?thesis
    by (auto simp: demo_registered resolve_def split: option.splits if_splits)
qed

text \<open>A payload that fails its schema, or a type without handler, is not retried.\<close>

lemma schema_errors:
  "int_schema key lo hi n payload = Inl e \<Longrightarrow> e = zod_error"
  "poison_schema payload = Inl e \<Longrightarrow> e = zod_error"
  "empty_schema payload = Inl e \<Longrightarrow> e = zod_error"
  "email_schema email payload = Inl e \<Longrightarrow> e = zod_error"
  by (auto simp: int_schema_def poison_schema_def empty_schema_def email_schema_def
      split: json.splits option.splits if_splits)

lemma demo_unparsed:
  assumes reg: "createDemoRegistry email ctx eff = Inr reg" and p: "parse reg ty payload = Inl e"
  shows "run_handler reg ty payload = Threw e
    \<and> (e = zod_error \<or> (\<exists>msg. e = Thrown_error (mk_error NoHandlerError msg)))"
proof -
  from p have "run_handler reg ty payload = Threw e"
    by (auto simp: parse_def run_handler_def split: sum.splits)
  moreover have "e = zod_error \<or> (\<exists>msg. e = Thrown_error (mk_error NoHandlerError msg))"
  proof (cases "resolve reg ty")
    case (Inl x)
    with p show ?thesis by (auto simp: parse_def resolve_def split: option.splits)
  next
    case (Inr g)
    with p have "g_schema g payload = Inl e" by (simp add: parse_def)
    moreover from Inr have "g \<in> set reg" by (auto simp: resolve_def dest: row_of_SomeD split: option.splits)
    then have "g_schema g \<in> {email_schema email, int_schema ''failUntilAttempt'' 1 max_safe_integer 3,
        int_schema ''seconds'' 1 600 45, poison_schema, int_schema ''retryAfterSeconds'' 1 3600 30, empty_schema}"
      using reg by (auto simp: demo_registered)
    ultimately have "e = zod_error" by (elim insertE emptyE) (simp_all only: schema_errors)
    then show ?thesis ..
  qed
  ultimately show ?thesis by blast
qed

lemma unparsed_final:
  assumes "e = zod_error \<or> (\<exists>msg. e = Thrown_error (mk_error NoHandlerError msg))"
  shows "fp_nonRetryable (fail_params_of cnow rand opts job False e)
    \<and> \<not> instance_of OwnershipLostError e \<and> \<not> instance_of JobCancelledError e"
  using assms
  by (auto simp: fail_params_of_def Let_def non_retryable_def classify_def instance_of_def isZodError_def
      zod_error_def mk_error_def pgErrorCode_def isNonRetryable_def)

lemma poison_final:
  "fp_nonRetryable (fail_params_of cnow rand opts job False (Thrown_error (mk_error NonRetryableError msg)))"
  by (simp add: fail_params_of_def Let_def non_retryable_def isNonRetryable_def mk_error_def)

lemma plain_retried:
  "c = Plain_Error \<or> c = RetryAfterError \<Longrightarrow>
   \<not> fp_nonRetryable (fail_params_of cnow rand opts job False (Thrown_error (Js_error c name msg None None False ms None)))"
  by (auto simp: fail_params_of_def Let_def non_retryable_def isNonRetryable_def classify_def instance_of_def
      isZodError_def pgErrorCode_def split: option.splits)

text \<open>
  One delivery of a job by a demo worker, undisturbed: what becomes of the job, whatever its type
  and payload.
\<close>

lemma demo_delivery:
  assumes inv: "db_inv d" and j: "job_at d (c_id job) = Some j" "owns (token_of (ro_workerId opts) job) j"
    and reg: "createDemoRegistry email (undisturbed job) eff = Inr reg"
  shows "\<exists>d' j'. run_job alone now cnow rand opts reg job [] d =
      (Inr (case j_state j' of Succeeded \<Rightarrow> O_succeeded | Dead \<Rightarrow> O_dead | _ \<Rightarrow> O_retried), d')
    \<and> job_at d' (c_id job) = Some j'
    \<and> j_state j' =
        (case parse reg (c_type job) (c_payload job) of
           Inl _ \<Rightarrow> Dead
         | Inr p \<Rightarrow>
             if c_type job = ''demo.poison'' then Dead
             else if c_type job = ''demo.flaky'' \<and> c_attempt job < int_of_field ''failUntilAttempt'' p
                \<or> c_type job = ''demo.throttled'' \<and> c_attempt job < 2
             then (if j_attempt j = j_max_attempts j then Dead else Available)
             else Succeeded)
    \<and> (\<forall>p. parse reg (c_type job) (c_payload job) = Inr p \<and> c_type job = ''demo.throttled'' \<and> j_state j' = Available \<longrightarrow>
         j_run_at j' = now + make_interval_secs
           (min (of_int (int_of_field ''retryAfterSeconds'' p * 1000)) (b_maxMs (ro_backoff opts)) / 1000))"
proof -
  have att: "(j_attempt j \<ge> j_max_attempts j) = (j_attempt j = j_max_attempts j)"
    using db_inv_jobD [OF inv j(1)] by (auto simp: job_checks_def)
  have failed: ?thesis
    if h: "run_handler reg (c_type job) (c_payload job) = Threw e"
      and e: "\<not> instance_of OwnershipLostError e" "\<not> instance_of JobCancelledError e"
      and st: "j_state (fail_row now (fail_params_of cnow rand opts job False e) j) =
        (case parse reg (c_type job) (c_payload job) of
           Inl _ \<Rightarrow> Dead
         | Inr p \<Rightarrow>
             if c_type job = ''demo.poison'' then Dead
             else if c_type job = ''demo.flaky'' \<and> c_attempt job < int_of_field ''failUntilAttempt'' p
                \<or> c_type job = ''demo.throttled'' \<and> c_attempt job < 2
             then (if j_attempt j = j_max_attempts j then Dead else Available)
             else Succeeded)"
      and at: "\<forall>p. parse reg (c_type job) (c_payload job) = Inr p \<and> c_type job = ''demo.throttled''
          \<and> j_state (fail_row now (fail_params_of cnow rand opts job False e) j) = Available \<longrightarrow>
        j_run_at (fail_row now (fail_params_of cnow rand opts job False e) j) = now + make_interval_secs
          (min (of_int (int_of_field ''retryAfterSeconds'' p * 1000)) (b_maxMs (ro_backoff opts)) / 1000)" for e
    using run_threw [OF inv j h e, of now cnow rand] fail_row_state [of now "fail_params_of cnow rand opts job False e" j] st at
    by (auto split: if_splits)
  show ?thesis
  proof (cases "parse reg (c_type job) (c_payload job)")
    case (Inl e)
    from demo_unparsed [OF reg Inl] unparsed_final show ?thesis
      by (intro failed [of e]) (auto simp: Inl fail_row_def)
  next
    case (Inr p)
    note H = demo_handled [OF reg Inr]
    show ?thesis
    proof (cases "run_handler reg (c_type job) (c_payload job)")
      case Returned
      with H have "\<not> (c_type job = ''demo.poison''
          \<or> c_type job = ''demo.flaky'' \<and> c_attempt job < int_of_field ''failUntilAttempt'' p
          \<or> c_type job = ''demo.throttled'' \<and> c_attempt job < 2)"
        by (auto simp: demo_poison_def demo_flaky_def demo_throttled_def undisturbed_def Let_def
            split: prod.splits if_splits)
      with run_returned [OF inv j Returned, of now cnow rand] show ?thesis
        by (auto simp: Inr complete_row_def)
    next
      case (Threw e)
      with H consider (poison) msg where "c_type job = ''demo.poison''" "e = Thrown_error (mk_error NonRetryableError msg)"
        | (flaky) msg where "c_type job = ''demo.flaky''" "c_attempt job < int_of_field ''failUntilAttempt'' p"
            "e = Thrown_error (mk_error Plain_Error msg)"
        | (throttled) "c_type job = ''demo.throttled''" "c_attempt job < 2"
            "e = Thrown_error (Js_error RetryAfterError ''RetryAfterError'' ''upstream returned 429'' None None
               False (of_int (int_of_field ''retryAfterSeconds'' p * 1000)) None)"
        by (auto simp: demo_poison_def demo_flaky_def demo_throttled_def undisturbed_def Let_def
            split: prod.splits if_splits)
      then show ?thesis
      proof cases
        case poison
        with poison_final show ?thesis
          by (intro failed [OF Threw]) (simp_all add: Inr [unfolded poison(1)] fail_row_def instance_of_def mk_error_def)
      next
        case flaky
        with plain_retried [of Plain_Error] att show ?thesis
          by (intro failed [OF Threw]) (simp_all add: Inr [unfolded flaky(1)] fail_row_def instance_of_def mk_error_def)
      next
        case throttled
        with plain_retried [of RetryAfterError] att show ?thesis
          by (intro failed [OF Threw]) (auto simp: Inr [unfolded throttled(1)] fail_row_def instance_of_def fail_params_of_def Let_def retry_delay_def)
      qed
    qed
  qed
qed

text \<open>The count of a key is the number of deliveries, not of effects applied.\<close>

lemma effectCount_record: "effectCount key (snd (recordEffect key eff)) = effectCount key eff + 1"
  by (simp add: recordEffect_def effectCount_def)

lemma record_first_only: "fst (recordEffect key (snd (recordEffect key eff))) = False"
  by (simp add: recordEffect_def)

end
