(* ===== verification/Dashboard_Api.thy ===== *)
theory Dashboard_Api
  imports Json Migrate App
begin

text \<open>
  packages/dashboard/src/api.ts: the key in the session storage, the requests and what becomes of
  their responses, the calls of the API, and the reader of the event stream. What the network
  answers is a parameter. Strings are bytes, so decoding a stream of UTF-8 is the identity.
\<close>

subsection \<open>The key\<close>

type_synonym storage = "string \<Rightarrow> string option"

definition KEY_STORAGE :: string where
  "KEY_STORAGE = ''pgjobq.apiKey''"

definition getApiKey :: "storage \<Rightarrow> string" where
  "getApiKey st = coalesce (st KEY_STORAGE) []"

definition setApiKey :: "string \<Rightarrow> storage \<Rightarrow> storage" where
  "setApiKey key st = (if length key = 0 then st(KEY_STORAGE := None) else st(KEY_STORAGE \<mapsto> key))"

subsection \<open>Requests and responses\<close>

record http_request =
  hq_method :: string
  hq_path :: string
  hq_headers :: "string \<Rightarrow> string option"
  hq_body :: "string option"

text \<open>\<open>init\<close> is the method and the body; no call passes headers of its own.\<close>

definition request_of :: "storage \<Rightarrow> string \<Rightarrow> string \<times> string option \<Rightarrow> http_request" where
  "request_of st path init =
     (let key = getApiKey st;
          h0 = (\<lambda>_. None);
          h1 = (if 0 < length key then h0(''authorization'' \<mapsto> ''Bearer '' @ key) else h0);
          h2 = (if snd init \<noteq> None then h1(''content-type'' \<mapsto> ''application/json'') else h1)
      in \<lparr>hq_method = fst init, hq_path = path, hq_headers = h2, hq_body = snd init\<rparr>)"

definition safeJson :: "string \<Rightarrow> json" where
  "safeJson s = coalesce (json_parse s) (JStr s)"

text \<open>\<open>?.\<close> and \<open>??\<close> on values.\<close>

definition member :: "string \<Rightarrow> json option \<Rightarrow> json option" where
  "member k v = (case v of Some (JObj fs) \<Rightarrow> json_field k fs | _ \<Rightarrow> None)"

definition nullish :: "json option \<Rightarrow> json \<Rightarrow> json" where
  "nullish v d = (case v of None \<Rightarrow> d | Some JNull \<Rightarrow> d | Some x \<Rightarrow> x)"

text \<open>The code and the message of an error are whatever values the body has there.\<close>

record api_failure =
  af_status :: nat
  af_code :: json
  af_message :: json

definition response_of :: "nat \<Rightarrow> string \<Rightarrow> api_failure + json" where
  "response_of status body =
     (let parsed = (if 0 < length body then safeJson body else JNull)
      in if 200 \<le> status \<and> status \<le> 299 then Inr parsed
         else (let err = member ''error'' (Some parsed)
               in Inl \<lparr>af_status = status,
                    af_code = nullish (member ''code'' err) (JStr ''UNKNOWN''),
                    af_message = nullish (member ''message'' err)
                      (JStr (''Request failed with status '' @ show_nat status))\<rparr>))"

definition request ::
  "(http_request \<Rightarrow> nat \<times> string) \<Rightarrow> storage \<Rightarrow> string \<Rightarrow> string \<times> string option \<Rightarrow> api_failure + json" where
  "request fetch st path init = (let (status, body) = fetch (request_of st path init) in response_of status body)"

subsection \<open>Percent encoding\<close>

definition upper_hex :: "nat \<Rightarrow> char" where
  "upper_hex n = (if n < 10 then digit_char n else char_of (55 + n))"

definition percent :: "char \<Rightarrow> string" where
  "percent c = [CHR ''%'', upper_hex (byte c div 16), upper_hex (byte c mod 16)]"

definition is_alnum :: "char \<Rightarrow> bool" where
  "is_alnum c \<longleftrightarrow> is_digit c \<or> 65 \<le> byte c \<and> byte c \<le> 90 \<or> 97 \<le> byte c \<and> byte c \<le> 122"

text \<open>\<open>encodeURIComponent\<close> keeps letters, digits and nine marks.\<close>

definition uri_char :: "char \<Rightarrow> string" where
  "uri_char c = (if is_alnum c \<or> byte c \<in> {45, 95, 46, 33, 126, 42, 39, 40, 41} then [c] else percent c)"

definition encodeURIComponent :: "string \<Rightarrow> string" where
  "encodeURIComponent s = concat (map uri_char s)"

text \<open>\<open>URLSearchParams\<close> in the form encoding.\<close>

definition form_char :: "char \<Rightarrow> string" where
  "form_char c =
     (if is_alnum c \<or> byte c \<in> {42, 45, 46, 95} then [c] else if byte c = 32 then ''+'' else percent c)"

definition form_encode :: "string \<Rightarrow> string" where
  "form_encode s = concat (map form_char s)"

fun ampersands :: "string list \<Rightarrow> string" where
  "ampersands [] = []"
| "ampersands [x] = x"
| "ampersands (x # xs) = x @ ''&'' @ ampersands xs"

text \<open>The parameters of a listing, without those that are absent or empty; the keys are distinct.\<close>

definition search :: "(string \<times> string option) list \<Rightarrow> string" where
  "search ps =
     ampersands (map (\<lambda>(k, v). form_encode k @ ''='' @ form_encode (coalesce v []))
       (filter (\<lambda>(k, v). v \<noteq> None \<and> v \<noteq> Some []) ps))"

subsection \<open>The calls\<close>

datatype api_call =
    Queues
  | Jobs string "(string \<times> string option) list"
  | Job_by_id string
  | Dlq "(string \<times> string option) list"
  | Cancel string
  | Retry string
  | Replay string
  | ReplayMany "string list"
  | Pause string
  | Resume string
  | Schedules
  | PauseSchedule string
  | ResumeSchedule string

definition api_path :: "api_call \<Rightarrow> string" where
  "api_path c =
     (case c of
        Queues \<Rightarrow> ''/v1/queues''
      | Jobs q ps \<Rightarrow> ''/v1/queues/'' @ encodeURIComponent q @ ''/jobs''
      | Job_by_id i \<Rightarrow> ''/v1/jobs/'' @ encodeURIComponent i
      | Dlq ps \<Rightarrow> ''/v1/dlq''
      | Cancel i \<Rightarrow> ''/v1/jobs/'' @ encodeURIComponent i @ ''/cancel''
      | Retry i \<Rightarrow> ''/v1/jobs/'' @ encodeURIComponent i @ ''/retry''
      | Replay i \<Rightarrow> ''/v1/jobs/'' @ encodeURIComponent i @ ''/replay''
      | ReplayMany ids \<Rightarrow> ''/v1/dlq/replay''
      | Pause q \<Rightarrow> ''/v1/queues/'' @ encodeURIComponent q @ ''/pause''
      | Resume q \<Rightarrow> ''/v1/queues/'' @ encodeURIComponent q @ ''/resume''
      | Schedules \<Rightarrow> ''/v1/schedules''
      | PauseSchedule i \<Rightarrow> ''/v1/schedules/'' @ encodeURIComponent i @ ''/pause''
      | ResumeSchedule i \<Rightarrow> ''/v1/schedules/'' @ encodeURIComponent i @ ''/resume'')"

definition api_query :: "api_call \<Rightarrow> string" where
  "api_query c = (case c of Jobs q ps \<Rightarrow> ''?'' @ search ps | Dlq ps \<Rightarrow> ''?'' @ search ps | _ \<Rightarrow> [])"

definition api_init :: "api_call \<Rightarrow> string \<times> string option" where
  "api_init c =
     (case c of
        ReplayMany ids \<Rightarrow> (''POST'', Some (stringify (JObj [(''ids'', JArr (map JStr ids))])))
      | Cancel _ \<Rightarrow> (''POST'', None) | Retry _ \<Rightarrow> (''POST'', None) | Replay _ \<Rightarrow> (''POST'', None)
      | Pause _ \<Rightarrow> (''POST'', None) | Resume _ \<Rightarrow> (''POST'', None)
      | PauseSchedule _ \<Rightarrow> (''POST'', None) | ResumeSchedule _ \<Rightarrow> (''POST'', None)
      | _ \<Rightarrow> (''GET'', None))"

definition api_call_result ::
  "(http_request \<Rightarrow> nat \<times> string) \<Rightarrow> storage \<Rightarrow> api_call \<Rightarrow> api_failure + json" where
  "api_call_result fetch st c = request fetch st (api_path c @ api_query c) (api_init c)"

subsection \<open>The event stream\<close>

definition newline :: char where
  "newline = char_of (10 :: nat)"

text \<open>\<open>split\<close> at a line break, and at a blank line.\<close>

fun split_lines :: "string \<Rightarrow> string list" where
  "split_lines [] = [[]]"
| "split_lines (c # s) =
     (if c = newline then [] # split_lines s
      else case split_lines s of [] \<Rightarrow> [[c]] | l # ls \<Rightarrow> (c # l) # ls)"

fun split_frames :: "string \<Rightarrow> string list" where
  "split_frames [] = [[]]"
| "split_frames [c] = [[c]]"
| "split_frames (c # d # s) =
     (if c = newline \<and> d = newline then [] # split_frames s
      else case split_frames (d # s) of [] \<Rightarrow> [[c]] | f # fs \<Rightarrow> (c # f) # fs)"

definition frame_event :: "string \<Rightarrow> json option" where
  "frame_event frame =
     (case find (is_prefix ''data: '') (split_lines frame) of
        None \<Rightarrow> None
      | Some line \<Rightarrow>
          (case json_parse (drop 6 line) of
             None \<Rightarrow> None
           | Some parsed \<Rightarrow> if member ''type'' (Some parsed) = Some (JStr ''snapshot'') then Some parsed else None))"

text \<open>One chunk: the buffer before and after it, and the snapshots it completes.\<close>

definition read_chunk :: "string \<Rightarrow> string \<Rightarrow> json list \<times> string" where
  "read_chunk buffer chunk =
     (let frames = split_frames (buffer @ chunk)
      in (List.map_filter frame_event (butlast frames), last frames))"

fun read_chunks :: "string \<Rightarrow> string list \<Rightarrow> json list \<times> string" where
  "read_chunks buffer [] = ([], buffer)"
| "read_chunks buffer (c # cs) =
     (let (js, b) = read_chunk buffer c; (ks, b') = read_chunks b cs in (js @ ks, b'))"

text \<open>
  The loop of connections. An attempt that is not stopped ends with its stream or with an error,
  both of which are answered by the same pause and another attempt; one that is stopped by the
  returned function reports nothing more.
\<close>

datatype attempt = Refused | Streamed "string list" | Stopped_before | Stopped_in "string list"

datatype notice = Status bool | Shown json

definition shown :: "string list \<Rightarrow> notice list" where
  "shown cs = map Shown (fst (read_chunks [] cs))"

fun connect :: "attempt list \<Rightarrow> notice list" where
  "connect [] = []"
| "connect (Refused # as) = Status False # connect as"
| "connect (Streamed cs # as) = Status True # shown cs @ Status False # connect as"
| "connect (Stopped_before # as) = []"
| "connect (Stopped_in cs # as) = Status True # shown cs"

subsection \<open>What the server sends\<close>

text \<open>\<open>ServerEvent\<close> of packages/server/src/events.ts with the frames \<open>publish\<close> writes.\<close>

datatype server_event = Snapshot_event string "queue_snapshot list" | Health_event bool string

definition counts_json :: "(job_state \<Rightarrow> nat option) \<Rightarrow> json" where
  "counts_json counts =
     JObj (List.map_filter (\<lambda>s. map_option (\<lambda>n. (state_name s, JNum (show_nat n))) (counts s)) JOB_STATES)"

definition show_int :: "int \<Rightarrow> string" where
  "show_int n = (if n < 0 then ''-'' @ show_nat (nat (- n)) else show_nat (nat n))"

definition event_type :: "server_event \<Rightarrow> string" where
  "event_type e = (case e of Snapshot_event _ _ \<Rightarrow> ''snapshot'' | Health_event _ _ \<Rightarrow> ''health'')"

definition event_json :: "server_event \<Rightarrow> json" where
  "event_json e =
     (case e of
        Snapshot_event time qs \<Rightarrow>
          JObj [(''type'', JStr (event_type e)), (''at'', JStr time),
                (''queues'', JArr (map (\<lambda>q. JObj [(''queue'', JStr (sn_queue q)),
                   (''counts'', counts_json (sn_counts q)),
                   (''oldestWaitSeconds'', JNum (show_int (sn_oldestWait q)))]) qs))]
      | Health_event up time \<Rightarrow>
          JObj [(''type'', JStr (event_type e)), (''ready'', JBool up), (''at'', JStr time)])"

definition event_frame :: "server_event \<Rightarrow> string" where
  "event_frame e =
     ''event: '' @ event_type e @ [newline] @ ''data: '' @ stringify (event_json e) @ [newline, newline]"

end
