(* ===== verification/Dashboard.thy ===== *)
theory Dashboard
  imports Dashboard_Api Backoff
begin

text \<open>
  packages/dashboard/src/components.tsx and packages/dashboard/src/App.tsx: what the components
  compute from their properties, and the application as a state machine: the state of its hooks,
  the events of the user and of the stream, the calls of the API they cause, and the queries the
  visible view keeps fresh. The data those queries last returned are an argument of a step. Markup
  and styles are left out; what a button does and when it is offered are not.
\<close>

subsection \<open>Components\<close>

definition STATE_ORDER :: "job_state list" where
  "STATE_ORDER = [Available, Running, Succeeded, Dead, Cancelled]"

definition count_of :: "(job_state \<Rightarrow> nat option) \<Rightarrow> job_state \<Rightarrow> nat" where
  "count_of counts s = coalesce (counts s) 0"

definition bar_total :: "(job_state \<Rightarrow> nat option) \<Rightarrow> nat" where
  "bar_total counts = fold (\<lambda>s sum. sum + count_of counts s) STATE_ORDER 0"

record segment =
  sg_state :: job_state
  sg_width :: rat
  sg_title :: string

text \<open>The bar: nothing for no jobs, or its label and the segments with their widths in percent.\<close>

definition QueueBar :: "(job_state \<Rightarrow> nat option) \<Rightarrow> (string list \<times> segment list) option" where
  "QueueBar counts =
     (let total = bar_total counts;
          title = (\<lambda>s. show_nat (count_of counts s) @ '' '' @ state_name s);
          some_jobs = filter (\<lambda>s. 0 < count_of counts s) STATE_ORDER
      in if total = 0 then None
         else Some (map title some_jobs,
                map (\<lambda>s. \<lparr>sg_state = s, sg_width = of_nat (count_of counts s) / of_nat total * 100,
                          sg_title = title s\<rparr>) some_jobs))"

definition dash :: string where
  "dash = map char_of [226 :: nat, 128, 148]"

text \<open>\<open>Math.round\<close> and the remainder of a number that is not negative.\<close>

definition js_round :: "rat \<Rightarrow> nat" where
  "js_round x = nat \<lfloor>x + 1 / 2\<rfloor>"

definition js_floor :: "rat \<Rightarrow> nat" where
  "js_floor x = nat \<lfloor>x\<rfloor>"

definition js_rem :: "rat \<Rightarrow> rat \<Rightarrow> rat" where
  "js_rem x y = x - of_int \<lfloor>x / y\<rfloor> * y"

definition formatDuration :: "jsnum \<Rightarrow> string" where
  "formatDuration seconds =
     (case seconds of
        Fin x \<Rightarrow>
          if x < 0 then dash
          else if x < 1 then ''<1s''
          else if x < 60 then show_nat (js_round x) @ ''s''
          else if x < 3600 then show_nat (js_floor (x / 60)) @ ''m '' @ show_nat (js_round (js_rem x 60)) @ ''s''
          else if x < 86400 then
            show_nat (js_floor (x / 3600)) @ ''h '' @ show_nat (js_floor (js_rem x 3600 / 60)) @ ''m''
          else show_nat (js_floor (x / 86400)) @ ''d '' @ show_nat (js_floor (js_rem x 86400 / 3600)) @ ''h''
      | _ \<Rightarrow> dash)"

text \<open>\<open>then\<close> is the time in milliseconds the text stands for, if it is a date.\<close>

definition RelativeTime :: "(string \<Rightarrow> int option) \<Rightarrow> int \<Rightarrow> string option \<Rightarrow> string" where
  "RelativeTime date_ms now iso_text =
     (case iso_text of
        None \<Rightarrow> dash
      | Some t \<Rightarrow>
          (case date_ms t of
             None \<Rightarrow> ''in '' @ formatDuration NaN
           | Some ms \<Rightarrow>
               (let delta = of_int (now - ms) / 1000
                in if 0 \<le> delta then formatDuration (Fin delta) @ '' ago''
                   else ''in '' @ formatDuration (Fin (- delta)))))"

definition SENSITIVE :: "string list" where
  "SENSITIVE = [''pass'', ''secret'', ''token'', ''key'', ''auth'', ''credential'', ''ssn'', ''card'', ''cvv'']"

definition sensitive :: "string \<Rightarrow> bool" where
  "sensitive k \<longleftrightarrow> list_ex (\<lambda>w. contains w (map to_lower k)) SENSITIVE"

fun redact :: "nat \<Rightarrow> json \<Rightarrow> json" where
  "redact depth (JArr xs) = (if 8 < depth then JArr xs else JArr (map (redact (Suc depth)) xs))"
| "redact depth (JObj fs) =
     (if 8 < depth then JObj fs
      else JObj (map (\<lambda>(k, v). (k, if sensitive k then JStr ''[redacted]'' else redact (Suc depth) v)) fs))"
| "redact depth v = v"

definition PayloadView :: "json \<Rightarrow> json" where
  "PayloadView value = redact 0 value"

text \<open>The rows of the detail view, in order, and the text of a recorded failure.\<close>

primrec dead_reason_name :: "dead_reason \<Rightarrow> string" where
  "dead_reason_name Attempts_exhausted = ''attempts_exhausted''"
| "dead_reason_name Lease_expired = ''lease_expired''"
| "dead_reason_name Non_retryable_error = ''non_retryable_error''"
| "dead_reason_name Reason_cancelled = ''cancelled''"

definition JobDetail :: "(string option \<Rightarrow> string) \<Rightarrow> wire_job \<Rightarrow> (string \<times> string) list" where
  "JobDetail relative job =
     [(''Attempt'', show_int (w_attempt job) @ '' of '' @ show_int (w_maxAttempts job)),
      (''Enqueued'', relative (Some (w_enqueuedAt job))),
      (''Runs at'', relative (Some (w_runAt job)))]
     @ (case w_workerId job of None \<Rightarrow> [] | Some w \<Rightarrow> [(''Worker'', w)])
     @ (case w_leaseExpiresAt job of None \<Rightarrow> [] | Some t \<Rightarrow> [(''Lease expires'', relative (Some t))])
     @ (case w_deadReason job of None \<Rightarrow> [] | Some r \<Rightarrow> [(''Dead reason'', dead_reason_name r)])
     @ (case w_idempotencyKey job of None \<Rightarrow> [] | Some k \<Rightarrow> [(''Idempotency key'', k)])"

definition failure_text :: "job_error \<Rightarrow> string" where
  "failure_text e =
     (case e_name e of None \<Rightarrow> [] | Some n \<Rightarrow> n @ '': '')
     @ coalesce (e_message e) ''(no message)''
     @ (case e_stack e of None \<Rightarrow> [] | Some s \<Rightarrow> if 0 < length s then newline # newline # s else [])"

subsection \<open>The application\<close>

datatype tab = Overview | Jobs_tab | Dlq_tab | Schedules_tab

text \<open>The hooks of each view; a view that is left loses its state.\<close>

record overview =
  ov_snapshot :: "(string \<times> queue_snapshot list) option"
  ov_live :: bool

record jobs_view =
  jv_queue :: string
  jv_state :: "job_state option"
  jv_cursor :: "string option"
  jv_expanded :: "string option"

record dlq_view =
  dv_selected :: "string list"
  dv_expanded :: "string option"

datatype view = V_overview overview | V_jobs jobs_view | V_dlq dlq_view | V_schedules

record ui =
  ui_storage :: storage
  ui_key :: string
  ui_view :: view

primrec fresh_view :: "tab \<Rightarrow> view" where
  "fresh_view Overview = V_overview \<lparr>ov_snapshot = None, ov_live = False\<rparr>"
| "fresh_view Jobs_tab = V_jobs \<lparr>jv_queue = [], jv_state = None, jv_cursor = None, jv_expanded = None\<rparr>"
| "fresh_view Dlq_tab = V_dlq \<lparr>dv_selected = [], dv_expanded = None\<rparr>"
| "fresh_view Schedules_tab = V_schedules"

definition tab_of :: "view \<Rightarrow> tab" where
  "tab_of v = (case v of V_overview _ \<Rightarrow> Overview | V_jobs _ \<Rightarrow> Jobs_tab | V_dlq _ \<Rightarrow> Dlq_tab | V_schedules \<Rightarrow> Schedules_tab)"

definition load :: "storage \<Rightarrow> ui" where
  "load st = \<lparr>ui_storage = st, ui_key = getApiKey st, ui_view = fresh_view Overview\<rparr>"

text \<open>What the queries last returned.\<close>

record ui_data =
  da_queues :: "queue_summary list option"
  da_jobs :: "wire_job list"
  da_next :: "string option"
  da_dlq :: "wire_job list"
  da_schedules :: "wire_schedule list"

definition overview_queues :: "overview \<Rightarrow> ui_data \<Rightarrow> queue_summary list" where
  "overview_queues o' data =
     (case ov_snapshot o' of
        Some (_, qs) \<Rightarrow>
          map (\<lambda>q. \<lparr>qs_queue = sn_queue q, qs_counts = sn_counts q, qs_ready = count_of (sn_counts q) Available,
                    qs_oldestWait = sn_oldestWait q\<rparr>) qs
      | None \<Rightarrow> coalesce (da_queues data) [])"

definition totals :: "queue_summary list \<Rightarrow> job_state \<Rightarrow> nat option" where
  "totals queues =
     fold (\<lambda>q acc s. case qs_counts q s of None \<Rightarrow> acc s | Some n \<Rightarrow> Some (coalesce (acc s) 0 + n))
       queues (\<lambda>_. None)"

definition effectiveQueue :: "jobs_view \<Rightarrow> ui_data \<Rightarrow> string" where
  "effectiveQueue v data =
     (if jv_queue v \<noteq> [] then jv_queue v
      else case da_queues data of Some (q # _) \<Rightarrow> qs_queue q | _ \<Rightarrow> [])"

text \<open>The queries a view keeps fresh.\<close>

definition jobs_query :: "jobs_view \<Rightarrow> string \<Rightarrow> api_call" where
  "jobs_query v q =
     Jobs q [(''state'', map_option state_name (jv_state v)), (''cursor'', jv_cursor v), (''limit'', Some ''50'')]"

definition queries :: "ui_data \<Rightarrow> ui \<Rightarrow> api_call list" where
  "queries data u =
     (if ui_key u = [] then []
      else case ui_view u of
             V_overview _ \<Rightarrow> [Queues]
           | V_jobs v \<Rightarrow>
               Queues # (if effectiveQueue v data \<noteq> [] then [jobs_query v (effectiveQueue v data)] else [])
           | V_dlq _ \<Rightarrow> [Dlq [(''limit'', Some ''50'')]]
           | V_schedules \<Rightarrow> [Schedules])"

text \<open>
  Events: the key form, the tabs, the stream, the buttons of the views with the answers that change
  state, and the button of the error banner, which forgets the key and loads the page anew.
\<close>

datatype ui_event =
    Submit_key string
  | Choose_tab tab
  | Snapshot_arrives string "queue_snapshot list"
  | Live bool
  | Press_pause string
  | Press_resume string
  | Choose_queue string
  | Choose_state "job_state option"
  | First_page
  | Next_page
  | Expand string
  | Run_now string
  | Press_cancel string
  | Toggle string
  | Toggle_all
  | Replay_selected bool
  | Replay_succeeded
  | Toggle_schedule ident
  | Change_key

definition job_ids :: "wire_job list \<Rightarrow> string list" where
  "job_ids jobs = map (show_nat \<circ> w_id) jobs"

definition offers_change :: "wire_job list \<Rightarrow> string \<Rightarrow> bool" where
  "offers_change jobs i \<longleftrightarrow> (\<exists>j \<in> set jobs. show_nat (w_id j) = i \<and> w_state j = Available)"

definition toggle :: "string \<Rightarrow> string list \<Rightarrow> string list" where
  "toggle i selected = (if i \<in> set selected then filter (\<lambda>k. k \<noteq> i) selected else selected @ [i])"

definition toggle_all :: "wire_job list \<Rightarrow> string list \<Rightarrow> string list" where
  "toggle_all items selected = (if length selected = length items then [] else remdups (job_ids items))"

definition expand_toggle :: "string \<Rightarrow> string option \<Rightarrow> string option" where
  "expand_toggle i e = (if e = Some i then None else Some i)"

definition overview_step :: "ui_data \<Rightarrow> ui_event \<Rightarrow> overview \<Rightarrow> overview \<times> api_call list" where
  "overview_step data e v =
     (case e of
        Snapshot_arrives t qs \<Rightarrow> (v\<lparr>ov_snapshot := Some (t, qs)\<rparr>, [])
      | Live b \<Rightarrow> (v\<lparr>ov_live := b\<rparr>, [])
      | Press_pause q \<Rightarrow> (v, if q \<in> qs_queue ` set (overview_queues v data) then [Pause q] else [])
      | Press_resume q \<Rightarrow> (v, if q \<in> qs_queue ` set (overview_queues v data) then [Resume q] else [])
      | _ \<Rightarrow> (v, []))"

definition jobs_step :: "ui_data \<Rightarrow> ui_event \<Rightarrow> jobs_view \<Rightarrow> jobs_view \<times> api_call list" where
  "jobs_step data e v =
     (case e of
        Choose_queue q \<Rightarrow> (v\<lparr>jv_cursor := None, jv_queue := q\<rparr>, [])
      | Choose_state s \<Rightarrow> (v\<lparr>jv_cursor := None, jv_state := s\<rparr>, [])
      | First_page \<Rightarrow> (v\<lparr>jv_cursor := None\<rparr>, [])
      | Next_page \<Rightarrow> (case da_next data of None \<Rightarrow> (v, []) | Some c \<Rightarrow> (v\<lparr>jv_cursor := Some c\<rparr>, []))
      | Expand i \<Rightarrow> (v\<lparr>jv_expanded := expand_toggle i (jv_expanded v)\<rparr>, [])
      | Run_now i \<Rightarrow> (v, if offers_change (da_jobs data) i then [Retry i] else [])
      | Press_cancel i \<Rightarrow> (v, if offers_change (da_jobs data) i then [Cancel i] else [])
      | _ \<Rightarrow> (v, []))"

definition dlq_step :: "ui_data \<Rightarrow> ui_event \<Rightarrow> dlq_view \<Rightarrow> dlq_view \<times> api_call list" where
  "dlq_step data e v =
     (case e of
        Toggle i \<Rightarrow>
          (if i \<in> set (job_ids (da_dlq data)) then v\<lparr>dv_selected := toggle i (dv_selected v)\<rparr> else v, [])
      | Toggle_all \<Rightarrow>
          (if da_dlq data \<noteq> [] then v\<lparr>dv_selected := toggle_all (da_dlq data) (dv_selected v)\<rparr> else v, [])
      | Replay_selected ok \<Rightarrow>
          (v, if dv_selected v \<noteq> [] \<and> ok then [ReplayMany (dv_selected v)] else [])
      | Replay_succeeded \<Rightarrow> (v\<lparr>dv_selected := []\<rparr>, [])
      | Expand i \<Rightarrow> (v\<lparr>dv_expanded := expand_toggle i (dv_expanded v)\<rparr>, [])
      | _ \<Rightarrow> (v, []))"

definition schedules_step :: "ui_data \<Rightarrow> ui_event \<Rightarrow> api_call list" where
  "schedules_step data e =
     (case e of
        Toggle_schedule i \<Rightarrow>
          (case find (\<lambda>s. ws_id s = i) (da_schedules data) of
             None \<Rightarrow> []
           | Some s \<Rightarrow> [if ws_enabled s then PauseSchedule (show_nat i) else ResumeSchedule (show_nat i)])
      | _ \<Rightarrow> [])"

definition view_step :: "ui_data \<Rightarrow> ui_event \<Rightarrow> view \<Rightarrow> view \<times> api_call list" where
  "view_step data e v =
     (case v of
        V_overview o' \<Rightarrow> (let (o'', cs) = overview_step data e o' in (V_overview o'', cs))
      | V_jobs j \<Rightarrow> (let (j', cs) = jobs_step data e j in (V_jobs j', cs))
      | V_dlq q \<Rightarrow> (let (q', cs) = dlq_step data e q in (V_dlq q', cs))
      | V_schedules \<Rightarrow> (V_schedules, schedules_step data e))"

definition submit_key :: "string \<Rightarrow> ui \<Rightarrow> ui" where
  "submit_key value u =
     (if 0 < length (trim value)
      then u\<lparr>ui_storage := setApiKey (trim value) (ui_storage u), ui_key := trim value\<rparr> else u)"

definition ui_step :: "ui_data \<Rightarrow> ui_event \<Rightarrow> ui \<Rightarrow> ui \<times> api_call list" where
  "ui_step data e u =
     (if length (ui_key u) = 0 then (case e of Submit_key k \<Rightarrow> (submit_key k u, []) | _ \<Rightarrow> (u, []))
      else case e of
             Submit_key k \<Rightarrow> (u, [])
           | Choose_tab t \<Rightarrow> (if tab_of (ui_view u) = t then u else u\<lparr>ui_view := fresh_view t\<rparr>, [])
           | Change_key \<Rightarrow> (load (setApiKey [] (ui_storage u)), [])
           | _ \<Rightarrow> (let (v, cs) = view_step data e (ui_view u) in (u\<lparr>ui_view := v\<rparr>, cs)))"

text \<open>The banner of an error offers to change the key when the message looks like a key problem.\<close>

definition ErrorBanner :: "string \<Rightarrow> bool" where
  "ErrorBanner message \<longleftrightarrow> contains ''401'' message \<or> contains ''key'' (map to_lower message)"

end
