(* ===== verification/Dashboard_Laws.thy ===== *)
theory Dashboard_Laws
  imports Dashboard_Api
begin

text \<open>
  What the dashboard's client guarantees: an encoded argument is one segment of the path and is
  read back as it was; and however the network cuts the event stream into chunks, the dashboard
  shows exactly the snapshots the server published.
\<close>

subsection \<open>The reader does not depend on the chunks\<close>

lemma split_frames_nonempty [simp]: "split_frames s \<noteq> []"
  by (induction s rule: split_frames.induct) (auto split: list.splits)

lemma split_lines_nonempty [simp]: "split_lines s \<noteq> []"
  by (induction s) (auto split: list.splits)

lemma case_nonempty:
  "xs \<noteq> [] \<Longrightarrow> (case xs of [] \<Rightarrow> z | f # fs \<Rightarrow> (c # f) # fs) = (c # hd xs) # tl xs"
  by (cases xs) simp_all

lemma split_lines_Cons [simp]:
  "split_lines (c # s) = (if c = newline then [] # split_lines s else (c # hd (split_lines s)) # tl (split_lines s))"
  by (simp add: case_nonempty)

lemma split_frames_Cons [simp]:
  "split_frames (c # d # s) =
     (if c = newline \<and> d = newline then [] # split_frames s
      else (c # hd (split_frames (d # s))) # tl (split_frames (d # s)))"
  by (auto simp: case_nonempty)

declare split_lines.simps(2) [simp del] split_frames.simps(3) [simp del]

lemma split_frames_cons:
  "\<not> (c = newline \<and> starts 10 s) \<Longrightarrow> split_frames (c # s) = (c # hd (split_frames s)) # tl (split_frames s)"
  by (cases s) (auto simp: starts_def newline_def byte_char_of)

lemma newline_iff: "c = newline \<longleftrightarrow> byte c = 10"
  by (auto simp: newline_def byte_char_of) (metis char_of_byte)

lemma split_frames_single: "split_frames s = [f] \<Longrightarrow> f = s"
proof (induction s arbitrary: f rule: split_frames.induct)
  case (3 c d s)
  then show ?case
    by (cases "split_frames (d # s)") (auto split: if_splits)
qed simp_all

text \<open>Splitting a text and then what is left of it with more text.\<close>

lemma split_frames_append:
  "split_frames (s @ t) = butlast (split_frames s) @ split_frames (last (split_frames s) @ t)"
proof (induction s rule: split_frames.induct)
  case (3 c d s)
  show ?case
  proof (cases "c = newline \<and> d = newline")
    case True
    with 3 show ?thesis by simp
  next
    case False
    obtain f fs where f: "split_frames (d # s) = f # fs" using split_frames_nonempty by (metis list.exhaust)
    with False 3 have IH: "split_frames (d # s @ t) = butlast (f # fs) @ split_frames (last (f # fs) @ t)" by simp
    have cs: "split_frames (c # d # s @ t) = (c # hd (split_frames (d # s @ t))) # tl (split_frames (d # s @ t))"
      using False by simp
    show ?thesis
    proof (cases fs)
      case Nil
      have "\<not> (c = newline \<and> starts 10 (f @ t))"
        using split_frames_single [of "d # s" f] f Nil False by (simp add: starts_def newline_iff)
      with IH cs f Nil False show ?thesis by (auto simp: split_frames_cons)
    next
      case (Cons g gs)
      with IH cs f False show ?thesis by auto
    qed
  qed
qed simp_all

lemma split_frames_last: "split_frames (last (split_frames s)) = [last (split_frames s)]"
proof (induction s rule: split_frames.induct)
  case (3 c d s)
  obtain f fs where f: "split_frames (d # s) = f # fs" using split_frames_nonempty by (metis list.exhaust)
  show ?case
  proof (cases "c = newline \<and> d = newline \<or> fs \<noteq> []")
    case True
    with 3 f show ?thesis by auto
  next
    case False
    with f have "f = d # s" using split_frames_single by simp
    with False f show ?thesis by auto
  qed
qed simp_all

lemma map_filter_append: "List.map_filter f (xs @ ys) = List.map_filter f xs @ List.map_filter f ys"
  by (simp add: List.map_filter_def)

lemma read_chunks_all:
  "split_frames b = [b] \<Longrightarrow>
   read_chunks b cs = (List.map_filter frame_event (butlast (split_frames (b @ concat cs))),
     last (split_frames (b @ concat cs)))"
proof (induction cs arbitrary: b)
  case Nil
  then show ?case by (simp add: List.map_filter_def)
next
  case (Cons c cs)
  let ?l = "last (split_frames (b @ c))"
  have "split_frames ?l = [?l]" by (rule split_frames_last)
  from Cons.IH [OF this] split_frames_append [of "b @ c" "concat cs"] show ?case
    by (simp add: read_chunk_def Let_def map_filter_append butlast_append)
qed

subsection \<open>Whole frames\<close>

text \<open>A frame is a text without blank line that neither starts nor ends at a line break.\<close>

definition one_frame :: "string \<Rightarrow> bool" where
  "one_frame f \<longleftrightarrow> f \<noteq> [] \<and> hd f \<noteq> newline \<and> last f \<noteq> newline \<and> split_frames f = [f]"

lemma split_frames_terminated:
  "split_frames f = [f] \<Longrightarrow> f = [] \<or> last f \<noteq> newline \<Longrightarrow> split_frames (f @ [newline, newline] @ s) = f # split_frames s"
proof (induction f rule: split_frames.induct)
  case (2 c)
  then show ?case by simp
next
  case (3 c d f)
  then have n: "\<not> (c = newline \<and> d = newline)" by auto
  with 3 have "split_frames (d # f) = [d # f]"
    using split_frames_single by (cases "split_frames (d # f)") auto
  with 3 n show ?case by simp
qed simp

lemma split_frames_whole:
  "list_all one_frame fs \<Longrightarrow> split_frames (concat (map (\<lambda>f. f @ [newline, newline]) fs)) = fs @ [[]]"
proof (induction fs)
  case (Cons f fs)
  then show ?case using split_frames_terminated [of f "concat (map (\<lambda>f. f @ [newline, newline]) fs)"]
    by (simp add: one_frame_def)
qed simp

text \<open>Frames that arrive whole, in whatever chunks.\<close>

lemma frames_read:
  assumes "list_all one_frame fs" and "concat chunks = concat (map (\<lambda>f. f @ [newline, newline]) fs)"
  shows "read_chunks [] chunks = (List.map_filter frame_event fs, [])"
  using read_chunks_all [of "[]" chunks] split_frames_whole [OF assms(1)] assms(2) by simp

lemma split_frames_lines:
  "list_all (\<lambda>c. c \<noteq> newline) s \<Longrightarrow> split_frames s = [s]"
  by (induction s rule: split_frames.induct) auto

lemma split_lines_first:
  "list_all (\<lambda>c. c \<noteq> newline) l \<Longrightarrow> split_lines (l @ newline # s) = l # split_lines s"
  by (induction l) auto

lemma split_lines_one: "list_all (\<lambda>c. c \<noteq> newline) l \<Longrightarrow> split_lines l = [l]"
  by (induction l) auto

lemma split_frames_two:
  assumes "list_all (\<lambda>c. c \<noteq> newline) l" and "list_all (\<lambda>c. c \<noteq> newline) m" and "m \<noteq> []"
  shows "split_frames (l @ newline # m) = [l @ newline # m]"
  using assms(1)
proof (induction l)
  case Nil
  have "\<not> starts 10 m" using assms(2,3) by (cases m) (auto simp: starts_def newline_iff)
  then show ?case using split_frames_lines [OF assms(2)] by (simp add: split_frames_cons)
next
  case (Cons c l)
  then show ?case by (simp add: split_frames_cons)
qed

subsection \<open>The server's frames\<close>

lemma show_int_numeral: "is_numeral (show_int n)"
proof -
  have n: "is_numeral (show_nat m)" for m by (rule show_nat_numeral)
  have "is_numeral (''-'' @ show_nat m)" for m
  proof -
    obtain c cs where c: "show_nat m = c # cs" using show_nat_nonempty [of m] by (cases "show_nat m") auto
    then have "is_digit c" using show_nat_digits [of c m] by simp
    then have "byte c \<noteq> 45" by (simp add: digit_byte)
    then have "unsigned_part (show_nat m) = Some (show_nat m, [])"
      using n [of m] c by (simp add: is_numeral_def number_scan_def)
    then show ?thesis by (simp add: is_numeral_def number_scan_def byte_def)
  qed
  with n show ?thesis by (simp add: show_int_def)
qed

lemma counts_json_ok: "json_ok (counts_json counts)"
  by (auto simp: counts_json_def list_all_iff List.map_filter_def show_nat_numeral)

lemma event_json_ok: "json_ok (event_json e)"
  by (cases e) (simp_all add: event_json_def event_type_def list_all_iff counts_json_ok show_int_numeral)

definition event_body :: "server_event \<Rightarrow> string" where
  "event_body e = ''event: '' @ event_type e @ newline # ''data: '' @ stringify (event_json e)"

lemma event_frame_body: "event_frame e = event_body e @ [newline, newline]"
  by (simp add: event_frame_def event_body_def)

lemma newline_chr: "newline = CHR 0x0A"
  using newline_iff [of "CHR 0x0A"] by (simp add: byte_def)

lemma event_lines:
  "list_all (\<lambda>c. c \<noteq> newline) (''event: '' @ event_type e)"
  "list_all (\<lambda>c. c \<noteq> newline) (''data: '' @ stringify (event_json e))"
proof -
  show "list_all (\<lambda>c. c \<noteq> newline) (''event: '' @ event_type e)"
    by (cases e) (simp_all add: event_type_def newline_chr)
  have "list_all (\<lambda>c. c \<noteq> newline) (stringify (event_json e))"
    using stringify_no_newline [OF event_json_ok [of e]] unfolding list_all_iff newline_iff .
  then show "list_all (\<lambda>c. c \<noteq> newline) (''data: '' @ stringify (event_json e))"
    by (simp add: newline_chr)
qed

lemma event_one_frame: "one_frame (event_body e)"
proof -
  have "split_frames (event_body e) = [event_body e]"
    using split_frames_two [OF event_lines] by (simp add: event_body_def)
  moreover have "last (event_body e) \<noteq> newline"
  proof -
    let ?d = "''data: '' @ stringify (event_json e)"
    have d: "?d \<noteq> []" by simp
    have "last ((''event: '' @ event_type e @ [newline]) @ ?d) = last ?d" by (rule last_appendR [OF d])
    moreover have "(''event: '' @ event_type e @ [newline]) @ ?d = event_body e" by (simp add: event_body_def)
    moreover have "last ?d \<noteq> newline"
      using event_lines(2) [of e] last_in_set [OF d] unfolding list_all_iff by blast
    ultimately show ?thesis by metis
  qed
  moreover have "event_body e \<noteq> []" "hd (event_body e) \<noteq> newline"
    by (simp_all add: event_body_def newline_chr)
  ultimately show ?thesis unfolding one_frame_def by blast
qed

definition is_snapshot :: "server_event \<Rightarrow> bool" where
  "is_snapshot e = (case e of Snapshot_event _ _ \<Rightarrow> True | Health_event _ _ \<Rightarrow> False)"

lemma frame_event_body: "frame_event (event_body e) = (if is_snapshot e then Some (event_json e) else None)"
proof -
  let ?d = "''data: '' @ stringify (event_json e)"
  have l: "split_lines (event_body e) = [''event: '' @ event_type e, ?d]"
    using split_lines_first [OF event_lines(1), of e ?d] split_lines_one [OF event_lines(2), of e]
    by (simp add: event_body_def)
  have "find (is_prefix ''data: '') (split_lines (event_body e)) = Some ?d"
    unfolding l by simp
  moreover have "drop 6 ?d = stringify (event_json e)" by simp
  moreover have "member ''type'' (Some (event_json e)) = Some (JStr ''snapshot'') \<longleftrightarrow> is_snapshot e"
    by (cases e) (simp_all add: event_json_def event_type_def member_def json_field_def is_snapshot_def)
  ultimately show ?thesis
    using json_round_trip [OF event_json_ok [of e]] by (simp add: frame_event_def)
qed

text \<open>The two frames without an event.\<close>

definition quiet_body :: "string \<Rightarrow> bool" where
  "quiet_body b \<longleftrightarrow> b = ''retry: 3000'' \<or> b = '': keepalive''"

lemma quiet_one_frame: "quiet_body b \<Longrightarrow> one_frame b"
  by (auto simp: quiet_body_def one_frame_def newline_chr)

lemma quiet_no_event: "quiet_body b \<Longrightarrow> frame_event b = None"
  by (auto simp: quiet_body_def frame_event_def newline_chr)

subsection \<open>Every history of the stream\<close>

text \<open>What a step writes to a subscriber that stays.\<close>

definition written :: "stream_event \<Rightarrow> string list" where
  "written e = (case e of Publishes _ f \<Rightarrow> [f] | Ticks \<Rightarrow> [keepalive_frame] | _ \<Rightarrow> [])"

lemma written_Ticks: "written Ticks = [keepalive_frame]"
  by (simp add: written_def)

lemma stream_step_frames:
  assumes inv: "stream_inv s" and u: "u \<in> set (ev_subscribers (stream_step e s))" and old: "su_id u < ev_nextId s"
  shows "\<exists>v \<in> set (ev_subscribers s). su_id v = su_id u \<and> su_frames u = su_frames v @ written e"
proof (cases e)
  case Subscribes
  with u old show ?thesis by (auto simp: subscribe_def written_def split: if_splits)
next
  case (Disconnects i)
  with u show ?thesis by (auto simp: cleanup_def written_def)
next
  case (Publishes slow f)
  with u show ?thesis by (auto simp: publish_def written_def write_frame_def split: if_splits)
next
  case Ticks
  with u inv show ?thesis
    by (auto simp: heartbeat_tick_def written_def write_frame_def stream_inv_def split: if_splits)
next
  case Closes
  with u show ?thesis by (simp add: close_stream_def)
qed

lemma next_id_mono: "ev_nextId s \<le> ev_nextId (stream_step e s)"
  by (cases e) (auto simp: subscribe_def cleanup_def publish_def heartbeat_tick_def close_stream_def)

lemma stream_run_frames:
  assumes "stream_inv s" and "u \<in> set (ev_subscribers (fold stream_step es s))" and "su_id u < ev_nextId s"
  shows "\<exists>v \<in> set (ev_subscribers s). su_id v = su_id u \<and> su_frames u = su_frames v @ concat (map written es)"
  using assms
proof (induction es arbitrary: s)
  case (Cons e es)
  have inv: "stream_inv (stream_step e s)" using stream_step_inv [OF Cons.prems(1)] by blast
  have "su_id u < ev_nextId (stream_step e s)" using Cons.prems(3) next_id_mono less_le_trans by blast
  with Cons.IH [OF inv] Cons.prems(2) obtain v where
    v: "v \<in> set (ev_subscribers (stream_step e s))" "su_id v = su_id u" "su_frames u = su_frames v @ concat (map written es)"
    by auto
  with stream_step_frames [OF Cons.prems(1) v(1)] Cons.prems(3) show ?case by force
qed auto

text \<open>The events a history publishes.\<close>

definition published :: "stream_event list \<Rightarrow> string list" where
  "published es = List.map_filter (\<lambda>e. case e of Publishes _ f \<Rightarrow> Some f | _ \<Rightarrow> None) es"

lemma frames_of_quiet:
  "retry_frame = ''retry: 3000'' @ [newline, newline]" "keepalive_frame = '': keepalive'' @ [newline, newline]"
  by (simp_all add: retry_frame_def keepalive_frame_def newline_def)

text \<open>What a history writes is a sequence of whole frames, with exactly its snapshots in them.\<close>

lemma history_frames:
  assumes "published es = map event_frame evs"
  shows "\<exists>fs. concat (map written es) = map (\<lambda>f. f @ [newline, newline]) fs \<and> list_all one_frame fs
    \<and> List.map_filter frame_event fs = map event_json (filter is_snapshot evs)"
  using assms
proof (induction es arbitrary: evs)
  case Nil
  then show ?case by (intro exI [of _ "[]"]) (simp add: published_def List.map_filter_def)
next
  case (Cons e es)
  show ?case
  proof (cases "\<exists>slow f. e = Publishes slow f")
    case True
    then obtain slow f where e: "e = Publishes slow f" by blast
    with Cons.prems obtain v vs where v: "evs = v # vs" "f = event_frame v" "published es = map event_frame vs"
      by (cases evs) (auto simp: published_def)
    from Cons.IH [OF v(3)] obtain fs where fs: "concat (map written es) = map (\<lambda>f. f @ [newline, newline]) fs"
      "list_all one_frame fs" "List.map_filter frame_event fs = map event_json (filter is_snapshot vs)" by blast
    moreover have "written e = [event_frame v]" by (simp add: e v(2) written_def)
    ultimately show ?thesis
      by (intro exI [of _ "event_body v # fs"])
        (simp add: v(1) event_frame_body event_one_frame frame_event_body)
  next
    case False
    with Cons.prems have p: "published es = map event_frame evs"
      by (cases e) (simp_all add: published_def)
    from Cons.IH [OF p] obtain fs where fs: "concat (map written es) = map (\<lambda>f. f @ [newline, newline]) fs"
      "list_all one_frame fs" "List.map_filter frame_event fs = map event_json (filter is_snapshot evs)" by blast
    show ?thesis
    proof (cases "e = Ticks")
      case True
      have q: "quiet_body '': keepalive''" by (simp add: quiet_body_def)
      show ?thesis
        using fs True quiet_one_frame [OF q] quiet_no_event [OF q]
        by (intro exI [of _ "'': keepalive'' # fs"]) (simp add: written_Ticks frames_of_quiet)
    next
      case nt: False
      with False have "written e = []" by (cases e) (auto simp: written_def)
      with fs show ?thesis by (intro exI [of _ fs]) simp
    qed
  qed
qed

text \<open>
  A dashboard that connects to a sound stream and is still subscribed after a history sees, in any
  chunks, the snapshots published since, in order, and nothing else.
\<close>

lemma snapshots_seen:
  assumes inv: "stream_inv s" and sub: "subscribe s = (200, s1)"
    and u: "u \<in> set (ev_subscribers (fold stream_step es s1))" "su_id u = ev_nextId s"
    and pub: "published es = map event_frame evs"
    and ch: "concat chunks = concat (su_frames u)"
  shows "connect [Streamed chunks] = Status True # map (Shown \<circ> event_json) (filter is_snapshot evs) @ [Status False]"
proof -
  have s1: "s1 = stream_step Subscribes s" using sub by simp
  have inv1: "stream_inv s1" using stream_step_inv [OF inv] s1 by blast
  have nx: "ev_nextId s1 = Suc (ev_nextId s)" "ev_subscribers s1 = ev_subscribers s @ [\<lparr>su_id = ev_nextId s, su_frames = [retry_frame]\<rparr>]"
    using sub by (auto simp: subscribe_def split: if_splits)
  from stream_run_frames [OF inv1 u(1)] u(2) nx obtain v where
    v: "v \<in> set (ev_subscribers s1)" "su_id v = ev_nextId s" "su_frames u = su_frames v @ concat (map written es)"
    by (metis lessI)
  have "\<forall>w \<in> set (ev_subscribers s). su_id w < ev_nextId s" using inv by (simp add: stream_inv_def)
  with v nx have "su_frames v = [retry_frame]" by auto
  moreover from history_frames [OF pub] obtain fs where
    fs: "concat (map written es) = map (\<lambda>f. f @ [newline, newline]) fs" "list_all one_frame fs"
      "List.map_filter frame_event fs = map event_json (filter is_snapshot evs)" by blast
  moreover have q: "quiet_body ''retry: 3000''" by (simp add: quiet_body_def)
  ultimately have "read_chunks [] chunks = (map event_json (filter is_snapshot evs), [])"
    using frames_read [of "''retry: 3000'' # fs" chunks] ch v(3) quiet_one_frame [OF q] quiet_no_event [OF q]
    by (simp add: frames_of_quiet)
  then show ?thesis by (simp add: shown_def)
qed

end
