(* ===== verification/Dashboard_View_Laws.thy ===== *)
theory Dashboard_View_Laws
  imports Dashboard Dashboard_Laws
begin

text \<open>
  What the views of the dashboard guarantee: secrets are hidden down to a depth, the bar adds up,
  and the calls the application makes are for items that are shown.
\<close>

subsection \<open>Redaction\<close>

text \<open>A value at a depth inside another.\<close>

inductive inside :: "nat \<Rightarrow> json \<Rightarrow> json \<Rightarrow> bool" where
  Self: "inside 0 v v"
| Item: "x \<in> set xs \<Longrightarrow> inside d x v \<Longrightarrow> inside (Suc d) (JArr xs) v"
| Member: "(k, x) \<in> set fs \<Longrightarrow> inside d x v \<Longrightarrow> inside (Suc d) (JObj fs) v"

inductive_cases inside_JArr: "inside d (JArr xs) v"
inductive_cases inside_JObj: "inside d (JObj fs) v"
inductive_cases inside_JStr: "inside d (JStr s) v"
inductive_cases inside_JNum: "inside d (JNum s) v"
inductive_cases inside_JBool: "inside d (JBool b) v"
inductive_cases inside_JNull: "inside d JNull v"

lemma redact_hides:
  "inside d (redact n j) (JObj fs) \<Longrightarrow> n + d \<le> 8 \<Longrightarrow> (k, v) \<in> set fs \<Longrightarrow> sensitive k \<Longrightarrow> v = JStr ''[redacted]''"
proof (induction n j arbitrary: d rule: redact.induct)
  case (1 n xs)
  from "1.prems"(1,2) obtain x e where x: "x \<in> set xs" "inside e (redact (Suc n) x) (JObj fs)" "d = Suc e"
    by (auto elim!: inside_JArr)
  with "1.IH" [OF _ x(1), of e] "1.prems" show ?case by simp
next
  case (2 n ms)
  let ?m = "\<lambda>(k, v). (k, if sensitive k then JStr ''[redacted]'' else redact (Suc n) v)"
  from "2.prems"(2) have n: "\<not> 8 < n" by simp
  with "2.prems"(1) have "inside d (JObj (map ?m ms)) (JObj fs)" by simp
  then consider (self) "fs = map ?m ms" | (member) k' x e where "(k', x) \<in> set (map ?m ms)" "inside e x (JObj fs)" "d = Suc e"
    by (elim inside_JObj) auto
  then show ?case
  proof cases
    case self
    with "2.prems"(3,4) show ?thesis by (auto split: if_splits)
  next
    case Member: (member k' x e)
    then obtain y where y: "(k', y) \<in> set ms" "x = (if sensitive k' then JStr ''[redacted]'' else redact (Suc n) y)"
      by auto
    show ?thesis
    proof (cases "sensitive k'")
      case True
      with y Member show ?thesis by (auto elim: inside_JStr)
    next
      case False
      with "2.IH" [OF n y(1) refl False, of e] y Member "2.prems" show ?thesis by simp
    qed
  qed
qed (auto elim: inside_JStr inside_JNum inside_JBool inside_JNull)

text \<open>A value without sensitive keys is shown as it is.\<close>

fun harmless :: "json \<Rightarrow> bool" where
  "harmless (JArr xs) = list_all harmless xs"
| "harmless (JObj fs) = list_all (\<lambda>(k, v). \<not> sensitive k \<and> harmless v) fs"
| "harmless _ = True"

lemma redact_harmless: "harmless j \<Longrightarrow> redact n j = j"
proof (induction n j rule: redact.induct)
  case (1 n xs)
  then show ?case by (auto simp: list_all_iff intro!: map_idI)
next
  case (2 n fs)
  then show ?case by (fastforce simp: list_all_iff intro!: map_idI)
qed simp_all

lemma redact_idem: "redact n (redact n j) = redact n j"
proof (induction n j rule: redact.induct)
  case (1 n xs)
  then show ?case by simp
next
  case (2 n fs)
  show ?case
  proof (cases "8 < n")
    case False
    have "(if sensitive k then JStr ''[redacted]'' else redact (Suc n) (if sensitive k then JStr ''[redacted]'' else redact (Suc n) v))
        = (if sensitive k then JStr ''[redacted]'' else redact (Suc n) v)" if "(k, v) \<in> set fs" for k v
      using "2.IH" [OF False that refl] by simp
    then show ?thesis using False by (auto simp: comp_def case_prod_beta)
  qed simp
qed simp_all

text \<open>Deeper than that nothing is hidden.\<close>

fun nested :: "nat \<Rightarrow> json \<Rightarrow> json" where
  "nested 0 v = v"
| "nested (Suc n) v = JArr [nested n v]"

lemma redact_deep: "PayloadView (nested 9 v) = nested 9 v"
proof -
  have "redact 9 v = v" by (cases v) simp_all
  then show ?thesis by (simp add: PayloadView_def numeral_eq_Suc)
qed

subsection \<open>Counts\<close>

lemma totals_count: "count_of (totals qs) s = sum_list (map (\<lambda>q. count_of (qs_counts q) s) qs)"
proof -
  let ?f = "\<lambda>q acc s. case qs_counts q s of None \<Rightarrow> acc s | Some n \<Rightarrow> Some (coalesce (acc s) 0 + n)"
  have "coalesce (fold ?f qs acc s) 0 = coalesce (acc s) 0 + sum_list (map (\<lambda>q. count_of (qs_counts q) s) qs)" for acc
  proof (induction qs arbitrary: acc)
    case (Cons q qs)
    then show ?case by (simp add: count_of_def split: option.splits)
  qed simp
  from this [of "\<lambda>_. None"] show ?thesis by (simp add: totals_def count_of_def)
qed

lemma bar_total_sum: "bar_total counts = sum_list (map (count_of counts) STATE_ORDER)"
  by (simp add: bar_total_def STATE_ORDER_def)

lemma sum_filter_pos: "sum_list (map f (filter (\<lambda>x. 0 < f x) xs)) = sum_list (map f (xs :: 'a list))" for f :: "'a \<Rightarrow> nat"
  by (induction xs) auto

text \<open>The widths of the segments add up to the whole bar.\<close>

lemma bar_adds_up:
  assumes "QueueBar counts = Some (label, segs)"
  shows "sum_list (map sg_width segs) = 100
    \<and> map sg_state segs = filter (\<lambda>s. 0 < count_of counts s) STATE_ORDER \<and> map sg_title segs = label"
proof -
  let ?n = "bar_total counts" and ?ss = "filter (\<lambda>s. 0 < count_of counts s) STATE_ORDER"
  from assms have n: "?n \<noteq> 0" by (auto simp: QueueBar_def Let_def split: if_splits)
  have "sum_list (map (\<lambda>s. of_nat (count_of counts s) / of_nat ?n * 100) ss)
      = of_nat (sum_list (map (count_of counts) ss)) / of_nat ?n * (100 :: rat)" for ss
    by (induction ss) (simp_all add: add_divide_distrib distrib_right)
  from this [of ?ss] have "sum_list (map (\<lambda>s. of_nat (count_of counts s) / of_nat ?n * 100) ?ss) = (100 :: rat)"
    using n sum_filter_pos [of "count_of counts" STATE_ORDER] by (simp add: bar_total_sum)
  with assms n show ?thesis by (auto simp: QueueBar_def Let_def comp_def)
qed

text \<open>A duration just below a minute, or below an hour, is rounded up to sixty seconds.\<close>

lemma duration_sixty:
  "formatDuration (Fin (119 / 2)) = show_nat 60 @ ''s''"
  "formatDuration (Fin (7199 / 2)) = show_nat 59 @ ''m '' @ show_nat 60 @ ''s''"
proof -
  have "\<lfloor>(7199 :: rat) / 120\<rfloor> = 59" by (simp add: floor_eq_iff)
  then show "formatDuration (Fin (7199 / 2)) = show_nat 59 @ ''m '' @ show_nat 60 @ ''s''"
    by (simp add: formatDuration_def js_round_def js_floor_def js_rem_def)
  show "formatDuration (Fin (119 / 2)) = show_nat 60 @ ''s''"
    by (simp add: formatDuration_def js_round_def)
qed

subsection \<open>The calls of the application\<close>

text \<open>Every call is for an item that is shown, in a state for which the button is there.\<close>

definition shown_for :: "ui_data \<Rightarrow> ui \<Rightarrow> api_call \<Rightarrow> bool" where
  "shown_for data u c =
     (case c of
        Cancel i \<Rightarrow> offers_change (da_jobs data) i
      | Retry i \<Rightarrow> offers_change (da_jobs data) i
      | Pause q \<Rightarrow> (\<exists>o'. ui_view u = V_overview o' \<and> q \<in> qs_queue ` set (overview_queues o' data))
      | Resume q \<Rightarrow> (\<exists>o'. ui_view u = V_overview o' \<and> q \<in> qs_queue ` set (overview_queues o' data))
      | ReplayMany ids \<Rightarrow> (\<exists>v. ui_view u = V_dlq v \<and> ids = dv_selected v \<and> ids \<noteq> [])
      | PauseSchedule i \<Rightarrow> (\<exists>s \<in> set (da_schedules data). show_nat (ws_id s) = i \<and> ws_enabled s)
      | ResumeSchedule i \<Rightarrow> (\<exists>s \<in> set (da_schedules data). show_nat (ws_id s) = i \<and> \<not> ws_enabled s)
      | _ \<Rightarrow> False)"

lemma overview_calls: "overview_step data e v = (v', cs) \<Longrightarrow> c \<in> set cs \<Longrightarrow>
    \<exists>q \<in> qs_queue ` set (overview_queues v data). c = Pause q \<or> c = Resume q"
  by (cases e) (auto simp: overview_step_def split: if_splits)

lemma jobs_calls: "jobs_step data e v = (v', cs) \<Longrightarrow> c \<in> set cs \<Longrightarrow>
    \<exists>i. offers_change (da_jobs data) i \<and> (c = Retry i \<or> c = Cancel i)"
  by (cases e) (auto simp: jobs_step_def split: if_splits option.splits)

lemma dlq_calls: "dlq_step data e v = (v', cs) \<Longrightarrow> c \<in> set cs \<Longrightarrow>
    c = ReplayMany (dv_selected v) \<and> dv_selected v \<noteq> [] \<and> e = Replay_selected True"
  by (cases e) (auto simp: dlq_step_def split: if_splits)

lemma find_SomeD: "find P xs = Some x \<Longrightarrow> x \<in> set xs \<and> P x"
  by (metis find_Some_iff nth_mem)

lemma schedules_calls: "c \<in> set (schedules_step data e) \<Longrightarrow>
    \<exists>s \<in> set (da_schedules data). c = (if ws_enabled s then PauseSchedule (show_nat (ws_id s)) else ResumeSchedule (show_nat (ws_id s)))"
proof (cases e)
  case (Toggle_schedule i)
  assume c: "c \<in> set (schedules_step data e)"
  show ?thesis
  proof (cases "find (\<lambda>s. ws_id s = i) (da_schedules data)")
    case None
    with c Toggle_schedule show ?thesis by (simp add: schedules_step_def)
  next
    case (Some s)
    from find_SomeD [OF this] c Toggle_schedule Some show ?thesis
      by (intro bexI [of _ s]) (simp_all add: schedules_step_def)
  qed
qed (simp_all add: schedules_step_def)

lemma ui_calls_shown:
  assumes "ui_step data e u = (u', cs)" and "c \<in> set cs"
  shows "ui_key u \<noteq> [] \<and> shown_for data u c"
proof -
  from assms have k: "ui_key u \<noteq> []" by (auto simp: ui_step_def split: ui_event.splits)
  with assms obtain v where v: "view_step data e (ui_view u) = (v, cs)"
    by (cases e) (auto simp: ui_step_def split: prod.splits)
  have "shown_for data u c"
  proof (cases "ui_view u")
    case (V_overview o')
    with v assms(2) obtain w where "overview_step data e o' = (w, cs)" by (auto simp: view_step_def split: prod.splits)
    from overview_calls [OF this assms(2)] V_overview show ?thesis by (auto simp: shown_for_def)
  next
    case (V_jobs j)
    with v assms(2) obtain w where "jobs_step data e j = (w, cs)" by (auto simp: view_step_def split: prod.splits)
    from jobs_calls [OF this assms(2)] show ?thesis by (auto simp: shown_for_def)
  next
    case (V_dlq q)
    with v assms(2) obtain w where "dlq_step data e q = (w, cs)" by (auto simp: view_step_def split: prod.splits)
    from dlq_calls [OF this assms(2)] V_dlq show ?thesis by (auto simp: shown_for_def)
  next
    case V_schedules
    with v have "cs = schedules_step data e" by (simp add: view_step_def)
    with assms(2) schedules_calls [of c data e] show ?thesis by (auto simp: shown_for_def split: if_splits)
  qed
  with k show ?thesis ..
qed

text \<open>Every state of the application that a history of events and data comes to.\<close>

fun ui_run :: "(ui_data \<times> ui_event) list \<Rightarrow> ui \<Rightarrow> ui \<times> api_call list" where
  "ui_run [] u = (u, [])"
| "ui_run ((data, e) # es) u =
     (let (u', cs) = ui_step data e u; (u'', ds) = ui_run es u' in (u'', cs @ ds))"

definition ui_inv :: "ui \<Rightarrow> bool" where
  "ui_inv u \<longleftrightarrow> ui_key u = getApiKey (ui_storage u)
     \<and> (case ui_view u of V_dlq v \<Rightarrow> distinct (dv_selected v) | _ \<Rightarrow> True)"

lemma toggle_distinct: "distinct s \<Longrightarrow> distinct (toggle i s)"
  by (simp add: toggle_def)

lemma toggle_all_distinct: "distinct (toggle_all items s)"
  by (simp add: toggle_all_def)

lemma load_inv: "ui_inv (load st)"
  by (simp add: ui_inv_def load_def)

lemma view_step_inv:
  assumes "view_step data e v = (v', cs)" and "case v of V_dlq q \<Rightarrow> distinct (dv_selected q) | _ \<Rightarrow> True"
  shows "case v' of V_dlq q \<Rightarrow> distinct (dv_selected q) | _ \<Rightarrow> True"
  using assms
  by (cases v; cases e) (auto simp: view_step_def overview_step_def jobs_step_def dlq_step_def toggle_distinct
      toggle_all_distinct split: prod.splits if_splits option.splits)

lemma submit_inv: "ui_inv u \<Longrightarrow> ui_inv (submit_key k u)"
  by (auto simp: ui_inv_def submit_key_def setApiKey_def getApiKey_def)

lemma ui_step_inv:
  assumes "ui_inv u" and "ui_step data e u = (u', cs)"
  shows "ui_inv u'"
proof (cases "length (ui_key u) = 0")
  case True
  with assms submit_inv show ?thesis by (cases e) (auto simp: ui_step_def)
next
  case False
  note k = this
  show ?thesis
  proof (cases "(\<exists>k. e = Submit_key k) \<or> (\<exists>t. e = Choose_tab t) \<or> e = Change_key")
    case True
    then consider (s) k where "e = Submit_key k" | (t) t where "e = Choose_tab t" | (c) "e = Change_key" by blast
    then show ?thesis
    proof cases
      case s
      with k assms show ?thesis by (simp add: ui_step_def)
    next
      case t
      with k assms(2) have "u' = u \<or> u' = u\<lparr>ui_view := fresh_view t\<rparr>" by (auto simp: ui_step_def split: if_splits)
      with assms(1) show ?thesis by (cases t) (auto simp: ui_inv_def)
    next
      case c
      with k assms(2) have "u' = load (setApiKey [] (ui_storage u))" by (simp add: ui_step_def)
      then show ?thesis by (simp add: load_inv)
    qed
  next
    case False
    obtain v ds where v: "view_step data e (ui_view u) = (v, ds)" by fastforce
    have "ui_step data e u = (u\<lparr>ui_view := v\<rparr>, ds)"
      using k False v by (cases e) (simp_all add: ui_step_def)
    with assms(2) have "u' = u\<lparr>ui_view := v\<rparr>" by simp
    with view_step_inv [OF v] assms(1) show ?thesis by (simp add: ui_inv_def)
  qed
qed

lemma ui_run_inv: "ui_inv u \<Longrightarrow> ui_run es u = (u', cs) \<Longrightarrow> ui_inv u'"
proof (induction es arbitrary: u cs)
  case (Cons e es)
  obtain data f where e: "e = (data, f)" by fastforce
  obtain v ds where v: "ui_step data f u = (v, ds)" by fastforce
  with Cons.prems(2) e obtain bs where "ui_run es v = (u', bs)" by (auto split: prod.splits)
  with Cons.IH [OF ui_step_inv [OF Cons.prems(1) v]] show ?case by blast
qed simp

text \<open>A replay carries only jobs the user has picked: by name, or as a whole page that was shown.\<close>

definition picked :: "(ui_data \<times> ui_event) list \<Rightarrow> string set" where
  "picked es =
     (\<Union>(data, e) \<in> set es. case e of Toggle i \<Rightarrow> {i} \<inter> set (job_ids (da_dlq data)) | Toggle_all \<Rightarrow> set (job_ids (da_dlq data)) | _ \<Rightarrow> {})"

definition selection :: "ui \<Rightarrow> string set" where
  "selection u = (case ui_view u of V_dlq v \<Rightarrow> set (dv_selected v) | _ \<Rightarrow> {})"

lemma submit_selection: "selection (submit_key k u) = selection u"
  by (simp add: selection_def submit_key_def)

lemma ui_step_selection:
  assumes "ui_step data e u = (u', cs)"
  shows "selection u' \<subseteq> selection u \<union> picked [(data, e)]"
proof (cases "length (ui_key u) = 0")
  case True
  with assms show ?thesis by (cases e) (auto simp: ui_step_def submit_selection)
next
  case False
  note k = this
  consider (s) k where "e = Submit_key k" | (t) t where "e = Choose_tab t" | (c) "e = Change_key"
    | (v) "\<forall>k. e \<noteq> Submit_key k" "\<forall>t. e \<noteq> Choose_tab t" "e \<noteq> Change_key" by blast
  then show ?thesis
  proof cases
    case s
    with k assms show ?thesis by (simp add: ui_step_def)
  next
    case t
    with k assms have "u' = u \<or> u' = u\<lparr>ui_view := fresh_view t\<rparr>" by (auto simp: ui_step_def split: if_splits)
    then show ?thesis by (cases t) (auto simp: selection_def)
  next
    case c
    with k assms have "u' = load (setApiKey [] (ui_storage u))" by (simp add: ui_step_def)
    then show ?thesis by (simp add: selection_def load_def)
  next
    case v
    obtain w ds where w: "view_step data e (ui_view u) = (w, ds)" by fastforce
    have "ui_step data e u = (u\<lparr>ui_view := w\<rparr>, ds)" using k v w by (cases e) (simp_all add: ui_step_def)
    with assms have u': "u' = u\<lparr>ui_view := w\<rparr>" by simp
    show ?thesis
    proof (cases "ui_view u")
      case (V_dlq q)
      obtain q' where q': "w = V_dlq q'" "dlq_step data e q = (q', ds)"
        using w V_dlq by (auto simp: view_step_def split: prod.splits)
      then have "set (dv_selected q') \<subseteq> set (dv_selected q) \<union> picked [(data, e)]"
        by (cases e) (auto simp: dlq_step_def toggle_def toggle_all_def picked_def split: if_splits)
      with u' q' V_dlq show ?thesis by (simp add: selection_def)
    qed (use w u' in \<open>auto simp: view_step_def selection_def split: prod.splits\<close>)
  qed
qed

lemma picked_Cons: "picked (e # es) = picked [e] \<union> picked es"
  by (simp add: picked_def)

lemma ui_run_selection: "ui_run es u = (u', cs) \<Longrightarrow> selection u' \<subseteq> selection u \<union> picked es"
proof (induction es arbitrary: u cs)
  case (Cons e es)
  obtain data f where e: "e = (data, f)" by fastforce
  obtain v ds where v: "ui_step data f u = (v, ds)" by fastforce
  with Cons.prems e obtain bs where "ui_run es v = (u', bs)" by (auto split: prod.splits)
  from Cons.IH [OF this] ui_step_selection [OF v] picked_Cons [of e es] e show ?case by blast
qed simp

lemma replay_picked:
  assumes "ui_run es (load st) = (u, ds)" and "ui_step data e u = (u', cs)" and "ReplayMany ids \<in> set cs"
  shows "set ids \<subseteq> picked es \<and> distinct ids \<and> ids \<noteq> [] \<and> e = Replay_selected True"
proof -
  from ui_calls_shown [OF assms(2,3)] obtain v where v: "ui_view u = V_dlq v" "ids = dv_selected v" "ids \<noteq> []"
    and k: "ui_key u \<noteq> []"
    by (auto simp: shown_for_def)
  have "selection (load st) = {}" by (simp add: selection_def load_def)
  with ui_run_selection [OF assms(1)] v have "set ids \<subseteq> picked es" by (simp add: selection_def)
  moreover have "distinct ids" using ui_run_inv [OF load_inv assms(1)] v by (simp add: ui_inv_def)
  moreover have "e = Replay_selected True"
  proof -
    obtain w bs where w: "view_step data e (ui_view u) = (w, bs)" by fastforce
    have "cs = bs \<or> cs = []" using assms(2) w k by (cases e) (auto simp: ui_step_def)
    with assms(3) w v(1) obtain q' where "dlq_step data e v = (q', cs)"
      by (auto simp: view_step_def split: prod.splits)
    from dlq_calls [OF this assms(3)] show ?thesis by blast
  qed
  ultimately show ?thesis using v(3) by blast
qed

end
