(* ===== verification/Dashboard_Overview.thy ===== *)
theory Dashboard_Overview
  imports Dashboard_View_Laws
begin

text \<open>
  From the tables to the screen: the snapshot the server takes of the database
  (packages/server/src/main.ts), through the event stream, is what the overview of the dashboard
  (packages/dashboard/src/App.tsx) adds up.
\<close>

subsection \<open>A snapshot, read\<close>

text \<open>What the typed view of a parsed snapshot sees: its members by name, numerals as numbers.\<close>

definition int_text :: "string \<Rightarrow> int" where
  "int_text s =
     (case s of [] \<Rightarrow> 0 | c # ds \<Rightarrow> if byte c = 45 then - int (nat_of_digits ds) else int (nat_of_digits s))"

definition number_at :: "string \<Rightarrow> json option \<Rightarrow> int option" where
  "number_at k v = (case member k v of Some (JNum n) \<Rightarrow> Some (int_text n) | _ \<Rightarrow> None)"

definition text_at :: "string \<Rightarrow> json option \<Rightarrow> string" where
  "text_at k v = (case member k v of Some (JStr s) \<Rightarrow> s | _ \<Rightarrow> [])"

definition read_queue :: "json \<Rightarrow> queue_snapshot" where
  "read_queue v =
     \<lparr>sn_queue = text_at ''queue'' (Some v),
      sn_counts = (\<lambda>s. map_option nat (number_at (state_name s) (member ''counts'' (Some v)))),
      sn_oldestWait = coalesce (number_at ''oldestWaitSeconds'' (Some v)) 0\<rparr>"

definition read_snapshot :: "json \<Rightarrow> string \<times> queue_snapshot list" where
  "read_snapshot v =
     (text_at ''at'' (Some v),
      case member ''queues'' (Some v) of Some (JArr qs) \<Rightarrow> map read_queue qs | _ \<Rightarrow> [])"

lemma nat_of_digits_show: "nat_of_digits (show_nat n) = n"
proof (induction n rule: show_nat.induct)
  case (1 n)
  show ?case
  proof (cases "n < 10")
    case True
    then show ?thesis by (simp add: show_nat.simps digit_char_def byte_char_of)
  next
    case False
    then have "show_nat n = show_nat (n div 10) @ [digit_char (n mod 10)]" by (subst show_nat.simps) simp
    with 1 [OF False] show ?thesis by (simp add: digit_char_def byte_char_of)
  qed
qed

lemma int_text_show_nat: "int_text (show_nat n) = int n"
proof -
  obtain c cs where c: "show_nat n = c # cs" using show_nat_nonempty [of n] by (cases "show_nat n") auto
  then have "is_digit c" using show_nat_digits [of c n] by simp
  then have "byte c \<noteq> 45" by (simp add: digit_byte)
  with c nat_of_digits_show [of n] show ?thesis by (simp add: int_text_def del: nat_of_digits.simps)
qed

lemma int_text_show: "int_text (show_int n) = n"
  using int_text_show_nat [of "nat n"] nat_of_digits_show [of "nat (- n)"]
  by (simp add: show_int_def int_text_def byte_def del: nat_of_digits.simps)

lemma count_read: "map_option nat (number_at (state_name s) (Some (counts_json counts))) = counts s"
proof -
  have "json_field (state_name s) (List.map_filter (\<lambda>t. map_option (\<lambda>n. (state_name t, JNum (show_nat n))) (counts t)) JOB_STATES)
      = map_option (\<lambda>n. JNum (show_nat n)) (counts s)"
    by (cases s; cases "counts Available"; cases "counts Running"; cases "counts Succeeded"; cases "counts Dead"; cases "counts Cancelled")
      (simp_all add: json_field_def JOB_STATES_def)
  then show ?thesis
    by (simp add: number_at_def member_def counts_json_def int_text_show_nat split: option.splits)
qed

lemma snapshot_read: "read_snapshot (event_json (Snapshot_event t qs)) = (t, qs)"
proof -
  have "read_queue (JObj [(''queue'', JStr (sn_queue q)), (''counts'', counts_json (sn_counts q)),
      (''oldestWaitSeconds'', JNum (show_int (sn_oldestWait q)))]) = q" for q :: queue_snapshot
    using count_read [of _ "sn_counts q"]
    by (cases q) (simp add: read_queue_def text_at_def number_at_def [of "''oldestWaitSeconds''"] member_def json_field_def int_text_show)
  then show ?thesis
    by (simp add: read_snapshot_def event_json_def event_type_def text_at_def member_def json_field_def comp_def)
qed

subsection \<open>What the overview shows\<close>

definition notice_event :: "notice \<Rightarrow> ui_event" where
  "notice_event n = (case n of Status b \<Rightarrow> Live b | Shown j \<Rightarrow> (case read_snapshot j of (t, qs) \<Rightarrow> Snapshot_arrives t qs))"

definition watch :: "ui_data \<Rightarrow> notice list \<Rightarrow> overview \<Rightarrow> overview" where
  "watch data ns v = fold (\<lambda>n v. fst (overview_step data (notice_event n) v)) ns v"

lemma watch_last:
  assumes "ns = Status True # map (Shown \<circ> event_json) (es @ [Snapshot_event t qs]) @ [Status False]"
  shows "watch data ns v = \<lparr>ov_snapshot = Some (t, qs), ov_live = False\<rparr>"
  by (simp add: assms(1) watch_def notice_event_def overview_step_def snapshot_read)

subsection \<open>The counts of the database\<close>

definition lookup_count :: "(string \<Rightarrow> (job_state \<Rightarrow> nat option) option) \<Rightarrow> string \<Rightarrow> job_state \<Rightarrow> nat option" where
  "lookup_count out q s = (case out q of None \<Rightarrow> None | Some f \<Rightarrow> f s)"

definition stat_put :: "string \<times> job_state \<times> nat \<Rightarrow> (string \<Rightarrow> (job_state \<Rightarrow> nat option) option)
    \<Rightarrow> string \<Rightarrow> (job_state \<Rightarrow> nat option) option" where
  "stat_put = (\<lambda>(q, s, n) out. out(q \<mapsto> (coalesce (out q) (\<lambda>_. None))(s \<mapsto> n)))"

lemma lookup_put:
  "lookup_count (stat_put (q', s', n) out) q s = (if (q, s) = (q', s') then Some n else lookup_count out q s)"
  by (simp add: lookup_count_def stat_put_def coalesce_def split: option.splits)

lemma stats_fold:
  "lookup_count (fold stat_put rows out) q s
   = (case map_of (map (\<lambda>(q, s, n). ((q, s), n)) (rev rows)) (q, s) of None \<Rightarrow> lookup_count out q s | Some n \<Rightarrow> Some n)"
proof (induction rows arbitrary: out)
  case (Cons r rows)
  obtain q' s' n where r: "r = (q', s', n)" by (metis prod_cases3)
  show ?case
    by (simp add: Cons.IH) (simp add: r lookup_put map_add_def split: option.splits)
qed simp

definition jobs_in :: "db \<Rightarrow> string \<Rightarrow> job_state \<Rightarrow> nat" where
  "jobs_in d q s = length (filter (\<lambda>j. j_queue j = q \<and> j_state j = s) (db_jobs d))"

lemma stats_lookup:
  "lookup_count (queue_stats d) q s = (if jobs_in d q s = 0 then None else Some (jobs_in d q s))"
proof -
  let ?n = "\<lambda>(q, s). jobs_in d q s"
  let ?ks = "sort (remdups (map (\<lambda>j. (j_queue j, j_state j)) (db_jobs d)))"
  have "map (\<lambda>(q, s, n). ((q, s), n)) (rev (queueStats d)) = map (\<lambda>k. (k, ?n k)) (rev ?ks)"
    by (simp add: queueStats_def jobs_in_def rev_map comp_def case_prod_beta)
  then have "map_of (map (\<lambda>(q, s, n). ((q, s), n)) (rev (queueStats d))) (q, s) = (if (q, s) \<in> set ?ks then Some (?n (q, s)) else None)"
    by (simp add: map_of_map_restrict restrict_map_def)
  moreover have "(q, s) \<in> set ?ks \<longleftrightarrow> ?n (q, s) \<noteq> 0" by (auto simp: jobs_in_def filter_empty_conv)
  ultimately show ?thesis
    unfolding queue_stats_def stat_put_def [symmetric] stats_fold by (auto simp: lookup_count_def)
qed

lemma stats_count:
  "coalesce (lookup_count (queue_stats d) q s) 0 = length (filter (\<lambda>j. j_queue j = q \<and> j_state j = s) (db_jobs d))"
  by (simp add: stats_lookup) (simp add: jobs_in_def)

lemma snapshot_counts:
  "count_of (sn_counts r) s = length (filter (\<lambda>j. j_queue j = sn_queue r \<and> j_state j = s) (db_jobs d))"
  if "r \<in> set (snapshot now d)"
  using that stats_count [of d "sn_queue r" s]
  by (auto simp: snapshot_def count_of_def lookup_count_def coalesce_def split: option.splits)

lemma sum_by_queue:
  assumes "distinct qs" and "\<forall>j \<in> set js. j_queue j \<in> set qs"
  shows "sum_list (map (\<lambda>q. length (filter (\<lambda>j. j_queue j = q \<and> j_state j = s) js)) qs)
    = length (filter (\<lambda>j. j_state j = s) js)"
  using assms(2)
proof (induction js)
  case (Cons j js)
  have "sum_list (map (\<lambda>q. (if j_queue j = q \<and> j_state j = s then 1 else 0) + f q) qs)
      = (if j_state j = s then 1 else 0) + sum_list (map f qs)" for f :: "string \<Rightarrow> nat"
  proof -
    have "sum_list (map (\<lambda>q. if j_queue j = q \<and> j_state j = s then 1 else 0) qs)
        = (if j_queue j \<in> set qs \<and> j_state j = s then 1 else (0 :: nat))"
      using assms(1) by (induction qs) auto
    with Cons.prems show ?thesis by (simp add: sum_list_addf)
  qed
  note D = this
  have "(\<lambda>q. length (filter (\<lambda>j. j_queue j = q \<and> j_state j = s) (j # js)))
      = (\<lambda>q. (if j_queue j = q \<and> j_state j = s then 1 else 0) + length (filter (\<lambda>j. j_queue j = q \<and> j_state j = s) js))"
    by auto
  with Cons D show ?case by simp
qed simp

text \<open>The totals of the overview are the numbers of jobs of the database in each state.\<close>

lemma overview_totals:
  assumes "ov_snapshot v = Some (t, snapshot now d)"
  shows "count_of (totals (overview_queues v data)) s = length (filter (\<lambda>j. j_state j = s) (db_jobs d))"
proof -
  let ?qs = "remdups (map fst (queueStats d))"
  have "count_of (totals (overview_queues v data)) s = sum_list (map (\<lambda>r. count_of (sn_counts r) s) (snapshot now d))"
    by (simp add: totals_count overview_queues_def assms comp_def)
  also have "\<dots> = sum_list (map (\<lambda>r. length (filter (\<lambda>j. j_queue j = sn_queue r \<and> j_state j = s) (db_jobs d))) (snapshot now d))"
    by (intro arg_cong [where f = sum_list] map_cong refl snapshot_counts)
  also have "\<dots> = sum_list (map (\<lambda>q. length (filter (\<lambda>j. j_queue j = q \<and> j_state j = s) (db_jobs d))) ?qs)"
    by (simp add: snapshot_def comp_def)
  also have "\<dots> = length (filter (\<lambda>j. j_state j = s) (db_jobs d))"
    by (rule sum_by_queue) (auto simp: queueStats_def image_image)
  finally show ?thesis .
qed

text \<open>
  A dashboard that subscribed to a sound stream, and whose last event is the snapshot of a
  database, shows the numbers of that database, however the stream was cut into chunks.
\<close>

lemma overview_follows:
  assumes "stream_inv s" and "subscribe s = (200, s1)"
    and "u \<in> set (ev_subscribers (fold stream_step es s1))" "su_id u = ev_nextId s"
    and "published es = map event_frame (evs @ [Snapshot_event t (snapshot now d)])"
    and "concat chunks = concat (su_frames u)"
  shows "count_of (totals (overview_queues (watch data (connect [Streamed chunks]) v) data)) st
    = length (filter (\<lambda>j. j_state j = st) (db_jobs d))"
proof -
  have "connect [Streamed chunks] = Status True # map (Shown \<circ> event_json)
      (filter is_snapshot evs @ [Snapshot_event t (snapshot now d)]) @ [Status False]"
    using snapshots_seen [OF assms] by (simp add: is_snapshot_def)
  from watch_last [OF this] show ?thesis
    by (intro overview_totals [where t = t and now = now]) simp
qed

end
