(* ===== verification/OpenApi.thy ===== *)
theory OpenApi
  imports App
begin

text \<open>
  packages/server/src/openapi.ts: the operations the OpenAPI document lists, with what they take
  and the statuses of their responses, beside the table of the routes that
  packages/server/src/routes.ts registers. Both write a path as a template and name a schema by the
  module's own name for it; descriptions and the schemas of the answers are left out.
\<close>

subsection \<open>Templates\<close>

fun split_slash :: "string \<Rightarrow> string list" where
  "split_slash [] = [[]]"
| "split_slash (c # s) =
     (if c = CHR ''/'' then [] # split_slash s
      else case split_slash s of [] \<Rightarrow> [[c]] | f # fs \<Rightarrow> (c # f) # fs)"

datatype part = Literal string | Param string

text \<open>\<open>:id\<close> in a route, \<open>{id}\<close> in the document.\<close>

definition express_part :: "string \<Rightarrow> part" where
  "express_part s = (case s of [] \<Rightarrow> Literal [] | c # n \<Rightarrow> if c = CHR '':'' then Param n else Literal s)"

definition openapi_part :: "string \<Rightarrow> part" where
  "openapi_part s =
     (case s of [] \<Rightarrow> Literal [] | c # n \<Rightarrow> if c = CHR ''{'' then Param (butlast n) else Literal s)"

definition template :: "(string \<Rightarrow> part) \<Rightarrow> string \<Rightarrow> part list" where
  "template f path = map f (tl (split_slash path))"

text \<open>A template filled with arguments.\<close>

definition fill :: "(string \<Rightarrow> string) \<Rightarrow> part \<Rightarrow> string" where
  "fill a p = (case p of Literal t \<Rightarrow> t | Param x \<Rightarrow> a x)"

definition expand :: "part list \<Rightarrow> (string \<Rightarrow> string) \<Rightarrow> string" where
  "expand ps a = concat (map (\<lambda>p. CHR ''/'' # fill a p) ps)"

subsection \<open>The routes\<close>

text \<open>
  Method, path, scope asked for with the place of the queue it is asked for, and the schemas the
  request is validated against.
\<close>

datatype queue_place = In_params | In_query | In_body

datatype input = Path_queue | Path_id | Query_jobs | Query_dlq | Body_enqueue | Body_batch | Body_purge
  | Body_replay | Body_schedule

definition REGISTERED :: "(string \<times> string \<times> scope \<times> queue_place option \<times> input list) list" where
  "REGISTERED =
     [(''POST'', ''/queues/:queue/jobs'', Scope_enqueue, Some In_params, [Path_queue, Body_enqueue]),
      (''POST'', ''/queues/:queue/jobs/batch'', Scope_enqueue, Some In_params, [Path_queue, Body_batch]),
      (''GET'', ''/jobs/:id'', Scope_read, None, [Path_id]),
      (''GET'', ''/queues/:queue/jobs'', Scope_read, Some In_params, [Path_queue, Query_jobs]),
      (''GET'', ''/queues'', Scope_read, None, []),
      (''GET'', ''/queues/:queue/config'', Scope_read, Some In_params, [Path_queue]),
      (''POST'', ''/jobs/:id/cancel'', Scope_admin, None, [Path_id]),
      (''POST'', ''/jobs/:id/retry'', Scope_admin, None, [Path_id]),
      (''POST'', ''/jobs/:id/replay'', Scope_admin, None, [Path_id]),
      (''POST'', ''/queues/:queue/pause'', Scope_admin, Some In_params, [Path_queue]),
      (''POST'', ''/queues/:queue/resume'', Scope_admin, Some In_params, [Path_queue]),
      (''POST'', ''/queues/:queue/purge'', Scope_admin, Some In_params, [Path_queue, Body_purge]),
      (''GET'', ''/dlq'', Scope_read, Some In_query, [Query_dlq]),
      (''POST'', ''/dlq/replay'', Scope_admin, None, [Body_replay]),
      (''GET'', ''/schedules'', Scope_read, None, []),
      (''POST'', ''/schedules'', Scope_admin, Some In_body, [Body_schedule]),
      (''GET'', ''/schedules/:id'', Scope_read, None, [Path_id]),
      (''POST'', ''/schedules/:id/pause'', Scope_admin, None, [Path_id]),
      (''POST'', ''/schedules/:id/resume'', Scope_admin, None, [Path_id]),
      (''DELETE'', ''/schedules/:id'', Scope_admin, None, [Path_id]),
      (''GET'', ''/events'', Scope_read, None, [])]"

definition ROUTES :: "(string \<times> string) list" where
  "ROUTES = map (\<lambda>(m, r, _). (m, r)) REGISTERED"

definition route_parts :: "string \<Rightarrow> part list" where
  "route_parts = template express_part"

subsection \<open>The document\<close>

definition COMMON_ERRORS :: "nat list" where
  "COMMON_ERRORS = [400, 401, 403, 429]"

record documented =
  dc_path :: string
  dc_method :: string
  dc_tag :: string
  dc_inputs :: "input list"
  dc_statuses :: "nat list"

definition doc :: "string \<Rightarrow> string \<Rightarrow> string \<Rightarrow> input list \<Rightarrow> nat list \<Rightarrow> documented" where
  "doc path method tag inputs statuses =
     \<lparr>dc_path = path, dc_method = method, dc_tag = tag, dc_inputs = inputs,
       dc_statuses = statuses @ COMMON_ERRORS\<rparr>"

definition TAGS :: "string list" where
  "TAGS = [''Jobs'', ''Queues'', ''DLQ'', ''Schedules'', ''Stream'']"

definition buildOpenApiDocument :: "documented list" where
  "buildOpenApiDocument =
     [doc ''/queues/{queue}/jobs'' ''POST'' ''Jobs'' [Path_queue, Body_enqueue] [201, 200, 409, 413],
      doc ''/queues/{queue}/jobs'' ''GET'' ''Jobs'' [Path_queue, Query_jobs] [200],
      doc ''/queues/{queue}/jobs/batch'' ''POST'' ''Jobs'' [Path_queue, Body_batch] [201],
      doc ''/jobs/{id}'' ''GET'' ''Jobs'' [Path_id] [200, 404],
      doc ''/jobs/{id}/cancel'' ''POST'' ''Jobs'' [Path_id] [200, 202, 409],
      doc ''/jobs/{id}/retry'' ''POST'' ''Jobs'' [Path_id] [200, 409],
      doc ''/jobs/{id}/replay'' ''POST'' ''DLQ'' [Path_id] [200, 409],
      doc ''/queues'' ''GET'' ''Queues'' [] [200],
      doc ''/queues/{queue}/pause'' ''POST'' ''Queues'' [Path_queue] [200],
      doc ''/queues/{queue}/resume'' ''POST'' ''Queues'' [Path_queue] [200],
      doc ''/queues/{queue}/purge'' ''POST'' ''Queues'' [Path_queue, Body_purge] [200],
      doc ''/dlq'' ''GET'' ''DLQ'' [Query_dlq] [200],
      doc ''/dlq/replay'' ''POST'' ''DLQ'' [Body_replay] [200],
      doc ''/schedules'' ''GET'' ''Schedules'' [] [200],
      doc ''/schedules'' ''POST'' ''Schedules'' [Body_schedule] [201],
      doc ''/schedules/{id}'' ''GET'' ''Schedules'' [Path_id] [200, 404],
      doc ''/schedules/{id}'' ''DELETE'' ''Schedules'' [Path_id] [204, 404],
      doc ''/schedules/{id}/pause'' ''POST'' ''Schedules'' [Path_id] [200],
      doc ''/schedules/{id}/resume'' ''POST'' ''Schedules'' [Path_id] [200],
      doc ''/events'' ''GET'' ''Stream'' [] [200, 503]]"

definition statuses_of :: "string \<Rightarrow> string \<Rightarrow> nat list" where
  "statuses_of method path =
     (case find (\<lambda>o'. dc_method o' = method \<and> template openapi_part (dc_path o') = route_parts path)
             buildOpenApiDocument of
        None \<Rightarrow> [] | Some o' \<Rightarrow> dc_statuses o')"

subsection \<open>A path has one route\<close>

lemma split_slash_nonempty [simp]: "split_slash s \<noteq> []"
  by (induction s) (auto split: list.splits)

definition slash_free :: "string \<Rightarrow> bool" where
  "slash_free s \<longleftrightarrow> CHR ''/'' \<notin> set s"

lemma split_slash_free: "slash_free s \<Longrightarrow> split_slash (s @ t) = (s @ hd (split_slash t)) # tl (split_slash t)"
  by (induction s) (auto simp: slash_free_def neq_Nil_conv split: list.splits)

lemma split_expand:
  "\<forall>p \<in> set ps. slash_free (fill a p) \<Longrightarrow> split_slash (expand ps a) = [] # map (fill a) ps"
proof (induction ps)
  case (Cons p ps)
  have e: "expand (p # ps) a = CHR ''/'' # fill a p @ expand ps a" by (simp add: expand_def)
  have "split_slash (fill a p @ expand ps a) = fill a p # map (fill a) ps"
    using Cons split_slash_free [of "fill a p" "expand ps a"] by simp
  with e show ?case by simp
qed (simp add: expand_def)

text \<open>Two templates that no path fits both.\<close>

fun apart :: "part list \<Rightarrow> part list \<Rightarrow> bool" where
  "apart [] [] = False"
| "apart (Literal s # ps) (Literal t # qs) = (s \<noteq> t \<or> apart ps qs)"
| "apart (_ # ps) (_ # qs) = apart ps qs"
| "apart _ _ = True"

lemma apart_segments: "apart ps qs \<Longrightarrow> map (fill a) ps \<noteq> map (fill b) qs"
  by (induction ps qs rule: apart.induct) (auto simp: fill_def)

definition literals_ok :: "part list \<Rightarrow> bool" where
  "literals_ok ps = list_all (\<lambda>p. case p of Literal t \<Rightarrow> slash_free t | Param _ \<Rightarrow> True) ps"

definition params :: "part list \<Rightarrow> string set" where
  "params ps = {x. Param x \<in> set ps}"

lemma fill_free:
  "literals_ok ps \<Longrightarrow> \<forall>x \<in> params ps. slash_free (a x) \<Longrightarrow> \<forall>p \<in> set ps. slash_free (fill a p)"
  by (auto simp: literals_ok_def params_def list_all_iff fill_def split: part.splits)

lemma expand_unique:
  assumes "literals_ok ps" and "literals_ok qs"
    and "\<forall>x \<in> params ps. slash_free (a x)" and "\<forall>x \<in> params qs. slash_free (b x)"
    and "expand ps a = expand qs b"
  shows "map (fill a) ps = map (fill b) qs"
  using split_expand [of ps a] split_expand [of qs b] fill_free [of ps a] fill_free [of qs b] assms by simp

text \<open>The routes of one method are pairwise apart.\<close>

fun unambiguous :: "(string \<times> part list) list \<Rightarrow> bool" where
  "unambiguous [] = True"
| "unambiguous (r # rs) =
     (list_all (\<lambda>r'. fst r = fst r' \<longrightarrow> apart (snd r) (snd r')) rs \<and> unambiguous rs)"

lemma apart_sym: "apart ps qs \<Longrightarrow> apart qs ps"
  by (induction ps qs rule: apart.induct) auto

lemma unambiguousD:
  "unambiguous rs \<Longrightarrow> r \<in> set rs \<Longrightarrow> r' \<in> set rs \<Longrightarrow> fst r = fst r' \<Longrightarrow> r = r' \<or> apart (snd r) (snd r')"
  by (induction rs) (auto simp: list_all_iff dest: apart_sym)

lemma routes_parts:
  "map (\<lambda>(m, r). (m, route_parts r)) ROUTES =
     [(''POST'', [Literal ''queues'', Param ''queue'', Literal ''jobs'']),
      (''POST'', [Literal ''queues'', Param ''queue'', Literal ''jobs'', Literal ''batch'']),
      (''GET'', [Literal ''jobs'', Param ''id'']),
      (''GET'', [Literal ''queues'', Param ''queue'', Literal ''jobs'']),
      (''GET'', [Literal ''queues'']),
      (''GET'', [Literal ''queues'', Param ''queue'', Literal ''config'']),
      (''POST'', [Literal ''jobs'', Param ''id'', Literal ''cancel'']),
      (''POST'', [Literal ''jobs'', Param ''id'', Literal ''retry'']),
      (''POST'', [Literal ''jobs'', Param ''id'', Literal ''replay'']),
      (''POST'', [Literal ''queues'', Param ''queue'', Literal ''pause'']),
      (''POST'', [Literal ''queues'', Param ''queue'', Literal ''resume'']),
      (''POST'', [Literal ''queues'', Param ''queue'', Literal ''purge'']),
      (''GET'', [Literal ''dlq'']),
      (''POST'', [Literal ''dlq'', Literal ''replay'']),
      (''GET'', [Literal ''schedules'']),
      (''POST'', [Literal ''schedules'']),
      (''GET'', [Literal ''schedules'', Param ''id'']),
      (''POST'', [Literal ''schedules'', Param ''id'', Literal ''pause'']),
      (''POST'', [Literal ''schedules'', Param ''id'', Literal ''resume'']),
      (''DELETE'', [Literal ''schedules'', Param ''id'']),
      (''GET'', [Literal ''events''])]"
  by (simp add: ROUTES_def REGISTERED_def route_parts_def template_def express_part_def)

lemma routes_unambiguous: "unambiguous (map (\<lambda>(m, r). (m, route_parts r)) ROUTES)"
  by (simp add: routes_parts)

lemma routes_literals: "list_all (\<lambda>(m, ps). literals_ok ps) (map (\<lambda>(m, r). (m, route_parts r)) ROUTES)"
  by (simp add: routes_parts literals_ok_def slash_free_def)

text \<open>A path that fits two routes of a method fits one, with the same arguments.\<close>

lemma route_unique:
  assumes "(m, ps) \<in> set (map (\<lambda>(m, r). (m, route_parts r)) ROUTES)"
    and "(m, qs) \<in> set (map (\<lambda>(m, r). (m, route_parts r)) ROUTES)"
    and "\<forall>x \<in> params ps. slash_free (a x)" and "\<forall>x \<in> params qs. slash_free (b x)"
    and "expand ps a = expand qs b"
  shows "ps = qs \<and> (\<forall>x \<in> params ps. a x = b x)"
proof -
  have lit: "literals_ok ps" "literals_ok qs" using assms(1,2) routes_literals unfolding list_all_iff by blast+
  from expand_unique [OF lit assms(3-5)] have seg: "map (fill a) ps = map (fill b) qs" .
  with unambiguousD [OF routes_unambiguous assms(1,2)] apart_segments have "ps = qs" by fastforce
  moreover from this seg have "\<forall>x \<in> params ps. a x = b x" by (auto simp: params_def fill_def)
  ultimately show ?thesis ..
qed

text \<open>The document lists every route but one, and nothing else.\<close>

definition documented_parts :: "(string \<times> part list) list" where
  "documented_parts = map (\<lambda>e. (dc_method e, template openapi_part (dc_path e))) buildOpenApiDocument"

lemma documented_parts_eq:
  "documented_parts =
     [(''POST'', [Literal ''queues'', Param ''queue'', Literal ''jobs'']),
      (''GET'', [Literal ''queues'', Param ''queue'', Literal ''jobs'']),
      (''POST'', [Literal ''queues'', Param ''queue'', Literal ''jobs'', Literal ''batch'']),
      (''GET'', [Literal ''jobs'', Param ''id'']),
      (''POST'', [Literal ''jobs'', Param ''id'', Literal ''cancel'']),
      (''POST'', [Literal ''jobs'', Param ''id'', Literal ''retry'']),
      (''POST'', [Literal ''jobs'', Param ''id'', Literal ''replay'']),
      (''GET'', [Literal ''queues'']),
      (''POST'', [Literal ''queues'', Param ''queue'', Literal ''pause'']),
      (''POST'', [Literal ''queues'', Param ''queue'', Literal ''resume'']),
      (''POST'', [Literal ''queues'', Param ''queue'', Literal ''purge'']),
      (''GET'', [Literal ''dlq'']),
      (''POST'', [Literal ''dlq'', Literal ''replay'']),
      (''GET'', [Literal ''schedules'']),
      (''POST'', [Literal ''schedules'']),
      (''GET'', [Literal ''schedules'', Param ''id'']),
      (''DELETE'', [Literal ''schedules'', Param ''id'']),
      (''POST'', [Literal ''schedules'', Param ''id'', Literal ''pause'']),
      (''POST'', [Literal ''schedules'', Param ''id'', Literal ''resume'']),
      (''GET'', [Literal ''events''])]"
  by (simp add: documented_parts_def buildOpenApiDocument_def doc_def template_def openapi_part_def)

lemma document_covers:
  "set (map (\<lambda>(m, r). (m, route_parts r)) ROUTES)
     = insert (''GET'', [Literal ''queues'', Param ''queue'', Literal ''config'']) (set documented_parts)
   \<and> (''GET'', [Literal ''queues'', Param ''queue'', Literal ''config'']) \<notin> set documented_parts"
  unfolding routes_parts documented_parts_eq by (simp add: insert_commute)

text \<open>
  What a documented operation takes is what its route validates, and its tag is one of the
  document's.
\<close>

lemma document_inputs:
  "list_all (\<lambda>e. dc_tag e \<in> set TAGS \<and>
     list_ex (\<lambda>(m, r, _, _, i). m = dc_method e \<and> route_parts r = template openapi_part (dc_path e)
       \<and> i = dc_inputs e) REGISTERED) buildOpenApiDocument"
  by (simp add: buildOpenApiDocument_def doc_def REGISTERED_def TAGS_def route_parts_def template_def
    openapi_part_def express_part_def)

end
