(* ===== verification/Dashboard_Calls.thy ===== *)
theory Dashboard_Calls
  imports Dashboard_Api OpenApi
begin

text \<open>
  Where the calls of the dashboard (packages/dashboard/src/api.ts) arrive: each fits exactly one
  route of the server (packages/server/src/routes.ts), with the arguments it was made with.
  \<open>decodeURIComponent\<close> and the reading of a query string are the platform's.
\<close>

subsection \<open>Encoding and decoding\<close>

definition hex_pair :: "char \<Rightarrow> char \<Rightarrow> char option" where
  "hex_pair a b =
     (case (hex_value a, hex_value b) of (Some x, Some y) \<Rightarrow> Some (char_of (16 * x + y)) | _ \<Rightarrow> None)"

text \<open>A percent sign without two hexadecimal digits is an error.\<close>

fun percent_decode :: "string \<Rightarrow> string option" where
  "percent_decode [] = Some []"
| "percent_decode (c # s) =
     (if c = CHR ''%'' then
        (case s of
           a # b # r \<Rightarrow>
             (case hex_pair a b of
                None \<Rightarrow> None | Some d \<Rightarrow> map_option (\<lambda>t. d # t) (percent_decode r))
         | _ \<Rightarrow> None)
      else map_option (\<lambda>t. c # t) (percent_decode s))"

lemma hex_value_upper: "n < 16 \<Longrightarrow> hex_value (upper_hex n) = Some n"
  by (auto simp: hex_value_def upper_hex_def digit_char_def byte_char_of Let_def)

lemma hex_pair_upper: "hex_pair (upper_hex (byte c div 16)) (upper_hex (byte c mod 16)) = Some c"
proof -
  have "byte c div 16 < 16" "byte c mod 16 < 16" using byte_less [of c] by auto
  then show ?thesis by (simp add: hex_pair_def hex_value_upper char_of_byte)
qed

lemma percent_read: "percent_decode (percent c @ s) = map_option (\<lambda>t. c # t) (percent_decode s)"
  by (simp add: percent_def hex_pair_upper)

lemma encode_decode: "percent_decode (encodeURIComponent s) = Some s"
proof (induction s)
  case (Cons c s)
  have "c \<noteq> CHR ''%''" if "is_alnum c \<or> byte c \<in> {45, 95, 46, 33, 126, 42, 39, 40, 41}"
    using that by (auto simp: is_alnum_def digit_byte byte_def)
  with Cons percent_read [of c "encodeURIComponent s"] show ?case
    by (auto simp: encodeURIComponent_def uri_char_def)
qed (simp add: encodeURIComponent_def)

lemma upper_hex_byte: "n < 16 \<Longrightarrow> byte (upper_hex n) \<in> {48..57} \<union> {65..70}"
  by (auto simp: upper_hex_def digit_char_def byte_char_of)

lemma percent_bytes: "d \<in> set (percent c) \<Longrightarrow> byte d \<in> {37} \<union> {48..57} \<union> {65..70}"
proof -
  have l: "byte c div 16 < 16" "byte c mod 16 < 16" using byte_less [of c] by auto
  assume "d \<in> set (percent c)"
  then show ?thesis using upper_hex_byte [OF l(1)] upper_hex_byte [OF l(2)] by (auto simp: percent_def byte_def)
qed

lemma percent_alnum: "d \<in> set (percent c) \<Longrightarrow> is_alnum d \<or> byte d = 37"
  using percent_bytes [of d c] by (auto simp: is_alnum_def digit_byte)

lemma encoded_bytes:
  assumes "d \<in> set (encodeURIComponent s)"
  shows "is_alnum d \<or> byte d \<in> {37, 45, 95, 46, 33, 126, 42, 39, 40, 41}"
proof -
  from assms obtain c where "d \<in> set (uri_char c)" by (auto simp: encodeURIComponent_def)
  then show ?thesis using percent_alnum [of d c] by (auto simp: uri_char_def split: if_splits)
qed

lemma encoded_slash_free: "slash_free (encodeURIComponent s)"
  using encoded_bytes [of "CHR ''/''" s] by (auto simp: slash_free_def is_alnum_def digit_byte byte_def)

subsection \<open>Query strings\<close>

text \<open>A plus sign is a space.\<close>

definition form_decode :: "string \<Rightarrow> string option" where
  "form_decode s = percent_decode (map (\<lambda>c. if c = CHR ''+'' then CHR '' '' else c) s)"

fun split_ampersand :: "string \<Rightarrow> string list" where
  "split_ampersand [] = [[]]"
| "split_ampersand (c # s) =
     (if c = CHR ''&'' then [] # split_ampersand s
      else case split_ampersand s of [] \<Rightarrow> [[c]] | f # fs \<Rightarrow> (c # f) # fs)"

definition read_pair :: "string \<Rightarrow> (string \<times> string) option" where
  "read_pair s =
     (case (form_decode (takeWhile (\<lambda>c. c \<noteq> CHR ''='') s), form_decode (tl (dropWhile (\<lambda>c. c \<noteq> CHR ''='') s))) of
        (Some k, Some v) \<Rightarrow> Some (k, v)
      | _ \<Rightarrow> None)"

definition read_search :: "string \<Rightarrow> (string \<times> string) option list" where
  "read_search s = map read_pair (filter (\<lambda>p. p \<noteq> []) (split_ampersand s))"

lemma form_bytes:
  assumes "d \<in> set (form_encode s)"
  shows "is_alnum d \<or> byte d \<in> {37, 42, 43, 45, 46, 95}"
proof -
  from assms obtain c where "d \<in> set (form_char c)" by (auto simp: form_encode_def)
  then show ?thesis using percent_alnum [of d c] by (auto simp: form_char_def byte_def split: if_splits)
qed

lemma form_round_trip: "form_decode (form_encode s) = Some s"
proof (induction s)
  case Nil
  show ?case by (simp add: form_encode_def form_decode_def)
next
  case (Cons c s)
  have enc: "form_encode (c # s) = form_char c @ form_encode s" by (simp add: form_encode_def)
  let ?m = "map (\<lambda>c. if c = CHR ''+'' then CHR '' '' else c)"
  have dec: "form_decode (t @ form_encode s) = percent_decode (?m t @ ?m (form_encode s))" for t
    by (simp add: form_decode_def)
  have IH: "percent_decode (?m (form_encode s)) = Some s" using Cons by (simp add: form_decode_def)
  consider (kept) "is_alnum c \<or> byte c \<in> {42, 45, 46, 95}"
    | (space) "\<not> (is_alnum c \<or> byte c \<in> {42, 45, 46, 95})" "byte c = 32"
    | (coded) "\<not> (is_alnum c \<or> byte c \<in> {42, 45, 46, 95})" "byte c \<noteq> 32" by blast
  then show ?case
  proof cases
    case kept
    then have "c \<noteq> CHR ''%''" "c \<noteq> CHR ''+''" by (auto simp: is_alnum_def digit_byte byte_def)
    with kept IH show ?thesis unfolding enc dec by (simp add: form_char_def)
  next
    case space
    then have "c = CHR '' ''" using char_of_byte [of c] char_of_byte [of "CHR '' ''"] by (simp add: byte_def)
    with space IH show ?thesis unfolding enc dec by (simp add: form_char_def)
  next
    case coded
    have "?m (percent c) = percent c"
    proof (rule map_idI)
      fix d
      assume "d \<in> set (percent c)"
      then show "(if d = CHR ''+'' then CHR '' '' else d) = d" using percent_bytes [of d c] by (auto simp: byte_def)
    qed
    with coded IH percent_read show ?thesis unfolding enc dec by (simp add: form_char_def)
  qed
qed

lemma split_ampersand_nonempty [simp]: "split_ampersand s \<noteq> []"
  by (induction s) (auto split: list.splits)

lemma split_ampersand_pair:
  "CHR ''&'' \<notin> set p \<Longrightarrow> split_ampersand (p @ CHR ''&'' # s) = p # split_ampersand s"
  by (induction p) auto

lemma split_ampersand_one: "CHR ''&'' \<notin> set p \<Longrightarrow> split_ampersand p = [p]"
  by (induction p) auto

lemma ampersands_split:
  "ps \<noteq> [] \<Longrightarrow> \<forall>p \<in> set ps. CHR ''&'' \<notin> set p \<Longrightarrow> split_ampersand (ampersands ps) = ps"
  by (induction ps rule: ampersands.induct) (auto simp: split_ampersand_one split_ampersand_pair)

lemma form_no_mark:
  "CHR ''&'' \<notin> set (form_encode s)" "CHR ''='' \<notin> set (form_encode s)"
  using form_bytes [of _ s] by (fastforce simp: is_alnum_def digit_byte byte_def)+

lemma read_pair_written: "read_pair (form_encode k @ ''='' @ form_encode v) = Some (k, v)"
proof -
  have "takeWhile (\<lambda>c. c \<noteq> CHR ''='') (form_encode k @ ''='' @ form_encode v) = form_encode k"
    "dropWhile (\<lambda>c. c \<noteq> CHR ''='') (form_encode k @ ''='' @ form_encode v) = ''='' @ form_encode v"
    using form_no_mark(2) [of k] by (auto simp: takeWhile_append dropWhile_append)
  then show ?thesis by (simp add: read_pair_def form_round_trip)
qed

text \<open>A query string is read as the parameters that were given and not empty.\<close>

definition given :: "(string \<times> string option) list \<Rightarrow> (string \<times> string) list" where
  "given ps = List.map_filter (\<lambda>(k, v). case v of Some s \<Rightarrow> if s = [] then None else Some (k, s) | None \<Rightarrow> None) ps"

lemma search_given:
  "search ps = ampersands (map (\<lambda>(k, v). form_encode k @ ''='' @ form_encode v) (given ps))"
proof -
  have "map (\<lambda>(k, v). form_encode k @ ''='' @ form_encode (coalesce v [])) (filter (\<lambda>(k, v). v \<noteq> None \<and> v \<noteq> Some []) ps)
      = map (\<lambda>(k, v). form_encode k @ ''='' @ form_encode v) (given ps)"
    by (induction ps) (auto simp: given_def List.map_filter_def split: option.splits)
  then show ?thesis by (simp add: search_def)
qed

lemma search_round_trip: "read_search (search ps) = map Some (given ps)"
proof (cases "given ps = []")
  case True
  then show ?thesis by (simp add: search_given read_search_def)
next
  case False
  let ?ps = "map (\<lambda>(k, v). form_encode k @ ''='' @ form_encode v) (given ps)"
  have "split_ampersand (ampersands ?ps) = ?ps"
    using False form_no_mark(1) by (intro ampersands_split) auto
  moreover have "filter (\<lambda>p. p \<noteq> []) ?ps = ?ps" by (auto simp: filter_id_conv)
  ultimately show ?thesis
    by (simp add: search_given read_search_def read_pair_written [simplified] comp_def case_prod_beta)
qed

subsection \<open>Where a call goes\<close>

text \<open>The URL parser of the browser resolves the segments \<open>.\<close> and \<open>..\<close> of a path.\<close>

fun resolve_dots :: "string list \<Rightarrow> string list \<Rightarrow> string list" where
  "resolve_dots acc [] = rev acc"
| "resolve_dots acc (s # ss) =
     (if s = ''.'' then resolve_dots (if ss = [] then [] # acc else acc) ss
      else if s = ''..'' then resolve_dots (if ss = [] then [] # tl acc else tl acc) ss
      else resolve_dots (s # acc) ss)"

definition join_slash :: "string list \<Rightarrow> string" where
  "join_slash ss = concat (map (\<lambda>s. CHR ''/'' # s) ss)"

definition sent_path :: "api_call \<Rightarrow> string" where
  "sent_path c = join_slash (resolve_dots [] (tl (split_slash (api_path c))))"

text \<open>The route a call is meant for, with its arguments.\<close>

definition target :: "api_call \<Rightarrow> string \<times> string \<times> (string \<times> string) list" where
  "target c =
     (case c of
        Queues \<Rightarrow> (''GET'', ''/queues'', [])
      | Jobs q ps \<Rightarrow> (''GET'', ''/queues/:queue/jobs'', [(''queue'', q)])
      | Job_by_id i \<Rightarrow> (''GET'', ''/jobs/:id'', [(''id'', i)])
      | Dlq ps \<Rightarrow> (''GET'', ''/dlq'', [])
      | Cancel i \<Rightarrow> (''POST'', ''/jobs/:id/cancel'', [(''id'', i)])
      | Retry i \<Rightarrow> (''POST'', ''/jobs/:id/retry'', [(''id'', i)])
      | Replay i \<Rightarrow> (''POST'', ''/jobs/:id/replay'', [(''id'', i)])
      | ReplayMany ids \<Rightarrow> (''POST'', ''/dlq/replay'', [])
      | Pause q \<Rightarrow> (''POST'', ''/queues/:queue/pause'', [(''queue'', q)])
      | Resume q \<Rightarrow> (''POST'', ''/queues/:queue/resume'', [(''queue'', q)])
      | Schedules \<Rightarrow> (''GET'', ''/schedules'', [])
      | PauseSchedule i \<Rightarrow> (''POST'', ''/schedules/:id/pause'', [(''id'', i)])
      | ResumeSchedule i \<Rightarrow> (''POST'', ''/schedules/:id/resume'', [(''id'', i)]))"

definition usable :: "string \<Rightarrow> bool" where
  "usable s \<longleftrightarrow> s \<notin> {[], ''.'', ''..''}"

definition usable_call :: "api_call \<Rightarrow> bool" where
  "usable_call c \<longleftrightarrow> list_all (\<lambda>(k, v). usable v) (snd (snd (target c)))"

definition encoded :: "(string \<times> string) list \<Rightarrow> string \<Rightarrow> string" where
  "encoded ps x = encodeURIComponent (coalesce (map_of ps x) [])"

lemma resolve_plain: "\<forall>s \<in> set ss. s \<noteq> ''.'' \<and> s \<noteq> ''..'' \<Longrightarrow> resolve_dots acc ss = rev acc @ ss"
  by (induction ss arbitrary: acc) auto

lemma encode_inj: "encodeURIComponent s = encodeURIComponent t \<Longrightarrow> s = t"
  by (metis encode_decode option.inject)

lemma encode_dots:
  "encodeURIComponent [] = []" "encodeURIComponent ''.'' = ''.''" "encodeURIComponent ''..'' = ''..''"
  by (simp_all add: encodeURIComponent_def uri_char_def byte_def)

lemma encoded_usable: "usable (encodeURIComponent s) \<longleftrightarrow> usable s"
proof -
  have "encodeURIComponent s = encodeURIComponent t \<longleftrightarrow> s = t" for t using encode_inj by blast
  from this [of "[]"] this [of "''.''"] this [of "''..''"] show ?thesis
    unfolding encode_dots usable_def by simp
qed

lemma route_parts_target:
  "route_parts ''/queues'' = [Literal ''queues'']"
  "route_parts ''/queues/:queue/jobs'' = [Literal ''queues'', Param ''queue'', Literal ''jobs'']"
  "route_parts ''/jobs/:id'' = [Literal ''jobs'', Param ''id'']"
  "route_parts ''/dlq'' = [Literal ''dlq'']"
  "route_parts ''/jobs/:id/cancel'' = [Literal ''jobs'', Param ''id'', Literal ''cancel'']"
  "route_parts ''/jobs/:id/retry'' = [Literal ''jobs'', Param ''id'', Literal ''retry'']"
  "route_parts ''/jobs/:id/replay'' = [Literal ''jobs'', Param ''id'', Literal ''replay'']"
  "route_parts ''/dlq/replay'' = [Literal ''dlq'', Literal ''replay'']"
  "route_parts ''/queues/:queue/pause'' = [Literal ''queues'', Param ''queue'', Literal ''pause'']"
  "route_parts ''/queues/:queue/resume'' = [Literal ''queues'', Param ''queue'', Literal ''resume'']"
  "route_parts ''/schedules'' = [Literal ''schedules'']"
  "route_parts ''/schedules/:id/pause'' = [Literal ''schedules'', Param ''id'', Literal ''pause'']"
  "route_parts ''/schedules/:id/resume'' = [Literal ''schedules'', Param ''id'', Literal ''resume'']"
  by (simp_all add: route_parts_def template_def express_part_def)

lemma target_route: "target c = (m, r, ps) \<Longrightarrow> (m, r) \<in> set ROUTES"
  by (cases c) (simp_all add: target_def ROUTES_def REGISTERED_def)

lemma target_method: "target c = (m, r, ps) \<Longrightarrow> fst (api_init c) = m"
  by (cases c) (simp_all add: target_def api_init_def)

lemma target_params: "target c = (m, r, ps) \<Longrightarrow> params (route_parts r) = fst ` set ps"
  by (cases c) (auto simp: target_def route_parts_target params_def)

lemma target_path:
  "target c = (m, r, ps) \<Longrightarrow> api_path c = ''/v1'' @ expand (route_parts r) (encoded ps)"
  by (cases c) (auto simp: target_def route_parts_target api_path_def expand_def fill_def encoded_def)

lemma target_distinct: "target c = (m, r, ps) \<Longrightarrow> distinct (map fst ps)"
  by (cases c) (auto simp: target_def)

lemma join_expand: "join_slash (map (fill a) ps) = expand ps a"
  by (simp add: join_slash_def expand_def comp_def)

lemma usable_fill:
  assumes "literals_ok ps" and "\<forall>p \<in> set ps. \<forall>s. p = Literal s \<longrightarrow> usable s" and "\<forall>x \<in> params ps. usable (a x)"
  shows "\<forall>s \<in> set (map (fill a) ps). usable s"
  using assms by (auto simp: params_def fill_def split: part.splits)

lemma routes_usable:
  "(m, r) \<in> set ROUTES \<Longrightarrow> \<forall>p \<in> set (route_parts r). \<forall>s. p = Literal s \<longrightarrow> usable s"
proof -
  have "list_all (\<lambda>(m, ps). list_all (\<lambda>p. case p of Literal s \<Rightarrow> usable s | Param _ \<Rightarrow> True) ps)
      (map (\<lambda>(m, r). (m, route_parts r)) ROUTES)"
    unfolding routes_parts by (simp add: usable_def)
  moreover assume "(m, r) \<in> set ROUTES"
  ultimately show ?thesis by (auto simp: list_all_iff split: part.splits)
qed

lemma route_literals: "(m, r) \<in> set ROUTES \<Longrightarrow> literals_ok (route_parts r)"
  using routes_literals by (auto simp: list_all_iff)

text \<open>What is sent is the filled template.\<close>

lemma sent_path_target:
  assumes c: "target c = (m, r, ps)" and u: "usable_call c"
  shows "sent_path c = ''/v1'' @ expand (route_parts r) (encoded ps)"
proof -
  let ?ps = "route_parts r"
  note R = target_route [OF c]
  have "slash_free (encoded ps x)" for x by (simp add: encoded_def encoded_slash_free)
  then have free: "\<forall>p \<in> set ?ps. slash_free (fill (encoded ps) p)" using fill_free [OF route_literals [OF R]] by blast
  have "usable (encoded ps x)" if x: "x \<in> params ?ps" for x
  proof -
    from x target_params [OF c] obtain v where v: "(x, v) \<in> set ps" by auto
    with target_distinct [OF c] have "map_of ps x = Some v" by simp
    moreover from u v c have "usable v" by (auto simp: usable_call_def list_all_iff)
    ultimately show ?thesis by (simp add: encoded_def encoded_usable)
  qed
  with usable_fill [OF route_literals [OF R] routes_usable [OF R]]
  have us: "\<forall>s \<in> set (map (fill (encoded ps)) ?ps). usable s" by blast
  have "api_path c = expand (Literal ''v1'' # ?ps) (encoded ps)"
    using target_path [OF c] by (simp add: expand_def fill_def)
  moreover have "\<forall>p \<in> set (Literal ''v1'' # ?ps). slash_free (fill (encoded ps) p)"
    using free by (simp add: fill_def slash_free_def)
  ultimately have "tl (split_slash (api_path c)) = map (fill (encoded ps)) (Literal ''v1'' # ?ps)"
    using split_expand by fastforce
  moreover have "\<forall>s \<in> set (map (fill (encoded ps)) (Literal ''v1'' # ?ps)). s \<noteq> ''.'' \<and> s \<noteq> ''..''"
    using us by (auto simp: usable_def fill_def)
  ultimately have "sent_path c = join_slash (map (fill (encoded ps)) (Literal ''v1'' # ?ps))"
    unfolding sent_path_def by (simp only: resolve_plain) simp
  then show ?thesis by (simp only: join_expand) (simp add: expand_def fill_def)
qed

text \<open>It fits no other route of its method, and no other arguments.\<close>

lemma call_arrives:
  assumes c: "target c = (m, r, ps)" and u: "usable_call c"
    and r': "(m, r') \<in> set ROUTES" and a: "\<forall>x \<in> params (route_parts r'). slash_free (a x)"
    and fit: "sent_path c = ''/v1'' @ expand (route_parts r') a"
  shows "route_parts r' = route_parts r \<and> (\<forall>(x, v) \<in> set ps. percent_decode (a x) = Some v)"
proof -
  have "expand (route_parts r) (encoded ps) = expand (route_parts r') a"
    using sent_path_target [OF c u] fit by simp
  moreover have "\<forall>x \<in> params (route_parts r). slash_free (encoded ps x)" by (simp add: encoded_def encoded_slash_free)
  moreover have "(m, route_parts r) \<in> set (map (\<lambda>(m, r). (m, route_parts r)) ROUTES)"
    "(m, route_parts r') \<in> set (map (\<lambda>(m, r). (m, route_parts r)) ROUTES)"
    using target_route [OF c] r' by force+
  ultimately have E: "route_parts r = route_parts r'" "\<forall>x \<in> params (route_parts r). encoded ps x = a x"
    using route_unique a by blast+
  have "percent_decode (a x) = Some v" if v: "(x, v) \<in> set ps" for x v
  proof -
    from v target_params [OF c] have "x \<in> params (route_parts r)" by force
    with E have "a x = encoded ps x" by simp
    moreover from v target_distinct [OF c] have "map_of ps x = Some v" by simp
    ultimately show ?thesis by (simp add: encoded_def encode_decode)
  qed
  with E show ?thesis by auto
qed

text \<open>The body and the key arrive as they were given.\<close>

lemma replay_body: "json_parse (the (snd (api_init (ReplayMany ids)))) = Some (JObj [(''ids'', JArr (map JStr ids))])"
  by (simp add: api_init_def json_round_trip list_all_iff del: stringify.simps)

lemma key_sent:
  "hq_headers (request_of (setApiKey key st) path init) ''authorization''
     = (if key = [] then None else Some (''Bearer '' @ key))"
  by (auto simp: request_of_def setApiKey_def getApiKey_def Let_def)

text \<open>A queue named \<open>..\<close> is valid but out of reach: its calls go to another path.\<close>

lemma dots_out_of_reach: "name_schema ''..'' \<and> sent_path (Pause ''..'') = ''/v1/pause''"
  by (simp add: name_schema_def name_char_def byte_def sent_path_def api_path_def encode_dots join_slash_def)

end
