(* ===== verification/Bench.thy ===== *)
theory Bench
  imports Durability Dashboard_Overview
begin

text \<open>
  bench/harness/index.ts: the throughput harness. Its workers claim batches of one queue with one of
  two lock modes and complete every row at once. A worker is a program counter and a step of it is
  what it does between two awaits; the workers step in any order, at times an event gives. Reading
  the size of the table, the layout of the printed report and the statistics the planner is given
  (ANALYZE) are not modelled. Quotients are exact, where the program has doubles.
\<close>

subsection \<open>Arguments\<close>

record bench_args =
  ba_jobs :: jsnum
  ba_concurrencies :: "jsnum list"
  ba_batch :: jsnum
  ba_lockMode :: string
  ba_payloadBytes :: jsnum

text \<open>\<open>num\<close> is the conversion \<open>Number\<close> of a text.\<close>

definition bench_parse :: "(string \<Rightarrow> jsnum) \<Rightarrow> string list \<Rightarrow> bench_args" where
  "bench_parse num argv =
     (let number = (\<lambda>flag d. case flag_value flag argv of None \<Rightarrow> Fin d | Some v \<Rightarrow> num v)
      in \<lparr>ba_jobs = number ''--jobs'' 100000,
          ba_concurrencies =
            map (num \<circ> trim) (split_commas (coalesce (flag_value ''--concurrency'' argv) ''4,8,16,32'')),
          ba_batch = number ''--batch'' 20,
          ba_lockMode = coalesce (flag_value ''--lock'' argv) ''both'',
          ba_payloadBytes = number ''--payload'' 200\<rparr>)"

definition lock_modes :: "bench_args \<Rightarrow> string list" where
  "lock_modes a =
     (if ba_lockMode a = ''both'' then [''for_update'', ''for_no_key_update''] else [ba_lockMode a])"

subsection \<open>Numbers of the report\<close>

text \<open>The nearest rank, \<open>p\<close> in percent.\<close>

definition percentile :: "rat list \<Rightarrow> nat \<Rightarrow> rat" where
  "percentile values p =
     (if values = [] then 0
      else sort values ! min (length values - 1) (nat (max 0 (\<lceil>of_nat p / 100 * (of_nat (length values) :: rat)\<rceil> - 1))))"

text \<open>\<open>toFixed\<close> of a number that is not negative; the micro sign is two bytes of UTF-8.\<close>

definition toFixed :: "nat \<Rightarrow> rat \<Rightarrow> string" where
  "toFixed f x =
     (let n = js_round (x * 10 ^ f)
      in show_nat (n div 10 ^ f) @ (if f = 0 then [] else ''.'' @ pad_dec f n))"

definition micro :: string where
  "micro = map char_of [194 :: nat, 181]"

definition fmt :: "rat \<Rightarrow> string" where
  "fmt ms = (if ms < 1 then toFixed 0 (ms * 1000) @ micro @ ''s'' else toFixed 2 ms @ ''ms'')"

subsection \<open>Row locks\<close>

text \<open>The conflict table of the row locks of PostgreSQL.\<close>

datatype row_lock = Key_share_lock | Share_lock | No_key_update_lock | Update_lock

definition lock_conflicts :: "row_lock \<Rightarrow> row_lock \<Rightarrow> bool" where
  "lock_conflicts l m =
     (case l of
        Key_share_lock \<Rightarrow> m = Update_lock
      | Share_lock \<Rightarrow> m \<in> {No_key_update_lock, Update_lock}
      | No_key_update_lock \<Rightarrow> m \<noteq> Key_share_lock
      | Update_lock \<Rightarrow> True)"

text \<open>What \<open>SKIP LOCKED\<close> passes over, given the locks other transactions hold.\<close>

definition skipped :: "row_lock \<Rightarrow> (ident \<times> row_lock) list \<Rightarrow> ident set" where
  "skipped l held = fst ` set (filter (\<lambda>h. lock_conflicts l (snd h)) held)"

definition claimJobsNoKeyUpdate :: "instant \<Rightarrow> ident set \<Rightarrow> claim_params \<Rightarrow> claimed_job list stmt" where
  "claimJobsNoKeyUpdate now locked p =
     returning toClaimedJob (\<lambda>d.
       let candidate = pick claim_order (cp_limit p)
             (\<lambda>j. j_queue j = cp_queue p \<and> j_state j = Available \<and> j_run_at j \<le> now
                \<and> \<not> queue_paused d (j_queue j) \<and> j_id j \<notin> locked) (db_jobs d)
       in update_jobs (\<lambda>j. j_id j \<in> set candidate)
            (\<lambda>j. j\<lparr>j_state := Running, j_attempt := j_attempt j + 1, j_worker_id := Some (cp_workerId p),
                  j_started_at := Some now,
                  j_lease_expires_at := Some (now + us_per_second * j_lease_seconds j),
                  j_updated_at := now\<rparr>) d)"

definition lock_of :: "string \<Rightarrow> row_lock" where
  "lock_of mode = (if mode = ''for_update'' then Update_lock else No_key_update_lock)"

definition bench_claim ::
  "string \<Rightarrow> instant \<Rightarrow> (ident \<times> row_lock) list \<Rightarrow> claim_params \<Rightarrow> claimed_job list stmt" where
  "bench_claim mode now held p =
     (if mode = ''for_update'' then claimJobs now (skipped Update_lock held) p
      else claimJobsNoKeyUpdate now (skipped No_key_update_lock held) p)"

subsection \<open>Seeding\<close>

text \<open>One row of the series; the columns it leaves out have the defaults of the table.\<close>

definition bench_row :: "string \<Rightarrow> string \<Rightarrow> nat \<Rightarrow> enqueue_row" where
  "bench_row q filler i = \<lparr>n_queue = q, n_type = ''bench.noop'',
     n_payload = JObj [(''i'', JNum (show_nat i)), (''f'', JStr filler)], n_metadata = None,
     n_priority = int (i mod 3), n_maxAttempts = 5, n_leaseSeconds = 30, n_runAt = None,
     n_idempotencyKey = None, n_uniqueKey = None, n_traceContext = None, n_scheduleId = None\<rparr>"

definition CHUNK :: nat where
  "CHUNK = 5000"

definition seed_chunk :: "instant \<Rightarrow> string \<Rightarrow> string \<Rightarrow> nat \<Rightarrow> job list stmt" where
  "seed_chunk now q filler n = insert_rows now (map (bench_row q filler) [1..<Suc n])"

text \<open>The chunk that starts at \<open>done\<close> is stored at the time \<open>t done\<close>.\<close>

function seed_chunks :: "(nat \<Rightarrow> instant) \<Rightarrow> string \<Rightarrow> nat \<Rightarrow> string \<Rightarrow> nat \<Rightarrow> db \<Rightarrow> (fault + unit) \<times> db" where
  "seed_chunks t q count filler done d =
     (if done < count
      then case query (seed_chunk (t done) q filler (min CHUNK (count - done))) d of
             Inl f \<Rightarrow> (Inl f, d)
           | Inr (_, d1) \<Rightarrow> seed_chunks t q count filler (done + CHUNK) d1
      else (Inr (), d))"
  by pat_completeness auto
termination
  by (relation "measure (\<lambda>(t, q, count, filler, done, d). count - done)") (auto simp: CHUNK_def)

declare seed_chunks.simps [simp del]

definition seed_bench :: "(nat \<Rightarrow> instant) \<Rightarrow> string \<Rightarrow> nat \<Rightarrow> nat \<Rightarrow> db \<Rightarrow> (fault + unit) \<times> db" where
  "seed_bench t q count payloadBytes d =
     seed_chunks t q count (replicate (payloadBytes - 20) CHR ''x'') 0 d"

subsection \<open>The workers\<close>

record bench_run =
  br_queue :: string
  br_concurrency :: nat
  br_batch :: nat
  br_mode :: string

record bench =
  bn_db :: db
  bn_claimDurations :: "rat list"
  bn_waitDurations :: "rat list"
  bn_drained :: nat
  bn_emptyClaims :: nat
  bn_batches :: nat
  bn_batchTotal :: nat
  bn_done :: bool

definition new_bench :: "db \<Rightarrow> bench" where
  "new_bench d = \<lparr>bn_db = d, bn_claimDurations = [], bn_waitDurations = [], bn_drained = 0,
     bn_emptyClaims = 0, bn_batches = 0, bn_batchTotal = 0, bn_done = False\<rparr>"

text \<open>
  At the head of the loop, waiting for the answer of the claim, with its rows, completing the rest
  of a batch of so many rows, returned, or ended by an error.
\<close>

datatype bench_pc =
    At_head
  | Asking
  | Got_rows "claimed_job list"
  | Completing "claimed_job list" nat
  | Worker_done
  | Worker_crashed

text \<open>What a step finds: the clocks of the database and of the process, the locks, the time a claim took.\<close>

record bench_event =
  be_worker :: nat
  be_now :: instant
  be_cnow :: instant
  be_held :: "(ident \<times> row_lock) list"
  be_ms :: rat

definition bench_worker :: "bench_run \<Rightarrow> nat \<Rightarrow> string" where
  "bench_worker r i = ''bench-'' @ br_mode r @ ''-'' @ show_nat (br_concurrency r) @ ''-'' @ show_nat i"

text \<open>A \<open>Date\<close> has milliseconds.\<close>

definition waited :: "instant \<Rightarrow> claimed_job \<Rightarrow> rat" where
  "waited cnow c = of_int (cnow div us_per_ms - c_enqueued_at c div us_per_ms)"

definition bench_answer :: "bench_event \<Rightarrow> claimed_job list \<Rightarrow> bench \<Rightarrow> bench_pc \<times> bench" where
  "bench_answer e rows s =
     (let s1 = s\<lparr>bn_claimDurations := bn_claimDurations s @ [be_ms e]\<rparr>
      in if rows = [] then (Worker_done, s1\<lparr>bn_emptyClaims := Suc (bn_emptyClaims s1), bn_done := True\<rparr>)
         else (Completing rows (length rows),
               s1\<lparr>bn_batches := Suc (bn_batches s1), bn_batchTotal := bn_batchTotal s1 + length rows,
                 bn_waitDurations := bn_waitDurations s1 @ map (waited (be_cnow e)) rows\<rparr>))"

definition bench_work :: "bench_run \<Rightarrow> bench_event \<Rightarrow> bench_pc \<Rightarrow> bench \<Rightarrow> bench_pc \<times> bench" where
  "bench_work r e pc s =
     (let w = bench_worker r (be_worker e)
      in case pc of
           At_head \<Rightarrow> (if bn_done s then Worker_done else Asking, s)
         | Asking \<Rightarrow>
             (case query (bench_claim (br_mode r) (be_now e) (be_held e)
                      \<lparr>cp_queue = br_queue r, cp_limit = br_batch r, cp_workerId = w\<rparr>) (bn_db s) of
                Inl _ \<Rightarrow> (Worker_crashed, s)
              | Inr (rows, d) \<Rightarrow> (Got_rows rows, s\<lparr>bn_db := d\<rparr>))
         | Got_rows rows \<Rightarrow> bench_answer e rows s
         | Completing [] n \<Rightarrow> (At_head, s\<lparr>bn_drained := bn_drained s + n\<rparr>)
         | Completing (row # rows) n \<Rightarrow>
             (case query (completeJob (be_now e) (token_of w row)) (bn_db s) of
                Inl _ \<Rightarrow> (Worker_crashed, s)
              | Inr (_, d) \<Rightarrow> (Completing rows n, s\<lparr>bn_db := d\<rparr>))
         | _ \<Rightarrow> (pc, s))"

text \<open>The state of a run: the worker of each number, and what they share.\<close>

definition bench_step :: "bench_run \<Rightarrow> bench_event \<Rightarrow> bench_pc list \<times> bench \<Rightarrow> bench_pc list \<times> bench" where
  "bench_step r e st =
     (let (ws, s) = st; i = be_worker e
      in if i < length ws
         then (let (pc, s') = bench_work r e (ws ! i) s in (ws[i := pc], s'))
         else (ws, s))"

definition bench_start :: "bench_run \<Rightarrow> db \<Rightarrow> bench_pc list \<times> bench" where
  "bench_start r d = (replicate (br_concurrency r) At_head, new_bench d)"

definition bench_drain :: "bench_run \<Rightarrow> bench_event list \<Rightarrow> db \<Rightarrow> bench_pc list \<times> bench" where
  "bench_drain r es d = fold (bench_step r) es (bench_start r d)"

subsection \<open>The result of a run\<close>

record quantiles =
  qn_p50 :: rat
  qn_p95 :: rat
  qn_p99 :: rat

record run_result =
  rr_concurrency :: nat
  rr_lockMode :: string
  rr_drained :: nat
  rr_wallSeconds :: rat
  rr_jobsPerSecond :: rat
  rr_claim :: quantiles
  rr_claimCount :: nat
  rr_wait :: quantiles
  rr_emptyClaims :: nat
  rr_avgBatch :: rat

definition quantiles_of :: "rat list \<Rightarrow> rat \<Rightarrow> quantiles" where
  "quantiles_of xs per = \<lparr>qn_p50 = percentile xs 50 / per, qn_p95 = percentile xs 95 / per,
     qn_p99 = percentile xs 99 / per\<rparr>"

definition run_result_of :: "bench_run \<Rightarrow> rat \<Rightarrow> bench \<Rightarrow> run_result" where
  "run_result_of r wallSeconds s =
     \<lparr>rr_concurrency = br_concurrency r, rr_lockMode = br_mode r, rr_drained = bn_drained s,
      rr_wallSeconds = wallSeconds, rr_jobsPerSecond = of_nat (bn_drained s) / wallSeconds,
      rr_claim = quantiles_of (bn_claimDurations s) 1, rr_claimCount = length (bn_claimDurations s),
      rr_wait = quantiles_of (bn_waitDurations s) 1000, rr_emptyClaims = bn_emptyClaims s,
      rr_avgBatch = (if bn_batches s = 0 then 0 else of_nat (bn_batchTotal s) / of_nat (bn_batches s))\<rparr>"

text \<open>Between two runs the queue is emptied; at the end every queue with the prefix is.\<close>

definition clear_run :: "string \<Rightarrow> job list stmt" where
  "clear_run q = delete_jobs (\<lambda>j. j_queue j = q)"

definition clear_bench :: "job list stmt" where
  "clear_bench = delete_jobs (\<lambda>j. like ''bench_%'' (j_queue j))"

subsection \<open>Scaling\<close>

definition peak :: "string \<Rightarrow> run_result list \<Rightarrow> run_result option" where
  "peak mode results =
     (case filter (\<lambda>r. rr_lockMode r = mode) results of
        [] \<Rightarrow> None
      | r # rs \<Rightarrow> Some (fold (\<lambda>r best. if rr_jobsPerSecond best < rr_jobsPerSecond r then r else best) rs r))"

record scaling =
  sc_speedup :: rat
  sc_workerRatio :: rat
  sc_efficiency :: rat

definition scaling_of :: "run_result \<Rightarrow> run_result \<Rightarrow> scaling" where
  "scaling_of prev cur =
     (let speedup = rr_jobsPerSecond cur / rr_jobsPerSecond prev;
          workerRatio = of_nat (rr_concurrency cur) / of_nat (rr_concurrency prev)
      in \<lparr>sc_speedup = speedup, sc_workerRatio = workerRatio, sc_efficiency = speedup / workerRatio * 100\<rparr>)"

fun scalings :: "run_result list \<Rightarrow> scaling list" where
  "scalings (prev # cur # rs) = scaling_of prev cur # scalings (cur # rs)"
| "scalings rs = []"

end
