(* ===== verification/Fresh_Batch.thy ===== *)
theory Fresh_Batch
  imports Batch_Laws Dedup_Laws
begin

text \<open>
  A batch of items without keys is stored whole: one row for each item, in order, at the end of the
  table, with nobody else at the database.
\<close>

subsection \<open>Rows without keys\<close>

definition plain_row :: "instant \<Rightarrow> enqueue_row \<Rightarrow> bool" where
  "plain_row now r \<longleftrightarrow> admissible now r \<and> n_idempotencyKey r = None \<and> n_uniqueKey r = None \<and> n_scheduleId r = None"

lemma plain_row_inserted:
  assumes "db_inv d" and "plain_row now r"
  shows "\<exists>d'. insert_row now (new_job now r) d = Inr (Some (new_job now r (db_job_seq d)), d')
    \<and> db_inv d' \<and> db_config d' = db_config d \<and> db_job_seq d' = Suc (db_job_seq d)
    \<and> db_jobs d' = db_jobs d @ [new_job now r (db_job_seq d)]"
proof -
  let ?j = "new_job now r (db_job_seq d)"
  let ?d = "d\<lparr>db_job_seq := Suc (db_job_seq d), db_jobs := db_jobs d @ [?j],
    db_notified := db_notified d @ pgjobq_notify_enqueue now ?j\<rparr>"
  have "\<not> conflicts (db_jobs d) ?j" using assms(2) by (simp add: new_conflict_iff plain_row_def)
  moreover have "job_checks ?j"
    using assms(2) admissible_iff [of now r now "db_job_seq d"] by (simp add: plain_row_def)
  moreover have "is_smallint (j_priority ?j) \<and> is_smallint (j_max_attempts ?j) \<and> is_integer (j_lease_seconds ?j)"
    and "j_schedule_id ?j = None"
    using assms(2) admissible_iff [of now r now 0] by (simp_all add: plain_row_def new_job_def)
  ultimately have ins: "insert_row now (new_job now r) d = Inr (Some ?j, ?d)"
    by (simp add: insert_row_def Let_def)
  have "db_inv ?d" by (rule insert_row_inv [OF assms(1) ins]) (simp add: new_job_def)
  with ins show ?thesis by simp
qed

lemma list_all_of_rows:
  assumes "list_all2 (\<lambda>r j. \<exists>i. j = f r i) rs js" and "\<And>r i. r \<in> set rs \<Longrightarrow> P (f r i)"
  shows "list_all P js"
  using assms by (induction rule: list_all2_induct) auto

lemma plain_rows_inserted:
  assumes "db_inv d" and "\<forall>r \<in> set rs. plain_row now r"
  shows "\<exists>js d'. insert_rows now rs d = Inr (js, d') \<and> db_inv d' \<and> db_config d' = db_config d
    \<and> db_jobs d' = db_jobs d @ js \<and> list_all2 (\<lambda>r j. \<exists>i. j = new_job now r i) rs js"
  using assms
proof (induction rs arbitrary: d)
  case (Cons r rs)
  from Cons.prems(2) have "plain_row now r" by simp
  from plain_row_inserted [OF Cons.prems(1) this] obtain d1 where
    r: "insert_row now (new_job now r) d = Inr (Some (new_job now r (db_job_seq d)), d1)"
    and d1: "db_inv d1" "db_config d1 = db_config d" "db_jobs d1 = db_jobs d @ [new_job now r (db_job_seq d)]"
    by blast
  from Cons.IH [OF d1(1)] Cons.prems(2) obtain js d2 where
    "insert_rows now rs d1 = Inr (js, d2)" "db_inv d2" "db_config d2 = db_config d1"
    "db_jobs d2 = db_jobs d1 @ js" "list_all2 (\<lambda>r j. \<exists>i. j = new_job now r i) rs js" by auto
  with r d1 show ?case by (simp add: new_job_def)
qed simp

subsection \<open>Building rows\<close>

text \<open>An item that leaves nothing to the configuration of the queue.\<close>

definition own_options :: "int \<Rightarrow> int \<Rightarrow> enqueue_options" where
  "own_options maxAttempts leaseSeconds = \<lparr>o_priority = None, o_runAt = None, o_delaySeconds = None,
     o_maxAttempts = Some maxAttempts, o_leaseSeconds = Some leaseSeconds, o_idempotencyKey = None,
     o_uniqueKey = None, o_metadata = None, o_traceContext = None\<rparr>"

definition own_row :: "string \<Rightarrow> int \<Rightarrow> int \<Rightarrow> batch_item \<Rightarrow> enqueue_row" where
  "own_row q m l it = \<lparr>n_queue = q, n_type = bi_type it, n_payload = bi_payload it, n_metadata = None,
     n_priority = 0, n_maxAttempts = m, n_leaseSeconds = l, n_runAt = None, n_idempotencyKey = None,
     n_uniqueKey = None, n_traceContext = None, n_scheduleId = None\<rparr>"

lemma own_row_plain: "1 \<le> m \<Longrightarrow> m \<le> 1000 \<Longrightarrow> 0 < l \<Longrightarrow> is_integer l \<Longrightarrow> plain_row now (own_row q m l it)"
  by (simp add: plain_row_def admissible_def Let_def new_job_def own_row_def is_smallint_def job_checks_def)

lemma build_own_rows:
  assumes "\<forall>it \<in> set items. bi_options it = own_options m l \<and> validateName (bi_type it) = Inr ()
      \<and> length (stringify (bi_payload it)) \<le> df_maxPayloadBytes (cl_defaults cl)"
    and "1 \<le> m" and "1 \<le> l"
  shows "\<exists>cl'. build_rows cnow q n items cl d = (Inr (map (own_row q m l) items), cl')"
  using assms(1)
proof (induction items arbitrary: n cl)
  case (Cons it items)
  obtain qc cl1 where qc: "queueDefaults cnow q cl d = (qc, cl1)" by fastforce
  from Cons.prems have "buildRow cnow q (bi_type it) (bi_payload it) (bi_options it) cl d = (Inr (own_row q m l it), cl1)"
    using assms(2,3) by (simp add: buildRow_def own_options_def own_row_def qc)
  moreover have "cl_defaults cl1 = cl_defaults cl" using queueDefaults_fixed [OF qc] by simp
  ultimately show ?case using Cons.IH [of cl1 "Suc n"] Cons.prems by auto
qed simp

subsection \<open>The batch\<close>

lemma map_back_unkeyed:
  "\<forall>r \<in> set rows. n_idempotencyKey r = None \<Longrightarrow>
     \<exists>rs. map_back env n q m rows us d = (rs, d) \<and> length rs = length rows"
proof (induction rows arbitrary: n us)
  case (Cons r rows)
  from Cons.IH [of "Suc n" "drop 1 us"] Cons.prems obtain rs where
    "map_back env (Suc n) q m rows (drop 1 us) d = (rs, d)" "length rs = length rows" by auto
  with Cons.prems show ?case by simp
qed simp

lemma batch_stored:
  assumes inv: "db_inv d" and q: "validateName q = Inr ()"
    and items: "\<forall>it \<in> set items. bi_options it = own_options m l \<and> validateName (bi_type it) = Inr ()
      \<and> length (stringify (bi_payload it)) \<le> df_maxPayloadBytes (cl_defaults cl)"
    and size: "0 < length items" "length items \<le> 1000"
    and nums: "1 \<le> m" "m \<le> 1000" "1 \<le> l" "is_integer l"
  shows "\<exists>rs cl' js d'. enqueueBatch alone now cnow q items cl d = (Inr rs, cl', d') \<and> length rs = length items
    \<and> db_inv d' \<and> db_config d' = db_config d \<and> db_jobs d' = db_jobs d @ js
    \<and> list_all2 (\<lambda>it j. \<exists>i. j = new_job now (own_row q m l it) i) items js"
proof -
  let ?rows = "map (own_row q m l) items"
  obtain cl' where b: "build_rows cnow q 0 items cl d = (Inr ?rows, cl')"
    using build_own_rows [OF items nums(1,3)] by blast
  have "\<forall>r \<in> set ?rows. plain_row now r" using own_row_plain [OF nums(1,2) _ nums(4)] nums(3) by simp
  from plain_rows_inserted [OF inv this] obtain js d' where
    ins: "insert_rows now ?rows d = Inr (js, d')" and D: "db_inv d'" "db_config d' = db_config d"
      "db_jobs d' = db_jobs d @ js" "list_all2 (\<lambda>r j. \<exists>i. j = new_job now r i) ?rows js" by blast
  let ?ins = "map inserted_returning js"
  have "\<forall>r \<in> set ?rows. n_idempotencyKey r = None" by (simp add: own_row_def)
  from map_back_unkeyed [OF this, of alone 1 q "byIdem ?ins" "map ir_id (filter (\<lambda>r. ir_idempotency_key r = None) ?ins)" d']
  obtain rs where rs: "map_back alone 1 q (byIdem ?ins) ?rows
      (map ir_id (filter (\<lambda>r. ir_idempotency_key r = None) ?ins)) d' = (rs, d')" "length rs = length ?rows" by blast
  have s: "insertJobsBatch now ?rows d = Inr (?ins, d')" by (simp add: insertJobsBatch_def returning_def ins)
  have "enqueueBatch alone now cnow q items cl d = (Inr rs, cl', d')"
  proof -
    have "items \<noteq> []" "\<not> 1000 < length items" using size by auto
    then show ?thesis
      by (simp add: enqueueBatch_def q b query_def s rs(1) [unfolded One_nat_def] Let_def del: filter.simps filter_map)
  qed
  moreover have "list_all2 (\<lambda>it j. \<exists>i. j = new_job now (own_row q m l it) i) items js"
    using D(4) by (simp add: list.rel_map)
  ultimately show ?thesis using D rs(2) by fastforce
qed

end
