(* ===== verification/Bench_Laws.thy ===== *)
theory Bench_Laws
  imports Bench Fresh_Batch
begin

text \<open>
  What the benchmark measures: its percentiles are nearest ranks, its second lock mode claims by the
  same rule and excludes claimers as well, seeding stores what it is asked for, and whatever the
  order of the workers' steps, each stops, and together they have completed every job exactly once
  and counted it.
\<close>

subsection \<open>Percentiles\<close>

lemma sorted_rank_le:
  assumes "sorted xs" and "k < length xs"
  shows "Suc k \<le> length (filter (\<lambda>x. x \<le> xs ! k) xs)"
proof -
  have "\<forall>x \<in> set (take (Suc k) xs). x \<le> xs ! k"
    using assms by (auto simp: in_set_conv_nth less_Suc_eq_le intro!: sorted_nth_mono)
  then have "length (filter (\<lambda>x. x \<le> xs ! k) (take (Suc k) xs)) = Suc k"
    using assms(2) by (simp add: filter_id_conv [THEN iffD2])
  moreover have "length (filter (\<lambda>x. x \<le> xs ! k) xs) =
      length (filter (\<lambda>x. x \<le> xs ! k) (take (Suc k) xs)) + length (filter (\<lambda>x. x \<le> xs ! k) (drop (Suc k) xs))"
    by (metis append_take_drop_id filter_append length_append)
  ultimately show ?thesis by simp
qed

lemma sorted_rank_less:
  assumes "sorted xs" and "k < length xs"
  shows "length (filter (\<lambda>x. x < xs ! k) xs) \<le> k"
proof -
  have "\<forall>x \<in> set (drop k xs). \<not> x < xs ! k"
    using assms by (auto simp: in_set_conv_nth not_less intro!: sorted_nth_mono)
  then have "filter (\<lambda>x. x < xs ! k) (drop k xs) = []" by (simp add: filter_empty_conv)
  then have "length (filter (\<lambda>x. x < xs ! k) xs) = length (filter (\<lambda>x. x < xs ! k) (take k xs))"
    by (metis append_Nil2 append_take_drop_id filter_append)
  also have "\<dots> \<le> k" using length_filter_le [of "\<lambda>x. x < xs ! k" "take k xs"] by simp
  finally show ?thesis .
qed

lemma length_filter_sort: "length (filter P (sort xs)) = length (filter P xs)"
  by (simp add: filter_sort)

text \<open>At least \<open>p\<close> percent of the values are at most the percentile, and fewer are below it.\<close>

lemma percentile_rank:
  assumes "values \<noteq> []" and "0 < p" and "p \<le> 100"
  shows "percentile values p \<in> set values
    \<and> of_nat p / 100 * (of_nat (length values) :: rat) \<le> of_nat (length (filter (\<lambda>v. v \<le> percentile values p) values))
    \<and> of_nat (length (filter (\<lambda>v. v < percentile values p) values)) < of_nat p / 100 * (of_nat (length values) :: rat)"
proof -
  let ?n = "length values"
  let ?r = "of_nat p / 100 * (of_nat ?n :: rat)"
  define k where "k = nat (\<lceil>?r\<rceil> - 1)"
  have n: "0 < ?n" using assms(1) by simp
  have pos: "0 < ?r" using n assms(2) by simp
  then have c: "1 \<le> \<lceil>?r\<rceil>" by (simp add: one_le_ceiling)
  have "?r \<le> of_nat ?n"
    using assms(3) mult_right_mono [of "of_nat p / 100 :: rat" 1 "of_nat ?n"] by simp
  then have "\<lceil>?r\<rceil> \<le> int ?n" by (simp add: ceiling_le_iff)
  moreover have k_int: "int k = \<lceil>?r\<rceil> - 1" using c by (simp add: k_def)
  ultimately have k: "k < ?n" by linarith
  have v: "percentile values p = sort values ! k"
  proof -
    have "nat (max 0 (\<lceil>?r\<rceil> - 1)) = k" using c by (simp add: k_def)
    moreover have "min (?n - 1) k = k" using k by simp
    ultimately show ?thesis using assms(1) by (simp only: percentile_def if_False)
  qed
  have kc: "(of_nat (Suc k) :: rat) = of_int \<lceil>?r\<rceil>" using c by (simp add: k_def of_nat_nat)
  then have up: "?r \<le> of_nat (Suc k)" by (metis le_of_int_ceiling)
  have down: "of_nat k < ?r" using kc ceiling_correct [of ?r] by simp
  have "Suc k \<le> length (filter (\<lambda>x. x \<le> sort values ! k) values)"
    using sorted_rank_le [of "sort values" k] k by (simp add: length_filter_sort)
  then have "(of_nat (Suc k) :: rat) \<le> of_nat (length (filter (\<lambda>x. x \<le> sort values ! k) values))"
    by (simp only: of_nat_le_iff)
  with up have ge: "?r \<le> of_nat (length (filter (\<lambda>x. x \<le> sort values ! k) values))" by (rule order_trans)
  have "length (filter (\<lambda>x. x < sort values ! k) values) \<le> k"
    using sorted_rank_less [of "sort values" k] k by (simp add: length_filter_sort)
  then have "(of_nat (length (filter (\<lambda>x. x < sort values ! k) values)) :: rat) \<le> of_nat k"
    by (simp only: of_nat_le_iff)
  then have lt: "of_nat (length (filter (\<lambda>x. x < sort values ! k) values)) < ?r" using down by (rule le_less_trans)
  have "sort values ! k \<in> set values" using k nth_mem [of k "sort values"] by simp
  with ge lt show ?thesis by (simp add: v)
qed

subsection \<open>Lock modes\<close>

lemma no_key_update_same: "claimJobsNoKeyUpdate now locked p = claimJobs now locked p"
proof -
  have "(\<lambda>j. j\<lparr>j_state := Running, j_attempt := j_attempt j + 1, j_worker_id := Some (cp_workerId p),
      j_started_at := Some now, j_lease_expires_at := Some (now + us_per_second * j_lease_seconds j),
      j_updated_at := now\<rparr>) = claim_row now (cp_workerId p)"
    by (rule ext) (simp add: claim_row_def)
  moreover have "(\<lambda>j. j_queue j = cp_queue p \<and> j_state j = Available \<and> j_run_at j \<le> now
      \<and> \<not> queue_paused d (j_queue j) \<and> j_id j \<notin> locked) = eligible now locked (cp_queue p) d" for d
    by (rule ext) (simp add: eligible_def)
  ultimately show ?thesis
    by (intro ext) (simp add: claimJobsNoKeyUpdate_def claimJobs_def claim_with_def claim_candidates_def Let_def
        returning_def)
qed

lemma bench_claim_is: "bench_claim mode now held p = claimJobs now (skipped (lock_of mode) held) p"
  by (simp add: bench_claim_def lock_of_def no_key_update_same)

text \<open>
  A claim holds the lock of its mode on its candidates; another claim meanwhile, in either mode,
  takes none of them. The weaker mode passes over_workers no more rows than the stronger.
\<close>

lemma claims_exclude:
  assumes "db_inv d" and "bench_claim mode now held p d = Inr (cs, d')"
    and "(c_id c, lock_of mode') \<in> set held" and "c \<in> set cs"
  shows False
proof -
  from assms(1,2,4) obtain j where j: "job_at d (c_id c) = Some j"
      "eligible now (skipped (lock_of mode) held) (cp_queue p) d j"
    unfolding bench_claim_is by (rule claimJobs_row)
  have "lock_conflicts (lock_of mode) (lock_of mode')" by (simp add: lock_of_def lock_conflicts_def)
  with assms(3) have "c_id c \<in> skipped (lock_of mode) held" by (force simp: skipped_def)
  with j row_of_SomeD [OF j(1)] show False by (auto simp: eligible_def)
qed

lemma weaker_lock_skips_less: "skipped No_key_update_lock held \<subseteq> skipped Update_lock held"
  by (auto simp: skipped_def lock_conflicts_def)

subsection \<open>Counting jobs\<close>

lemma length_filter_upd_where:
  "length (filter S (upd_where P f xs)) =
     length (filter (\<lambda>x. \<not> P x \<and> S x) xs) + length (filter (\<lambda>x. P x \<and> S (f x)) xs)"
  by (induction xs) auto

lemma length_filter_split:
  "length (filter S xs) = length (filter (\<lambda>x. \<not> P x \<and> S x) xs) + length (filter (\<lambda>x. P x \<and> S x) xs)"
  by (induction xs) auto

text \<open>An update that moves jobs of a queue from one state to another moves their number.\<close>

lemma moved_counts:
  assumes u: "update_jobs P f d = Inr (rs, d')" and ne: "a \<noteq> b"
    and src: "\<And>j. j \<in> set (db_jobs d) \<Longrightarrow> P j \<Longrightarrow> j_queue j = q \<and> j_state j = a"
    and dst: "\<And>j. j_queue (f j) = j_queue j \<and> j_state (f j) = b"
  shows "jobs_in d q a = jobs_in d' q a + length rs" "jobs_in d' q b = jobs_in d q b + length rs"
    "s \<noteq> a \<Longrightarrow> s \<noteq> b \<Longrightarrow> jobs_in d' q s = jobs_in d q s"
proof -
  note D = update_jobs_InrD [OF u]
  have n: "length rs = length (filter P (db_jobs d))" by (simp add: D(1))
  have split: "jobs_in d' q s = length (filter (\<lambda>j. \<not> P j \<and> j_queue j = q \<and> j_state j = s) (db_jobs d))
      + (if s = b then length rs else 0)" for s
  proof -
    have "length (filter (\<lambda>j. P j \<and> j_queue (f j) = q \<and> j_state (f j) = s) (db_jobs d))
        = (if s = b then length rs else 0)"
      using src dst by (auto simp: n filter_empty_conv intro!: arg_cong [where f = length] filter_cong)
    then show ?thesis by (simp add: jobs_in_def D(2) length_filter_upd_where)
  qed
  have whole: "jobs_in d q s = length (filter (\<lambda>j. \<not> P j \<and> j_queue j = q \<and> j_state j = s) (db_jobs d))
      + (if s = a then length rs else 0)" for s
  proof -
    have "length (filter (\<lambda>j. P j \<and> j_queue j = q \<and> j_state j = s) (db_jobs d)) = (if s = a then length rs else 0)"
      using src by (auto simp: n filter_empty_conv intro!: arg_cong [where f = length] filter_cong)
    then show ?thesis
      by (simp add: jobs_in_def length_filter_split [of "\<lambda>j. j_queue j = q \<and> j_state j = s" "db_jobs d" P])
  qed
  show "jobs_in d q a = jobs_in d' q a + length rs" "jobs_in d' q b = jobs_in d q b + length rs"
    "s \<noteq> a \<Longrightarrow> s \<noteq> b \<Longrightarrow> jobs_in d' q s = jobs_in d q s"
    using ne by (simp_all add: split whole)
qed

lemma claim_counts:
  assumes inv: "db_inv d" and ok: "claimJobs now locked p d = Inr (cs, d')" and q: "q = cp_queue p"
  shows "jobs_in d q Available = jobs_in d' q Available + length cs"
    "jobs_in d' q Running = jobs_in d q Running + length cs"
    "jobs_in d' q Succeeded = jobs_in d q Succeeded"
proof -
  from ok obtain rs where u: "claim_with claim_order now locked p d = Inr (rs, d')" and n: "length cs = length rs"
    by (auto simp: claimJobs_def returning_Inr)
  have "j_queue j = q \<and> j_state j = Available"
    if "j \<in> set (db_jobs d)" "j_id j \<in> set (claim_candidates claim_order now locked p d)" for j
    using candidates_eligible [OF inv that] q by (auto simp: eligible_def)
  note m = moved_counts [OF u [unfolded claim_with_def] _ this, where b = Running, simplified]
  show "jobs_in d q Available = jobs_in d' q Available + length cs"
    "jobs_in d' q Running = jobs_in d q Running + length cs"
    "jobs_in d' q Succeeded = jobs_in d q Succeeded"
    using m by (simp_all add: n keeps_identityD(2) [OF claim_row_keeps])
qed

lemma complete_counts:
  assumes inv: "db_inv d" and ok: "completeJob now p d = Inr ([i], d')"
    and at: "job_at d (f_id p) = Some j" "j_queue j = q"
  shows "jobs_in d' q Available = jobs_in d q Available"
    "jobs_in d q Running = Suc (jobs_in d' q Running)"
    "jobs_in d' q Succeeded = Suc (jobs_in d q Succeeded)"
proof -
  from ok obtain rs where u: "update_jobs (owns p) (complete_row now) d = Inr (rs, d')" and n: "length rs = 1"
    by (auto simp: completeJob_def returning_Inr)
  have "j_queue k = q \<and> j_state k = Running" if "k \<in> set (db_jobs d)" "owns p k" for k
  proof -
    have "job_at d (j_id k) = Some k" by (rule db_inv_job_at [OF inv that(1)])
    with that(2) at show ?thesis by (auto simp: owns_def)
  qed
  note m = moved_counts [OF u _ this, where b = Succeeded, simplified]
  show "jobs_in d' q Available = jobs_in d q Available"
    "jobs_in d q Running = Suc (jobs_in d' q Running)"
    "jobs_in d' q Succeeded = Suc (jobs_in d q Succeeded)"
    using m by (simp_all add: n complete_row_def)
qed

subsection \<open>What the workers hold\<close>

primrec rows_of :: "bench_pc \<Rightarrow> claimed_job list" where
  "rows_of At_head = []"
| "rows_of Asking = []"
| "rows_of (Got_rows rows) = rows"
| "rows_of (Completing rows n) = rows"
| "rows_of Worker_done = []"
| "rows_of Worker_crashed = []"

text \<open>Rows of the batch that are completed, and the size of the batch, once it is counted.\<close>

definition completed_of :: "bench_pc \<Rightarrow> nat" where
  "completed_of pc = (case pc of Completing rows n \<Rightarrow> n - length rows | _ \<Rightarrow> 0)"

definition batch_of :: "bench_pc \<Rightarrow> nat" where
  "batch_of pc = (case pc of Completing rows n \<Rightarrow> n | _ \<Rightarrow> 0)"

text \<open>An upper bound on the steps a worker has left, and with it one for the run.\<close>

definition steps_of :: "bench_pc \<Rightarrow> nat" where
  "steps_of pc = (case pc of At_head \<Rightarrow> 3 | Asking \<Rightarrow> 2 | Got_rows rows \<Rightarrow> 1 + 5 * length rows
     | Completing rows n \<Rightarrow> 4 + length rows | _ \<Rightarrow> 0)"

lemmas pc_defs = completed_of_def batch_of_def steps_of_def

definition over_workers :: "(bench_pc \<Rightarrow> nat) \<Rightarrow> bench_pc list \<Rightarrow> nat" where
  "over_workers g ws = sum_list (map g ws)"

lemma over_update: "i < length ws \<Longrightarrow> over_workers g (ws[i := pc]) + g (ws ! i) = over_workers g ws + g pc"
proof (induction ws arbitrary: i)
  case (Cons w ws)
  then show ?case by (cases i) (auto simp: over_workers_def)
qed simp

lemma over_all: "\<forall>pc \<in> set ws. g pc = 0 \<Longrightarrow> over_workers g ws = 0"
  by (simp add: over_workers_def)

definition bench_budget :: "bench_run \<Rightarrow> bench_pc list \<times> bench \<Rightarrow> nat" where
  "bench_budget r st = 5 * jobs_in (bn_db (snd st)) (br_queue r) Available + over_workers steps_of (fst st)"

definition holds_row :: "db \<Rightarrow> string \<Rightarrow> string \<Rightarrow> claimed_job \<Rightarrow> bool" where
  "holds_row d q w c \<longleftrightarrow> (\<exists>j. job_at d (c_id c) = Some j \<and> owns (token_of w c) j \<and> j_queue j = q)"

text \<open>The state of one worker; \<open>Got_rows []\<close> comes when nothing is left.\<close>

definition worker_ok :: "bench_run \<Rightarrow> nat \<Rightarrow> bench_pc \<Rightarrow> bench \<Rightarrow> bool" where
  "worker_ok r i pc s \<longleftrightarrow>
     distinct (map c_id (rows_of pc))
     \<and> list_all (holds_row (bn_db s) (br_queue r) (bench_worker r i)) (rows_of pc)
     \<and> (case pc of
          Got_rows rows \<Rightarrow> rows = [] \<longrightarrow> jobs_in (bn_db s) (br_queue r) Available = 0
        | Completing rows n \<Rightarrow> length rows \<le> n
        | Worker_done \<Rightarrow> bn_done s
        | Worker_crashed \<Rightarrow> False
        | _ \<Rightarrow> True)"

text \<open>Every job of the queue can be claimed at any time from \<open>T\<close> on.\<close>

definition claimable_from :: "instant \<Rightarrow> string \<Rightarrow> db \<Rightarrow> bool" where
  "claimable_from T q d \<longleftrightarrow> \<not> queue_paused d q
     \<and> (\<forall>j \<in> set (db_jobs d). j_queue j = q \<and> j_state j = Available \<longrightarrow> j_run_at j \<le> T \<and> j_attempt j < j_max_attempts j)"

definition bench_inv :: "bench_run \<Rightarrow> instant \<Rightarrow> nat \<Rightarrow> nat \<Rightarrow> bench_pc list \<times> bench \<Rightarrow> bool" where
  "bench_inv r T n m st \<longleftrightarrow> (case st of (ws, s) \<Rightarrow>
     db_inv (bn_db s) \<and> claimable_from T (br_queue r) (bn_db s)
     \<and> (\<forall>i < length ws. worker_ok r i (ws ! i) s)
     \<and> over_workers (length \<circ> rows_of) ws = jobs_in (bn_db s) (br_queue r) Running
     \<and> jobs_in (bn_db s) (br_queue r) Succeeded = m + bn_drained s + over_workers completed_of ws
     \<and> jobs_in (bn_db s) (br_queue r) Available + jobs_in (bn_db s) (br_queue r) Running
         + jobs_in (bn_db s) (br_queue r) Succeeded = n + m
     \<and> bn_batchTotal s = bn_drained s + over_workers batch_of ws
     \<and> length (bn_waitDurations s) = bn_batchTotal s
     \<and> length (bn_claimDurations s) = bn_batches s + bn_emptyClaims s
     \<and> (bn_done s \<longrightarrow> jobs_in (bn_db s) (br_queue r) Available = 0 \<and> 0 < bn_emptyClaims s))"

text \<open>Nobody else has locked anything, and time has come.\<close>

definition bench_event_ok :: "instant \<Rightarrow> bench_event \<Rightarrow> bool" where
  "bench_event_ok T e \<longleftrightarrow> T \<le> be_now e \<and> be_held e = []"

text \<open>The names of the workers tell them apart, so no two hold the same row.\<close>

lemma bench_worker_inj: "bench_worker r i = bench_worker r i' \<longleftrightarrow> i = i'"
  by (auto simp: bench_worker_def show_nat_inj)

lemma holds_row_unique: "holds_row d q w c \<Longrightarrow> holds_row d q' w' c' \<Longrightarrow> c_id c = c_id c' \<Longrightarrow> w = w'"
  by (auto simp: holds_row_def owns_def token_of_def)

lemma holds_row_frame: "holds_row d q w c \<Longrightarrow> job_at d' (c_id c) = job_at d (c_id c) \<Longrightarrow> holds_row d' q w c"
  by (simp add: holds_row_def)

subsection \<open>One statement\<close>

lemma claim_lands:
  assumes inv: "db_inv d" and fit: "claimable_from T q d" and t: "T \<le> now" and b: "0 < k"
  shows "\<exists>cs d'. claimJobs now {} \<lparr>cp_queue = q, cp_limit = k, cp_workerId = w\<rparr> d = Inr (cs, d')
    \<and> db_inv d' \<and> claimable_from T q d' \<and> distinct (map c_id cs) \<and> list_all (holds_row d' q w) cs
    \<and> (cs = [] \<longrightarrow> jobs_in d' q Available = 0)
    \<and> (\<forall>q' w' c. holds_row d q' w' c \<longrightarrow> holds_row d' q' w' c)"
proof -
  let ?p = "\<lparr>cp_queue = q, cp_limit = k, cp_workerId = w\<rparr>"
  have "\<not> (\<exists>j \<in> set (db_jobs d). j_id j \<in> set (claim_candidates claim_order now {} ?p d)
      \<and> j_attempt j = j_max_attempts j)"
    using candidates_eligible [OF inv, of _ claim_order now "{}" ?p] fit
    by (fastforce simp: eligible_def claimable_from_def)
  with claim_with_cases [OF inv, of claim_order now "{}" ?p]
  obtain rs d' where c: "claim_with claim_order now {} ?p d = Inr (rs, d')" by simp
  define cs where "cs = map toClaimedJob rs"
  have ok: "claimJobs now {} ?p d = Inr (cs, d')" by (simp add: claimJobs_def returning_def c cs_def)
  note D = update_jobs_InrD [OF c [unfolded claim_with_def]]
  have inv': "db_inv d'" by (rule claim_with_contract(1) [OF inv c])
  have fit': "claimable_from T q d'"
    using fit by (auto simp: claimable_from_def D(2) queue_paused_def set_upd_where)
  have ids: "map c_id cs = map j_id rs" by (simp add: cs_def toClaimedJob_def comp_def)
  have dist: "distinct (map c_id cs)" using claim_with_ids(2) [OF inv c] by (simp add: ids)
  have own: "list_all (holds_row d' q w) cs"
  proof -
    have "holds_row d' q w x" if "x \<in> set cs" for x
    proof -
      from inv ok that obtain j where j: "job_at d (c_id x) = Some j" "eligible now {} (cp_queue ?p) d j"
        "x = toClaimedJob (claim_row now (cp_workerId ?p) j)"
        "job_at d' (c_id x) = Some (claim_row now (cp_workerId ?p) j)" by (rule claimJobs_row)
      then show ?thesis by (simp add: holds_row_def owns_def token_of_def toClaimedJob_def eligible_def claim_row_def)
    qed
    then show ?thesis by (simp add: list_all_iff)
  qed
  have none: "jobs_in d' q Available = 0" if "cs = []"
  proof -
    have "length rs = 0" using that by (simp add: cs_def)
    with claim_with_count [OF inv c] have "min k (length (filter (eligible now {} q d) (db_jobs d))) = 0" by simp
    then have e: "filter (eligible now {} q d) (db_jobs d) = []"
      using b by (cases "filter (eligible now {} q d) (db_jobs d)") simp_all
    have "filter (\<lambda>j. j_queue j = q \<and> j_state j = Available) (db_jobs d) = []"
      using e fit t by (force simp: filter_empty_conv eligible_def claimable_from_def)
    then have "jobs_in d q Available = 0" by (simp add: jobs_in_def)
    with claim_counts(1) [OF inv ok, of q] show ?thesis by simp
  qed
  have keep: "holds_row d' q' w' x" if "holds_row d q' w' x" for q' w' x
  proof (rule holds_row_frame [OF that])
    have "c_id x \<notin> j_id ` set rs"
    proof
      assume "c_id x \<in> j_id ` set rs"
      then obtain y where y: "y \<in> set rs" "c_id x = j_id y" by auto
      from claim_with_row [OF inv c y(1)] that y(2) show False by (auto simp: holds_row_def owns_def eligible_def)
    qed
    then show "job_at d' (c_id x) = job_at d (c_id x)" by (rule claim_with_frame [OF inv c])
  qed
  show ?thesis by (rule exI [of _ cs], rule exI [of _ d']) (use ok inv' fit' dist own none keep in blast)
qed

lemma complete_lands:
  assumes inv: "db_inv d" and fit: "claimable_from T q d" and h: "holds_row d q w c"
  shows "\<exists>d'. completeJob now (token_of w c) d = Inr ([c_id c], d')
    \<and> db_inv d' \<and> claimable_from T q d'
    \<and> jobs_in d' q Available = jobs_in d q Available \<and> jobs_in d q Running = Suc (jobs_in d' q Running)
    \<and> jobs_in d' q Succeeded = Suc (jobs_in d q Succeeded)
    \<and> (\<forall>q' w' x. holds_row d q' w' x \<and> c_id x \<noteq> c_id c \<longrightarrow> holds_row d' q' w' x)"
proof -
  from h obtain j where at: "job_at d (f_id (token_of w c)) = Some j" and own: "owns (token_of w c) j"
    and q: "j_queue j = q" by (auto simp: holds_row_def token_of_def)
  from completeJob_lands [OF inv at own] obtain d' where
    ok: "completeJob now (token_of w c) d = Inr ([c_id c], d')"
    and rep: "reported (token_of w c) (complete_row now) d d'" by (auto simp: token_of_def)
  from ok obtain rs where u: "update_jobs (owns (token_of w c)) (complete_row now) d = Inr (rs, d')"
    by (auto simp: completeJob_def returning_Inr)
  have fit': "claimable_from T q d'"
    using fit by (auto simp: claimable_from_def update_jobs_InrD(2) [OF u] queue_paused_def set_upd_where complete_row_def)
  have keep: "holds_row d' q' w' x" if "holds_row d q' w' x" "c_id x \<noteq> c_id c" for q' w' x
    by (rule holds_row_frame [OF that(1)]) (use rep that(2) in \<open>simp add: reported_def token_of_def\<close>)
  show ?thesis
    by (rule exI [of _ d'])
      (use ok rep fit' keep complete_counts [OF inv ok at q] in \<open>auto simp: reported_def\<close>)
qed

subsection \<open>One step\<close>

lemma bench_inv_simp:
  "bench_inv r T n m (ws, s) \<longleftrightarrow>
     db_inv (bn_db s) \<and> claimable_from T (br_queue r) (bn_db s)
     \<and> (\<forall>i < length ws. worker_ok r i (ws ! i) s)
     \<and> over_workers (length \<circ> rows_of) ws = jobs_in (bn_db s) (br_queue r) Running
     \<and> jobs_in (bn_db s) (br_queue r) Succeeded = m + bn_drained s + over_workers completed_of ws
     \<and> jobs_in (bn_db s) (br_queue r) Available + jobs_in (bn_db s) (br_queue r) Running
         + jobs_in (bn_db s) (br_queue r) Succeeded = n + m
     \<and> bn_batchTotal s = bn_drained s + over_workers batch_of ws
     \<and> length (bn_waitDurations s) = bn_batchTotal s
     \<and> length (bn_claimDurations s) = bn_batches s + bn_emptyClaims s
     \<and> (bn_done s \<longrightarrow> jobs_in (bn_db s) (br_queue r) Available = 0 \<and> 0 < bn_emptyClaims s)"
  by (simp add: bench_inv_def)

text \<open>
  A step of worker \<open>i\<close> from the program counter \<open>pc\<close>: its own state stays fit, the others keep theirs, and
  the sums over_workers the workers change by its share.
\<close>

lemma bench_inv_step:
  assumes inv: "bench_inv r T n m (ws, s)" and i: "i < length ws"
    and db: "db_inv (bn_db s')" "claimable_from T (br_queue r) (bn_db s')"
    and own: "worker_ok r i pc s'"
    and others: "\<And>k. k < length ws \<Longrightarrow> k \<noteq> i \<Longrightarrow> worker_ok r k (ws ! k) s'"
    and run: "jobs_in (bn_db s') (br_queue r) Running + length (rows_of (ws ! i))
      = jobs_in (bn_db s) (br_queue r) Running + length (rows_of pc)"
    and suc: "jobs_in (bn_db s') (br_queue r) Succeeded + bn_drained s + completed_of (ws ! i)
      = jobs_in (bn_db s) (br_queue r) Succeeded + bn_drained s' + completed_of pc"
    and tot: "jobs_in (bn_db s') (br_queue r) Available + jobs_in (bn_db s') (br_queue r) Running
         + jobs_in (bn_db s') (br_queue r) Succeeded = n + m"
    and bat: "bn_batchTotal s' + bn_drained s + batch_of (ws ! i) = bn_batchTotal s + bn_drained s' + batch_of pc"
    and len: "length (bn_waitDurations s') = bn_batchTotal s'"
      "length (bn_claimDurations s') = bn_batches s' + bn_emptyClaims s'"
    and fin: "bn_done s' \<Longrightarrow> jobs_in (bn_db s') (br_queue r) Available = 0 \<and> 0 < bn_emptyClaims s'"
  shows "bench_inv r T n m (ws[i := pc], s')"
proof -
  have w: "worker_ok r k (ws[i := pc] ! k) s'" if "k < length ws" for k
    using own others [OF that] i by (cases "k = i") simp_all
  note u = over_update [OF i]
  from inv have old: "over_workers (length \<circ> rows_of) ws = jobs_in (bn_db s) (br_queue r) Running"
    "jobs_in (bn_db s) (br_queue r) Succeeded = m + bn_drained s + over_workers completed_of ws"
    "bn_batchTotal s = bn_drained s + over_workers batch_of ws"
    by (simp_all add: bench_inv_simp)
  have "over_workers (length \<circ> rows_of) (ws[i := pc]) = jobs_in (bn_db s') (br_queue r) Running"
    using u [of "length \<circ> rows_of" pc] old(1) run by simp
  moreover have "jobs_in (bn_db s') (br_queue r) Succeeded = m + bn_drained s' + over_workers completed_of (ws[i := pc])"
    using u [of completed_of pc] old(2) suc by linarith
  moreover have "bn_batchTotal s' = bn_drained s' + over_workers batch_of (ws[i := pc])"
    using u [of batch_of pc] old(3) bat by linarith
  ultimately show ?thesis
    using db w tot len fin by (simp add: bench_inv_simp)
qed

lemma budget_step:
  assumes "i < length ws" and "5 * jobs_in (bn_db s') (br_queue r) Available + steps_of pc
      < 5 * jobs_in (bn_db s) (br_queue r) Available + steps_of (ws ! i)"
  shows "bench_budget r (ws[i := pc], s') < bench_budget r (ws, s)"
  using over_update [OF assms(1), of steps_of pc] assms(2) by (simp add: bench_budget_def)

text \<open>A worker keeps its state when the database keeps its rows.\<close>

lemma worker_ok_frame:
  assumes "worker_ok r i pc s" and "\<And>c. c \<in> set (rows_of pc) \<Longrightarrow>
      holds_row (bn_db s) (br_queue r) (bench_worker r i) c \<Longrightarrow> holds_row (bn_db s') (br_queue r) (bench_worker r i) c"
    and "jobs_in (bn_db s') (br_queue r) Available \<le> jobs_in (bn_db s) (br_queue r) Available"
    and "bn_done s \<Longrightarrow> bn_done s'"
  shows "worker_ok r i pc s'"
  using assms by (cases pc) (auto simp: worker_ok_def list_all_iff)

lemma worker_ok_same:
  "worker_ok r i pc s \<Longrightarrow> bn_db s' = bn_db s \<Longrightarrow> (bn_done s \<Longrightarrow> bn_done s') \<Longrightarrow> worker_ok r i pc s'"
  by (rule worker_ok_frame [of r i pc s]) simp_all

text \<open>What a step must achieve.\<close>

definition good_step :: "bench_run \<Rightarrow> instant \<Rightarrow> nat \<Rightarrow> nat \<Rightarrow> nat \<Rightarrow> bench_pc list \<Rightarrow> bench \<Rightarrow> bench_pc \<times> bench \<Rightarrow> bool" where
  "good_step r T n m i ws s p \<longleftrightarrow> (case p of (pc, s') \<Rightarrow>
     bench_inv r T n m (ws[i := pc], s') \<and> bench_budget r (ws[i := pc], s') < bench_budget r (ws, s))"

lemma good_step_claim:
  assumes inv: "bench_inv r T n m (ws, s)" and i: "i < length ws" and pc: "ws ! i = Asking"
    and e: "bench_event_ok T e" "be_worker e = i" and b: "0 < br_batch r"
  shows "good_step r T n m i ws s (bench_work r e Asking s)"
proof -
  let ?q = "br_queue r"
  let ?p = "\<lparr>cp_queue = ?q, cp_limit = br_batch r, cp_workerId = bench_worker r i\<rparr>"
  from inv have I: "db_inv (bn_db s)" "claimable_from T ?q (bn_db s)" by (simp_all add: bench_inv_simp)
  from e have t: "T \<le> be_now e" and held: "skipped (lock_of (br_mode r)) (be_held e) = {}"
    by (simp_all add: bench_event_ok_def skipped_def)
  from claim_lands [OF I t b, of "bench_worker r i"] obtain cs d' where
    c: "claimJobs (be_now e) {} ?p (bn_db s) = Inr (cs, d')"
    and D: "db_inv d'" "claimable_from T ?q d'" "distinct (map c_id cs)"
      "list_all (holds_row d' ?q (bench_worker r i)) cs" "cs = [] \<longrightarrow> jobs_in d' ?q Available = 0"
      "\<forall>q' w' c. holds_row (bn_db s) q' w' c \<longrightarrow> holds_row d' q' w' c" by (elim exE conjE) (rule that)
  define s' where "s' = s\<lparr>bn_db := d'\<rparr>"
  have w: "bench_work r e Asking s = (Got_rows cs, s')"
    using c e(2) by (simp add: bench_work_def bench_claim_is held query_def s'_def)
  note K = claim_counts [OF I(1) c, of ?q, simplified]
  have "bench_inv r T n m (ws[i := Got_rows cs], s')"
  proof (rule bench_inv_step [OF inv i])
    show "worker_ok r i (Got_rows cs) s'" using D by (simp add: worker_ok_def s'_def)
    show "worker_ok r k (ws ! k) s'" if "k < length ws" "k \<noteq> i" for k
      by (rule worker_ok_frame [of r k "ws ! k" s]) (use inv that D K in \<open>auto simp: bench_inv_simp s'_def\<close>)
  qed (use D K pc inv in \<open>auto simp: s'_def bench_inv_simp pc_defs\<close>)
  moreover have "bench_budget r (ws[i := Got_rows cs], s') < bench_budget r (ws, s)"
    by (rule budget_step [OF i]) (use K pc in \<open>simp add: s'_def pc_defs\<close>)
  ultimately show ?thesis by (simp add: good_step_def w)
qed

lemma good_step_complete:
  assumes inv: "bench_inv r T n m (ws, s)" and i: "i < length ws" and pc: "ws ! i = Completing (c # cs) k"
    and e: "be_worker e = i"
  shows "good_step r T n m i ws s (bench_work r e (Completing (c # cs) k) s)"
proof -
  let ?q = "br_queue r"
  from inv have I: "db_inv (bn_db s)" "claimable_from T ?q (bn_db s)" by (simp_all add: bench_inv_simp)
  have "worker_ok r i (Completing (c # cs) k) s" using inv i pc by (force simp: bench_inv_simp)
  then have W: "holds_row (bn_db s) ?q (bench_worker r i) c" "c_id c \<notin> c_id ` set cs" "distinct (map c_id cs)"
    "\<forall>x \<in> set cs. holds_row (bn_db s) ?q (bench_worker r i) x" "Suc (length cs) \<le> k"
    by (simp_all add: worker_ok_def list_all_iff)
  from complete_lands [OF I W(1), of "be_now e"] obtain d' where
    c: "completeJob (be_now e) (token_of (bench_worker r i) c) (bn_db s) = Inr ([c_id c], d')"
    and D: "db_inv d'" "claimable_from T ?q d'" "jobs_in d' ?q Available = jobs_in (bn_db s) ?q Available"
      "jobs_in (bn_db s) ?q Running = Suc (jobs_in d' ?q Running)"
      "jobs_in d' ?q Succeeded = Suc (jobs_in (bn_db s) ?q Succeeded)"
      "\<forall>q' w' x. holds_row (bn_db s) q' w' x \<and> c_id x \<noteq> c_id c \<longrightarrow> holds_row d' q' w' x"
    by (elim exE conjE) (rule that)
  define s' where "s' = s\<lparr>bn_db := d'\<rparr>"
  have w: "bench_work r e (Completing (c # cs) k) s = (Completing cs k, s')"
    using c e by (simp add: bench_work_def query_def s'_def)
  have "bench_inv r T n m (ws[i := Completing cs k], s')"
  proof (rule bench_inv_step [OF inv i])
    show "worker_ok r i (Completing cs k) s'"
    proof -
      have "\<forall>x \<in> set cs. c_id x \<noteq> c_id c" using W(2) by (metis imageI)
      with W D(6) show ?thesis by (simp add: worker_ok_def list_all_iff s'_def)
    qed
    show "worker_ok r l (ws ! l) s'" if l: "l < length ws" "l \<noteq> i" for l
    proof (rule worker_ok_frame)
      show "worker_ok r l (ws ! l) s" using inv l by (simp add: bench_inv_simp)
      show "holds_row (bn_db s') ?q (bench_worker r l) x" if "holds_row (bn_db s) ?q (bench_worker r l) x" for x
        using holds_row_unique [OF that W(1)] that l D(6) by (auto simp: bench_worker_inj s'_def)
    qed (simp_all add: s'_def D)
  qed (use D W(5) pc inv in \<open>auto simp: s'_def bench_inv_simp pc_defs\<close>)
  moreover have "bench_budget r (ws[i := Completing cs k], s') < bench_budget r (ws, s)"
    by (rule budget_step [OF i]) (use D pc in \<open>simp add: s'_def pc_defs\<close>)
  ultimately show ?thesis by (simp add: good_step_def w)
qed

lemma good_step_local:
  assumes inv: "bench_inv r T n m (ws, s)" and i: "i < length ws" and pc: "ws ! i = pc"
    and e: "be_worker e = i" and kind: "pc = At_head \<or> (\<exists>rows. pc = Got_rows rows) \<or> (\<exists>k. pc = Completing [] k)"
  shows "good_step r T n m i ws s (bench_work r e pc s)"
proof -
  have W: "worker_ok r i pc s" using inv i pc by (auto simp: bench_inv_simp)
  obtain pc' s' where w: "bench_work r e pc s = (pc', s')" by fastforce
  have db: "bn_db s' = bn_db s" and don: "bn_done s \<Longrightarrow> bn_done s'"
    using kind w by (auto simp: bench_work_def bench_answer_def Let_def split: if_splits)
  have own: "worker_ok r i pc' s'"
    using kind w W inv by (auto simp: bench_work_def bench_answer_def Let_def worker_ok_def split: if_splits)
  have "bench_inv r T n m (ws[i := pc'], s')"
  proof (rule bench_inv_step [OF inv i _ _ own])
    show "worker_ok r k (ws ! k) s'" if "k < length ws" "k \<noteq> i" for k
      by (rule worker_ok_same [of r k "ws ! k" s]) (use inv that db don in \<open>auto simp: bench_inv_simp\<close>)
  qed (use kind w W inv pc in \<open>auto simp: bench_work_def bench_answer_def Let_def bench_inv_simp pc_defs worker_ok_def
      split: if_splits\<close>)
  moreover have "steps_of pc' < steps_of pc"
    using kind w by (auto simp: bench_work_def bench_answer_def Let_def pc_defs neq_Nil_conv split: if_splits)
  then have "bench_budget r (ws[i := pc'], s') < bench_budget r (ws, s)"
    by (intro budget_step [OF i]) (simp add: db pc)
  ultimately show ?thesis by (simp add: good_step_def w)
qed

lemma bench_step_good:
  assumes inv: "bench_inv r T n m (ws, s)" and i: "be_worker e < length ws" and e: "bench_event_ok T e"
    and b: "0 < br_batch r" and live: "ws ! be_worker e \<noteq> Worker_done"
  shows "bench_inv r T n m (bench_step r e (ws, s)) \<and> bench_budget r (bench_step r e (ws, s)) < bench_budget r (ws, s)"
proof -
  let ?i = "be_worker e"
  have "ws ! ?i \<noteq> Worker_crashed" using inv i by (fastforce simp: bench_inv_simp worker_ok_def)
  with live consider "ws ! ?i = Asking" | c cs k where "ws ! ?i = Completing (c # cs) k"
    | "ws ! ?i = At_head \<or> (\<exists>rows. ws ! ?i = Got_rows rows) \<or> (\<exists>k. ws ! ?i = Completing [] k)"
  proof (cases "ws ! ?i")
    case (Completing rows k)
    then show ?thesis using that by (cases rows) blast+
  qed blast+
  then have "good_step r T n m ?i ws s (bench_work r e (ws ! ?i) s)"
  proof cases
    case 1
    with good_step_claim [OF inv i 1 e refl b] show ?thesis by simp
  next
    case 2
    with good_step_complete [OF inv i 2 refl] show ?thesis by simp
  next
    case 3
    show ?thesis by (rule good_step_local [OF inv i refl refl 3])
  qed
  then show ?thesis using i by (auto simp: good_step_def bench_step_def split: prod.splits)
qed

text \<open>A worker that returned, and a number nobody has, change nothing.\<close>

lemma bench_step_idle:
  "length ws \<le> be_worker e \<or> ws ! be_worker e = Worker_done \<Longrightarrow> bench_step r e (ws, s) = (ws, s)"
  by (auto simp: bench_step_def bench_work_def Let_def list_update_same_conv)

lemma bench_step_inv:
  assumes "bench_inv r T n m st" and "bench_event_ok T e" and "0 < br_batch r"
  shows "bench_inv r T n m (bench_step r e st)" "bench_budget r (bench_step r e st) \<le> bench_budget r st"
    "length (fst (bench_step r e st)) = length (fst st)"
proof -
  obtain ws s where st: "st = (ws, s)" by fastforce
  show "length (fst (bench_step r e st)) = length (fst st)"
    by (simp add: bench_step_def st Let_def split: prod.splits)
  have "bench_inv r T n m (bench_step r e st) \<and> bench_budget r (bench_step r e st) \<le> bench_budget r st"
  proof (cases "length ws \<le> be_worker e \<or> ws ! be_worker e = Worker_done")
    case True
    then show ?thesis using assms(1) bench_step_idle [OF True, of r s] by (simp add: st)
  next
    case False
    with bench_step_good [of r T n m ws s e] assms show ?thesis by (auto simp: st)
  qed
  then show "bench_inv r T n m (bench_step r e st)" "bench_budget r (bench_step r e st) \<le> bench_budget r st" by simp_all
qed

lemma bench_run_all:
  assumes "bench_inv r T n m st" and "\<forall>e \<in> set es. bench_event_ok T e" and "0 < br_batch r"
  shows "bench_inv r T n m (fold (bench_step r) es st) \<and> bench_budget r (fold (bench_step r) es st) \<le> bench_budget r st
    \<and> length (fst (fold (bench_step r) es st)) = length (fst st)"
  using assms
proof (induction es arbitrary: st)
  case (Cons e es)
  from Cons.prems(2) have ok: "bench_event_ok T e" "\<forall>e \<in> set es. bench_event_ok T e" by simp_all
  note s = bench_step_inv [OF Cons.prems(1) ok(1) Cons.prems(3)]
  from Cons.IH [OF s(1) ok(2) Cons.prems(3)] s(2,3) show ?case by simp
qed simp

lemmas bench_run_inv = bench_run_all [THEN conjunct1] bench_run_all [THEN conjunct2, THEN conjunct1]
  bench_run_all [THEN conjunct2, THEN conjunct2]

subsection \<open>All return\<close>

text \<open>A stretch of the run in which every worker gets to take a step.\<close>

definition full_turn :: "bench_run \<Rightarrow> bench_event list \<Rightarrow> bool" where
  "full_turn r es \<longleftrightarrow> (\<forall>i < br_concurrency r. i \<in> be_worker ` set es)"

lemma turn_progress:
  assumes "bench_inv r T n m (ws, s)" and "\<forall>e \<in> set es. bench_event_ok T e" and "0 < br_batch r"
    and "i < length ws" and "ws ! i \<noteq> Worker_done" and "i \<in> be_worker ` set es"
  shows "bench_budget r (fold (bench_step r) es (ws, s)) < bench_budget r (ws, s)"
  using assms
proof (induction es arbitrary: ws s)
  case (Cons e es)
  note P = Cons.prems
  obtain ws' s' where st: "bench_step r e (ws, s) = (ws', s')" by fastforce
  from P(2) have ok: "bench_event_ok T e" "\<forall>e \<in> set es. bench_event_ok T e" by simp_all
  note S = bench_step_inv [OF P(1) ok(1) P(3), unfolded st]
  note R = bench_run_inv [OF S(1) ok(2) P(3)]
  show ?case
  proof (cases "be_worker e < length ws \<and> ws ! be_worker e \<noteq> Worker_done")
    case True
    with bench_step_good [OF P(1) _ ok(1) P(3)] have "bench_budget r (ws', s') < bench_budget r (ws, s)" by (simp add: st)
    with R(2) show ?thesis by (simp add: st)
  next
    case False
    then have "bench_step r e (ws, s) = (ws, s)" by (intro bench_step_idle) auto
    moreover from False P(4-6) have "i \<in> be_worker ` set es" by auto
    ultimately show ?thesis using Cons.IH [OF P(1) ok(2) P(3-5)] by simp
  qed
qed simp

lemma turns_suffice:
  assumes "bench_inv r T n m (ws, s)" and "\<forall>es \<in> set ess. \<forall>e \<in> set es. bench_event_ok T e" and "0 < br_batch r"
    and "length ws = br_concurrency r" and "\<forall>es \<in> set ess. full_turn r es" and "bench_budget r (ws, s) \<le> length ess"
  shows "\<forall>pc \<in> set (fst (fold (bench_step r) (concat ess) (ws, s))). pc = Worker_done"
  using assms
proof (induction ess arbitrary: ws s)
  case Nil
  then have "over_workers steps_of ws = 0" by (simp add: bench_budget_def)
  then have z: "steps_of pc = 0" if "pc \<in> set ws" for pc using that by (simp add: over_workers_def)
  have "pc = Worker_done" if "pc \<in> set ws" for pc
  proof -
    from that obtain i where "i < length ws" "ws ! i = pc" by (auto simp: in_set_conv_nth)
    with Nil.prems(1) have "worker_ok r i pc s" by (auto simp: bench_inv_simp)
    then have "pc \<noteq> Worker_crashed" by (auto simp: worker_ok_def)
    with z [OF that] show ?thesis by (cases pc) (simp_all add: steps_of_def)
  qed
  then show ?case by simp
next
  case (Cons es ess)
  note P = Cons.prems
  obtain ws' s' where st: "fold (bench_step r) es (ws, s) = (ws', s')" by fastforce
  from P(2) have ok: "\<forall>e \<in> set es. bench_event_ok T e" by simp
  note R = bench_run_inv [OF P(1) ok P(3), unfolded st]
  show ?case
  proof (cases "\<forall>pc \<in> set ws. pc = Worker_done")
    case True
    have idle: "fold (bench_step r) xs (ws, s) = (ws, s)" for xs
    proof (induction xs)
      case (Cons x xs)
      have "length ws \<le> be_worker x \<or> ws ! be_worker x = Worker_done"
        using True by (metis not_le_imp_less nth_mem)
      with Cons show ?case by (simp add: bench_step_idle)
    qed simp
    then show ?thesis using True by (simp only: fst_conv)
  next
    case False
    then obtain i where i: "i < length ws" "ws ! i \<noteq> Worker_done" by (auto simp: in_set_conv_nth)
    with P(4,5) have "i \<in> be_worker ` set es" by (simp add: full_turn_def)
    from turn_progress [OF P(1) ok P(3) i this] have "bench_budget r (ws', s') \<le> length ess"
      using P(6) by (simp add: st)
    with Cons.IH [of ws' s'] R P show ?thesis by (simp add: st)
  qed
qed

subsection \<open>A run\<close>

lemma bench_start_inv:
  assumes "db_inv d" and "claimable_from T (br_queue r) d" and "jobs_in d (br_queue r) Running = 0"
  shows "bench_inv r T (jobs_in d (br_queue r) Available) (jobs_in d (br_queue r) Succeeded) (bench_start r d)"
  using assms by (simp add: bench_start_def bench_inv_simp new_bench_def worker_ok_def over_workers_def comp_def pc_defs
      sum_list_replicate)

lemma start_budget:
  "bench_budget r (bench_start r d) = 5 * jobs_in d (br_queue r) Available + 3 * br_concurrency r"
  by (simp add: bench_start_def bench_budget_def new_bench_def over_workers_def steps_of_def sum_list_replicate)

lemma bench_returns:
  assumes "db_inv d" and "claimable_from T (br_queue r) d" and "jobs_in d (br_queue r) Running = 0"
    and "0 < br_batch r" and "\<forall>es \<in> set ess. full_turn r es \<and> (\<forall>e \<in> set es. bench_event_ok T e)"
    and "5 * jobs_in d (br_queue r) Available + 3 * br_concurrency r \<le> length ess"
  shows "\<forall>pc \<in> set (fst (bench_drain r (concat ess) d)). pc = Worker_done"
  using turns_suffice [of r T _ _ "fst (bench_start r d)" "snd (bench_start r d)" ess] bench_start_inv [OF assms(1-3)]
    assms(4-6) start_budget [of r d]
  by (simp add: bench_drain_def bench_start_def)

text \<open>Whatever the interleaving, once all have returned every job is completed and counted once.\<close>

lemma bench_counts:
  assumes "db_inv d" and "claimable_from T (br_queue r) d" and "jobs_in d (br_queue r) Running = 0"
    and "0 < br_batch r" and "0 < br_concurrency r" and "\<forall>e \<in> set es. bench_event_ok T e"
    and "bench_drain r es d = (ws, s)" and "\<forall>pc \<in> set ws. pc = Worker_done"
  shows "bn_drained s = jobs_in d (br_queue r) Available \<and> bn_batchTotal s = bn_drained s
    \<and> jobs_in (bn_db s) (br_queue r) Succeeded = jobs_in d (br_queue r) Succeeded + jobs_in d (br_queue r) Available
    \<and> jobs_in (bn_db s) (br_queue r) Available = 0 \<and> jobs_in (bn_db s) (br_queue r) Running = 0
    \<and> length (bn_waitDurations s) = bn_drained s \<and> db_inv (bn_db s) \<and> 0 < bn_emptyClaims s
    \<and> length (bn_claimDurations s) = bn_batches s + bn_emptyClaims s"
proof -
  note R = bench_run_inv [OF bench_start_inv [OF assms(1-3)] assms(6,4), folded bench_drain_def, unfolded assms(7)]
  have n: "length ws = br_concurrency r" using R(3) by (simp add: bench_start_def)
  with assms(5,8) have "worker_ok r 0 Worker_done s" using R(1) by (metis bench_inv_simp nth_mem)
  then have "bn_done s" by (simp add: worker_ok_def)
  moreover have "over_workers g ws = 0" if "g Worker_done = 0" for g
    using that assms(8) by (intro over_all) auto
  ultimately show ?thesis using R(1) by (simp add: bench_inv_simp pc_defs)
qed

subsection \<open>Seeding\<close>

text \<open>The state after so many rows of a queue have been added, each available at once.\<close>

definition seeded_with :: "string \<Rightarrow> instant \<Rightarrow> nat \<Rightarrow> db \<Rightarrow> db \<Rightarrow> bool" where
  "seeded_with q T n d d' \<longleftrightarrow> db_inv d' \<and> db_config d' = db_config d
     \<and> (\<exists>js. db_jobs d' = db_jobs d @ js \<and> length js = n
          \<and> list_all (\<lambda>j. j_queue j = q \<and> j_state j = Available \<and> j_run_at j \<le> T \<and> j_attempt j < j_max_attempts j) js)"

lemma seeded_none: "db_inv d \<Longrightarrow> seeded_with q T 0 d d"
  by (simp add: seeded_with_def)

lemma seeded_trans: "seeded_with q T m d d1 \<Longrightarrow> seeded_with q T n d1 d2 \<Longrightarrow> seeded_with q T (m + n) d d2"
  by (auto simp: seeded_with_def)

lemma bench_rows_inserted:
  assumes "db_inv d" and "now \<le> T"
  shows "\<exists>js d'. insert_rows now (map (bench_row q filler) is) d = Inr (js, d') \<and> seeded_with q T (length is) d d'"
proof -
  let ?rows = "map (bench_row q filler) is"
  have "i mod 3 \<le> 32767" for i :: nat by presburger
  then have "\<forall>r \<in> set ?rows. plain_row now r"
    by (simp add: plain_row_def admissible_def Let_def new_job_def bench_row_def is_smallint_def is_integer_def job_checks_def)
  from plain_rows_inserted [OF assms(1) this] obtain js d' where
    ins: "insert_rows now ?rows d = Inr (js, d')" and D: "db_inv d'" "db_config d' = db_config d"
      "db_jobs d' = db_jobs d @ js" and js: "list_all2 (\<lambda>r j. \<exists>i. j = new_job now r i) ?rows js" by blast
  have "list_all (\<lambda>j. j_queue j = q \<and> j_state j = Available \<and> j_run_at j \<le> T \<and> j_attempt j < j_max_attempts j) js"
    by (rule list_all_of_rows [OF js]) (use assms(2) in \<open>auto simp: new_job_def bench_row_def\<close>)
  moreover have "length js = length is" using js by (simp add: list_all2_lengthD [symmetric])
  ultimately show ?thesis using ins D by (auto simp: seeded_with_def)
qed

lemma seed_chunks_store:
  assumes "db_inv d" and "\<forall>k. t k \<le> T"
  shows "\<exists>d'. seed_chunks t q count filler done d = (Inr (), d') \<and> seeded_with q T (count - done) d d'"
  using assms
proof (induction t q count filler "done" d rule: seed_chunks.induct)
  case (1 t q count filler "done" d)
  show ?case
  proof (cases "done < count")
    case False
    then show ?thesis using 1(2) by (simp add: seed_chunks.simps [of t q count filler "done"] seeded_none)
  next
    case True
    let ?n = "min CHUNK (count - done)"
    from bench_rows_inserted [OF 1(2), of "t done" T q filler "[1..<Suc ?n]"] 1(3) obtain js d1 where
      c: "seed_chunk (t done) q filler ?n d = Inr (js, d1)" and s: "seeded_with q T ?n d d1"
      by (auto simp: seed_chunk_def simp del: upt_Suc)
    from s have "db_inv d1" by (simp add: seeded_with_def)
    with 1(1) [OF True _ refl, of js d1] c 1(3) obtain d' where
      d': "seed_chunks t q count filler (done + CHUNK) d1 = (Inr (), d')"
        "seeded_with q T (count - (done + CHUNK)) d1 d'" by (auto simp: query_def)
    have "?n + (count - (done + CHUNK)) = count - done" by simp
    with seeded_trans [OF s d'(2)] have "seeded_with q T (count - done) d d'" by simp
    with True c d'(1) show ?thesis by (simp add: seed_chunks.simps [of t q count filler "done"] query_def)
  qed
qed

lemma seeded_claimable:
  assumes "seeded_with q T n d d'" and "\<forall>j \<in> set (db_jobs d). j_queue j \<noteq> q" and "\<not> queue_paused d q"
  shows "claimable_from T q d'" "jobs_in d' q Available = n" "s \<noteq> Available \<Longrightarrow> jobs_in d' q s = 0"
proof -
  from assms(1) obtain js where js: "db_jobs d' = db_jobs d @ js" "length js = n" "db_config d' = db_config d"
    "list_all (\<lambda>j. j_queue j = q \<and> j_state j = Available \<and> j_run_at j \<le> T \<and> j_attempt j < j_max_attempts j) js"
    by (auto simp: seeded_with_def)
  then show "claimable_from T q d'" using assms(2,3) by (auto simp: claimable_from_def queue_paused_def list_all_iff)
  have "filter (\<lambda>j. j_queue j = q \<and> j_state j = Available) js = js"
    using js(4) by (auto simp: filter_id_conv list_all_iff)
  then show "jobs_in d' q Available = n" using assms(2) js by (simp add: jobs_in_def)
  show "jobs_in d' q s = 0" if "s \<noteq> Available"
    using that assms(2) js(1,4) by (auto simp: jobs_in_def filter_empty_conv list_all_iff)
qed

text \<open>Seeding, the run and the clearing after it.\<close>

lemma bench_run_whole:
  assumes "db_inv d" and "\<forall>j \<in> set (db_jobs d). j_queue j \<noteq> br_queue r" and "\<not> queue_paused d (br_queue r)"
    and "\<forall>k. t k \<le> T" and "0 < br_batch r" and "0 < br_concurrency r"
    and "\<forall>es \<in> set ess. full_turn r es \<and> (\<forall>e \<in> set es. bench_event_ok T e)"
    and "5 * count + 3 * br_concurrency r \<le> length ess"
  shows "\<exists>d1 s. seed_bench t (br_queue r) count payloadBytes d = (Inr (), d1)
    \<and> bench_drain r (concat ess) d1 = (replicate (br_concurrency r) Worker_done, s)
    \<and> bn_drained s = count \<and> bn_batchTotal s = count \<and> length (bn_waitDurations s) = count
    \<and> jobs_in (bn_db s) (br_queue r) Succeeded = count
    \<and> jobs_in (bn_db s) (br_queue r) Available = 0 \<and> jobs_in (bn_db s) (br_queue r) Running = 0
    \<and> 0 < bn_emptyClaims s \<and> length (bn_claimDurations s) = bn_batches s + bn_emptyClaims s"
proof -
  let ?q = "br_queue r"
  from seed_chunks_store [OF assms(1,4), of ?q count "replicate (payloadBytes - 20) CHR ''x''" 0] obtain d1 where
    s: "seed_bench t ?q count payloadBytes d = (Inr (), d1)" and w: "seeded_with ?q T count d d1"
    by (auto simp: seed_bench_def)
  note C = seeded_claimable [OF w assms(2,3)]
  from w have inv: "db_inv d1" by (simp add: seeded_with_def)
  obtain ws st where b: "bench_drain r (concat ess) d1 = (ws, st)" by fastforce
  have R: "\<forall>pc \<in> set ws. pc = Worker_done"
    using bench_returns [OF inv C(1) C(3) assms(5,7)] assms(8) by (simp add: C(2) b)
  have ok: "\<forall>e \<in> set (concat ess). bench_event_ok T e" using assms(7) by auto
  note F = bench_counts [OF inv C(1) C(3) assms(5,6) ok b R, simplified C(2) C(3) [of Succeeded, simplified]]
  have "length ws = br_concurrency r"
    using bench_run_inv(3) [OF bench_start_inv [OF inv C(1) C(3)] ok assms(5)] b
    by (simp add: bench_drain_def bench_start_def)
  with R have "ws = replicate (br_concurrency r) Worker_done" by (metis replicate_eqI)
  with s b F show ?thesis by simp
qed

lemma cleared_run: "clear_run q d = Inr (js, d') \<Longrightarrow> \<forall>j \<in> set (db_jobs d'). j_queue j \<noteq> q"
  by (auto simp: clear_run_def delete_jobs_def)

lemma clearing_queues: "db_jobs (commit clear_bench d) = filter (\<lambda>j. \<not> like ''bench_%'' (j_queue j)) (db_jobs d)"
  by (simp add: commit_def clear_bench_def delete_jobs_def)

text \<open>The pattern sweeps a queue of another name too.\<close>

lemma foreign_queue_swept: "like ''bench_%'' ''benchmarks''"
  by (simp add: upt_rec)

subsection \<open>The peak\<close>

lemma peak_is_best:
  assumes "peak mode rs = Some b"
  shows "b \<in> set rs \<and> rr_lockMode b = mode \<and> (\<forall>r \<in> set rs. rr_lockMode r = mode \<longrightarrow> rr_jobsPerSecond r \<le> rr_jobsPerSecond b)"
proof -
  let ?f = "\<lambda>r best. if rr_jobsPerSecond best < rr_jobsPerSecond r then r else best"
  have best: "fold ?f xs x \<in> set (x # xs)
      \<and> (\<forall>y \<in> set (x # xs). rr_jobsPerSecond y \<le> rr_jobsPerSecond (fold ?f xs x))" for xs and x :: run_result
  proof (induction xs arbitrary: x)
    case (Cons y ys)
    from Cons.IH [of "?f y x"] show ?case by (auto split: if_splits intro: order_trans)
  qed simp
  from assms obtain x xs where f: "filter (\<lambda>r. rr_lockMode r = mode) rs = x # xs" and b: "b = fold ?f xs x"
    by (auto simp: peak_def split: list.splits)
  have s: "r \<in> set (x # xs) \<longleftrightarrow> r \<in> set rs \<and> rr_lockMode r = mode" for r
    unfolding f [symmetric] by auto
  have "b \<in> set (x # xs)" "\<forall>y \<in> set (x # xs). rr_jobsPerSecond y \<le> rr_jobsPerSecond b"
    using best [of xs x] unfolding b by (rule conjunct1, rule conjunct2)
  with s show ?thesis by blast
qed

end
