(* ===== verification/Durability_Run.thy ===== *)
theory Durability_Run
  imports Durability Fresh_Batch
begin

text \<open>
  The main program of bench/chaos/durability.ts: a batch of jobs, rounds in which a worker is killed
  while it drains the queue, the drain of what is left, and the checks. The moment of each kill and
  the times of all statements are given. Creating and dropping the tables of the harness and what
  it prints are not modelled.
\<close>

definition KILL_ROUNDS :: nat where
  "KILL_ROUNDS = 3"

definition durability_lease :: int where
  "durability_lease = 2"

definition MAX_ATTEMPTS :: int where
  "MAX_ATTEMPTS = 20"

definition durability_options :: enqueue_options where
  "durability_options = \<lparr>o_priority = None, o_runAt = None, o_delaySeconds = None,
     o_maxAttempts = Some MAX_ATTEMPTS, o_leaseSeconds = Some durability_lease, o_idempotencyKey = None,
     o_uniqueKey = None, o_metadata = None, o_traceContext = None\<rparr>"

definition durability_items :: "batch_item list" where
  "durability_items = map (\<lambda>i. \<lparr>bi_type = ''chaos.durable'', bi_payload = JObj [(''i'', JNum (show_nat i))],
     bi_options = durability_options\<rparr>) [0..<TOTAL_JOBS]"

definition durability_reset :: "chaos \<Rightarrow> chaos" where
  "durability_reset s = s\<lparr>ch_db := commit (delete_jobs (\<lambda>j. j_queue j = DURABILITY_QUEUE)) (ch_db s),
     ch_execution := [], ch_effect := []\<rparr>"

text \<open>The process is spawned with these arguments; its own number is not looked at.\<close>

definition spawnDrainer :: "string \<Rightarrow> victim_args" where
  "spawnDrainer workerId =
     victim_parse [] [''--queue'', DURABILITY_QUEUE, ''--mode'', ''drain'', ''--worker-id'', workerId]"

text \<open>
  A round: the steps of the worker before its progress is read, and those until it is killed. Its check
  is that it made progress.
\<close>

type_synonym victim_steps = "(instant \<times> ident set) list"

definition run_steps :: "nat \<Rightarrow> victim_steps \<Rightarrow> harness \<Rightarrow> harness" where
  "run_steps k steps = fold (\<lambda>(now, locked). chaos_step (Runs k now locked)) steps"

definition kill_round :: "nat \<Rightarrow> victim_steps \<times> victim_steps \<Rightarrow> harness \<Rightarrow> bool \<times> harness" where
  "kill_round k steps h =
     (let before = terminalCount (ch_db (snd h));
          h1 = run_steps k (fst steps) (chaos_step (Spawn k (spawnDrainer (''drainer-'' @ show_nat k))) h);
          progressed = terminalCount (ch_db (snd h1));
          h2 = chaos_step (Killed k) (run_steps k (snd steps) h1)
      in (before < progressed, h2))"

fun kill_rounds :: "nat \<Rightarrow> (victim_steps \<times> victim_steps) list \<Rightarrow> harness \<Rightarrow> bool list \<times> harness" where
  "kill_rounds k [] h = ([], h)"
| "kill_rounds k (r # rs) h =
     (let (ok, h1) = kill_round k r h; (oks, h2) = kill_rounds (Suc k) rs h1 in (ok # oks, h2))"

definition redelivered :: "db \<Rightarrow> nat" where
  "redelivered d = length (filter (\<lambda>j. j_queue j = DURABILITY_QUEUE \<and> 1 < j_attempt j) (db_jobs d))"

text \<open>The final checks, in order.\<close>

definition durability_tally :: "chaos \<Rightarrow> bool list" where
  "durability_tally s =
     (let final = stateCounts (ch_db s)
      in [terminalCount (ch_db s) = TOTAL_JOBS,
          coalesce (final Running) 0 = 0,
          coalesce (final Available) 0 = 0,
          countEffects None s = TOTAL_JOBS,
          0 < redelivered (ch_db s),
          coalesce (final Dead) 0 = 0])"

definition durability_main ::
  "instant \<Rightarrow> (victim_steps \<times> victim_steps) list \<Rightarrow> (nat \<Rightarrow> instant) \<Rightarrow> nat \<Rightarrow> chaos
   \<Rightarrow> (fault + bool list) \<times> chaos" where
  "durability_main te rounds now budget s =
     (let s0 = durability_reset s
      in case enqueueBatch alone te te DURABILITY_QUEUE durability_items new_client (ch_db s0) of
           (Inl f, _, d) \<Rightarrow> (Inl f, s0\<lparr>ch_db := d\<rparr>)
         | (Inr results, _, d) \<Rightarrow>
             (case kill_rounds 1 rounds (no_processes, s0\<lparr>ch_db := d\<rparr>) of
                (progress, _, s1) \<Rightarrow>
                  (case drainRemaining now budget 0 s1 of
                     (Inl f, s2) \<Rightarrow> (Inl f, s2)
                   | (Inr _, s2) \<Rightarrow>
                       (Inr ((length results = TOTAL_JOBS) # progress @ durability_tally s2), s2))))"

subsection \<open>The batch\<close>

lemma show_nat_length: "length (show_nat n) \<le> Suc n"
proof (induction n rule: show_nat.induct)
  case (1 n)
  show ?case
  proof (cases "n < 10")
    case True
    then show ?thesis by (simp add: show_nat.simps [of n])
  next
    case False
    with 1 have "length (show_nat (n div 10)) \<le> Suc (n div 10)" by simp
    with False show ?thesis by (simp add: show_nat.simps [of n])
  qed
qed

lemma durability_names: "validateName DURABILITY_QUEUE = Inr ()" "validateName ''chaos.durable'' = Inr ()"
  by (simp_all add: validateName_def name_char_def byte_def DURABILITY_QUEUE_def)

definition fresh_durable :: "instant \<Rightarrow> job \<Rightarrow> bool" where
  "fresh_durable te j \<longleftrightarrow> j_queue j = DURABILITY_QUEUE \<and> j_state j = Available \<and> j_attempt j = 0
     \<and> j_max_attempts j = MAX_ATTEMPTS \<and> j_lease_seconds j = durability_lease \<and> j_run_at j = te"

lemma durability_batch:
  assumes "db_inv d"
  shows "\<exists>rs cl' js d'. enqueueBatch alone te te DURABILITY_QUEUE durability_items new_client d = (Inr rs, cl', d')
    \<and> length rs = TOTAL_JOBS \<and> db_inv d' \<and> db_config d' = db_config d \<and> db_jobs d' = db_jobs d @ js
    \<and> length js = TOTAL_JOBS \<and> list_all (fresh_durable te) js"
proof -
  have o: "durability_options = own_options MAX_ATTEMPTS durability_lease"
    by (simp add: durability_options_def own_options_def)
  have "length (stringify (JObj [(''i'', JNum (show_nat i))])) \<le> 262144" if "i < TOTAL_JOBS" for i
  proof -
    have "length (show_nat i) \<le> 150" using show_nat_length [of i] that by (simp add: TOTAL_JOBS_def)
    then show ?thesis by (simp add: quoted_def escape_char_def byte_def Let_def)
  qed
  then have items: "\<forall>it \<in> set durability_items. bi_options it = own_options MAX_ATTEMPTS durability_lease
      \<and> validateName (bi_type it) = Inr () \<and> length (stringify (bi_payload it)) \<le> df_maxPayloadBytes (cl_defaults new_client)"
    by (auto simp: durability_items_def o durability_names new_client_def DEFAULTS_def simp del: stringify.simps)
  have n: "length durability_items = TOTAL_JOBS" by (simp add: durability_items_def)
  from batch_stored [OF assms durability_names(1) items, of te te] obtain rs cl' js d' where
    R: "enqueueBatch alone te te DURABILITY_QUEUE durability_items new_client d = (Inr rs, cl', d')"
    "length rs = length durability_items" "db_inv d'" "db_config d' = db_config d" "db_jobs d' = db_jobs d @ js"
    and js: "list_all2 (\<lambda>it j. \<exists>i. j = new_job te (own_row DURABILITY_QUEUE MAX_ATTEMPTS durability_lease it) i)
      durability_items js"
    by (auto simp: n TOTAL_JOBS_def MAX_ATTEMPTS_def durability_lease_def is_integer_def)
  have "list_all (fresh_durable te) js"
    by (rule list_all_of_rows [OF js]) (simp add: fresh_durable_def new_job_def own_row_def)
  with R list_all2_lengthD [OF js] n show ?thesis by auto
qed

subsection \<open>The kill rounds\<close>

text \<open>
  While workers drain and die, a job of the queue waits for its first delivery, is being delivered
  the first time under a lease that ends before \<open>T\<close>, or has succeeded with its effect among \<open>E\<close>.
\<close>

definition durable_row :: "instant \<Rightarrow> ident set \<Rightarrow> job \<Rightarrow> bool" where
  "durable_row T E j \<longleftrightarrow> j_max_attempts j = MAX_ATTEMPTS \<and> j_lease_seconds j = durability_lease
     \<and> (j_state j = Available \<and> j_attempt j = 0 \<and> j_run_at j \<le> T
        \<or> j_state j = Running \<and> j_attempt j = 1 \<and> (\<exists>l. j_lease_expires_at j = Some l \<and> l < T)
        \<or> j_state j = Succeeded \<and> j_id j \<in> E)"

definition phase_db :: "instant \<Rightarrow> ident set \<Rightarrow> db \<Rightarrow> bool" where
  "phase_db T E d \<longleftrightarrow> db_inv d \<and> \<not> queue_paused d DURABILITY_QUEUE \<and> queue_size d = TOTAL_JOBS
     \<and> (\<forall>j \<in> set (db_jobs d). (j_queue j = DURABILITY_QUEUE \<longrightarrow> durable_row T E j)
          \<and> (j_state j = Running \<longrightarrow> j_queue j = DURABILITY_QUEUE))"

definition durable_ids :: "db \<Rightarrow> ident set" where
  "durable_ids d = set (map j_id (filter (\<lambda>j. j_queue j = DURABILITY_QUEUE) (db_jobs d)))"

primrec held_by :: "victim_pc \<Rightarrow> claimed_job list" where
  "held_by Looking = []"
| "held_by (Holding c) = [c]"
| "held_by (Recorded c) = [c]"
| "held_by (Applied c) = [c]"
| "held_by Hung = []"
| "held_by (Exited n) = []"

definition drainer_ok :: "chaos \<Rightarrow> victim_args \<Rightarrow> victim_pc \<Rightarrow> bool" where
  "drainer_ok s a pc \<longleftrightarrow> va_queue a = DURABILITY_QUEUE \<and> va_mode a = Drain
     \<and> c_id ` set (held_by pc) \<subseteq> durable_ids (ch_db s) \<and> (\<forall>c. pc = Applied c \<longrightarrow> c_id c \<in> set (ch_effect s))"

definition effects_fit :: "chaos \<Rightarrow> bool" where
  "effects_fit s \<longleftrightarrow> distinct (ch_effect s) \<and> set (ch_effect s) \<subseteq> durable_ids (ch_db s)"

definition in_phase :: "instant \<Rightarrow> harness \<Rightarrow> bool" where
  "in_phase T h \<longleftrightarrow> (case h of (procs, s) \<Rightarrow>
     phase_db T (set (ch_effect s)) (ch_db s) \<and> effects_fit s
     \<and> (\<forall>p r. procs p = Some r \<longrightarrow> drainer_ok s (pr_args r) (pr_pc r)))"

lemma phase_mono: "phase_db T E d \<Longrightarrow> E \<subseteq> E' \<Longrightarrow> phase_db T E' d"
  by (auto simp: phase_db_def durable_row_def)

lemma durable_ids_update:
  assumes "keeps_identity f"
  shows "durable_ids (d\<lparr>db_jobs := upd_where P f (db_jobs d)\<rparr>) = durable_ids d"
proof -
  have "map j_id (filter (\<lambda>j. j_queue j = DURABILITY_QUEUE) (upd_where P f js))
      = map j_id (filter (\<lambda>j. j_queue j = DURABILITY_QUEUE) js)" for js
    using keeps_identityD [OF assms] by (induction js) simp_all
  then show ?thesis by (simp add: durable_ids_def)
qed

lemma phase_update:
  assumes ok: "phase_db T E d" and u: "update_jobs P f d = Inr (rs, d')" and f: "keeps_identity f"
    and hit: "\<And>j. j \<in> set (db_jobs d) \<Longrightarrow> P j \<Longrightarrow> j_queue j = DURABILITY_QUEUE \<and> durable_row T E (f j)"
  shows "phase_db T E d' \<and> durable_ids d' = durable_ids d"
proof -
  note D = update_jobs_InrD(2) [OF u]
  from ok have "db_inv d" by (simp add: phase_db_def)
  from update_jobs_inv [OF this u f] have "db_inv d'" .
  moreover have "queue_size d' = queue_size d" by (simp add: D queue_size_update keeps_identityD [OF f])
  ultimately show ?thesis
    using ok hit by (auto simp: phase_db_def D durable_ids_update [OF f] queue_paused_def set_upd_where keeps_identityD [OF f])
qed

lemma victim_step_phase:
  assumes db: "phase_db T (set (ch_effect s)) (ch_db s)" and fit: "effects_fit s" and v: "drainer_ok s a pc"
    and t: "now + us_per_second * durability_lease < T" and st: "victim_step now locked a pc s = (pc', s')"
  shows "phase_db T (set (ch_effect s')) (ch_db s') \<and> effects_fit s' \<and> drainer_ok s' a pc'
    \<and> durable_ids (ch_db s') = durable_ids (ch_db s) \<and> set (ch_effect s) \<subseteq> set (ch_effect s')"
proof (cases pc)
  case Looking
  let ?p = "\<lparr>cp_queue = DURABILITY_QUEUE, cp_limit = 1, cp_workerId = va_workerId a\<rparr>"
  from v have a: "va_queue a = DURABILITY_QUEUE" "va_mode a = Drain" by (simp_all add: drainer_ok_def)
  from db have inv: "db_inv (ch_db s)" by (simp add: phase_db_def)
  show ?thesis
  proof (cases "claimJobs now locked ?p (ch_db s)")
    case (Inl e)
    then obtain f where "query (claimJobs now locked ?p) (ch_db s) = Inl f"
      by (cases "query (claimJobs now locked ?p) (ch_db s)") auto
    with Looking st a v db fit show ?thesis
      by (auto simp: victim_step_def victim_claims_def drainer_ok_def)
  next
    case (Inr x)
    then obtain cs d where c: "claimJobs now locked ?p (ch_db s) = Inr (cs, d)" by (cases x) simp
    then obtain rs where u: "claim_with claim_order now locked ?p (ch_db s) = Inr (rs, d)"
      by (auto simp: claimJobs_def returning_Inr)
    have "j_queue j = DURABILITY_QUEUE \<and> durable_row T (set (ch_effect s)) (claim_row now (va_workerId a) j)"
      if j: "j \<in> set (db_jobs (ch_db s))" "j_id j \<in> set (claim_candidates claim_order now locked ?p (ch_db s))" for j
      using candidates_eligible [OF inv j] db j(1) t
      by (auto simp: eligible_def phase_db_def durable_row_def claim_row_def)
    then have P: "phase_db T (set (ch_effect s)) d \<and> durable_ids d = durable_ids (ch_db s)"
      using phase_update [OF db u [unfolded claim_with_def]] by simp
    have "c_id job \<in> durable_ids (ch_db s)" if "job \<in> set cs" for job
    proof -
      from inv c that obtain j where j: "job_at (ch_db s) (c_id job) = Some j" "eligible now locked (cp_queue ?p) (ch_db s) j"
        by (rule claimJobs_row)
      with row_of_SomeD [OF j(1)] show ?thesis by (force simp: durable_ids_def eligible_def)
    qed
    with P c Looking st a fit show ?thesis
      by (cases cs) (auto simp: victim_step_def victim_claims_def drainer_ok_def effects_fit_def)
  qed
next
  case (Holding job)
  with st db fit v show ?thesis by (auto simp: victim_step_def recordExecution_def drainer_ok_def effects_fit_def)
next
  case (Recorded job)
  then have s': "s' = applyEffect (c_id job) Idempotent s" "pc' = Applied job"
    using st v by (auto simp: victim_step_def drainer_ok_def)
  then have E: "set (ch_effect s') = insert (c_id job) (set (ch_effect s))" "ch_db s' = ch_db s" "distinct (ch_effect s')"
    using fit by (auto simp: applyEffect_def effects_fit_def)
  have "phase_db T (set (ch_effect s')) (ch_db s')" unfolding E using db by (rule phase_mono) auto
  with E s' Recorded v fit show ?thesis by (auto simp: drainer_ok_def effects_fit_def)
next
  case (Applied job)
  let ?tok = "token_of (va_workerId a) job"
  show ?thesis
  proof (cases "completeJob now ?tok (ch_db s)")
    case (Inl e)
    then obtain f where "query (completeJob now ?tok) (ch_db s) = Inl f"
      by (cases "query (completeJob now ?tok) (ch_db s)") auto
    with Applied st v db fit show ?thesis
      by (auto simp: victim_step_def victim_completes_def drainer_ok_def)
  next
    case (Inr x)
    then obtain xs d where c: "completeJob now ?tok (ch_db s) = Inr (xs, d)" by (cases x) simp
    then obtain rs where u: "update_jobs (owns ?tok) (complete_row now) (ch_db s) = Inr (rs, d)"
      by (auto simp: completeJob_def returning_Inr)
    have "j_queue j = DURABILITY_QUEUE \<and> durable_row T (set (ch_effect s)) (complete_row now j)"
      if j: "j \<in> set (db_jobs (ch_db s))" "owns ?tok j" for j
      using j db v Applied
      by (auto simp: owns_def token_of_def phase_db_def durable_row_def complete_row_def drainer_ok_def)
    then have "phase_db T (set (ch_effect s)) d \<and> durable_ids d = durable_ids (ch_db s)"
      using phase_update [OF db u] by simp
    with c Applied st v fit show ?thesis
      by (auto simp: victim_step_def victim_completes_def drainer_ok_def effects_fit_def)
  qed
qed (use st db fit v in \<open>auto simp: victim_step_def\<close>)

lemma drainer_ok_later:
  "drainer_ok s a pc \<Longrightarrow> durable_ids (ch_db s') = durable_ids (ch_db s) \<Longrightarrow> set (ch_effect s) \<subseteq> set (ch_effect s')
   \<Longrightarrow> drainer_ok s' a pc"
  by (auto simp: drainer_ok_def)

lemma run_phase:
  assumes "in_phase T h" and "now + us_per_second * durability_lease < T"
  shows "in_phase T (chaos_step (Runs k now locked) h)"
proof -
  obtain procs s where h: "h = (procs, s)" by fastforce
  from assms(1) have P: "phase_db T (set (ch_effect s)) (ch_db s)" "effects_fit s"
    and v: "\<And>p r. procs p = Some r \<Longrightarrow> drainer_ok s (pr_args r) (pr_pc r)" by (auto simp: in_phase_def h)
  show ?thesis
  proof (cases "procs k")
    case None
    with assms(1) show ?thesis by (simp add: h)
  next
    case (Some r)
    obtain pc s' where st: "victim_step now locked (pr_args r) (pr_pc r) s = (pc, s')" by fastforce
    from victim_step_phase [OF P v [OF Some] assms(2) st] v
    have "in_phase T (procs(k \<mapsto> r\<lparr>pr_pc := pc\<rparr>), s')"
      by (auto simp: in_phase_def intro: drainer_ok_later)
    with Some st show ?thesis by (simp add: h)
  qed
qed

lemma spawnDrainer_args: "va_queue (spawnDrainer w) = DURABILITY_QUEUE" "va_mode (spawnDrainer w) = Drain"
  by (simp_all add: spawnDrainer_def victim_parse_def flag_value_def DURABILITY_QUEUE_def Let_def)

lemma spawn_phase: "in_phase T h \<Longrightarrow> in_phase T (chaos_step (Spawn k (spawnDrainer w)) h)"
  by (cases h) (auto simp: in_phase_def drainer_ok_def spawnDrainer_args split: option.splits)

lemma kill_phase: "in_phase T h \<Longrightarrow> in_phase T (chaos_step (Killed k) h)"
  by (cases h) (auto simp: in_phase_def)

definition steps_before :: "instant \<Rightarrow> victim_steps \<Rightarrow> bool" where
  "steps_before T = list_all (\<lambda>(now, locked). now + us_per_second * durability_lease < T)"

lemma run_steps_phase: "in_phase T h \<Longrightarrow> steps_before T steps \<Longrightarrow> in_phase T (run_steps k steps h)"
proof (induction steps arbitrary: h)
  case (Cons x steps)
  obtain now locked where x: "x = (now, locked)" by fastforce
  from Cons.prems(2) have "now + us_per_second * durability_lease < T" "steps_before T steps"
    by (simp_all add: steps_before_def x)
  with Cons.IH [OF run_phase [OF Cons.prems(1)]] show ?case
    by (simp add: run_steps_def x del: chaos_step.simps)
qed (simp add: run_steps_def)

lemma kill_rounds_phase:
  assumes "in_phase T h" and "list_all (\<lambda>r. steps_before T (fst r) \<and> steps_before T (snd r)) rounds"
    and "kill_rounds k rounds h = (oks, h')"
  shows "in_phase T h' \<and> length oks = length rounds"
  using assms
proof (induction rounds arbitrary: k h oks)
  case (Cons r rounds)
  obtain ok h1 where r: "kill_round k r h = (ok, h1)" by (cases "kill_round k r h")
  obtain oks' where rs: "kill_rounds (Suc k) rounds h1 = (oks', h')" and oks: "oks = ok # oks'"
    using Cons.prems(3) r by (auto simp: Let_def split: prod.splits)
  have "in_phase T h1"
    using r Cons.prems(1,2) by (auto simp: kill_round_def Let_def simp del: chaos_step.simps
        intro!: kill_phase run_steps_phase spawn_phase)
  from Cons.IH [OF this _ rs] Cons.prems(2) oks show ?case by simp
qed simp

subsection \<open>The drain\<close>

text \<open>No worker is left: a job has succeeded with its effect, or has been delivered at most once.\<close>

definition drained_row :: "ident set \<Rightarrow> job \<Rightarrow> bool" where
  "drained_row E j \<longleftrightarrow> j_state j = Succeeded \<and> j_id j \<in> E
     \<or> j_state j \<in> {Available, Running} \<and> j_attempt j \<le> 1 \<and> j_max_attempts j = MAX_ATTEMPTS"

definition drain_ok :: "chaos \<Rightarrow> bool" where
  "drain_ok s \<longleftrightarrow> db_inv (ch_db s) \<and> effects_fit s
     \<and> (\<forall>j \<in> set (db_jobs (ch_db s)). j_queue j = DURABILITY_QUEUE \<longrightarrow> drained_row (set (ch_effect s)) j)"

lemma deliver_all_effects:
  "deliver_all now w cs s = (Inr (), s') \<Longrightarrow>
     set (ch_effect s') = set (ch_effect s) \<union> c_id ` set cs \<and> (distinct (ch_effect s) \<longrightarrow> distinct (ch_effect s'))"
proof (induction cs arbitrary: s)
  case (Cons c cs)
  let ?s1 = "applyEffect (c_id c) Idempotent (recordExecution (c_id c) (c_attempt c) w s)"
  from Cons.prems obtain d where "deliver_all now w cs (?s1\<lparr>ch_db := d\<rparr>) = (Inr (), s')"
    by (auto simp: Let_def split: sum.splits prod.splits)
  from Cons.IH [OF this] show ?case by (auto simp: applyEffect_def recordExecution_def)
qed simp

lemma claimed_batch_ok:
  assumes ok: "drain_ok s" and c: "claimJobs t {} drain_claim (ch_db s) = Inr (cs, d1)"
    and dl: "deliver_all t finisher cs (s\<lparr>ch_db := d1\<rparr>) = (Inr (), s1)"
  shows "drain_ok s1"
proof -
  let ?d = "ch_db s" and ?I = "set (claim_candidates claim_order t {} drain_claim (ch_db s))"
  from ok have inv: "db_inv ?d" by (simp add: drain_ok_def)
  from c obtain rs where cw: "claim_with claim_order t {} drain_claim ?d = Inr (rs, d1)" and cs: "cs = map toClaimedJob rs"
    by (auto simp: claimJobs_def returning_Inr)
  have inv1: "db_inv d1" by (rule claim_with_contract(1) [OF inv cw])
  have cids: "map c_id cs = map j_id rs" by (simp add: cs toClaimedJob_def)
  note ids = claim_with_ids [OF inv cw]
  have cset: "c_id ` set cs = ?I" using ids(1) cids by (metis list.set_map)
  have dist: "distinct (map c_id cs)" unfolding cids by (rule ids(2))
  have own: "\<forall>x \<in> set cs. owned d1 (token_of finisher x)"
    using claim_owns [OF inv c] by (simp add: drain_claim_def)
  note D = update_jobs_InrD(2) [OF cw [unfolded claim_with_def]]
  let ?f = "complete_row t \<circ> claim_row t finisher"
  from deliver_all_spec [of "s\<lparr>ch_db := d1\<rparr>" cs finisher t, OF _ dist] inv1 own dl
  have S: "db_inv (ch_db s1)"
    "ch_db s1 = d1\<lparr>db_jobs := upd_where (\<lambda>j. j_id j \<in> ?I) (complete_row t) (db_jobs d1)\<rparr>"
    by (auto simp: cset)
  then have jobs: "ch_db s1 = ?d\<lparr>db_jobs := upd_where (\<lambda>j. j_id j \<in> ?I) ?f (db_jobs ?d)\<rparr>"
    by (simp add: D upd_where_after drain_claim_def)
  have keep: "keeps_identity ?f" by (simp add: keeps_identity_def complete_row_def claim_row_def)
  have E: "set (ch_effect s1) = set (ch_effect s) \<union> ?I" "distinct (ch_effect s1)"
    using deliver_all_effects [OF dl] ok by (simp_all add: cset drain_ok_def effects_fit_def)
  have "?I \<subseteq> durable_ids ?d"
  proof
    fix i assume i: "i \<in> ?I"
    with candidates_subset [of claim_order t "{}" drain_claim ?d] obtain j where j: "j \<in> set (db_jobs ?d)" "j_id j = i" by auto
    with candidates_eligible [OF inv j(1), of claim_order t "{}" drain_claim] i
    show "i \<in> durable_ids ?d" by (auto simp: eligible_def drain_claim_def durable_ids_def)
  qed
  then have fit: "effects_fit s1"
    using ok E by (auto simp: effects_fit_def drain_ok_def jobs durable_ids_update [OF keep])
  have "drained_row (set (ch_effect s1)) k" if k: "k \<in> set (db_jobs (ch_db s1))" "j_queue k = DURABILITY_QUEUE" for k
  proof -
    from k(1) consider j where "j \<in> set (db_jobs ?d)" "k = ?f j" "j_id j \<in> ?I" | "k \<in> set (db_jobs ?d)"
      by (auto simp: jobs set_upd_where)
    then show ?thesis
    proof cases
      case 1
      then show ?thesis by (simp add: drained_row_def E complete_row_def)
    next
      case 2
      with ok k(2) have "drained_row (set (ch_effect s)) k" by (simp add: drain_ok_def)
      then show ?thesis by (auto simp: drained_row_def E)
    qed
  qed
  with S(1) fit show ?thesis by (simp add: drain_ok_def)
qed

lemma reaped_ok:
  assumes ok: "drain_ok s" and r: "reapOnce t {} 0 chaos_backoff 500 (ch_db s) = (Inr res, d1)"
  shows "drain_ok (s\<lparr>ch_db := d1\<rparr>)"
proof -
  let ?f = "reap_row t (nextDelaySeconds 0 1 chaos_backoff)"
  from ok have inv: "db_inv (ch_db s)" by (simp add: drain_ok_def)
  from r obtain rs where u: "update_jobs (\<lambda>j. j_id j \<in> set (expired_ids t {} 500 (ch_db s))) ?f (ch_db s) = Inr (rs, d1)"
    by (auto simp: reapOnce_def reapExpiredLeases_def returning_Inr split: sum.splits prod.splits)
  note D = update_jobs_InrD(2) [OF u]
  have inv1: "db_inv d1" by (rule update_jobs_inv [OF inv u reap_row_keeps])
  have "drained_row E (?f j)" if "drained_row E j" "lease_expired t {} j" for E j
    using that by (auto simp: drained_row_def lease_expired_def reap_row_def MAX_ATTEMPTS_def)
  moreover have "lease_expired t {} j"
    if "j \<in> set (db_jobs (ch_db s))" "j_id j \<in> set (expired_ids t {} 500 (ch_db s))" for j
    using pick_sound [OF db_inv_distinct [OF inv] that(1)] that(2) by (simp add: expired_ids_def)
  ultimately show ?thesis
    using ok inv1 by (auto simp: drain_ok_def effects_fit_def D durable_ids_update [OF reap_row_keeps] set_upd_where
        keeps_identityD [OF reap_row_keeps])
qed

lemma drained_phase:
  "drain_ok s \<Longrightarrow> drainRemaining now budget n s = (Inr (), s') \<Longrightarrow> drain_ok s'"
proof (induction budget arbitrary: n s)
  case (Suc budget)
  let ?c = "claimJobs (now n) {} drain_claim (ch_db s)"
  from Suc.prems(2) obtain cs d where c: "?c = Inr (cs, d)"
    by (auto simp: drain_claim_def split: sum.splits)
  show ?case
  proof (cases cs)
    case Nil
    from claimed_batch_ok [OF Suc.prems(1) c, of "s\<lparr>ch_db := d\<rparr>"] Nil have ok: "drain_ok (s\<lparr>ch_db := d\<rparr>)" by simp
    show ?thesis
    proof (cases "TOTAL_JOBS \<le> terminalCount d")
      case True
      with Suc.prems(2) c Nil ok show ?thesis by (simp add: drain_claim_def)
    next
      case False
      with Suc.prems(2) c Nil obtain res d1 where r: "reapOnce (now n) {} 0 chaos_backoff 500 d = (Inr res, d1)"
        and rest: "drainRemaining now budget (Suc n) (s\<lparr>ch_db := d1\<rparr>) = (Inr (), s')"
        by (auto simp: drain_claim_def split: sum.splits prod.splits)
      from reaped_ok [OF ok, of "now n" res d1] r have "drain_ok (s\<lparr>ch_db := d1\<rparr>)" by simp
      from Suc.IH [OF this rest] show ?thesis .
    qed
  next
    case (Cons job jobs)
    with Suc.prems(2) c obtain s1 where dl: "deliver_all (now n) finisher cs (s\<lparr>ch_db := d\<rparr>) = (Inr (), s1)"
      and rest: "drainRemaining now budget (Suc n) s1 = (Inr (), s')"
      by (auto simp: drain_claim_def simp del: deliver_all.simps split: sum.splits prod.splits)
    from Suc.IH [OF claimed_batch_ok [OF Suc.prems(1) c dl] rest] show ?thesis .
  qed
qed simp

text \<open>When nothing waits any more, every check on the outcome holds.\<close>

lemma count_state_zero: "coalesce (stateCounts d s) 0 = 0 \<longleftrightarrow>
    (\<forall>j \<in> set (db_jobs d). j_queue j = DURABILITY_QUEUE \<longrightarrow> j_state j \<noteq> s)"
  by (auto simp: stateCounts_def Let_def filter_empty_conv)

lemma tally_passes:
  assumes ok: "drain_ok s" and none: "waiting_jobs (ch_db s) = 0" and size: "queue_size (ch_db s) = TOTAL_JOBS"
  shows "durability_tally s = [True, True, True, True, 0 < redelivered (ch_db s), True]"
proof -
  let ?d = "ch_db s" and ?Q = "filter (\<lambda>j. j_queue j = DURABILITY_QUEUE) (db_jobs (ch_db s))"
  have inv: "db_inv ?d" and fit: "effects_fit s" using ok by (simp_all add: drain_ok_def)
  have all: "j_state j = Succeeded \<and> j_id j \<in> set (ch_effect s)" if "j \<in> set (db_jobs ?d)" "j_queue j = DURABILITY_QUEUE" for j
  proof -
    have "drained_row (set (ch_effect s)) j" using ok that by (simp add: drain_ok_def)
    moreover have "terminal_state (j_state j)" using none that by (simp add: none_waiting)
    ultimately show ?thesis by (auto simp: drained_row_def)
  qed
  have "terminalCount ?d = TOTAL_JOBS" using terminal_and_waiting [of ?d] none size by simp
  moreover have "countEffects None s = TOTAL_JOBS"
  proof -
    have "set (ch_effect s) = set (map j_id ?Q)"
      using fit all by (auto simp: effects_fit_def durable_ids_def)
    moreover have "distinct (map j_id ?Q)" using db_inv_distinct [OF inv] by (simp add: distinct_map_filter)
    ultimately have "length (ch_effect s) = length (map j_id ?Q)"
      using fit by (metis distinct_card effects_fit_def)
    then show ?thesis using size by (simp add: countEffects_def queue_size_def)
  qed
  ultimately show ?thesis
    using all by (auto simp: durability_tally_def Let_def count_state_zero)
qed

subsection \<open>The whole test\<close>

lemma phase_settles:
  assumes "in_phase T (procs, s)" and "T \<le> t"
  shows "settling t (ch_db s)" "drain_ok s" "queue_size (ch_db s) = TOTAL_JOBS"
proof -
  from assms(1) have P: "phase_db T (set (ch_effect s)) (ch_db s)" and fit: "effects_fit s"
    by (simp_all add: in_phase_def)
  show "settling t (ch_db s)"
    using P assms(2) by (fastforce simp: settling_def phase_db_def durable_row_def lease_expired_def MAX_ATTEMPTS_def)
  show "drain_ok s"
    using P fit by (auto simp: drain_ok_def phase_db_def durable_row_def drained_row_def)
  show "queue_size (ch_db s) = TOTAL_JOBS" using P by (simp add: phase_db_def)
qed

lemma durability_passes:
  assumes inv: "db_inv (ch_db s)" and free: "\<not> queue_paused (ch_db s) DURABILITY_QUEUE"
    and idle: "\<forall>j \<in> set (db_jobs (ch_db s)). j_state j = Running \<longrightarrow> j_queue j = DURABILITY_QUEUE"
    and steps: "list_all (\<lambda>r. steps_before T (fst r) \<and> steps_before T (snd r)) rounds"
    and te: "te \<le> T" and now: "T \<le> now 0" "\<forall>k. now k + us_per_ms \<le> now (Suc k)" and b: "TOTAL_JOBS + 1 < budget"
  shows "\<exists>progress s'. durability_main te rounds now budget s =
      (Inr (True # progress @ [True, True, True, True, 0 < redelivered (ch_db s'), True]), s')
    \<and> length progress = length rounds"
proof -
  let ?s0 = "durability_reset s"
  have s0: "db_jobs (ch_db ?s0) = filter (\<lambda>j. j_queue j \<noteq> DURABILITY_QUEUE) (db_jobs (ch_db s))"
    "db_config (ch_db ?s0) = db_config (ch_db s)" "ch_effect ?s0 = []"
    by (simp_all add: durability_reset_def commit_def delete_jobs_def)
  have "db_inv (ch_db ?s0)"
    using delete_jobs_inv [OF inv, of "\<lambda>j. j_queue j = DURABILITY_QUEUE"]
    by (simp add: durability_reset_def commit_def delete_jobs_def)
  from durability_batch [OF this, of te] obtain rs cl' js d where
    e: "enqueueBatch alone te te DURABILITY_QUEUE durability_items new_client (ch_db ?s0) = (Inr rs, cl', d)"
    and D: "length rs = TOTAL_JOBS" "db_inv d" "db_config d = db_config (ch_db ?s0)" "db_jobs d = db_jobs (ch_db ?s0) @ js"
      "length js = TOTAL_JOBS" "list_all (fresh_durable te) js" by (elim exE conjE) (rule that)
  have js: "\<forall>j \<in> set js. fresh_durable te j" using D(6) by (simp add: list_all_iff)
  then have "filter (\<lambda>j. j_queue j = DURABILITY_QUEUE) js = js" by (auto simp: filter_id_conv fresh_durable_def)
  then have "queue_size d = TOTAL_JOBS" by (simp add: queue_size_def D(4,5) s0)
  moreover have "\<not> queue_paused d DURABILITY_QUEUE" using free by (simp add: queue_paused_def D(3) s0)
  ultimately have "phase_db T {} d"
    using D(2) js idle te by (auto simp: phase_db_def D(4) s0 fresh_durable_def durable_row_def)
  then have start: "in_phase T (no_processes, ?s0\<lparr>ch_db := d\<rparr>)"
    by (simp add: in_phase_def effects_fit_def s0 no_processes_def)
  obtain progress procs s1 where k: "kill_rounds 1 rounds (no_processes, ?s0\<lparr>ch_db := d\<rparr>) = (progress, procs, s1)"
    by (cases "kill_rounds 1 rounds (no_processes, ?s0\<lparr>ch_db := d\<rparr>)") auto
  note K = kill_rounds_phase [OF start steps k]
  note S = phase_settles [OF K [THEN conjunct1] now(1)]
  have "waiting_jobs (ch_db s1) \<le> TOTAL_JOBS" using terminal_and_waiting [of "ch_db s1"] S(3) by linarith
  with b have "waiting_jobs (ch_db s1) + (if running_jobs (ch_db s1) = 0 then 0 else 1) < budget" by simp
  from drain_settles [OF S(1) now(2) S(3) this] obtain s2 where
    r: "drainRemaining now budget 0 s1 = (Inr (), s2)" "waiting_jobs (ch_db s2) = 0" "queue_size (ch_db s2) = TOTAL_JOBS"
    by blast
  have "durability_main te rounds now budget s = (Inr (True # progress @ durability_tally s2), s2)"
    by (simp add: durability_main_def Let_def e D(1) k [unfolded One_nat_def] r(1))
  with tally_passes [OF drained_phase [OF S(2) r(1)] r(2,3)] K show ?thesis by auto
qed

end
