(* ===== verification/Observability.thy ===== *)
theory Observability
  imports Dashboard_Overview Metrics
begin

text \<open>
  The collectors of packages/core/src/observability/metrics.ts as a table, the timer of
  packages/server/src/main.ts that refreshes two of its gauges, and the paths
  packages/core/src/observability/logger.ts has redacted. What prom-client and pino do with them is
  theirs.
\<close>

subsection \<open>Collectors\<close>

datatype metric_kind = Counter_m | Gauge_m | Histogram_m

record collector =
  mt_kind :: metric_kind
  mt_name :: string
  mt_labels :: "string list"
  mt_buckets :: "rat list"

definition metric :: "metric_kind \<Rightarrow> string \<Rightarrow> string list \<Rightarrow> rat list \<Rightarrow> collector" where
  "metric k n ls bs = \<lparr>mt_kind = k, mt_name = n, mt_labels = ls, mt_buckets = bs\<rparr>"

definition COLLECTORS :: "collector list" where
  "COLLECTORS =
     [metric Counter_m ''jobq_jobs_enqueued_total'' [''queue'', ''type''] [],
      metric Counter_m ''jobq_jobs_completed_total'' [''queue'', ''type'', ''outcome''] [],
      metric Histogram_m ''jobq_job_duration_seconds'' [''queue'', ''type''] [5 / 1000, 25 / 1000, 1 / 10, 5 / 10, 1, 5, 15, 60, 300, 900],
      metric Histogram_m ''jobq_job_queue_wait_seconds'' [''queue'', ''type''] [1 / 100, 5 / 100, 25 / 100, 1, 5, 30, 120, 600, 3600],
      metric Histogram_m ''jobq_claim_duration_seconds'' [''queue''] [5 / 10000, 1 / 1000, 5 / 1000, 1 / 100, 5 / 100, 1 / 10, 5 / 10, 1],
      metric Histogram_m ''jobq_claim_batch_size'' [''queue''] [0, 1, 2, 5, 10, 20, 50],
      metric Gauge_m ''jobq_queue_depth'' [''queue'', ''state''] [],
      metric Gauge_m ''jobq_jobs_in_flight'' [''queue''] [],
      metric Counter_m ''jobq_retries_scheduled_total'' [''queue'', ''type''] [],
      metric Counter_m ''jobq_leases_expired_total'' [''queue''] [],
      metric Counter_m ''jobq_stale_completion_total'' [''queue''] [],
      metric Gauge_m ''jobq_dlq_size'' [''queue''] [],
      metric Counter_m ''jobq_schedule_materialized_total'' [''schedule''] [],
      metric Counter_m ''jobq_notify_received_total'' [''queue''] [],
      metric Gauge_m ''jobq_db_dead_tuples'' [''table''] [],
      metric Gauge_m ''jobq_db_last_autovacuum_age_seconds'' [''table''] [],
      metric Gauge_m ''jobq_db_table_bytes'' [''table''] [],
      metric Gauge_m ''jobq_db_index_bytes'' [''table''] [],
      metric Gauge_m ''jobq_overdue_leases'' [] [],
      metric Counter_m ''jobq_retention_pruned_total'' [''queue''] []]"

text \<open>
  A registry refuses a name twice, and a histogram needs increasing bounds: neither can fail here.
\<close>

lemma collectors_sound:
  "distinct (map mt_name COLLECTORS)
   \<and> list_all (\<lambda>m. sorted_wrt (<) (mt_buckets m) \<and> (mt_buckets m \<noteq> []) = (mt_kind m = Histogram_m)
        \<and> distinct (mt_labels m) \<and> take 5 (mt_name m) = ''jobq_'') COLLECTORS"
  by (simp add: COLLECTORS_def metric_def)

subsection \<open>The gauges of the server\<close>

text \<open>The samples of the gauges: a value for a name and the values of its labels.\<close>

type_synonym gauges = "string \<times> string list \<Rightarrow> nat option"

definition queueDepth :: "string \<Rightarrow> job_state \<Rightarrow> string \<times> string list" where
  "queueDepth q s = (''jobq_queue_depth'', [q, state_name s])"

definition dlqSize :: "string \<Rightarrow> string \<times> string list" where
  "dlqSize q = (''jobq_dlq_size'', [q])"

text \<open>One run of the timer; an unreachable database changes nothing.\<close>

definition gauge_queue :: "(job_state \<Rightarrow> nat option) \<Rightarrow> string \<Rightarrow> gauges \<Rightarrow> gauges" where
  "gauge_queue counts q g =
     (fold (\<lambda>s g. case counts s of None \<Rightarrow> g | Some n \<Rightarrow> g(queueDepth q s \<mapsto> n)) JOB_STATES g)
       (dlqSize q \<mapsto> coalesce (counts Dead) 0)"

definition gauge_tick :: "bool \<Rightarrow> db \<Rightarrow> gauges \<Rightarrow> gauges" where
  "gauge_tick up d g =
     (if up then fold (\<lambda>q. gauge_queue (coalesce (queue_stats d q) (\<lambda>_. None)) q) (remdups (map fst (queueStats d))) g
      else g)"

lemma state_name_inj [simp]: "state_name s = state_name t \<longleftrightarrow> s = t"
  by (cases s; cases t) (simp_all add: state_name_def)

lemma gauge_keys [simp]:
  "queueDepth q s = queueDepth q' s' \<longleftrightarrow> q = q' \<and> s = s'" "dlqSize q = dlqSize q' \<longleftrightarrow> q = q'"
  "queueDepth q s \<noteq> dlqSize q'" "dlqSize q' \<noteq> queueDepth q s"
  by (auto simp: queueDepth_def dlqSize_def)

lemma gauge_queue_depth:
  "gauge_queue counts q g (queueDepth q' s) =
     (if q' = q then (case counts s of None \<Rightarrow> g (queueDepth q' s) | Some n \<Rightarrow> Some n) else g (queueDepth q' s))"
  by (cases s) (auto simp: gauge_queue_def JOB_STATES_def split: option.splits)

lemma gauge_queue_dlq:
  "gauge_queue counts q g (dlqSize q') = (if q' = q then Some (coalesce (counts Dead) 0) else g (dlqSize q'))"
  by (auto simp: gauge_queue_def JOB_STATES_def split: option.splits)

lemma gauges_fold:
  assumes "distinct qs"
  shows "fold (\<lambda>q. gauge_queue (c q) q) qs g (queueDepth q s) =
      (if q \<in> set qs then (case c q s of None \<Rightarrow> g (queueDepth q s) | Some n \<Rightarrow> Some n) else g (queueDepth q s))"
    and "fold (\<lambda>q. gauge_queue (c q) q) qs g (dlqSize q) =
      (if q \<in> set qs then Some (coalesce (c q Dead) 0) else g (dlqSize q))"
  using assms
  by (induction qs arbitrary: g) (auto simp: gauge_queue_depth gauge_queue_dlq split: option.splits)

lemma stats_exact:
  "coalesce (queue_stats d q) (\<lambda>_. None) s = (if jobs_in d q s = 0 then None else Some (jobs_in d q s))"
  using stats_lookup [of d q s] by (auto simp: lookup_count_def coalesce_def split: option.splits if_splits)

lemma stats_queues: "fst ` set (queueStats d) = j_queue ` set (db_jobs d)"
  by (auto simp: queueStats_def image_image)

text \<open>
  A state with jobs is gauged exactly, and so is the dead-letter queue of a queue that has any job;
  what has no job any more keeps the value it had.
\<close>

lemma gauge_tick_depth:
  "gauge_tick True d g (queueDepth q s) = (if jobs_in d q s = 0 then g (queueDepth q s) else Some (jobs_in d q s))"
proof -
  have "jobs_in d q s = 0" if "q \<notin> j_queue ` set (db_jobs d)" using that by (auto simp: jobs_in_def filter_empty_conv)
  then show ?thesis by (auto simp: gauge_tick_def gauges_fold(1) stats_queues stats_exact)
qed

lemma gauge_tick_dlq:
  "gauge_tick True d g (dlqSize q) =
     (if q \<in> j_queue ` set (db_jobs d) then Some (jobs_in d q Dead) else g (dlqSize q))"
  by (simp add: gauge_tick_def gauges_fold(2) stats_queues stats_exact)

subsection \<open>Logging\<close>

definition PAYLOAD_PATHS :: "string list" where
  "PAYLOAD_PATHS = [''payload'', ''*.payload'', ''job.payload'', ''jobs[*].payload'', ''metadata'', ''*.metadata'',
     ''job.metadata'']"

definition ALWAYS_REDACT :: "string list" where
  "ALWAYS_REDACT = [''password'', ''*.password'', ''apiKey'', ''*.apiKey'', ''api_key'', ''*.api_key'', ''token'',
     ''*.token'', ''secret'', ''*.secret'', ''authorization'', ''*.authorization'', ''req.headers.authorization'',
     ''req.headers.cookie'', ''connectionString'', ''*.connectionString'', ''databaseUrl'', ''*.databaseUrl'',
     ''DATABASE_URL'']"

record logger_options =
  lo_level :: string
  lo_name :: "string option"
  lo_redact :: "string list"
  lo_censor :: string

definition createLogger :: "string option \<Rightarrow> bool \<Rightarrow> string option \<Rightarrow> logger_options" where
  "createLogger level logPayloads name =
     \<lparr>lo_level = coalesce level ''info'', lo_name = name,
      lo_redact = (if logPayloads then ALWAYS_REDACT else ALWAYS_REDACT @ PAYLOAD_PATHS),
      lo_censor = ''[redacted]''\<rparr>"

lemma redacted_paths:
  "set ALWAYS_REDACT \<subseteq> set (lo_redact (createLogger level lp name))
   \<and> (set PAYLOAD_PATHS \<subseteq> set (lo_redact (createLogger level lp name)) \<longleftrightarrow> \<not> lp)"
proof -
  have "''payload'' \<notin> set ALWAYS_REDACT" by (simp add: ALWAYS_REDACT_def)
  moreover have "''payload'' \<in> set PAYLOAD_PATHS" by (simp add: PAYLOAD_PATHS_def)
  ultimately show ?thesis by (auto simp: createLogger_def)
qed

end
