(* ===== verification/Smoke.thy ===== *)
theory Smoke
  imports Durability_Run Observability Scheduler
begin

text \<open>
  packages/core/src/cli/smoke.ts: the smoke check of a live database. Each section of it is a function
  that returns the outcomes of its checks, in order; an operation that throws where the program does not
  expect it ends the run. \<open>t k\<close> is the time of the k-th operation of a section. The claim plan
  (EXPLAIN) and the run of a whole worker pool are left out, and so is the output.
\<close>

subsection \<open>Sequencing\<close>

definition and_then :: "('e + 'a) \<times> 's \<Rightarrow> ('a \<Rightarrow> 's \<Rightarrow> ('e + 'b) \<times> 's) \<Rightarrow> ('e + 'b) \<times> 's" where
  "and_then r f = (case r of (Inl e, s) \<Rightarrow> (Inl e, s) | (Inr x, s) \<Rightarrow> f x s)"

lemma and_then_simps [simp]: "and_then (Inl e, s) f = (Inl e, s)" "and_then (Inr x, s) f = f x s"
  by (simp_all add: and_then_def)

definition run_query :: "'r stmt \<Rightarrow> db \<Rightarrow> (fault + 'r) \<times> db" where
  "run_query st d = (case query st d of Inl e \<Rightarrow> (Inl e, d) | Inr (r, d') \<Rightarrow> (Inr r, d'))"

lemma run_query_Inr [simp]: "st d = Inr (r, d') \<Longrightarrow> run_query st d = (Inr r, d')"
  by (simp add: run_query_def query_def)

lemma run_query_Inl: "st d = Inl e \<Longrightarrow> \<exists>f. run_query st d = (Inl f, d)"
  by (cases e) (simp_all add: run_query_def query_def)

type_synonym smoke_session = "client \<times> db"

text \<open>An operation of the database alone, inside a session.\<close>

definition with_db :: "(db \<Rightarrow> (fault + 'a) \<times> db) \<Rightarrow> smoke_session \<Rightarrow> (fault + 'a) \<times> smoke_session" where
  "with_db f s = (let (r, d) = f (snd s) in (r, fst s, d))"

lemma with_db_simp [simp]: "f d = (r, d') \<Longrightarrow> with_db f (cl, d) = (r, cl, d')"
  by (simp add: with_db_def)

subsection \<open>The pure sections\<close>

definition machine_section :: "bool list" where
  "machine_section =
     [canTransition Available Running, permittedTargets Succeeded = [],
      \<not> canTransition Available Succeeded, canTransition Dead Available]"

definition smoke_backoff :: "jitter_strategy \<Rightarrow> backoff_options" where
  "smoke_backoff jitter = \<lparr>b_initialMs = 1000, b_multiplier = 2, b_maxMs = 60000, b_jitter = jitter\<rparr>"

text \<open>\<open>rs\<close> are the random numbers of the 200 draws.\<close>

definition backoff_section :: "rat list \<Rightarrow> bool list" where
  "backoff_section rs =
     (let bo = smoke_backoff No_jitter; draws = map (\<lambda>r. nextDelayMs r 5 (smoke_backoff Full)) rs
      in [baseDelayMs 1 bo = 1000, baseDelayMs 4 bo = 8000, baseDelayMs 30 bo = 60000,
          nextDelayMs (1 / 2) 3 (smoke_backoff Full) = 2000,
          list_ex (\<lambda>n. n < 4000) draws \<and> list_ex (\<lambda>n. 12000 < n) draws])"

subsection \<open>Enqueue\<close>

definition smoke_options :: "string option \<Rightarrow> int option \<Rightarrow> rat option \<Rightarrow> enqueue_options" where
  "smoke_options key lease delay = \<lparr>o_priority = None, o_runAt = None, o_delaySeconds = delay,
     o_maxAttempts = None, o_leaseSeconds = lease, o_idempotencyKey = key, o_uniqueKey = None,
     o_metadata = None, o_traceContext = None\<rparr>"

definition smoke_call ::
  "instant \<Rightarrow> string \<Rightarrow> json \<Rightarrow> enqueue_options \<Rightarrow> smoke_session \<Rightarrow> (fault + enqueue_result) \<times> smoke_session" where
  "smoke_call now q payload opts s = enqueue alone now now q ''smoke.ok'' payload opts (fst s) (snd s)"

definition numbered :: "string \<Rightarrow> json" where
  "numbered n = JObj [(''n'', JNum n)]"

text \<open>The calls of \<open>Promise.all\<close> are alike, so their order does not matter.\<close>

fun racers :: "(nat \<Rightarrow> instant) \<Rightarrow> string \<Rightarrow> nat \<Rightarrow> nat \<Rightarrow> smoke_session \<Rightarrow> (fault + enqueue_result list) \<times> smoke_session"
where
  "racers t q k 0 s = (Inr [], s)"
| "racers t q k (Suc n) s =
     and_then (smoke_call (t k) q (numbered ''9'') (smoke_options (Some ''race'') None None) s)
       (\<lambda>r s1. and_then (racers t q (Suc k) n s1) (\<lambda>rs s2. (Inr (r # rs), s2)))"

definition smoke_item :: "nat \<Rightarrow> batch_item" where
  "smoke_item i = \<lparr>bi_type = ''smoke.ok'', bi_payload = JObj [(''i'', JNum (show_nat i))],
     bi_options = smoke_options None None None\<rparr>"

definition blob :: json where
  "blob = JObj [(''blob'', JStr (replicate 400000 (CHR ''x'')))]"

definition enqueue_section :: "(nat \<Rightarrow> instant) \<Rightarrow> string \<Rightarrow> smoke_session \<Rightarrow> (fault + bool list) \<times> smoke_session" where
  "enqueue_section t q s =
     and_then (smoke_call (t 0) q (numbered ''1'') (smoke_options None None None) s) (\<lambda>first s1.
     and_then (smoke_call (t 1) q (numbered ''2'') (smoke_options (Some ''k1'') None None) s1) (\<lambda>idem s2.
     and_then (smoke_call (t 2) q (numbered ''3'') (smoke_options (Some ''k1'') None None) s2) (\<lambda>again s3.
     and_then (racers t q 3 8 s3) (\<lambda>rs s4.
     and_then (enqueueBatch alone (t 11) (t 11) q (map smoke_item [0..<50]) (fst s4) (snd s4)) (\<lambda>batch s5.
       (let (r, s6) = smoke_call (t 12) q blob (smoke_options None None None) s5
        in (Inr [er_id first \<noteq> None, \<not> er_deduplicated first, er_id idem = er_id again,
                 er_deduplicated again, length (remdups (map er_id rs)) = 1,
                 length batch = 50 \<and> list_all (\<lambda>b. er_id b \<noteq> None) batch,
                 case r of Inl _ \<Rightarrow> True | Inr _ \<Rightarrow> False], s6)))))))"

subsection \<open>Claim\<close>

definition claim_by :: "instant \<Rightarrow> ident set \<Rightarrow> string \<Rightarrow> nat \<Rightarrow> string \<Rightarrow> db \<Rightarrow> (fault + claimed_job list) \<times> db"
where
  "claim_by now locked q n w = run_query (claimJobs now locked \<lparr>cp_queue = q, cp_limit = n, cp_workerId = w\<rparr>)"

text \<open>
  Six claims at once: the database runs them one after the other, each passing over whatever rows the
  others have locked at its time. The ids are those of all claims.
\<close>

fun claimers ::
  "(nat \<Rightarrow> instant) \<Rightarrow> (nat \<Rightarrow> ident set) \<Rightarrow> string \<Rightarrow> nat \<Rightarrow> nat \<Rightarrow> db \<Rightarrow> (fault + ident list) \<times> db" where
  "claimers t locked q i 0 d = (Inr [], d)"
| "claimers t locked q i (Suc n) d =
     and_then (claim_by (t i) (locked i) q 5 (''p-'' @ show_nat i) d) (\<lambda>cs d1.
     and_then (claimers t locked q (Suc i) n d1) (\<lambda>ids d2. (Inr (map c_id cs @ ids), d2)))"

definition claim_section ::
  "(nat \<Rightarrow> instant) \<Rightarrow> (nat \<Rightarrow> ident set) \<Rightarrow> string \<Rightarrow> db \<Rightarrow> (fault + bool list) \<times> db" where
  "claim_section t locked q d =
     and_then (claim_by (t 6) {} q 3 ''w-smoke'' d) (\<lambda>claimed d1.
     and_then (claimers (\<lambda>i. t (7 + i)) locked q 0 6 d1) (\<lambda>ids d2.
       (Inr [length claimed = 3, list_all (\<lambda>c. c_attempt c = 1) claimed,
             length ids = length (remdups ids)], d2)))"

subsection \<open>The fence\<close>

text \<open>The completion the check writes itself; the last one also gives the lease up.\<close>

definition finish_row :: "bool \<Rightarrow> instant \<Rightarrow> job \<Rightarrow> job" where
  "finish_row giveUp now j =
     (let k = j\<lparr>j_state := Succeeded, j_finished_at := Some now\<rparr>
      in if giveUp then k\<lparr>j_worker_id := None, j_lease_expires_at := None\<rparr> else k)"

definition finish_raw :: "bool \<Rightarrow> instant \<Rightarrow> fence \<Rightarrow> db \<Rightarrow> (fault + ident list) \<times> db" where
  "finish_raw giveUp now p = run_query (returning j_id (update_jobs (owns p) (finish_row giveUp now)))"

definition fence_section :: "(nat \<Rightarrow> instant) \<Rightarrow> string \<Rightarrow> smoke_session \<Rightarrow> (fault + bool list) \<times> smoke_session" where
  "fence_section t q s =
     and_then (smoke_call (t 0) q (JObj [(''fence'', JBool True)]) (smoke_options None None None) s) (\<lambda>_ s1.
     and_then (with_db (claim_by (t 1) {} q 1 ''owner'') s1) (\<lambda>cs s2.
       (case cs of
          [] \<Rightarrow> (Inr [False], s2)
        | fc # _ \<Rightarrow>
            (let fence = (\<lambda>w k. \<lparr>f_id = c_id fc, f_workerId = w, f_attempt = k\<rparr>)
             in and_then (with_db (finish_raw False (t 2) (fence ''imposter'' (c_attempt fc))) s2) (\<lambda>a s3.
                and_then (with_db (finish_raw False (t 3) (fence ''owner'' (c_attempt fc + 5))) s3) (\<lambda>b s4.
                and_then (with_db (finish_raw True (t 4) (fence ''owner'' (c_attempt fc))) s4) (\<lambda>c s5.
                  (Inr [length a = 0, length b = 0, length c = 1], s5))))))))"

subsection \<open>CHECK constraints\<close>

text \<open>The row of an INSERT that names queue, type and payload only.\<close>

definition raw_row :: "string \<Rightarrow> enqueue_row" where
  "raw_row q = \<lparr>n_queue = q, n_type = ''x'', n_payload = JObj [], n_metadata = None, n_priority = 0,
     n_maxAttempts = 5, n_leaseSeconds = 30, n_runAt = None, n_idempotencyKey = None, n_uniqueKey = None,
     n_traceContext = None, n_scheduleId = None\<rparr>"

definition raw_insert :: "instant \<Rightarrow> string \<Rightarrow> (job \<Rightarrow> job) \<Rightarrow> db \<Rightarrow> (fault + job option) \<times> db" where
  "raw_insert now q f = run_query (insert_row now (\<lambda>i. f (new_job now (raw_row q) i)))"

definition constraint_section :: "(nat \<Rightarrow> instant) \<Rightarrow> string \<Rightarrow> db \<Rightarrow> (fault + bool list) \<times> db" where
  "constraint_section t q d =
     (let (a, d1) = raw_insert (t 0) q (\<lambda>j. j\<lparr>j_attempt := 10, j_max_attempts := 5\<rparr>) d;
          (b, d2) = raw_insert (t 1) q (\<lambda>j. j\<lparr>j_state := Running\<rparr>) d1
      in (Inr [case a of Inl _ \<Rightarrow> True | Inr _ \<Rightarrow> False, case b of Inl _ \<Rightarrow> True | Inr _ \<Rightarrow> False], d2))"

subsection \<open>Reaper\<close>

definition expire_lease :: "instant \<Rightarrow> ident \<Rightarrow> db \<Rightarrow> (fault + job list) \<times> db" where
  "expire_lease now i =
     run_query (update_jobs (\<lambda>j. j_id j = i) (\<lambda>j. j\<lparr>j_lease_expires_at := Some (now - us_per_second)\<rparr>))"

definition reaper_section :: "(nat \<Rightarrow> instant) \<Rightarrow> string \<Rightarrow> smoke_session \<Rightarrow> (fault + bool list) \<times> smoke_session" where
  "reaper_section t queue s =
     (let q = queue @ ''_reap'';
          bo = \<lparr>b_initialMs = 1, b_multiplier = 1, b_maxMs = 1, b_jitter = No_jitter\<rparr>
      in and_then (smoke_call (t 0) q (JObj []) (smoke_options None (Some 1) None) s) (\<lambda>_ s1.
         and_then (with_db (claim_by (t 1) {} q 1 ''doomed'') s1) (\<lambda>cs s2.
           (let i = (case cs of [] \<Rightarrow> 0 | c # _ \<Rightarrow> c_id c)
            in and_then (with_db (expire_lease (t 2) i) s2) (\<lambda>_ s3.
               and_then (with_db (reapOnce (t 3) {} 0 bo 100) s3) (\<lambda>reaped s4.
                 (let after = job_at (snd s4) i
                  in (Inr [length cs = 1, 1 \<le> re_recovered reaped,
                           map_option j_state after = Some Available, map_option j_attempt after = Some 1,
                           map_option j_worker_id after = Some None], s4))))))))"

subsection \<open>Scheduler\<close>

definition spring_eve :: instant where
  "spring_eve = us_per_second * 1806148800"

definition throws :: "fault + 'a \<Rightarrow> bool" where
  "throws r = (case r of Inl _ \<Rightarrow> True | Inr _ \<Rightarrow> False)"

text \<open>
  The expressions croner is asked about. That two spellings of one time have one occurrence key is left
  out: a time is a number here.
\<close>

definition cron_section :: "croner \<Rightarrow> instant \<Rightarrow> instant \<Rightarrow> fault + bool list" where
  "cron_section nextRun cnow later =
     (case nextOccurrence nextRun ''*/5 * * * *'' ''UTC'' cnow of
        Inl e \<Rightarrow> Inl e
      | Inr a \<Rightarrow>
          (case nextOccurrence nextRun ''0 2 * * *'' ''Europe/London'' spring_eve of
             Inl e \<Rightarrow> Inl e
           | Inr b \<Rightarrow>
               Inr [later < a, spring_eve < b, throws (nextOccurrence nextRun ''not a cron'' ''UTC'' later),
                    throws (nextOccurrence nextRun ''* * * * *'' ''Mars/Olympus_Mons'' later)]))"

definition set_next_run :: "ident \<Rightarrow> instant \<Rightarrow> db \<Rightarrow> (fault + schedule list) \<times> db" where
  "set_next_run i at' = run_query (update_schedules (\<lambda>s. s_id s = i) (\<lambda>s. s\<lparr>s_next_run_at := at'\<rparr>))"

definition smoke_schedule :: "string \<Rightarrow> string \<Rightarrow> create_request" where
  "smoke_schedule name q = \<lparr>cq_name = name, cq_queue = q @ ''_sched'', cq_type = ''smoke.ok'',
     cq_payload = None, cq_cron = ''* * * * *'', cq_timezone = Some ''UTC'', cq_catchupPolicy = None,
     cq_enabled = None\<rparr>"

text \<open>\<open>new Date(Date.now() - 1000)\<close>\<close>

definition a_second_ago :: "instant \<Rightarrow> instant" where
  "a_second_ago cnow = us_per_ms * (cnow div us_per_ms - 1000)"

definition tick_at :: "croner \<Rightarrow> instant \<Rightarrow> db \<Rightarrow> (fault + tick_result) \<times> db" where
  "tick_at nextRun now = tick nextRun alone now (\<lambda>_. now) {} 10"

definition scheduler_section ::
  "croner \<Rightarrow> (nat \<Rightarrow> instant) \<Rightarrow> string \<Rightarrow> string \<Rightarrow> db \<Rightarrow> (fault + bool list) \<times> db" where
  "scheduler_section nextRun t name q d =
     and_then (cron_section nextRun (t 0) (t 0), d) (\<lambda>cs d0.
     and_then (create_schedule nextRun (t 1) (t 1) (smoke_schedule name q) d0) (\<lambda>v d1.
       (let i = vs_id v; at' = a_second_ago (t 2)
        in and_then (set_next_run i at' d1) (\<lambda>_ d2.
           and_then (tick_at nextRun (t 3) d2) (\<lambda>t1 d3.
           and_then (set_next_run i at' d3) (\<lambda>_ d4.
           and_then (tick_at nextRun (t 4) d4) (\<lambda>t2 d5.
           and_then (set_next_run i (at' - us_per_ms * 60000) d5) (\<lambda>_ d6.
           and_then (tick_at nextRun (t 5) d6) (\<lambda>t3 d7.
           and_then (delete_schedule i d7) (\<lambda>_ d8.
             (Inr (cs @ [True, tr_created t1 = 1, tr_created t2 = 0 \<and> tr_deduplicated t2 = 1,
                         tr_created t3 = 1]), d8)))))))))))"

subsection \<open>Administration\<close>

definition admin_section :: "(nat \<Rightarrow> instant) \<Rightarrow> string \<Rightarrow> smoke_session \<Rightarrow> (fault + bool list) \<times> smoke_session" where
  "admin_section t q s =
     and_then (smoke_call (t 0) q (JObj []) (smoke_options None None (Some 3600)) s) (\<lambda>r s1.
       (let i = coalesce (er_id r) 0
        in and_then (with_db (cancel alone (t 1) i ''smoke'') s1) (\<lambda>c s2.
             (let (again, s3) = with_db (cancel alone (t 2) i ''smoke'') s2;
                  stats = queueStats (snd s3)
              in and_then (setPaused alone (t 3) q True ''smoke'' (fst s3) (snd s3)) (\<lambda>_ s4.
                 and_then (with_db (claim_by (t 4) {} q 5 ''paused'') s4) (\<lambda>cs s5.
                 and_then (setPaused alone (t 5) q False ''smoke'' (fst s5) (snd s5)) (\<lambda>_ s6.
                   (Inr [cr_state c = Cancelled \<and> cr_acknowledged c, throws again, stats \<noteq> [],
                         length cs = 0], s6))))))))"

subsection \<open>Metrics\<close>

definition metrics_section :: "metrics \<Rightarrow> bool list \<times> metrics" where
  "metrics_section m =
     (let names = map mt_name COLLECTORS;
          (labels, m') = label_all (map (\<lambda>i. CHR ''t'' # show_nat i) [0..<500]) m
      in ([''jobq_jobs_enqueued_total'' \<in> set names, ''jobq_claim_duration_seconds'' \<in> set names,
           ''jobq_stale_completion_total'' \<in> set names, OTHER \<in> set labels], m'))"

subsection \<open>The whole check\<close>

definition sweep :: "string \<Rightarrow> db \<Rightarrow> db" where
  "sweep q d =
     (commit (delete_jobs (\<lambda>j. like (q @ ''%'') (j_queue j))) d)
       \<lparr>db_config := filter (\<lambda>c. \<not> like (q @ ''%'') (qc_queue c)) (db_config d)\<rparr>"

text \<open>
  The sections in the order of the program; whatever happens, every queue of the run is cleared in the
  end. \<open>q\<close> is the name of its queue, \<open>name\<close> that of its schedule, \<open>rs\<close> are the draws of the
  backoff section, \<open>locked\<close> the rows the parallel claims find locked.
\<close>

definition smoke_sections ::
  "croner \<Rightarrow> (nat \<Rightarrow> instant) \<Rightarrow> (nat \<Rightarrow> ident set) \<Rightarrow> rat list \<Rightarrow> string \<Rightarrow> string \<Rightarrow> metrics \<Rightarrow> smoke_session
   \<Rightarrow> (fault + bool list) \<times> smoke_session" where
  "smoke_sections nextRun t locked rs name q m s =
     and_then (enqueue_section t q s) (\<lambda>c1 s1.
     and_then (with_db (claim_section (\<lambda>k. t (20 + k)) locked q) s1) (\<lambda>c2 s2.
     and_then (fence_section (\<lambda>k. t (40 + k)) q s2) (\<lambda>c3 s3.
     and_then (with_db (constraint_section (\<lambda>k. t (50 + k)) q) s3) (\<lambda>c4 s4.
     and_then (reaper_section (\<lambda>k. t (60 + k)) q s4) (\<lambda>c5 s5.
     and_then (with_db (scheduler_section nextRun (\<lambda>k. t (70 + k)) name q) s5) (\<lambda>c6 s6.
     and_then (admin_section (\<lambda>k. t (80 + k)) q s6) (\<lambda>c7 s7.
       (Inr (machine_section @ backoff_section rs @ c1 @ c2 @ c3 @ c4 @ c5 @ c6 @ c7
             @ fst (metrics_section m)), s7))))))))"

definition smoke ::
  "croner \<Rightarrow> (nat \<Rightarrow> instant) \<Rightarrow> (nat \<Rightarrow> ident set) \<Rightarrow> rat list \<Rightarrow> string \<Rightarrow> string \<Rightarrow> metrics \<Rightarrow> db
   \<Rightarrow> (fault + bool list) \<times> db" where
  "smoke nextRun t locked rs name q m d =
     (let (r, s) = smoke_sections nextRun t locked rs name q m (new_client, d) in (r, sweep q (snd s)))"

end
