(* ===== verification/Smoke_Laws.thy ===== *)
theory Smoke_Laws
  imports Smoke Scheduler_Laws
begin

text \<open>
  The smoke check of theory Smoke passes: on a database that has nothing of its queues, no expired
  lease and no due schedule, every section meets all its checks, and nothing of its queues is left.
\<close>

subsection \<open>The pure sections\<close>

lemma machine_passes: "machine_section = replicate 4 True"
  by (simp add: machine_section_def machine_defs numeral_eq_Suc)

lemma smoke_delays:
  "baseDelayMs 1 (smoke_backoff s) = 1000" "baseDelayMs 3 (smoke_backoff s) = 4000"
  "baseDelayMs 4 (smoke_backoff s) = 8000" "baseDelayMs 5 (smoke_backoff s) = 16000"
  "baseDelayMs 30 (smoke_backoff s) = 60000"
  by (simp_all add: baseDelayMs_def smoke_backoff_def Let_def js_pow_def js_of_def js_overflow_def)

text \<open>The draws spread when one of them is small and one is large.\<close>

lemma backoff_passes:
  assumes "\<exists>r \<in> set rs. r < 1 / 5" and "\<exists>r \<in> set rs. 4 / 5 < r"
  shows "backoff_section rs = replicate 5 True"
proof -
  have d: "nextDelayMs r 5 (smoke_backoff Full) = round (r * 16000)" for r
    unfolding nextDelayMs_def smoke_delays by (simp add: smoke_backoff_def)
  have "nextDelayMs (1 / 2) 3 (smoke_backoff Full) = 2000"
    unfolding nextDelayMs_def smoke_delays by (simp add: smoke_backoff_def)
  moreover have "round (r * 16000) < 4000" if "r < 1 / 5" for r :: rat
    using round_mono [of "r * 16000" 3200] that by simp
  moreover have "12000 < round (r * 16000)" if "4 / 5 < r" for r :: rat
    using round_mono [of 12800 "r * 16000"] that by simp
  ultimately show ?thesis
    using assms by (auto simp: backoff_section_def smoke_delays d list_ex_iff numeral_eq_Suc)
qed

lemma label_all_labels:
  "label_all tys m = (ls, m') \<Longrightarrow> OTHER \<notin> set ls \<Longrightarrow> ls = tys"
proof (induction tys arbitrary: m ls)
  case (Cons ty tys)
  then show ?case by (auto simp: labelType_def Let_def split: prod.splits if_splits)
qed simp

lemma metrics_pass:
  assumes "distinct (me_known m)" and "length (me_known m) \<le> me_maxKnown m" and "me_maxKnown m = 200"
  shows "fst (metrics_section m) = replicate 4 True"
proof -
  let ?ts = "map (\<lambda>i. CHR ''t'' # show_nat i) [0..<500]"
  obtain ls m' where l: "label_all ?ts m = (ls, m')" by fastforce
  have "OTHER \<in> set ls"
  proof (rule ccontr)
    assume "OTHER \<notin> set ls"
    from label_all_labels [OF l this] have "ls = ?ts" .
    moreover have "distinct ?ts" by (simp add: distinct_map inj_on_def show_nat_inj)
    ultimately have "card (set ls) = 500" using distinct_card [of ?ts] by simp
    with label_all_card [OF l assms(1)] assms(2,3) show False by simp
  qed
  then show ?thesis
    unfolding metrics_section_def Let_def l by (simp add: COLLECTORS_def metric_def numeral_eq_Suc)
qed

subsection \<open>A call\<close>

text \<open>The client knows nothing else of the queues \<open>Q\<close> than that they are not configured.\<close>

definition client_ok :: "string set \<Rightarrow> client \<Rightarrow> bool" where
  "client_ok Q cl \<longleftrightarrow> cl_defaults cl = DEFAULTS
     \<and> (\<forall>q \<in> Q. \<forall>s r. cl_queueCache cl q = Some (s, r) \<longrightarrow> r = no_queue_defaults)"

lemma client_ok_new: "client_ok Q new_client"
  by (simp add: client_ok_def new_client_def)

definition smoke_row ::
  "instant \<Rightarrow> string \<Rightarrow> json \<Rightarrow> string option \<Rightarrow> int option \<Rightarrow> rat option \<Rightarrow> enqueue_row" where
  "smoke_row now q payload key lease delay = \<lparr>n_queue = q, n_type = ''smoke.ok'', n_payload = payload,
     n_metadata = None, n_priority = 0, n_maxAttempts = 5, n_leaseSeconds = coalesce lease 30,
     n_runAt = (case delay of None \<Rightarrow> None | Some s \<Rightarrow> if 0 < s then Some (delayed now s) else None),
     n_idempotencyKey = key, n_uniqueKey = None, n_traceContext = None, n_scheduleId = None\<rparr>"

lemma unconfigured:
  assumes "client_ok Q cl" and "q \<in> Q" and "q \<notin> qc_queue ` set (db_config d)"
  shows "\<exists>cl'. queueDefaults now q cl d = (no_queue_defaults, cl') \<and> client_ok Q cl'"
proof -
  have "row_of qc_queue q (db_config d) = None" using assms(3) by (simp add: row_of_None_iff)
  then have f: "fetch_defaults q d = no_queue_defaults"
    by (simp add: fetch_defaults_def resolveQueueDefaults_def no_queue_defaults_def)
  then show ?thesis
    using assms(1,2)
    by (cases "cl_queueCache cl q") (auto simp: queueDefaults_def Let_def client_ok_def)
qed

lemma smoke_build:
  assumes "client_ok Q cl" and "q \<in> Q" and "q \<notin> qc_queue ` set (db_config d)"
    and "length (stringify payload) \<le> 262144" and "\<forall>l \<in> set_option lease. 1 \<le> l" and "\<forall>s \<in> set_option delay. 0 \<le> s"
  shows "\<exists>cl'. buildRow now q ''smoke.ok'' payload (smoke_options key lease delay) cl d
      = (Inr (smoke_row now q payload key lease delay), cl') \<and> client_ok Q cl'"
proof -
  obtain cl' where c: "queueDefaults now q cl d = (no_queue_defaults, cl')" "client_ok Q cl'"
    using unconfigured [OF assms(1-3)] by blast
  have "\<not> (case delay of None \<Rightarrow> False | Some s \<Rightarrow> s < 0)" using assms(6) by (cases delay) auto
  moreover have "1 \<le> coalesce lease 30" using assms(5) by (cases lease) auto
  ultimately show ?thesis
    using c assms(1,4)
    by (simp add: buildRow_def smoke_options_def smoke_row_def c no_queue_defaults_def client_ok_def DEFAULTS_def)
qed

lemma submit_keeps:
  "submit alone now q row d = (r, d') \<Longrightarrow> db_config d' = db_config d \<and> db_schedules d' = db_schedules d"
  by (auto simp: submit_def query_def resolveConflict_def insertJob_def insert_row_def Let_def
      split: sum.splits prod.splits list.splits option.splits if_splits pg_error.splits)

lemma smoke_names: "validateName ''smoke.ok'' = Inr ()"
  by (simp add: validateName_def name_char_def byte_def)

lemma submit_inv_alone:
  assumes inv: "db_inv d" and s: "submit alone now q row d = (r, d')"
  shows "db_inv d'"
proof (cases "insertJob now row d")
  case (Inl e)
  have "e \<noteq> Unique_violation"
    using Inl by (auto simp: insertJob_def insert_row_def Let_def split: if_splits option.splits sum.splits)
  with Inl s inv show ?thesis by (cases e) (simp_all add: submit_def query_def)
next
  case (Inr x)
  obtain ids d1 where x: "x = (ids, d1)" by fastforce
  have "d' = d1"
    using s Inr x by (auto simp: submit_def query_def resolveConflict_def Let_def
        split: list.splits option.splits)
  with insert.inv [OF inv Inr [unfolded x]] show ?thesis by simp
qed

text \<open>What a call comes to: a new row at the end of the table, or the holder of its key.\<close>

lemma smoke_call_lands:
  assumes inv: "db_inv d" and cl: "client_ok Q cl" and q: "q \<in> Q" "q \<notin> qc_queue ` set (db_config d)"
    "validateName q = Inr ()"
    and ok: "length (stringify payload) \<le> 262144" "\<forall>l \<in> set_option lease. 1 \<le> l \<and> is_integer l"
      "\<forall>s \<in> set_option delay. 0 \<le> s"
  shows "\<exists>r cl' d'. smoke_call now q payload (smoke_options key lease delay) (cl, d) = (Inr r, cl', d')
    \<and> client_ok Q cl' \<and> db_inv d' \<and> db_config d' = db_config d \<and> db_schedules d' = db_schedules d
    \<and> (r = \<lparr>er_id = Some (db_job_seq d), er_deduplicated = False\<rparr>
         \<and> db_jobs d' = db_jobs d @ [new_job now (smoke_row now q payload key lease delay) (db_job_seq d)]
       \<or> db_jobs d' = db_jobs d \<and> key \<noteq> None
         \<and> (\<exists>j \<in> set (db_jobs d). j_queue j = q \<and> j_idempotency_key j = key
             \<and> r = \<lparr>er_id = Some (j_id j), er_deduplicated = True\<rparr>))"
proof -
  let ?row = "smoke_row now q payload key lease delay"
  have "\<forall>l \<in> set_option lease. 1 \<le> l" using ok(2) by blast
  from smoke_build [OF cl q(1,2) ok(1) this ok(3)] obtain cl' where
    b: "buildRow now q ''smoke.ok'' payload (smoke_options key lease delay) cl d = (Inr ?row, cl')"
    and cl': "client_ok Q cl'" by blast
  have adm: "admissible now ?row"
    using ok(2) by (cases lease) (auto simp: admissible_def Let_def new_job_def smoke_row_def is_smallint_def
        is_integer_def job_checks_def)
  have nq: "n_queue ?row = q" and f: "n_scheduleId ?row = None" "n_uniqueKey ?row = None" "n_idempotencyKey ?row = key"
    by (simp_all add: smoke_row_def)
  from submit_total [OF inv adm nq f(1)] obtain r d' where
    s: "submit alone now q ?row d = (r, d')"
    and r: "r = Inr \<lparr>er_id = Some (db_job_seq d), er_deduplicated = False\<rparr>
         \<and> db_jobs d' = db_jobs d @ [new_job now ?row (db_job_seq d)]
       \<or> db_jobs d' = db_jobs d \<and> key \<noteq> None
         \<and> (\<exists>j \<in> set (db_jobs d). j_queue j = q \<and> j_idempotency_key j = key
             \<and> r = Inr \<lparr>er_id = Some (j_id j), er_deduplicated = True\<rparr>)"
    unfolding f by blast
  have "smoke_call now q payload (smoke_options key lease delay) (cl, d) = (r, cl', d')"
    using enqueue_built [OF q(3) smoke_names b, of now] s by (simp add: smoke_call_def)
  moreover have "db_inv d'" by (rule submit_inv_alone [OF inv s])
  ultimately show ?thesis using r cl' submit_keeps [OF s] by auto
qed

subsection \<open>What a section adds\<close>

text \<open>A job of the smoke queue that waits for its first delivery.\<close>

definition fresh_job :: "string \<Rightarrow> instant \<Rightarrow> job \<Rightarrow> bool" where
  "fresh_job q u j \<longleftrightarrow> j_queue j = q \<and> j_state j = Available \<and> j_attempt j = 0 \<and> j_max_attempts j = 5
     \<and> j_lease_seconds j = 30 \<and> j_run_at j \<le> u"

definition adds :: "string \<Rightarrow> instant \<Rightarrow> nat \<Rightarrow> db \<Rightarrow> db \<Rightarrow> bool" where
  "adds q u n d d' \<longleftrightarrow> db_inv d' \<and> db_config d' = db_config d \<and> db_schedules d' = db_schedules d
     \<and> (\<exists>js. db_jobs d' = db_jobs d @ js \<and> list_all (fresh_job q u) js \<and> n \<le> length js)"

lemma adds_trans: "adds q u m d d1 \<Longrightarrow> adds q u n d1 d2 \<Longrightarrow> adds q u (m + n) d d2"
  by (fastforce simp: adds_def)

lemma adds_config: "adds q u n d d' \<Longrightarrow> db_inv d' \<and> db_config d' = db_config d"
  by (simp add: adds_def)

lemma fresh_smoke_row: "now \<le> u \<Longrightarrow> fresh_job q u (new_job now (smoke_row now q payload key None None) i)"
  by (simp add: fresh_job_def new_job_def smoke_row_def)

lemma smoke_call_adds:
  assumes "db_inv d" and "client_ok Q cl" and "q \<in> Q" "q \<notin> qc_queue ` set (db_config d)" "validateName q = Inr ()"
    and "length (stringify payload) \<le> 262144" and "now \<le> u"
  shows "\<exists>r cl' d'. smoke_call now q payload (smoke_options key None None) (cl, d) = (Inr r, cl', d')
    \<and> client_ok Q cl' \<and> adds q u (if key = None then 1 else 0) d d'
    \<and> (\<exists>j \<in> set (db_jobs d'). j_queue j = q \<and> j_idempotency_key j = key \<and> er_id r = Some (j_id j))
    \<and> (key = None \<longrightarrow> \<not> er_deduplicated r)
    \<and> (\<forall>j \<in> set (db_jobs d). key \<noteq> None \<and> j_queue j = q \<and> j_idempotency_key j = key
         \<longrightarrow> er_id r = Some (j_id j) \<and> er_deduplicated r)"
proof -
  obtain r cl' d' where c: "smoke_call now q payload (smoke_options key None None) (cl, d) = (Inr r, cl', d')"
    "client_ok Q cl'" "db_inv d'" "db_config d' = db_config d" "db_schedules d' = db_schedules d"
    and r: "r = \<lparr>er_id = Some (db_job_seq d), er_deduplicated = False\<rparr>
         \<and> db_jobs d' = db_jobs d @ [new_job now (smoke_row now q payload key None None) (db_job_seq d)]
       \<or> db_jobs d' = db_jobs d \<and> key \<noteq> None
         \<and> (\<exists>j \<in> set (db_jobs d). j_queue j = q \<and> j_idempotency_key j = key
             \<and> r = \<lparr>er_id = Some (j_id j), er_deduplicated = True\<rparr>)"
    using smoke_call_lands [OF assms(1-6), of None None now key] by auto
  have row: "n_queue (smoke_row now q payload key None None) = q"
    "n_idempotencyKey (smoke_row now q payload key None None) = key" by (simp_all add: smoke_row_def)
  have "adds q u (if key = None then 1 else 0) d d'"
    using c r fresh_smoke_row [OF assms(7)] by (auto simp: adds_def)
  moreover have "\<exists>j \<in> set (db_jobs d'). j_queue j = q \<and> j_idempotency_key j = key \<and> er_id r = Some (j_id j)"
    using r row by auto
  moreover have "er_id r = Some (j_id j) \<and> er_deduplicated r"
    if j: "j \<in> set (db_jobs d)" "key \<noteq> None" "j_queue j = q" "j_idempotency_key j = key" for j
  proof -
    from j(2) obtain k where k: "key = Some k" by blast
    from enqueue_held [OF assms(1) j(1,3), of k "smoke_options key None None" now now "''smoke.ok''" payload cl r cl' d']
      c(1) j(4) k
    have "er_id r = Some (j_id j) \<and> er_deduplicated r" by (simp add: smoke_call_def smoke_options_def)
    then show ?thesis .
  qed
  moreover have "key = None \<longrightarrow> \<not> er_deduplicated r" using r by auto
  ultimately show ?thesis
    using c(1,2) by (intro exI [of _ r] exI [of _ cl'] exI [of _ d']) blast
qed

subsection \<open>Enqueue\<close>

lemma smoke_sizes:
  "length (stringify (numbered ''1'')) \<le> 262144" "length (stringify (numbered ''2'')) \<le> 262144"
  "length (stringify (numbered ''3'')) \<le> 262144" "length (stringify (numbered ''9'')) \<le> 262144"
  "length (stringify (JObj [(''fence'', JBool True)])) \<le> 262144" "length (stringify (JObj [])) \<le> 262144"
  by (simp_all add: numbered_def quoted_def escape_char_def byte_def Let_def)

lemma item_size: "i < 50 \<Longrightarrow> length (stringify (JObj [(''i'', JNum (show_nat i))])) \<le> 262144"
  using show_nat_length [of i] by (simp add: quoted_def escape_char_def byte_def Let_def)

lemma text_size: "n \<le> length (stringify (JObj [(k, JStr (replicate n (CHR ''x'')))]))"
proof -
  have "concat (map escape_char (replicate n (CHR ''x''))) = replicate n (CHR ''x'')"
    by (induction n) (simp_all add: escape_char_def byte_def Let_def)
  then show ?thesis by (simp add: quoted_def)
qed

lemma blob_size: "262144 < length (stringify blob)"
proof -
  have "(262144 :: nat) < 400000" by simp
  also have "400000 \<le> length (stringify blob)" unfolding blob_def by (rule text_size)
  finally show ?thesis .
qed

lemma racers_held:
  assumes "db_inv d" and "client_ok Q cl" and "q \<in> Q" "q \<notin> qc_queue ` set (db_config d)" "validateName q = Inr ()"
    and "\<forall>k. t k \<le> u" and "j \<in> set (db_jobs d)" "j_queue j = q" "j_idempotency_key j = Some ''race''"
  shows "\<exists>rs cl' d'. racers t q k n (cl, d) = (Inr rs, cl', d') \<and> client_ok Q cl' \<and> adds q u 0 d d'
    \<and> length rs = n \<and> (\<forall>r \<in> set rs. er_id r = Some (j_id j))"
  using assms
proof (induction n arbitrary: k cl d)
  case 0
  then show ?case by (simp add: adds_def)
next
  case (Suc n)
  from smoke_call_adds [OF Suc.prems(1-5) smoke_sizes(4), of "t k" u "Some ''race''"] Suc.prems(6-9)
  obtain r cl1 d1 where c: "smoke_call (t k) q (numbered ''9'') (smoke_options (Some ''race'') None None) (cl, d) = (Inr r, cl1, d1)"
    "client_ok Q cl1" "adds q u 0 d d1" "er_id r = Some (j_id j)" by auto
  from adds_config [OF c(3)] have i1: "db_inv d1" "q \<notin> qc_queue ` set (db_config d1)" using Suc.prems(4) by auto
  have "j \<in> set (db_jobs d1)" using c(3) Suc.prems(7) by (auto simp: adds_def)
  from Suc.IH [OF i1(1) c(2) Suc.prems(3) i1(2) Suc.prems(5,6) this Suc.prems(8,9), of "Suc k"] obtain rs cl2 d2 where
    r: "racers t q (Suc k) n (cl1, d1) = (Inr rs, cl2, d2)" "client_ok Q cl2" "adds q u 0 d1 d2" "length rs = n"
    "\<forall>r \<in> set rs. er_id r = Some (j_id j)" by blast
  from adds_trans [OF c(3) r(3)] c r show ?case by simp
qed

lemma racers_pass:
  assumes "db_inv d" and "client_ok Q cl" and "q \<in> Q" "q \<notin> qc_queue ` set (db_config d)" "validateName q = Inr ()"
    and "\<forall>k. t k \<le> u"
  shows "\<exists>rs cl' d'. racers t q k (Suc n) (cl, d) = (Inr rs, cl', d') \<and> client_ok Q cl' \<and> adds q u 0 d d'
    \<and> length (remdups (map er_id rs)) = 1"
proof -
  from smoke_call_adds [OF assms(1-5) smoke_sizes(4), of "t k" u "Some ''race''"] assms(6)
  obtain r cl1 d1 j where c: "smoke_call (t k) q (numbered ''9'') (smoke_options (Some ''race'') None None) (cl, d) = (Inr r, cl1, d1)"
    "client_ok Q cl1" "adds q u 0 d d1" "er_id r = Some (j_id j)"
    and j: "j \<in> set (db_jobs d1)" "j_queue j = q" "j_idempotency_key j = Some ''race''" by auto
  from adds_config [OF c(3)] have i1: "db_inv d1" "q \<notin> qc_queue ` set (db_config d1)" using assms(4) by auto
  from racers_held [OF i1(1) c(2) assms(3) i1(2) assms(5,6) j, of "Suc k" n] obtain rs cl2 d2 where
    r: "racers t q (Suc k) n (cl1, d1) = (Inr rs, cl2, d2)" "client_ok Q cl2" "adds q u 0 d1 d2"
    "\<forall>r \<in> set rs. er_id r = Some (j_id j)" by blast
  have "length (remdups (map er_id (r # rs))) = card (set (map er_id (r # rs)))"
    by (rule length_remdups_card_conv)
  also have "set (map er_id (r # rs)) = {Some (j_id j)}" using c(4) r(4) by auto
  finally have "length (remdups (map er_id (r # rs))) = 1" by simp
  with adds_trans [OF c(3) r(3)] c r show ?thesis by (auto simp del: remdups.simps)
qed

subsection \<open>The batch\<close>

lemma smoke_build_rows:
  assumes "client_ok Q cl" and "q \<in> Q" and "q \<notin> qc_queue ` set (db_config d)" and "\<forall>i \<in> set is. i < 50"
  shows "\<exists>cl'. build_rows now q n (map smoke_item is) cl d
      = (Inr (map (\<lambda>i. smoke_row now q (bi_payload (smoke_item i)) None None None) is), cl') \<and> client_ok Q cl'"
  using assms(1,4)
proof (induction "is" arbitrary: n cl)
  case (Cons i "is")
  from smoke_build [OF Cons.prems(1) assms(2,3), of "bi_payload (smoke_item i)" None None now None]
    item_size [of i] Cons.prems(2) obtain cl1 where
    b: "buildRow now q ''smoke.ok'' (bi_payload (smoke_item i)) (smoke_options None None None) cl d
      = (Inr (smoke_row now q (bi_payload (smoke_item i)) None None None), cl1)" "client_ok Q cl1"
    by (auto simp: smoke_item_def)
  from Cons.IH [OF b(2), of "Suc n"] Cons.prems(2) b smoke_names show ?case by (auto simp: smoke_item_def)
qed simp

lemma map_back_positions:
  "\<forall>r \<in> set rows. n_idempotencyKey r = None \<Longrightarrow> length us = length rows \<Longrightarrow>
     map_back env n q m rows us d = (map (\<lambda>i. \<lparr>er_id = Some i, er_deduplicated = False\<rparr>) us, d)"
proof (induction rows arbitrary: n us)
  case (Cons r rows)
  then obtain i vs where "us = i # vs" by (cases us) auto
  with Cons.IH [of vs "Suc n"] Cons.prems show ?case by simp
qed simp

lemma smoke_batch_passes:
  assumes inv: "db_inv d" and cl: "client_ok Q cl" "q \<in> Q" "q \<notin> qc_queue ` set (db_config d)" "validateName q = Inr ()"
    and u: "now \<le> u"
  shows "\<exists>rs cl' d'. enqueueBatch alone now now q (map smoke_item [0..<50]) cl d = (Inr rs, cl', d')
    \<and> client_ok Q cl' \<and> adds q u 50 d d' \<and> length rs = 50 \<and> list_all (\<lambda>r. er_id r \<noteq> None) rs"
proof -
  let ?items = "map smoke_item [0..<50]"
  let ?rows = "map (\<lambda>i. smoke_row now q (bi_payload (smoke_item i)) None None None) [0..<50]"
  obtain cl' where b: "build_rows now q 0 ?items cl d = (Inr ?rows, cl')" "client_ok Q cl'"
    using smoke_build_rows [OF cl(1-3), of "[0..<50]" now 0] by auto
  have p: "\<forall>r \<in> set ?rows. plain_row now r"
    by (auto simp: plain_row_def admissible_def Let_def new_job_def smoke_row_def is_smallint_def is_integer_def job_checks_def)
  obtain js d' where ins: "insert_rows now ?rows d = Inr (js, d')" "db_inv d'" "db_config d' = db_config d"
      "db_jobs d' = db_jobs d @ js" "list_all2 (\<lambda>r j. \<exists>i. j = new_job now r i) ?rows js"
    using plain_rows_inserted [OF inv p] by blast
  have sch: "db_schedules d' = db_schedules d"
  proof -
    have "insert_rows now rs e = Inr (ks, e') \<Longrightarrow> db_schedules e' = db_schedules e" for rs e ks e'
      by (induction rs arbitrary: e ks)
        (auto simp: insert_row_def Let_def split: sum.splits prod.splits if_splits)
    with ins(1) show ?thesis by blast
  qed
  have len: "length js = 50" using list_all2_lengthD [OF ins(5)] by simp
  have "list_all (\<lambda>j. j_idempotency_key j = None) js"
    by (rule list_all_of_rows [OF ins(5)]) (auto simp: smoke_row_def)
  then have none: "\<forall>j \<in> set js. j_idempotency_key j = None" by (simp add: list_all_iff)
  have new: "list_all (fresh_job q u) js"
    by (rule list_all_of_rows [OF ins(5)]) (use fresh_smoke_row [OF u] in auto)
  let ?us = "map ir_id (filter (\<lambda>r. ir_idempotency_key r = None) (map inserted_returning js))"
  have us: "?us = map j_id js"
    using none by (induction js) (simp_all add: inserted_returning_def)
  have "map_back alone 1 q (byIdem (map inserted_returning js)) ?rows ?us d'
      = (map (\<lambda>i. \<lparr>er_id = Some i, er_deduplicated = False\<rparr>) ?us, d')"
    by (rule map_back_positions) (use len in \<open>auto simp: us smoke_row_def\<close>)
  moreover have "insertJobsBatch now ?rows d = Inr (map inserted_returning js, d')"
    by (simp add: insertJobsBatch_def returning_def ins(1))
  moreover have "?items \<noteq> []" "\<not> 1000 < length ?items" by simp_all
  ultimately have "enqueueBatch alone now now q ?items cl d
      = (Inr (map (\<lambda>i. \<lparr>er_id = Some i, er_deduplicated = False\<rparr>) ?us), cl', d')"
    unfolding enqueueBatch_def cl(4) b(1) by (simp add: query_def Let_def del: filter.simps upt.simps)
  moreover have "adds q u 50 d d'"
    using ins sch new len by (auto simp: adds_def)
  ultimately show ?thesis using b(2) by (auto simp: us len list_all_iff)
qed

text \<open>The whole section: 51 jobs at least, all checks met.\<close>

lemma enqueue_passes:
  assumes inv: "db_inv d" and cl: "client_ok Q cl" "q \<in> Q" "q \<notin> qc_queue ` set (db_config d)" "validateName q = Inr ()"
    and t: "\<forall>k. t k \<le> u"
  shows "\<exists>cl' d'. enqueue_section t q (cl, d) = (Inr (replicate 7 True), cl', d')
    \<and> client_ok Q cl' \<and> adds q u 51 d d'"
proof -
  have le: "t k \<le> u" for k using t by blast
  obtain r1 cl1 d1 where c1: "smoke_call (t 0) q (numbered ''1'') (smoke_options None None None) (cl, d) = (Inr r1, cl1, d1)"
    "client_ok Q cl1" "adds q u 1 d d1" "er_id r1 \<noteq> None" "\<not> er_deduplicated r1"
    using smoke_call_adds [OF inv cl smoke_sizes(1) le [of 0], of None] by auto
  from adds_config [OF c1(3)] have i1: "db_inv d1" "q \<notin> qc_queue ` set (db_config d1)" using cl(3) by auto
  obtain r2 cl2 d2 j where c2: "smoke_call (t 1) q (numbered ''2'') (smoke_options (Some ''k1'') None None) (cl1, d1) = (Inr r2, cl2, d2)"
    "client_ok Q cl2" "adds q u 0 d1 d2" "er_id r2 = Some (j_id j)"
    and j: "j \<in> set (db_jobs d2)" "j_queue j = q" "j_idempotency_key j = Some ''k1''"
    using smoke_call_adds [OF i1(1) c1(2) cl(2) i1(2) cl(4) smoke_sizes(2) le [of 1], of "Some ''k1''"] by auto
  from adds_config [OF c2(3)] have i2: "db_inv d2" "q \<notin> qc_queue ` set (db_config d2)" using i1(2) by auto
  obtain r3 cl3 d3 where c3: "smoke_call (t 2) q (numbered ''3'') (smoke_options (Some ''k1'') None None) (cl2, d2) = (Inr r3, cl3, d3)"
    "client_ok Q cl3" "adds q u 0 d2 d3" "er_id r3 = Some (j_id j)" "er_deduplicated r3"
    using smoke_call_adds [OF i2(1) c2(2) cl(2) i2(2) cl(4) smoke_sizes(3) le [of 2], of "Some ''k1''"] j by auto
  from adds_config [OF c3(3)] have i3: "db_inv d3" "q \<notin> qc_queue ` set (db_config d3)" using i2(2) by auto
  obtain rs cl4 d4 where c4: "racers t q 3 8 (cl3, d3) = (Inr rs, cl4, d4)" "client_ok Q cl4" "adds q u 0 d3 d4"
    "length (remdups (map er_id rs)) = 1"
    using racers_pass [OF i3(1) c3(2) cl(2) i3(2) cl(4) t, of 3 7] by auto
  from adds_config [OF c4(3)] have i4: "db_inv d4" "q \<notin> qc_queue ` set (db_config d4)" using i3(2) by auto
  obtain bs cl5 d5 where c5: "enqueueBatch alone (t 11) (t 11) q (map smoke_item [0..<50]) cl4 d4 = (Inr bs, cl5, d5)"
    "client_ok Q cl5" "adds q u 50 d4 d5" "length bs = 50" "list_all (\<lambda>r. er_id r \<noteq> None) bs"
    using smoke_batch_passes [OF i4(1) c4(2) cl(2) i4(2) cl(4) le [of 11]] by blast
  have c6: "smoke_call (t 12) q blob (smoke_options None None None) (cl5, d5)
      = (Inl (Fault PayloadTooLargeError No_details), cl5, d5)"
    using blob_size c5(2) by (simp add: smoke_call_def enqueue_def cl(4) smoke_names buildRow_def client_ok_def DEFAULTS_def)
  have "adds q u 51 d d5"
    using adds_trans [OF adds_trans [OF adds_trans [OF adds_trans [OF c1(3) c2(3)] c3(3)] c4(3)] c5(3)] by simp
  with c1 c2 c3 c4 c5 c6 show ?thesis
    unfolding enqueue_section_def by (simp add: numeral_eq_Suc del: upt.simps)
qed

subsection \<open>Claims\<close>

text \<open>
  What holds between the sections: no lease has expired by \<open>T\<close>, a job that waits in the queue waits
  for its first delivery, and the queues \<open>Z\<close> are still empty.
\<close>

definition smoke_ok :: "string \<Rightarrow> instant \<Rightarrow> string set \<Rightarrow> db \<Rightarrow> bool" where
  "smoke_ok q T Z d \<longleftrightarrow> db_inv d \<and> \<not> queue_paused d q
     \<and> (\<forall>j \<in> set (db_jobs d). \<not> lease_expired T {} j \<and> j_queue j \<notin> Z
         \<and> (j_queue j = q \<and> j_state j = Available
             \<longrightarrow> j_attempt j = 0 \<and> j_max_attempts j = 5 \<and> j_lease_seconds j = 30))"

lemma unpaused: "q \<notin> qc_queue ` set (db_config d) \<Longrightarrow> \<not> queue_paused d q"
proof -
  assume "q \<notin> qc_queue ` set (db_config d)"
  then have "row_of qc_queue q (db_config d) = None" by (simp add: row_of_None_iff)
  then show ?thesis by (simp add: queue_paused_def)
qed

lemma smoke_ok_empty: "smoke_ok q T Z d \<Longrightarrow> x \<in> Z \<Longrightarrow> x \<notin> j_queue ` set (db_jobs d)"
  by (auto simp: smoke_ok_def)

lemma still_empty: "A \<subseteq> insert b B \<Longrightarrow> x \<noteq> b \<Longrightarrow> x \<notin> B \<Longrightarrow> x \<notin> A"
  by blast

lemma smoke_ok_adds:
  assumes "smoke_ok q T Z d" and "adds q u n d d'" and "q \<notin> Z"
  shows "smoke_ok q T Z d'"
proof -
  have "\<not> lease_expired T {} j" if "fresh_job q u j" for j
    using that by (simp add: fresh_job_def lease_expired_def)
  then show ?thesis
    using assms by (auto simp: smoke_ok_def adds_def queue_paused_def list_all_iff fresh_job_def)
qed

lemma update_frame:
  assumes "update_jobs P f d = Inr (rs, d')" and "keeps_identity f"
  shows "j_queue ` set (db_jobs d') = j_queue ` set (db_jobs d)"
    and "db_config d' = db_config d" and "db_schedules d' = db_schedules d"
proof -
  note D = update_jobs_InrD [OF assms(1)]
  have "map j_queue (upd_where P f xs) = map j_queue xs" for xs
    using keeps_identityD(2) [OF assms(2)] by (simp add: map_upd_where)
  then show "j_queue ` set (db_jobs d') = j_queue ` set (db_jobs d)"
    unfolding D(2) by (metis (no_types, lifting) db.select_convs(1) db.surjective db.update_convs(1) list.set_map)
  show "db_config d' = db_config d" "db_schedules d' = db_schedules d" by (simp_all add: D(2))
qed

lemma smoke_ok_update:
  assumes ok: "smoke_ok q T Z d" and u: "update_jobs P f d = Inr (rs, d')" and f: "keeps_identity f"
    and fj: "\<And>j. j \<in> set (db_jobs d) \<Longrightarrow> P j \<Longrightarrow> j_state (f j) \<noteq> Available \<and> \<not> lease_expired T {} (f j)"
  shows "smoke_ok q T Z d'"
proof -
  note D = update_jobs_InrD [OF u]
  have "db_inv d'" using update_jobs_inv [OF _ u f] ok by (simp add: smoke_ok_def)
  moreover have "\<not> queue_paused d' q" using ok by (simp add: D(2) smoke_ok_def queue_paused_def)
  moreover have "\<not> lease_expired T {} j \<and> j_queue j \<notin> Z
      \<and> (j_queue j = q \<and> j_state j = Available
          \<longrightarrow> j_attempt j = 0 \<and> j_max_attempts j = 5 \<and> j_lease_seconds j = 30)"
    if j: "j \<in> set (db_jobs d')" for j
  proof -
    from j obtain k where k: "k \<in> set (db_jobs d)" "j = (if P k then f k else k)"
      by (auto simp: D(2) upd_where_def)
    show ?thesis
    proof (cases "P k")
      case True
      with k fj [OF k(1) True] keeps_identityD(2) [OF f] ok show ?thesis by (auto simp: smoke_ok_def)
    next
      case False
      with k ok show ?thesis by (auto simp: smoke_ok_def)
    qed
  qed
  ultimately show ?thesis by (simp add: smoke_ok_def)
qed

definition waits :: "db \<Rightarrow> ident \<Rightarrow> bool" where
  "waits d i \<longleftrightarrow> (\<exists>j \<in> set (db_jobs d). j_id j = i \<and> j_state j = Available)"

definition runs_for :: "string \<Rightarrow> db \<Rightarrow> ident \<Rightarrow> bool" where
  "runs_for w d i \<longleftrightarrow> (\<exists>k. job_at d i = Some k \<and> j_state k = Running \<and> j_worker_id k = Some w \<and> j_attempt k = 1)"

lemma claim_by_passes:
  assumes ok: "smoke_ok q T Z d" and T: "T \<le> now + us_per_second * 30"
  shows "\<exists>cs d'. claim_by now locked q n w d = (Inr cs, d') \<and> smoke_ok q T Z d'
    \<and> db_config d' = db_config d \<and> db_schedules d' = db_schedules d
    \<and> length cs = min n (length (filter (eligible now locked q d) (db_jobs d)))
    \<and> distinct (map c_id cs) \<and> (\<forall>i. waits d' i \<longrightarrow> waits d i \<and> i \<notin> c_id ` set cs)
    \<and> (\<forall>c \<in> set cs. c_attempt c = 1 \<and> waits d (c_id c) \<and> runs_for w d' (c_id c))"
proof -
  let ?p = "\<lparr>cp_queue = q, cp_limit = n, cp_workerId = w\<rparr>"
  let ?C = "set (claim_candidates claim_order now locked ?p d)"
  have inv: "db_inv d" using ok by (simp add: smoke_ok_def)
  have cand: "eligible now locked q d j" if "j \<in> set (db_jobs d)" "j_id j \<in> ?C" for j
    using candidates_eligible [OF inv that] by simp
  then have fresh: "j_attempt j = 0 \<and> j_max_attempts j = 5 \<and> j_lease_seconds j = 30"
    if "j \<in> set (db_jobs d)" "j_id j \<in> ?C" for j
    using that ok by (auto simp: smoke_ok_def eligible_def)
  have "\<not> (\<exists>j \<in> set (db_jobs d). j_id j \<in> ?C \<and> j_attempt j = j_max_attempts j)"
    using fresh by fastforce
  with claim_with_cases [OF inv, of claim_order now locked ?p] obtain rs d' where
    c: "claim_with claim_order now locked ?p d = Inr (rs, d')" by auto
  note u = c [unfolded claim_with_def, simplified]
  have "smoke_ok q T Z d'"
    by (rule smoke_ok_update [OF ok u claim_row_keeps]) (use fresh T in \<open>auto simp: lease_expired_def\<close>)
  moreover note update_frame(2,3) [OF u claim_row_keeps]
  moreover have "length rs = min n (length (filter (eligible now locked q d) (db_jobs d)))"
    using claim_with_count [OF inv c] by simp
  moreover have "distinct (map j_id rs)" by (rule claim_with_ids(2) [OF inv c])
  moreover have row: "waits d (j_id r) \<and> j_attempt r = 1 \<and> j_state r = Running \<and> j_worker_id r = Some w
      \<and> job_at d' (j_id r) = Some r" if r: "r \<in> set rs" for r
  proof -
    from claim_with_row [OF inv c r] obtain j where j: "job_at d (j_id r) = Some j"
      "eligible now locked q d j" "r = claim_row now w j" "job_at d' (j_id r) = Some r" by auto
    from db_inv_jobD [OF inv j(1)] have mem: "j \<in> set (db_jobs d)" "j_id j = j_id r" by blast+
    moreover have "j_state j = Available" "j_queue j = q" using j(2) by (simp_all add: eligible_def)
    moreover from this mem(1) ok have "j_attempt j = 0" by (simp add: smoke_ok_def)
    ultimately have "waits d (j_id r)" and "j_attempt (claim_row now w j) = 1" by (auto simp: waits_def)
    moreover have "j_state (claim_row now w j) = Running" "j_worker_id (claim_row now w j) = Some w" by simp_all
    ultimately show ?thesis using j(3,4) by metis
  qed
  moreover have "waits d i \<and> i \<notin> j_id ` set rs" if w: "waits d' i" for i
  proof -
    from w obtain j where j: "j \<in> set (db_jobs d')" "j_id j = i" "j_state j = Available" by (auto simp: waits_def)
    from j(1) obtain k where k: "k \<in> set (db_jobs d)" "j = (if j_id k \<in> ?C then claim_row now w k else k)"
      by (auto simp: update_jobs_InrD(2) [OF u] upd_where_def)
    have "j_id k \<notin> ?C"
    proof
      assume "j_id k \<in> ?C"
      with k(2) j(3) show False by simp
    qed
    with k j have "waits d i" "i \<notin> ?C" by (auto simp: waits_def)
    moreover have "j_id ` set rs = ?C" using claim_with_ids(1) [OF inv c] by simp
    ultimately show ?thesis by blast
  qed
  ultimately show ?thesis
    using c by (intro exI [of _ "map toClaimedJob rs"] exI [of _ d'])
      (simp add: claim_by_def claimJobs_def returning_def comp_def toClaimedJob_def image_image runs_for_def)
qed

lemma claimers_disjoint:
  assumes "smoke_ok q T Z d" and "\<forall>i. T \<le> t i + us_per_second * 30"
  shows "\<exists>ids d'. claimers t locked q i n d = (Inr ids, d') \<and> smoke_ok q T Z d'
    \<and> db_config d' = db_config d \<and> db_schedules d' = db_schedules d
    \<and> distinct ids \<and> (\<forall>k \<in> set ids. waits d k)"
  using assms(1)
proof (induction n arbitrary: i d)
  case (Suc n)
  have T: "T \<le> t i + us_per_second * 30" using assms(2) by blast
  obtain cs d1 where c: "claim_by (t i) (locked i) q 5 (''p-'' @ show_nat i) d = (Inr cs, d1)" "smoke_ok q T Z d1"
    "db_config d1 = db_config d" "db_schedules d1 = db_schedules d" "distinct (map c_id cs)"
    "\<forall>i. waits d1 i \<longrightarrow> waits d i \<and> i \<notin> c_id ` set cs" "\<forall>c \<in> set cs. waits d (c_id c)"
    using claim_by_passes [OF Suc.prems T, of "locked i" 5 "''p-'' @ show_nat i"] by blast
  from Suc.IH [OF c(2), of "Suc i"] obtain ids d2 where
    r: "claimers t locked q (Suc i) n d1 = (Inr ids, d2)" "smoke_ok q T Z d2"
    "db_config d2 = db_config d1" "db_schedules d2 = db_schedules d1" "distinct ids" "\<forall>k \<in> set ids. waits d1 k" by blast
  have "distinct (map c_id cs @ ids)" using c(5,6) r(5,6) by auto
  with c r show ?case by auto
qed simp

lemma enough_eligible:
  assumes "adds q u m d0 d" and "\<not> queue_paused d q" and "u \<le> now" and "n \<le> m"
  shows "n \<le> length (filter (eligible now {} q d) (db_jobs d))"
proof -
  obtain js where js: "db_jobs d = db_jobs d0 @ js" "list_all (fresh_job q u) js" "m \<le> length js"
    using assms(1) by (auto simp: adds_def)
  have "\<forall>j \<in> set js. eligible now {} q d j"
    using js(2) assms(2,3) by (auto simp: list_all_iff fresh_job_def eligible_def)
  then have "filter (eligible now {} q d) js = js" by simp
  with js(1,3) assms(4) show ?thesis by simp
qed

lemma claim_passes:
  assumes ok: "smoke_ok q T Z d" and T: "\<forall>i. T \<le> t i + us_per_second * 30"
    and many: "adds q u 3 d0 d" "u \<le> t 6"
  shows "\<exists>d'. claim_section t locked q d = (Inr (replicate 3 True), d') \<and> smoke_ok q T Z d'
    \<and> db_config d' = db_config d \<and> db_schedules d' = db_schedules d"
proof -
  have free: "\<not> queue_paused d q" using ok by (simp add: smoke_ok_def)
  have T6: "T \<le> t 6 + us_per_second * 30" using T by blast
  obtain cs d1 where c: "claim_by (t 6) {} q 3 ''w-smoke'' d = (Inr cs, d1)" "smoke_ok q T Z d1"
    "db_config d1 = db_config d" "db_schedules d1 = db_schedules d"
    "length cs = min 3 (length (filter (eligible (t 6) {} q d) (db_jobs d)))" "\<forall>c \<in> set cs. c_attempt c = 1"
    using claim_by_passes [OF ok T6, of "{}" 3 "''w-smoke''"] by blast
  have len: "length cs = 3" using enough_eligible [OF many(1) free many(2), of 3] c(5) by simp
  have T': "\<forall>i. T \<le> t (7 + i) + us_per_second * 30" using T by blast
  obtain ids d2 where r: "claimers (\<lambda>i. t (7 + i)) locked q 0 6 d1 = (Inr ids, d2)" "smoke_ok q T Z d2"
    "db_config d2 = db_config d1" "db_schedules d2 = db_schedules d1" "distinct ids"
    using claimers_disjoint [OF c(2) T', of locked 0 6] by blast
  then have "length ids = length (remdups ids)" by (simp add: distinct_remdups_id)
  with c r len show ?thesis by (simp add: claim_section_def list_all_iff numeral_eq_Suc)
qed

subsection \<open>The fence\<close>

lemma finish_row_keeps: "keeps_identity (finish_row g now)"
  by (simp add: keeps_identity_def finish_row_def Let_def)

lemma finish_row_state: "j_state (finish_row g now j) = Succeeded"
  by (simp add: finish_row_def Let_def)

lemma fenced_out:
  assumes inv: "db_inv d" and at: "job_at d (f_id p) = Some k" and no: "\<not> owns p k"
  shows "finish_raw g now p d = (Inr [], d)"
proof -
  have "\<not> owns p j" if "j \<in> set (db_jobs d)" for j
    using db_inv_job_at [OF inv that] at no by (auto simp: owns_def)
  then have "update_jobs (owns p) (finish_row g now) d = Inr ([], d)" by (intro update_jobs_none [OF inv]) blast
  then show ?thesis by (simp add: finish_raw_def returning_def)
qed

lemma fence_opens:
  assumes ok: "smoke_ok q T Z d" and at: "job_at d (f_id p) = Some k" and own: "owns p k"
  shows "\<exists>d'. finish_raw True now p d = (Inr [j_id k], d') \<and> smoke_ok q T Z d'
    \<and> db_config d' = db_config d \<and> db_schedules d' = db_schedules d"
proof -
  have inv: "db_inv d" using ok by (simp add: smoke_ok_def)
  have "job_checks (finish_row True now j)" if "job_checks j" for j
    using that by (simp add: finish_row_def job_checks_def)
  moreover have "active_slot (finish_row True now j) = None" for j
    by (simp add: active_slot_def finish_row_state)
  ultimately have "\<exists>d'. update_jobs (\<lambda>j. owns p j \<and> True) (finish_row True now) d = Inr ([finish_row True now k], d')
      \<and> job_at d' (f_id p) = Some (finish_row True now k)"
    by (intro owner_update_lands [OF inv at own TrueI finish_row_keeps]) simp_all
  then obtain d' where u: "update_jobs (owns p) (finish_row True now) d = Inr ([finish_row True now k], d')"
    by auto
  have "smoke_ok q T Z d'"
    by (rule smoke_ok_update [OF ok u finish_row_keeps]) (simp add: finish_row_state lease_expired_def)
  with u update_frame(2,3) [OF u finish_row_keeps] show ?thesis
    by (simp add: finish_raw_def returning_def finish_row_def)
qed

lemma fence_passes:
  assumes ok: "smoke_ok q T Z d" and z: "q \<notin> Z" and cl: "client_ok Q cl" "q \<in> Q" "q \<notin> qc_queue ` set (db_config d)" "validateName q = Inr ()"
    and t: "t 0 \<le> t 1" and T: "T \<le> t 1 + us_per_second * 30"
  shows "\<exists>cl' d'. fence_section t q (cl, d) = (Inr (replicate 3 True), cl', d') \<and> client_ok Q cl'
    \<and> smoke_ok q T Z d' \<and> db_config d' = db_config d \<and> db_schedules d' = db_schedules d"
proof -
  have inv: "db_inv d" using ok by (simp add: smoke_ok_def)
  obtain r cl1 d1 where c: "smoke_call (t 0) q (JObj [(''fence'', JBool True)]) (smoke_options None None None) (cl, d) = (Inr r, cl1, d1)"
    "client_ok Q cl1" "adds q (t 0) 1 d d1"
    using smoke_call_adds [OF inv cl smoke_sizes(5) order_refl [of "t 0"], of None] by auto
  note ok1 = smoke_ok_adds [OF ok c(3) z]
  obtain cs d2 where k: "claim_by (t 1) {} q 1 ''owner'' d1 = (Inr cs, d2)" "smoke_ok q T Z d2"
    "db_config d2 = db_config d1" "db_schedules d2 = db_schedules d1"
    "length cs = min 1 (length (filter (eligible (t 1) {} q d1) (db_jobs d1)))"
    and own: "\<forall>c \<in> set cs. c_attempt c = 1 \<and> runs_for ''owner'' d2 (c_id c)"
    using claim_by_passes [OF ok1 T, of "{}" 1 "''owner''"] by blast
  have "\<not> queue_paused d1 q" using ok1 by (simp add: smoke_ok_def)
  from enough_eligible [OF c(3) this t, of 1] k(5) obtain fc where fc: "cs = [fc]"
    by (cases cs) auto
  with own obtain k2 where k2: "job_at d2 (c_id fc) = Some k2" "j_state k2 = Running"
    "j_worker_id k2 = Some ''owner''" "j_attempt k2 = 1" "c_attempt fc = 1"
    by (auto simp: runs_for_def)
  have inv2: "db_inv d2" using k(2) by (simp add: smoke_ok_def)
  have id2: "j_id k2 = c_id fc" using db_inv_jobD [OF inv2 k2(1)] by blast
  let ?f = "\<lambda>w n. \<lparr>f_id = c_id fc, f_workerId = w, f_attempt = n\<rparr>"
  have a: "finish_raw False (t 2) (?f ''imposter'' (c_attempt fc)) d2 = (Inr [], d2)"
    and b: "finish_raw False (t 3) (?f ''owner'' (c_attempt fc + 5)) d2 = (Inr [], d2)"
    by (rule fenced_out [OF inv2, of _ k2]; simp add: k2 owns_def)+
  have "owns (?f ''owner'' (c_attempt fc)) k2" by (simp add: owns_def k2 id2)
  from fence_opens [OF k(2) _ this, of "t 4"] k2(1) obtain d3 where
    e: "finish_raw True (t 4) (?f ''owner'' (c_attempt fc)) d2 = (Inr [j_id k2], d3)" "smoke_ok q T Z d3"
      "db_config d3 = db_config d2" "db_schedules d3 = db_schedules d2" by auto
  have "db_config d1 = db_config d" "db_schedules d1 = db_schedules d" using c(3) by (simp_all add: adds_def)
  then show ?thesis
    using c(1,2) k a b e by (simp add: fence_section_def fc Let_def numeral_eq_Suc)
qed

subsection \<open>Constraints\<close>

lemma constraints_pass: "constraint_section t q d = (Inr [True, True], d)"
proof -
  have "raw_insert now q (\<lambda>j. j\<lparr>j_attempt := 10, j_max_attempts := 5\<rparr>) d = (Inl (Wrapped Check_violation), d)"
    "raw_insert now q (\<lambda>j. j\<lparr>j_state := Running\<rparr>) d = (Inl (Wrapped Check_violation), d)" for now
    by (simp_all add: raw_insert_def run_query_def query_def insert_row_def Let_def new_job_def raw_row_def
        is_smallint_def is_integer_def job_checks_def)
  then show ?thesis by (simp add: constraint_section_def)
qed

subsection \<open>Reaper\<close>

lemma sole_set:
  assumes sole: "sole q t j d" and f: "keeps_identity f" and ch: "job_checks (f j)"
    and slot: "active_slot (f j) = active_slot j"
  shows "\<exists>d'. update_jobs (\<lambda>k. j_id k = j_id j) f d = Inr ([f j], d') \<and> sole q t (f j) d'"
proof -
  let ?P = "\<lambda>k. j_id k = j_id j"
  note hit = sole_hit [OF sole]
  have inv: "db_inv d" using sole by (simp add: sole_def)
  have "\<forall>k \<in> set (db_jobs d). ?P k \<longrightarrow> job_checks (f k)" using hit ch by auto
  moreover have "index_ok (upd_where ?P f (db_jobs d))"
  proof (rule index_ok_upd_where)
    show "index_ok (db_jobs d)" using inv by (simp add: db_inv_def)
    fix k assume "k \<in> set (db_jobs d)" "j_id k = j_id j"
    with hit have "k = j" by blast
    with slot show "active_slot (f k) = active_slot k \<or> active_slot (f k) = None" by simp
    show "idem_slot (f k) = idem_slot k" by (rule keeps_identityD(8) [OF f])
  qed
  ultimately have u: "update_jobs ?P f d = Inr (map f (filter ?P (db_jobs d)), d\<lparr>db_jobs := upd_where ?P f (db_jobs d)\<rparr>)"
    by (rule update_jobs_Inr)
  from sole_update [OF sole u f hit] u show ?thesis by auto
qed

lemma stmt_frames:
  "claimJobs now locked p d = Inr (cs, d') \<Longrightarrow> j_queue ` set (db_jobs d') = j_queue ` set (db_jobs d)
     \<and> db_config d' = db_config d \<and> db_schedules d' = db_schedules d"
  "reapOnce now locked rand b n d = (r, d') \<Longrightarrow> j_queue ` set (db_jobs d') = j_queue ` set (db_jobs d)
     \<and> db_config d' = db_config d \<and> db_schedules d' = db_schedules d"
proof -
  show "j_queue ` set (db_jobs d') = j_queue ` set (db_jobs d)
     \<and> db_config d' = db_config d \<and> db_schedules d' = db_schedules d"
    if "claimJobs now locked p d = Inr (cs, d')"
  proof -
    from that obtain rs where "update_jobs (\<lambda>j. j_id j \<in> set (claim_candidates claim_order now locked p d))
        (claim_row now (cp_workerId p)) d = Inr (rs, d')"
      by (auto simp: claimJobs_def claim_with_def returning_Inr)
    from update_frame [OF this claim_row_keeps] show ?thesis by blast
  qed
  show "j_queue ` set (db_jobs d') = j_queue ` set (db_jobs d)
     \<and> db_config d' = db_config d \<and> db_schedules d' = db_schedules d"
    if r: "reapOnce now locked rand b n d = (r, d')"
  proof (cases "reapExpiredLeases now locked \<lparr>rp_limit = n, rp_retryDelaySeconds = nextDelaySeconds rand 1 b\<rparr> d")
    case (Inl e)
    then have "d' = d" using r by (cases e) (simp_all add: reapOnce_def query_def)
    then show ?thesis by simp
  next
    case (Inr x)
    obtain rows e where x: "x = (rows, e)" by fastforce
    have "d' = e" using r Inr x by (simp add: reapOnce_def)
    moreover from Inr x obtain rs where "update_jobs (\<lambda>j. j_id j \<in> set (expired_ids now locked n d))
        (reap_row now (nextDelaySeconds rand 1 b)) d = Inr (rs, e)"
      by (auto simp: reapExpiredLeases_def returning_Inr)
    note update_frame [OF this reap_row_keeps]
    ultimately show ?thesis by simp
  qed
qed

lemma reaper_passes:
  assumes ok: "smoke_ok q T Z d" and z: "q @ ''_reap'' \<in> Z"
    and cl: "client_ok Q cl" "q @ ''_reap'' \<in> Q" "q @ ''_reap'' \<notin> qc_queue ` set (db_config d)" "validateName (q @ ''_reap'') = Inr ()"
    and t: "t 0 \<le> t 1" "t 2 \<le> t 3" "t 3 \<le> T"
  shows "\<exists>cl' d'. reaper_section t q (cl, d) = (Inr (replicate 5 True), cl', d') \<and> client_ok Q cl' \<and> db_inv d'
    \<and> db_config d' = db_config d \<and> db_schedules d' = db_schedules d
    \<and> j_queue ` set (db_jobs d') \<subseteq> insert (q @ ''_reap'') (j_queue ` set (db_jobs d))"
proof -
  let ?q = "q @ ''_reap''" and ?bo = "\<lparr>b_initialMs = 1, b_multiplier = 1, b_maxMs = 1, b_jitter = No_jitter\<rparr>"
  have inv: "db_inv d" using ok by (simp add: smoke_ok_def)
  obtain r cl1 d1 where c: "smoke_call (t 0) ?q (JObj []) (smoke_options None (Some 1) None) (cl, d) = (Inr r, cl1, d1)"
    "client_ok Q cl1" "db_inv d1" "db_config d1 = db_config d" "db_schedules d1 = db_schedules d"
    and jobs: "db_jobs d1 = db_jobs d @ [new_job (t 0) (smoke_row (t 0) ?q (JObj []) None (Some 1) None) (db_job_seq d)]"
    using smoke_call_lands [OF inv cl smoke_sizes(6), of "Some 1" None "t 0" None] by (auto simp: is_integer_def)
  let ?j = "new_job (t 0) (smoke_row (t 0) ?q (JObj []) None (Some 1) None) (db_job_seq d)"
  have qj: "j_queue ?j = ?q" by (simp add: smoke_row_def)
  have "j_queue k \<noteq> ?q \<and> \<not> lease_expired (t 3) {} k" if "k \<in> set (db_jobs d)" for k
    using ok that z t(3) by (force simp: smoke_ok_def lease_expired_def split: option.splits)
  then have sole: "sole ?q (t 3) ?j d1"
    using c(3,4) unpaused cl(3) qj by (auto simp: sole_def jobs)
  have j: "j_state ?j = Available" "j_run_at ?j \<le> t 1" "j_attempt ?j < j_max_attempts ?j"
    using t(1) by (simp_all add: new_job_def smoke_row_def)
  let ?c = "claim_row (t 1) ''doomed'' ?j" and ?e = "\<lambda>k :: job. k\<lparr>j_lease_expires_at := Some (t 2 - us_per_second)\<rparr>"
  from sole_claim [OF sole j, of "\<lparr>cp_queue = ?q, cp_limit = 1, cp_workerId = ''doomed''\<rparr>"] obtain d2 where
    cl2: "claimJobs (t 1) {} \<lparr>cp_queue = ?q, cp_limit = 1, cp_workerId = ''doomed''\<rparr> d1 = Inr ([toClaimedJob ?c], d2)"
    and sole2: "sole ?q (t 3) ?c d2" by auto
  have "job_checks (?e ?c)" by (simp add: job_checks_def claim_row_def new_job_def smoke_row_def)
  moreover have "keeps_identity ?e" by (simp add: keeps_identity_def)
  moreover have "active_slot (?e ?c) = active_slot ?c" by (simp add: active_slot_def)
  ultimately obtain d3 where e3: "update_jobs (\<lambda>k. j_id k = j_id ?c) ?e d2 = Inr ([?e ?c], d3)"
    and sole3: "sole ?q (t 3) (?e ?c) d3"
    using sole_set [OF sole2] by blast
  have "lease_expired (t 3) {} (?e ?c)" "j_attempt (?e ?c) < j_max_attempts (?e ?c)"
    using t(2) by (simp_all add: lease_expired_def us_per_second_def claim_row_def new_job_def smoke_row_def)
  from sole_reap [OF sole3 this, of 100 0 ?bo] obtain d4 where
    r4: "reapOnce (t 3) {} 0 ?bo 100 d3 = (Inr \<lparr>re_recovered = 1, re_deadLettered = 0\<rparr>, d4)"
    and sole4: "sole ?q (t 3) (reap_row (t 3) (nextDelaySeconds 0 1 ?bo) (?e ?c)) d4" by auto
  have i: "c_id (toClaimedJob ?c) = j_id ?j" "j_id ?c = j_id ?j" by (simp_all add: toClaimedJob_def)
  have at4: "job_at d4 (j_id ?j) = Some (reap_row (t 3) (nextDelaySeconds 0 1 ?bo) (?e ?c))"
    using sole_at [OF sole4] by (simp add: reap_row_def)
  have f3: "j_queue ` set (db_jobs d3) = j_queue ` set (db_jobs d2)" "db_config d3 = db_config d2" "db_schedules d3 = db_schedules d2"
    using update_frame [OF e3 \<open>keeps_identity ?e\<close>] by blast+
  have "j_queue ` set (db_jobs d4) \<subseteq> insert ?q (j_queue ` set (db_jobs d))"
    "db_config d4 = db_config d" "db_schedules d4 = db_schedules d"
    using stmt_frames(2) [OF r4] f3 stmt_frames(1) [OF cl2] c(4,5) qj by (simp_all add: jobs)
  moreover have "db_inv d4" using sole4 by (simp add: sole_def)
  moreover have "reaper_section t q (cl, d) = (Inr (replicate 5 True), cl1, d4)"
  proof -
    have x: "claim_by (t 1) {} ?q 1 ''doomed'' d1 = (Inr [toClaimedJob ?c], d2)"
      unfolding claim_by_def by (rule run_query_Inr) (rule cl2)
    have e: "expire_lease (t 2) (j_id ?j) d2 = (Inr [?e ?c], d3)" using e3 by (simp add: expire_lease_def i)
    have k: "j_state (reap_row now s (?e ?c)) = Available" "j_attempt (reap_row now s (?e ?c)) = 1"
      "j_worker_id (reap_row now s (?e ?c)) = None" for now s
      by (simp_all add: reap_row_def claim_row_def new_job_def smoke_row_def)
    obtain x e k where "claim_by (t 1) {} ?q 1 ''doomed'' d1 = (Inr [x], d2)" "c_id x = j_id ?j"
      "expire_lease (t 2) (j_id ?j) d2 = (Inr e, d3)"
      "job_at d4 (j_id ?j) = Some k" "j_state k = Available" "j_attempt k = 1" "j_worker_id k = None"
      by (rule that [OF x i(1) e at4 k])
    with c(1) r4 show ?thesis by (simp add: reaper_section_def Let_def numeral_eq_Suc)
  qed
  ultimately show ?thesis using c(2) by blast
qed

subsection \<open>Scheduler\<close>

text \<open>What the check asks of croner.\<close>

definition croner_smoke :: "croner \<Rightarrow> bool" where
  "croner_smoke nextRun \<longleftrightarrow> croner_law nextRun
     \<and> (\<forall>x. \<exists>u. nextRun ''*/5 * * * *'' ''UTC'' x = Inr (Some u))
     \<and> (\<forall>x. \<exists>u. nextRun ''* * * * *'' ''UTC'' x = Inr (Some u))
     \<and> (\<exists>u. nextRun ''0 2 * * *'' ''Europe/London'' spring_eve = Inr (Some u))
     \<and> (\<forall>x. \<exists>e. nextRun ''not a cron'' ''UTC'' x = Inl e)
     \<and> (\<forall>x. \<exists>e. nextRun ''* * * * *'' ''Mars/Olympus_Mons'' x = Inl e)"

lemma cron_passes: "croner_smoke nextRun \<Longrightarrow> cron_section nextRun x x = Inr (replicate 4 True)"
proof -
  assume c: "croner_smoke nextRun"
  then obtain a b e g where "nextRun ''*/5 * * * *'' ''UTC'' x = Inr (Some a)"
    "nextRun ''0 2 * * *'' ''Europe/London'' spring_eve = Inr (Some b)"
    "nextRun ''not a cron'' ''UTC'' x = Inl e" "nextRun ''* * * * *'' ''Mars/Olympus_Mons'' x = Inl g"
    unfolding croner_smoke_def by metis
  moreover from this c have "x < a" "spring_eve < b" unfolding croner_smoke_def croner_law_def by blast+
  ultimately show ?thesis by (simp add: cron_section_def nextOccurrence_def throws_def numeral_eq_Suc)
qed

text \<open>The schedule of the check, next due at \<open>a\<close>; no other is due by \<open>T\<close>.\<close>

definition ours :: "instant \<Rightarrow> ident \<Rightarrow> string \<Rightarrow> instant \<Rightarrow> db \<Rightarrow> bool" where
  "ours T i q a d \<longleftrightarrow> db_inv d
     \<and> (\<exists>s \<in> set (db_schedules d). s_id s = i \<and> s_enabled s \<and> s_queue s = q \<and> s_cron s = ''* * * * *''
          \<and> s_timezone s = ''UTC'' \<and> s_next_run_at s = a)
     \<and> (\<forall>s \<in> set (db_schedules d). s_id s \<noteq> i \<and> s_enabled s \<longrightarrow> T < s_next_run_at s)"

lemma ours_update:
  assumes o: "ours T i q a d" and u: "update_schedules (\<lambda>s. s_id s = i) f d = Inr (rs, d')" and k: "keeps_schedule f"
    and f: "\<And>s. s_enabled (f s) = s_enabled s \<and> s_queue (f s) = s_queue s \<and> s_cron (f s) = s_cron s
      \<and> s_timezone (f s) = s_timezone s" and b: "\<And>s. s_id s = i \<Longrightarrow> s_next_run_at s = a \<Longrightarrow> s_next_run_at (f s) = b"
  shows "ours T i q b d'"
proof -
  have d': "d' = d\<lparr>db_schedules := upd_where (\<lambda>s. s_id s = i) f (db_schedules d)\<rparr>"
    using u by (simp add: update_schedules_def)
  from o obtain s where s: "s \<in> set (db_schedules d)" "s_id s = i" "s_enabled s" "s_queue s = q"
    "s_cron s = ''* * * * *''" "s_timezone s = ''UTC''" "s_next_run_at s = a" by (auto simp: ours_def)
  have "f s \<in> set (db_schedules d')" using s(1,2) by (auto simp: d' set_upd_where)
  moreover have "s_id (f s) = i" using k s(2) by (simp add: keeps_schedule_def)
  moreover have "T < s_next_run_at x" if x: "x \<in> set (db_schedules d')" "s_id x \<noteq> i" "s_enabled x" for x
  proof -
    from x(1) obtain y where y: "y \<in> set (db_schedules d)" "x = (if s_id y = i then f y else y)"
      by (auto simp: d' upd_where_def)
    have "s_id (f y) = s_id y" using k by (simp add: keeps_schedule_def)
    with x(2) y(2) have "x = y" by (simp split: if_splits)
    with x o y(1) show ?thesis by (simp add: ours_def)
  qed
  ultimately show ?thesis
    using update_schedules_inv [OF _ u k] o s f b [OF s(2,7)] by (auto simp: ours_def)
qed

lemma set_next_run_ours:
  assumes "ours T i q a d"
  shows "\<exists>rs d'. set_next_run i b d = (Inr rs, d') \<and> ours T i q b d' \<and> db_jobs d' = db_jobs d \<and> db_config d' = db_config d"
proof -
  let ?f = "\<lambda>s :: schedule. s\<lparr>s_next_run_at := b\<rparr>"
  obtain rs d' where u: "update_schedules (\<lambda>s. s_id s = i) ?f d = Inr (rs, d')" by (simp add: update_schedules_def)
  have "ours T i q b d'" by (rule ours_update [OF assms u]) (simp_all add: keeps_schedule_def)
  moreover have "db_jobs d' = db_jobs d" "db_config d' = db_config d" using u by (auto simp: update_schedules_def)
  ultimately show ?thesis using u by (simp add: set_next_run_def)
qed

text \<open>One tick takes the schedule alone, and stores its occurrence unless it is there.\<close>

definition key_in :: "string \<Rightarrow> string \<Rightarrow> db \<Rightarrow> bool" where
  "key_in q k d \<longleftrightarrow> (\<exists>j \<in> set (db_jobs d). j_queue j = q \<and> j_idempotency_key j = Some k)"

lemma due_alone:
  assumes o: "ours T i q a d" and a: "a \<le> now" "now \<le> T"
  shows "\<exists>row d1. claimDueSchedules now {} 10 d = Inr ([row], d1) \<and> ours T i q a d1 \<and> db_jobs d1 = db_jobs d
    \<and> db_config d1 = db_config d \<and> d_id row = i \<and> d_queue row = q \<and> d_cron row = ''* * * * *''
    \<and> d_timezone row = ''UTC'' \<and> d_planned_for row = a"
proof -
  from o obtain s where s: "s \<in> set (db_schedules d)" "s_id s = i" "s_enabled s" "s_queue s = q"
    "s_cron s = ''* * * * *''" "s_timezone s = ''UTC''" "s_next_run_at s = a" by (auto simp: ours_def)
  have inv: "db_inv d" using o by (simp add: ours_def)
  have ids: "distinct (map s_id (db_schedules d))" using inv by (simp add: db_inv_def)
  then have dist: "distinct (db_schedules d)" by (simp add: distinct_map)
  have only: "x = s" if "x \<in> set (db_schedules d)" "s_id x = i" for x
    using distinct_map_key_inj [OF ids that(1) s(1)] that(2) s(2) by simp
  have "\<forall>x \<in> set (db_schedules d). schedule_due now {} x \<longleftrightarrow> x = s"
  proof
    fix x assume x: "x \<in> set (db_schedules d)"
    show "schedule_due now {} x \<longleftrightarrow> x = s"
    proof (cases "s_id x = i")
      case True
      with only [OF x] s a show ?thesis by (simp add: schedule_due_def)
    next
      case False
      with x o a(2) s(2) show ?thesis by (force simp: schedule_due_def ours_def)
    qed
  qed
  from filter_sole [OF dist s(1) this] have due: "due_ids now {} 10 d = [i]"
    by (simp add: due_ids_def order_limit_def s(2))
  have hit: "filter (\<lambda>x. s_id x = i) (db_schedules d) = [s]"
    by (rule filter_sole [OF dist s(1)]) (use only s(2) in blast)
  let ?d = "d\<lparr>db_schedules := upd_where (\<lambda>x. s_id x = i) (claim_schedule_row now) (db_schedules d)\<rparr>"
  have "claimDueSchedules now {} 10 d = Inr ([due_returning (claim_schedule_row now s)], ?d)"
    by (simp add: claimDue_eq due hit)
  moreover have "update_schedules (\<lambda>x. s_id x = i) (claim_schedule_row now) d = Inr ([claim_schedule_row now s], ?d)"
    by (simp add: update_schedules_def hit)
  from ours_update [OF o this] have "ours T i q a ?d" by (simp add: claim_schedule_row_def)
  ultimately show ?thesis using s by (auto simp: due_returning_def claim_schedule_row_def)
qed

lemma tick_alone:
  assumes o: "ours T i q a d" and a: "a \<le> now" "now \<le> T" "now - a \<le> us_per_second * 3600"
    and cr: "croner_smoke nextRun"
  shows "\<exists>nxt r d'. tick_at nextRun now d = (Inr r, d') \<and> ours T i q nxt d' \<and> db_config d' = db_config d
    \<and> (if key_in q (occurrenceKey i a) d
       then tr_created r = 0 \<and> tr_deduplicated r = 1 \<and> db_jobs d' = db_jobs d
       else tr_created r = 1 \<and> (\<exists>j. db_jobs d' = db_jobs d @ [j] \<and> j_queue j = q
          \<and> j_idempotency_key j = Some (occurrenceKey i a)))"
proof -
  obtain row d1 where c: "claimDueSchedules now {} 10 d = Inr ([row], d1)" "ours T i q a d1" "db_jobs d1 = db_jobs d"
    "db_config d1 = db_config d"
    and row: "d_id row = i" "d_queue row = q" "d_cron row = ''* * * * *''" "d_timezone row = ''UTC''" "d_planned_for row = a"
    using due_alone [OF o a(1,2)] by blast
  obtain nxt where n: "nextOccurrence nextRun (d_cron row) (d_timezone row) now = Inr nxt"
    using cr row unfolding croner_smoke_def nextOccurrence_def by (metis old.sum.simps(6) option.simps(5))
  have fire: "shouldFire row now" using a(3) row(5) by (simp add: shouldFire_def staleAfterSeconds_def)
  let ?r = "occurrence_row row" and ?held = "key_in q (occurrenceKey i a) d"
  have r: "n_queue ?r = q" "n_idempotencyKey ?r = Some (occurrenceKey i a)" "n_uniqueKey ?r = None" "n_scheduleId ?r = Some i"
    by (simp_all add: occurrence_row_def row)
  have conf: "conflicts (db_jobs d1) (new_job now ?r (db_job_seq d1)) \<longleftrightarrow> ?held"
    by (simp add: new_conflict_iff r key_in_def c(3))
  obtain ids d2 where ins: "insertJob now ?r d1 = Inr (ids, d2)" "db_schedules d2 = db_schedules d1" "db_config d2 = db_config d1" "db_inv d2"
    and jobs: "if ?held then ids = [] \<and> db_jobs d2 = db_jobs d
      else ids \<noteq> [] \<and> (\<exists>j. db_jobs d2 = db_jobs d @ [j] \<and> j_queue j = q \<and> j_idempotency_key j = Some (occurrenceKey i a))"
  proof -
    have inv1: "db_inv d1" using c(2) by (simp add: ours_def)
    from c(2) obtain s where "s \<in> set (db_schedules d1)" "s_id s = i" by (auto simp: ours_def)
    then have mem: "d_id row \<in> s_id ` set (db_schedules d1)" using row(1) by (metis imageI)
    from insert_occurrence [OF inv1 mem, of now] obtain ids d2 where
      i: "insertJob now ?r d1 = Inr (ids, d2)" "db_inv d2" "db_schedules d2 = db_schedules d1" by blast
    have "db_config d2 = db_config d1"
      using i(1) by (auto simp: insertJob_def insert_row_def Let_def split: if_splits option.splits sum.splits)
    moreover have "if ?held then ids = [] \<and> db_jobs d2 = db_jobs d
      else ids \<noteq> [] \<and> (\<exists>j. db_jobs d2 = db_jobs d @ [j] \<and> j_queue j = q \<and> j_idempotency_key j = Some (occurrenceKey i a))"
      using i(1)
    proof (cases rule: insertJob_cases)
      case Skipped
      with conf c(3) show ?thesis by simp
    next
      case Inserted
      with conf c(3) r show ?thesis by simp
    qed
    ultimately show thesis using that i by blast
  qed
  have o2: "ours T i q a d2" using c(2) ins(2,4) by (simp add: ours_def)
  let ?p = "\<lparr>ap_id = i, ap_nextRunAt = nxt, ap_lastJobId = (case ids of [] \<Rightarrow> None | k # _ \<Rightarrow> Some k)\<rparr>"
  let ?d = "d2\<lparr>db_schedules := upd_where (\<lambda>s. s_id s = i) (advance_row now ?p) (db_schedules d2)\<rparr>"
  have "update_schedules (\<lambda>s. s_id s = i) (advance_row now ?p) d2
      = Inr (map (advance_row now ?p) (filter (\<lambda>s. s_id s = i) (db_schedules d2)), ?d)"
    by (simp add: update_schedules_def)
  from ours_update [OF o2 this, of nxt] have o3: "ours T i q nxt ?d" by (simp add: advance_row_def)
  have p: "process_row nextRun alone now now row d1 = (Inr (if ids = [] then (0, 1) else (1, 0)), ?d)"
    by (simp add: process_row_def n fire ins(1) advance_to_eq row(1))
  have "tick_at nextRun now d = (Inr \<lparr>tr_processed = 1, tr_created = (if ids = [] then 0 else 1),
      tr_deduplicated = (if ids = [] then 1 else 0)\<rparr>, ?d)"
    by (simp add: tick_at_def tick_def c(1) p)
  with o3 jobs ins(3) c(4) show ?thesis by (auto split: if_splits)
qed

lemma schedule_created:
  assumes inv: "db_inv d" and idle: "\<forall>s \<in> set (db_schedules d). s_enabled s \<longrightarrow> T < s_next_run_at s"
    and name: "name \<notin> s_name ` set (db_schedules d)" and cr: "croner_smoke nextRun"
  shows "\<exists>v nxt d'. create_schedule nextRun now now (smoke_schedule name q) d = (Inr v, d')
    \<and> ours T (vs_id v) (q @ ''_sched'') nxt d' \<and> db_jobs d' = db_jobs d \<and> db_config d' = db_config d"
proof -
  obtain nxt where n: "nextOccurrence nextRun ''* * * * *'' ''UTC'' now = Inr nxt"
    using cr unfolding croner_smoke_def nextOccurrence_def by (metis old.sum.simps(6) option.simps(5))
  let ?p = "\<lparr>sp_name = name, sp_queue = q @ ''_sched'', sp_type = ''smoke.ok'', sp_payload = JObj [], sp_cron = ''* * * * *'',
    sp_timezone = ''UTC'', sp_catchupPolicy = Skip_missed, sp_enabled = True, sp_nextRunAt = nxt\<rparr>"
  let ?s = "new_schedule now ?p (db_schedule_seq d)"
  let ?d = "d\<lparr>db_schedules := db_schedules d @ [?s], db_schedule_seq := Suc (db_schedule_seq d)\<rparr>"
  have c: "createSchedule now ?p d = Inr ([?s], ?d)" using name by (simp add: createSchedule_def Let_def)
  have "db_inv ?d" by (rule create_schedule.inv [OF inv c])
  moreover have "s_id s \<noteq> db_schedule_seq d" if "s \<in> set (db_schedules d)" for s
    using inv that by (auto simp: db_inv_def)
  ultimately have "ours T (db_schedule_seq d) (q @ ''_sched'') nxt ?d"
    using idle by (auto simp: ours_def new_schedule_def)
  moreover have "create_schedule nextRun now now (smoke_schedule name q) d = (Inr (toSchedule ?s), ?d)"
    using c by (simp add: create_schedule_def smoke_schedule_def n Let_def)
  moreover have "vs_id (toSchedule ?s) = db_schedule_seq d" by (simp add: toSchedule_def new_schedule_def)
  ultimately show ?thesis by (intro exI [of _ "toSchedule ?s"] exI [of _ nxt] exI [of _ ?d]) simp
qed

lemma scheduler_passes:
  assumes inv: "db_inv d" and idle: "\<forall>s \<in> set (db_schedules d). s_enabled s \<longrightarrow> T < s_next_run_at s"
    and name: "name \<notin> s_name ` set (db_schedules d)" and cr: "croner_smoke nextRun"
    and empty: "q @ ''_sched'' \<notin> j_queue ` set (db_jobs d)"
    and t: "\<forall>k. t 2 \<le> t (Suc (Suc (Suc k)))" "\<forall>k. t k \<le> T" "T \<le> t 2 + us_per_second * 1000"
    and era: "us_per_second * 100 \<le> t 2" "u_year (utc_of (nat (a_second_ago (t 2) div us_per_ms))) < 10000"
      "u_year (utc_of (nat ((a_second_ago (t 2) - us_per_ms * 60000) div us_per_ms))) < 10000"
  shows "\<exists>d'. scheduler_section nextRun t name q d = (Inr (replicate 8 True), d') \<and> db_inv d' \<and> db_config d' = db_config d"
proof -
  let ?q = "q @ ''_sched''" and ?a = "a_second_ago (t 2)" and ?b = "a_second_ago (t 2) - us_per_ms * 60000"
  have near: "t 2 - us_per_second * 62 \<le> ?b" "?b \<le> ?a" "?a \<le> t 2" "0 \<le> ?b"
    using era(1) by (simp_all add: a_second_ago_def us_per_ms_def us_per_second_def)
  have clock: "?a \<le> t (Suc (Suc (Suc k)))" "?b \<le> t (Suc (Suc (Suc k)))" "t (Suc (Suc (Suc k))) \<le> T"
    "t (Suc (Suc (Suc k))) - ?a \<le> us_per_second * 3600" "t (Suc (Suc (Suc k))) - ?b \<le> us_per_second * 3600" for k
    using near t(1) [THEN spec, of k] t(2) [THEN spec, of "Suc (Suc (Suc k))"] t(3)
    by (simp_all add: us_per_second_def)
  obtain v n0 d1 where c: "create_schedule nextRun (t 1) (t 1) (smoke_schedule name q) d = (Inr v, d1)"
    "ours T (vs_id v) ?q n0 d1" "db_jobs d1 = db_jobs d" "db_config d1 = db_config d"
    using schedule_created [OF inv idle name cr] by blast
  let ?i = "vs_id v"
  obtain r1 d2 where s1: "set_next_run ?i ?a d1 = (Inr r1, d2)" "ours T ?i ?q ?a d2" "db_jobs d2 = db_jobs d1" "db_config d2 = db_config d1"
    using set_next_run_ours [OF c(2)] by blast
  have out: "j_queue j \<noteq> ?q" if "j \<in> set (db_jobs d)" for j using empty that by (metis imageI)
  have "\<not> key_in ?q k d2" for k using out c(3) s1(3) by (auto simp: key_in_def)
  with tick_alone [OF s1(2) clock(1,3,4) cr, of 0] obtain n1 t1 d3 j1 where
    t1: "tick_at nextRun (t 3) d2 = (Inr t1, d3)" "ours T ?i ?q n1 d3" "db_config d3 = db_config d2" "tr_created t1 = 1"
    and j1: "db_jobs d3 = db_jobs d2 @ [j1]" "j_queue j1 = ?q" "j_idempotency_key j1 = Some (occurrenceKey ?i ?a)"
    by (auto simp: numeral_3_eq_3)
  obtain r3 d4 where s3: "set_next_run ?i ?a d3 = (Inr r3, d4)" "ours T ?i ?q ?a d4" "db_jobs d4 = db_jobs d3" "db_config d4 = db_config d3"
    using set_next_run_ours [OF t1(2)] by blast
  have "key_in ?q (occurrenceKey ?i ?a) d4" using s3(3) j1 by (auto simp: key_in_def)
  with tick_alone [OF s3(2) clock(1,3,4) cr, of 1] obtain n2 t2 d5 where
    t2: "tick_at nextRun (t 4) d4 = (Inr t2, d5)" "ours T ?i ?q n2 d5" "db_config d5 = db_config d4"
      "tr_created t2 = 0" "tr_deduplicated t2 = 1" "db_jobs d5 = db_jobs d4"
    by (auto simp: numeral_eq_Suc)
  obtain r5 d6 where s5: "set_next_run ?i ?b d5 = (Inr r5, d6)" "ours T ?i ?q ?b d6" "db_jobs d6 = db_jobs d5" "db_config d6 = db_config d5"
    using set_next_run_ours [OF t2(2)] by blast
  have "occurrenceKey ?i ?a \<noteq> occurrenceKey ?i ?b"
  proof
    assume "occurrenceKey ?i ?a = occurrenceKey ?i ?b"
    from occurrenceKey_inj [OF this _ near(4) era(2,3)] near have "?a div us_per_ms = ?b div us_per_ms" by simp
    then show False by (simp add: a_second_ago_def us_per_ms_def)
  qed
  with j1 s3(3) t2(6) s5(3) s1(3) c(3) out have "\<not> key_in ?q (occurrenceKey ?i ?b) d6"
    by (auto simp: key_in_def)
  with tick_alone [OF s5(2) clock(2,3,5) cr, of 2] obtain n3 t3 d7 where
    t3: "tick_at nextRun (t 5) d6 = (Inr t3, d7)" "ours T ?i ?q n3 d7" "db_config d7 = db_config d6" "tr_created t3 = 1"
    by (auto simp: numeral_eq_Suc)
  have inv7: "db_inv d7" using t3(2) by (simp add: ours_def)
  obtain rows d8 where x: "deleteSchedule ?i d7 = Inr (rows, d8)" "db_config d8 = db_config d7"
    by (simp add: deleteSchedule_def)
  have "db_inv d8" by (rule delete_schedule.inv [OF inv7 x(1)])
  moreover have "delete_schedule ?i d7 = (Inr (rows \<noteq> []), d8)" using x(1) by (simp add: delete_schedule_def)
  ultimately show ?thesis
    using cron_passes [OF cr, of "t 0"] c(1,4) s1(1,4) t1(1,3,4) s3(1,4) t2(1,3,4,5) s5(1,4) t3(1,3,4) x(2)
    by (simp add: scheduler_section_def Let_def numeral_eq_Suc)
qed

subsection \<open>Administration\<close>

lemma audit_inv: "db_inv d \<Longrightarrow> db_inv (audit now actor action target detail d)"
  by (simp add: audit_def query_def insertAuditLog_def db_inv_def archive_ids_def)

lemma cancel_available:
  assumes inv: "db_inv d" and at: "job_at d i = Some j" "j_state j = Available"
  shows "\<exists>d'. cancel alone now i actor d = (Inr \<lparr>cr_state = Cancelled, cr_acknowledged = True\<rparr>, d') \<and> db_inv d'
    \<and> job_at d' i = Some (cancel_row now j)"
proof -
  obtain d1 where c: "cancelAvailableJob now i d = Inr ([(j_id j, Cancelled)], d1)"
    using cancelAvailableJob_lands [OF inv, of now i] at by auto
  obtain d' where r: "cancel alone now i actor d = (Inr \<lparr>cr_state = Cancelled, cr_acknowledged = True\<rparr>, d')" and inv': "db_inv d'"
    using audit_inv [OF cancel.inv [OF inv c]] by (auto simp: cancel_def c)
  with cancel_spec(2) [OF inv r, of i] at show ?thesis by (auto simp: after_cancel_def)
qed

lemma cancel_again:
  assumes inv: "db_inv d" and at: "job_at d i = Some j" "j_state j = Cancelled"
  shows "\<exists>e d'. cancel alone now i actor d = (Inl e, d') \<and> db_inv d' \<and> job_at d' i = Some j"
proof -
  obtain d1 where c: "cancelAvailableJob now i d = Inr ([], d1)" "\<And>k. job_at d1 k = job_at d k"
    using cancelAvailableJob_lands [OF inv, of now i] at by auto
  have inv1: "db_inv d1" by (rule cancel.inv [OF inv c(1)])
  obtain d2 where q: "requestCancelRunningJob now i d1 = Inr ([], d2)" "\<And>k. job_at d2 k = job_at d1 k"
    using requestCancelRunningJob_lands [OF inv1, of now i] at c(2) by auto
  have inv2: "db_inv d2" by (rule request_cancel.inv [OF inv1 q(1)])
  show ?thesis
    using c q inv2 at get_job_cases [OF inv2, of i] by (simp add: cancel_def Let_def)
qed

lemma pausing:
  assumes "db_inv d" and "validateName q = Inr ()"
  shows "\<exists>cl' d'. setPaused alone now q p actor cl d = (Inr (), cl', d') \<and> db_inv d' \<and> queue_paused d' q = p"
proof -
  obtain r d1 where s: "setQueuePaused now q p d = Inr (r, d1)" by (simp add: setQueuePaused_def)
  have "queue_paused d1 q = p"
  proof (cases "row_of qc_queue q (db_config d)")
    case None
    with s show ?thesis by (auto simp: setQueuePaused_def queue_paused_def row_of_append default_config_def)
  next
    case (Some c)
    have "row_of qc_queue q (upd_where (\<lambda>c. qc_queue c = q) (\<lambda>c. c\<lparr>qc_paused := p, qc_updated_at := now\<rparr>) (db_config d))
        = Some (c\<lparr>qc_paused := p, qc_updated_at := now\<rparr>)"
      using row_of_SomeD [OF Some] by (simp add: row_of_upd_where Some)
    with s Some show ?thesis by (auto simp: setQueuePaused_def queue_paused_def)
  qed
  moreover have "queue_paused (audit now actor action target detail e) q = queue_paused e q" for action target detail e
    by (simp add: audit_def query_def insertAuditLog_def queue_paused_def)
  ultimately show ?thesis
    using audit_inv [OF setQueuePaused_inv [OF assms(1) s]] assms(2) s by (simp add: setPaused_def)
qed

lemma paused_claim:
  assumes inv: "db_inv d" and p: "queue_paused d q"
  shows "claim_by now locked q n w d = (Inr [], d)"
proof -
  have "\<forall>j \<in> set (db_jobs d). \<not> eligible now locked q d j" using p by (auto simp: eligible_def)
  then have "filter (eligible now locked q d) (db_jobs d) = []" by simp
  then have "claim_candidates claim_order now locked \<lparr>cp_queue = q, cp_limit = n, cp_workerId = w\<rparr> d = []"
    using candidates_length [of claim_order now locked "\<lparr>cp_queue = q, cp_limit = n, cp_workerId = w\<rparr>" d] by simp
  then have "claimJobs now locked \<lparr>cp_queue = q, cp_limit = n, cp_workerId = w\<rparr> d = Inr ([], d)"
    using update_jobs_none [OF inv] by (simp add: claimJobs_def claim_with_def returning_def)
  then show ?thesis by (simp add: claim_by_def)
qed

lemma admin_passes:
  assumes inv: "db_inv d" and cl: "client_ok Q cl" "q \<in> Q" "q \<notin> qc_queue ` set (db_config d)" "validateName q = Inr ()"
  shows "\<exists>cl' d'. admin_section t q (cl, d) = (Inr (replicate 4 True), cl', d') \<and> db_inv d'"
proof -
  let ?j = "new_job (t 0) (smoke_row (t 0) q (JObj []) None None (Some 3600)) (db_job_seq d)"
  obtain r cl1 d1 where c: "smoke_call (t 0) q (JObj []) (smoke_options None None (Some 3600)) (cl, d) = (Inr r, cl1, d1)"
    "db_inv d1" "er_id r = Some (db_job_seq d)" and jobs: "db_jobs d1 = db_jobs d @ [?j]"
    using smoke_call_lands [OF inv cl smoke_sizes(6), of None "Some 3600" "t 0" None] by auto
  have at1: "job_at d1 (db_job_seq d) = Some ?j" using db_inv_job_at [OF c(2), of ?j] by (simp add: jobs)
  obtain d2 where x: "cancel alone (t 1) (db_job_seq d) ''smoke'' d1 = (Inr \<lparr>cr_state = Cancelled, cr_acknowledged = True\<rparr>, d2)"
    "db_inv d2" "job_at d2 (db_job_seq d) = Some (cancel_row (t 1) ?j)"
    using cancel_available [OF c(2) at1] by auto
  have "j_state (cancel_row (t 1) ?j) = Cancelled" by (simp add: cancel_row_def)
  from cancel_again [OF x(2,3) this] obtain e d3 where
    y: "cancel alone (t 2) (db_job_seq d) ''smoke'' d2 = (Inl e, d3)" "db_inv d3" "job_at d3 (db_job_seq d) = Some (cancel_row (t 1) ?j)"
    by blast
  have "db_jobs d3 \<noteq> []" using y(3) by auto
  then have "queueStats d3 \<noteq> []" using queueStats_total [of d3] by auto
  obtain cl4 d4 where p: "setPaused alone (t 3) q True ''smoke'' cl1 d3 = (Inr (), cl4, d4)" "db_inv d4" "queue_paused d4 q"
    using pausing [OF y(2) cl(4), of "t 3" True "''smoke''" cl1] by auto
  note k = paused_claim [OF p(2,3), of "t 4" "{}" 5 "''paused''"]
  obtain cl5 d5 where u: "setPaused alone (t 5) q False ''smoke'' cl4 d4 = (Inr (), cl5, d5)" "db_inv d5"
    using pausing [OF p(2) cl(4), of "t 5" False "''smoke''" cl4] by auto
  show ?thesis
    using c(1,3) x(1) y(1) \<open>queueStats d3 \<noteq> []\<close> p(1) k u
    by (simp add: admin_section_def Let_def throws_def numeral_eq_Suc)
qed

subsection \<open>The whole check\<close>

lemma racers_cong:
  "\<forall>i. k \<le> i \<and> i < k + n \<longrightarrow> t i = t' i \<Longrightarrow> racers t q k n s = racers t' q k n s"
proof (induction n arbitrary: k s)
  case (Suc n)
  then have "t k = t' k" and "racers t q (Suc k) n s1 = racers t' q (Suc k) n s1" for s1 by simp_all
  then show ?case by simp
qed simp

lemma enqueue_section_cong: "enqueue_section (\<lambda>k. t (min k 12)) q s = enqueue_section t q s"
proof -
  have "racers (\<lambda>k. t (min k 12)) q 3 8 s1 = racers t q 3 8 s1" for s1 by (rule racers_cong) simp
  then show ?thesis by (simp add: enqueue_section_def)
qed

lemma like_rest: "like (q @ ''%'') (q @ s)"
proof (induction q)
  case Nil
  have "like [] (drop (length s) s)" by simp
  then show ?case by (auto simp: list_ex_iff intro!: bexI [of _ "length s"])
next
  case (Cons c q)
  show ?case
  proof (cases "c = CHR ''%''")
    case True
    have "1 \<in> set [0..<Suc (length ((c # q) @ s))]" by (simp only: atLeast_upt [symmetric]) simp
    moreover have "like (q @ ''%'') (drop 1 ((c # q) @ s))" using Cons by simp
    ultimately have "list_ex (\<lambda>n. like (q @ ''%'') (drop n ((c # q) @ s))) [0..<Suc (length ((c # q) @ s))]"
      unfolding list_ex_iff by blast
    then show ?thesis using True by (simp del: upt_Suc)
  qed (use Cons in simp)
qed

text \<open>
  Nothing is there of the queues of the run, and the clock: the run takes less than 30 seconds, and ends
  at \<open>T\<close>.
\<close>

definition smoke_ready :: "(nat \<Rightarrow> instant) \<Rightarrow> instant \<Rightarrow> string \<Rightarrow> string \<Rightarrow> db \<Rightarrow> bool" where
  "smoke_ready t T q name d \<longleftrightarrow> db_inv d
     \<and> (\<forall>j \<in> set (db_jobs d). \<not> lease_expired T {} j \<and> j_queue j \<notin> {q, q @ ''_reap'', q @ ''_sched''})
     \<and> (\<forall>c \<in> set (db_config d). qc_queue c \<notin> {q, q @ ''_reap''})
     \<and> (\<forall>s \<in> set (db_schedules d). (s_enabled s \<longrightarrow> T < s_next_run_at s) \<and> s_name s \<noteq> name)
     \<and> mono t \<and> (\<forall>k. t k \<le> T) \<and> T \<le> t 0 + us_per_second * 30 \<and> us_per_second * 100 \<le> t 0
     \<and> u_year (utc_of (nat (a_second_ago (t 72) div us_per_ms))) < 10000
     \<and> u_year (utc_of (nat ((a_second_ago (t 72) - us_per_ms * 60000) div us_per_ms))) < 10000"

lemma smoke_sections_pass:
  assumes ready: "smoke_ready t T q name d" and cr: "croner_smoke nextRun"
    and names: "validateName q = Inr ()" "validateName (q @ ''_reap'') = Inr ()"
    and draws: "\<exists>r \<in> set rs. r < 1 / 5" "\<exists>r \<in> set rs. 4 / 5 < r"
    and m: "distinct (me_known m)" "length (me_known m) \<le> me_maxKnown m" "me_maxKnown m = 200"
  shows "\<exists>s'. smoke_sections nextRun t locked rs name q m (new_client, d) = (Inr (replicate 45 True), s')"
proof -
  let ?Z = "{q @ ''_reap'', q @ ''_sched''}" and ?Q = "{q, q @ ''_reap''}"
  have mono: "t i \<le> t k" if "i \<le> k" for i k using ready that by (simp add: smoke_ready_def monoD)
  have end_at: "t k \<le> T" for k using ready by (simp add: smoke_ready_def)
  have T: "T \<le> t k + us_per_second * 30" for k
    using ready mono [of 0 k] by (simp add: smoke_ready_def)
  have inv: "db_inv d" and conf: "q \<notin> qc_queue ` set (db_config d)" "q @ ''_reap'' \<notin> qc_queue ` set (db_config d)"
    using ready by (auto simp: smoke_ready_def)
  have z: "q \<notin> ?Z" by simp
  have ok: "smoke_ok q T ?Z d" using ready unpaused [OF conf(1)] by (auto simp: smoke_ok_def smoke_ready_def)
  have q: "q \<in> ?Q" "q @ ''_reap'' \<in> ?Q" by simp_all
  have "\<forall>k. t (min k 12) \<le> t 12" using mono by simp
  from enqueue_passes [OF inv client_ok_new q(1) conf(1) names(1) this] obtain cl1 d1 where
    e: "enqueue_section t q (new_client, d) = (Inr (replicate 7 True), cl1, d1)" "client_ok ?Q cl1" "adds q (t 12) 51 d d1"
    unfolding enqueue_section_cong by blast
  note ok1 = smoke_ok_adds [OF ok e(3) z]
  have e3: "adds q (t 12) 3 d d1" using e(3) by (auto simp: adds_def)
  have f1: "db_config d1 = db_config d" "db_schedules d1 = db_schedules d" using e(3) by (simp_all add: adds_def)
  have "\<forall>i. T \<le> t (20 + i) + us_per_second * 30" using T by blast
  from claim_passes [OF ok1 this e3, of locked] mono obtain d2 where
    c: "claim_section (\<lambda>k. t (20 + k)) locked q d1 = (Inr (replicate 3 True), d2)" "smoke_ok q T ?Z d2"
      "db_config d2 = db_config d" "db_schedules d2 = db_schedules d"
    using f1 by auto
  have q2: "q \<notin> qc_queue ` set (db_config d2)" using c(3) conf(1) by simp
  have "\<exists>cl3 d3. fence_section (\<lambda>k. t (40 + k)) q (cl1, d2) = (Inr (replicate 3 True), cl3, d3) \<and> client_ok ?Q cl3
      \<and> smoke_ok q T ?Z d3 \<and> db_config d3 = db_config d2 \<and> db_schedules d3 = db_schedules d2"
    by (rule fence_passes [OF c(2) z e(2) q(1) q2 names(1)]) (use mono T in simp_all)
  then obtain cl3 d3 where
    g: "fence_section (\<lambda>k. t (40 + k)) q (cl1, d2) = (Inr (replicate 3 True), cl3, d3)" "client_ok ?Q cl3"
      "smoke_ok q T ?Z d3" "db_config d3 = db_config d2" "db_schedules d3 = db_schedules d2" by blast
  have q3: "q @ ''_reap'' \<notin> qc_queue ` set (db_config d3)" using g(4) c(3) conf(2) by simp
  have "\<exists>cl5 d5. reaper_section (\<lambda>k. t (60 + k)) q (cl3, d3) = (Inr (replicate 5 True), cl5, d5) \<and> client_ok ?Q cl5
      \<and> db_inv d5 \<and> db_config d5 = db_config d3 \<and> db_schedules d5 = db_schedules d3
      \<and> j_queue ` set (db_jobs d5) \<subseteq> insert (q @ ''_reap'') (j_queue ` set (db_jobs d3))"
    by (rule reaper_passes [OF g(3) _ g(2) q(2) q3 names(2)]) (use mono end_at in simp_all)
  then obtain cl5 d5 where
    r: "reaper_section (\<lambda>k. t (60 + k)) q (cl3, d3) = (Inr (replicate 5 True), cl5, d5)" "client_ok ?Q cl5" "db_inv d5"
      "db_config d5 = db_config d3" "db_schedules d5 = db_schedules d3"
      "j_queue ` set (db_jobs d5) \<subseteq> insert (q @ ''_reap'') (j_queue ` set (db_jobs d3))" by blast
  have "q @ ''_sched'' \<notin> j_queue ` set (db_jobs d3)" by (rule smoke_ok_empty [OF g(3)]) simp
  from still_empty [OF r(6) _ this] have empty: "q @ ''_sched'' \<notin> j_queue ` set (db_jobs d5)" by simp
  have idle: "\<forall>s \<in> set (db_schedules d5). s_enabled s \<longrightarrow> T < s_next_run_at s" "name \<notin> s_name ` set (db_schedules d5)"
    using ready r(5) g(5) c(4) by (auto simp: smoke_ready_def)
  have "\<exists>d6. scheduler_section nextRun (\<lambda>k. t (70 + k)) name q d5 = (Inr (replicate 8 True), d6)
      \<and> db_inv d6 \<and> db_config d6 = db_config d5"
  proof (rule scheduler_passes [OF r(3) idle cr empty])
    show "\<forall>k. t (70 + 2) \<le> t (70 + Suc (Suc (Suc k)))" using mono by simp
    show "\<forall>k. t (70 + k) \<le> T" using end_at by blast
    show "T \<le> t (70 + 2) + us_per_second * 1000" using T [of 72] by (simp add: us_per_second_def)
    show "us_per_second * 100 \<le> t (70 + 2)" using ready mono [of 0 72] by (simp add: smoke_ready_def)
  qed (use ready in \<open>simp_all add: smoke_ready_def\<close>)
  then obtain d6 where s: "scheduler_section nextRun (\<lambda>k. t (70 + k)) name q d5 = (Inr (replicate 8 True), d6)"
    "db_inv d6" "db_config d6 = db_config d" using r(4) g(4) c(3) by auto
  have "q \<notin> qc_queue ` set (db_config d6)" using s(3) conf(1) by simp
  from admin_passes [OF s(2) r(2) q(1) this names(1), of "\<lambda>k. t (80 + k)"] obtain cl7 d7 where
    a: "admin_section (\<lambda>k. t (80 + k)) q (cl5, d6) = (Inr (replicate 4 True), cl7, d7)" by blast
  have "smoke_sections nextRun t locked rs name q m (new_client, d)
      = (Inr (machine_section @ backoff_section rs @ replicate 7 True @ replicate 3 True @ replicate 3 True @ [True, True]
          @ replicate 5 True @ replicate 8 True @ replicate 4 True @ fst (metrics_section m)), cl7, d7)"
    unfolding smoke_sections_def
    by (simp only: and_then_simps with_db_def Let_def prod.case fst_conv snd_conv e(1) c(1) g(1) constraints_pass r(1) s(1) a)
  also have "[True, True] = replicate 2 True" by (simp add: numeral_2_eq_2)
  finally show ?thesis
    unfolding machine_passes backoff_passes [OF draws] metrics_pass [OF m] replicate_add [symmetric] by auto
qed

lemma smoke_whole:
  assumes "smoke_ready t T q name d" and "croner_smoke nextRun"
    and "validateName q = Inr ()" "validateName (q @ ''_reap'') = Inr ()"
    and "\<exists>r \<in> set rs. r < 1 / 5" "\<exists>r \<in> set rs. 4 / 5 < r"
    and "distinct (me_known m)" "length (me_known m) \<le> me_maxKnown m" "me_maxKnown m = 200"
  shows "\<exists>d'. smoke nextRun t locked rs name q m d = (Inr (replicate 45 True), d')
    \<and> (\<forall>j \<in> set (db_jobs d'). \<forall>s. j_queue j \<noteq> q @ s)"
proof -
  obtain s' where "smoke_sections nextRun t locked rs name q m (new_client, d) = (Inr (replicate 45 True), s')"
    using smoke_sections_pass [OF assms] by blast
  moreover have "\<forall>j \<in> set (db_jobs (sweep q e)). \<forall>s. j_queue j \<noteq> q @ s" for e
    using like_rest by (auto simp: sweep_def commit_def delete_jobs_def)
  ultimately show ?thesis by (simp add: smoke_def)
qed

end
