(* ===== verification/Harness_Samples.thy ===== *)
theory Harness_Samples
  imports Service_Samples Durability Handlers Dashboard_Overview Dashboard_Calls Bench_Laws Smoke_Laws
begin

text \<open>
  Concrete states the witnesses of the chaos tests, the demo handlers and the dashboard evaluate
  on: a full queue, a flaky job in its first delivery, a stream cut into single characters, a
  payload with a secret, a page of dead jobs, the croner and the clock of a smoke check.
\<close>

subsection \<open>A full queue\<close>

definition durability_row :: enqueue_row where
  "durability_row = sample_row\<lparr>n_queue := DURABILITY_QUEUE, n_maxAttempts := 20, n_leaseSeconds := 3\<rparr>"

primrec db_filled :: "nat \<Rightarrow> db" where
  "db_filled 0 = empty_db"
| "db_filled (Suc n) = exec (Do_insert 0 durability_row) (db_filled n)"

lemma reachable_filled: "reachable (db_filled n)"
  by (induction n) (auto simp del: exec.simps intro: reachable.intros)

lemma durability_fields [simp]:
  "n_queue durability_row = DURABILITY_QUEUE" "n_maxAttempts durability_row = 20"
  "j_queue (new_job 0 durability_row i) = DURABILITY_QUEUE" "j_state (new_job 0 durability_row i) = Available"
  "j_attempt (new_job 0 durability_row i) = 0" "j_max_attempts (new_job 0 durability_row i) = 20"
  "j_run_at (new_job 0 durability_row i) = 0" "j_schedule_id (new_job 0 durability_row i) = None"
  "j_id (new_job 0 durability_row i) = i"
  by (simp_all add: new_job_def durability_row_def sample_row_def)

lemma durability_insert:
  "insert_row 0 (new_job 0 durability_row) d =
     Inr (Some (new_job 0 durability_row (db_job_seq d)),
       d\<lparr>db_job_seq := Suc (db_job_seq d), db_jobs := db_jobs d @ [new_job 0 durability_row (db_job_seq d)],
         db_notified := db_notified d @ [channel_of DURABILITY_QUEUE]\<rparr>)"
  by (simp add: insert_row_def new_job_def durability_row_def sample_row_def conflicts_def Let_def
      pgjobq_notify_enqueue_def idem_slot_def active_slot_def job_checks_def is_smallint_def is_integer_def)

lemma filled_rows:
  "db_job_seq (db_filled n) = Suc n \<and> db_jobs (db_filled n) = map (new_job 0 durability_row) [1..<Suc n]
     \<and> db_config (db_filled n) = []"
  by (induction n) (simp_all add: empty_db_def commit_def insertJob_def durability_insert)

lemma filled_settling: "settling 0 (db_filled n)"
  using reachable_inv [OF reachable_filled] by (auto simp: settling_def filled_rows queue_paused_def)

lemma filled_sizes: "queue_size (db_filled n) = n" "waiting_jobs (db_filled n) = n" "running_jobs (db_filled n) = 0"
  by (simp_all add: queue_size_def waiting_jobs_def running_jobs_def filled_rows active_state_def comp_def
    del: upt_Suc)

subsection \<open>A turn of the benchmark\<close>

definition bench_turn :: "nat \<Rightarrow> instant \<Rightarrow> bench_event" where
  "bench_turn i now = \<lparr>be_worker = i, be_now = now, be_cnow = now, be_held = [], be_ms = 1\<rparr>"

subsection \<open>A delivery\<close>

definition flaky_job :: job where
  "flaky_job = job_claimed\<lparr>j_type := ''demo.flaky'', j_payload := JObj [(''failUntilAttempt'', JNum ''3'')],
     j_max_attempts := 5\<rparr>"

lemma flaky_inv: "db_inv (db_enqueued\<lparr>db_jobs := [flaky_job]\<rparr>)"
  using inv_claimed
  by (simp add: db_inv_def db_claimed_eq flaky_job_def job_checks_def index_ok_def idem_slot_def
      active_slot_def archive_ids_def)

lemma flaky_fields [simp]:
  "c_id (toClaimedJob flaky_job) = 1" "c_type (toClaimedJob flaky_job) = ''demo.flaky''"
  "c_attempt (toClaimedJob flaky_job) = 1" "j_attempt flaky_job = 1" "j_max_attempts flaky_job = 5"
  "c_payload (toClaimedJob flaky_job) = JObj [(''failUntilAttempt'', JNum ''3'')]"
  "owns (token_of (ro_workerId sample_runner) (toClaimedJob flaky_job)) flaky_job" "j_id flaky_job = 1"
  by (simp_all add: flaky_job_def toClaimedJob_def owns_def token_of_def sample_runner_def)

lemma three_value: "numeral_value ''3'' = 3"
  by (simp add: numeral_value_def exponent_value_def is_digit_def Let_def byte_def)

lemma flaky_parsed:
  "createDemoRegistry email ctx eff = Inr reg \<Longrightarrow>
   parse reg ''demo.flaky'' (JObj [(''failUntilAttempt'', JNum ''3'')]) = Inr (JObj [(''failUntilAttempt'', JNum ''3'')])"
  by (auto simp: demo_registered parse_def resolve_def int_schema_def json_field_def int_value_def three_value
    max_safe_integer_def)

subsection \<open>A dashboard\<close>

definition sample_stream :: "stream_event list" where
  "sample_stream = [Publishes (\<lambda>_. False) (event_frame (Health_event True ''t'')), Ticks,
     Publishes (\<lambda>_. False) (event_frame (Snapshot_event ''t'' (snapshot 1 db_enqueued)))]"

definition sample_chunks :: "string list" where
  "sample_chunks = map (\<lambda>c. [c]) (retry_frame @ event_frame (Health_event True ''t'') @ keepalive_frame
     @ event_frame (Snapshot_event ''t'' (snapshot 1 db_enqueued)))"

definition no_data :: ui_data where
  "no_data = \<lparr>da_queues = None, da_jobs = [], da_next = None, da_dlq = [], da_schedules = []\<rparr>"

definition sample_secret :: json where
  "sample_secret = JObj [(''user'', JObj [(''Password'', JStr ''x'')])]"

lemma password_sensitive: "sensitive ''Password''" "\<not> sensitive ''user''"
  by code_simp+

definition sample_page :: ui_data where
  "sample_page = no_data\<lparr>da_dlq := [serializeJob (toJob job_claimed)]\<rparr>"

definition dlq_history :: "(ui_data \<times> ui_event) list" where
  "dlq_history = [(no_data, Choose_tab Dlq_tab), (sample_page, Toggle ''1'')]"

lemma dlq_history_run:
  "ui_run dlq_history (load (setApiKey ''k'' (\<lambda>_. None))) =
     (\<lparr>ui_storage = setApiKey ''k'' (\<lambda>_. None), ui_key = ''k'',
       ui_view = V_dlq \<lparr>dv_selected = [''1''], dv_expanded = None\<rparr>\<rparr>, [])"
proof -
  have one: "show_nat 1 = ''1''" by code_simp
  show ?thesis
    by (simp add: dlq_history_def ui_step_def load_def getApiKey_def setApiKey_def view_step_def dlq_step_def job_ids_def
      sample_page_def no_data_def serializeJob_def toJob_def tab_of_def toggle_def one [simplified])
qed

subsection \<open>A smoke check\<close>

definition smoke_croner :: croner where
  "smoke_croner c z x =
     (if c = ''not a cron'' \<or> z = ''Mars/Olympus_Mons'' then Inl [] else Inr (Some (x + 60000000)))"

lemma smoke_croner_ok: "croner_smoke smoke_croner"
  by (simp add: croner_smoke_def croner_law_def smoke_croner_def)

lemma two_minutes_utc: "u_year (utc_of 120000) = 1970"
  by (simp add: utc_of_def split_year.simps [of 1970 0] year_days_def month_days_def ms_per_day_def)

lemma smoke_sample_ready: "smoke_ready (\<lambda>_. 121000000) 121000000 ''smoke_1'' ''smoke-sched-1'' empty_db"
proof -
  have "a_second_ago 121000000 div us_per_ms = 120000"
    "(a_second_ago 121000000 - us_per_ms * 60000) div us_per_ms = 60000"
    by (simp_all add: a_second_ago_def us_per_ms_def)
  then show ?thesis
    by (simp add: smoke_ready_def db_inv_empty mono_def us_per_second_def two_minutes_utc minute_utc)
      (simp add: empty_db_def)
qed

end
