(* ===== verification/Transactions.thy ===== *)
theory Transactions
  imports Migrate
begin

text \<open>
  The rest of packages/core/src/db.ts: the handle with its flag, transactions, the texts of errors.
  The store behind a handle is any state, a statement a function on it. A callback of
  \<open>withTransaction\<close> is the tree of the statements it issues, each answered by rows or by an
  error it may handle. What the driver does (connect, BEGIN, COMMIT) is a parameter; a failed COMMIT
  may have landed or not. A transaction works on its own copy of the store, so what other sessions
  commit meanwhile is not visible in it.
\<close>

subsection \<open>The handle\<close>

type_synonym 's statement = "'s \<Rightarrow> pg_error + nat list \<times> 's"

datatype tx_fault =
    Of_statement fault
  | Aborted_transaction
  | Pool_ended
  | Connection_failed
  | Own_error string

record 's handle =
  hd_store :: 's
  hd_closed :: bool
  hd_inUse :: nat
  hd_ended :: nat

definition new_handle :: "'s \<Rightarrow> 's handle" where
  "new_handle s = \<lparr>hd_store = s, hd_closed = False, hd_inUse = 0, hd_ended = 0\<rparr>"

definition wrapped :: "pg_error \<Rightarrow> fault" where
  "wrapped e = (if e = Unique_violation then Passed_through e else Wrapped e)"

definition Db_query :: "'s statement \<Rightarrow> 's handle \<Rightarrow> (tx_fault + nat list) \<times> 's handle" where
  "Db_query st h =
     (if hd_closed h then (Inl (Of_statement (Fault DatabaseError No_details)), h)
      else case st (hd_store h) of
             Inl e \<Rightarrow> (Inl (Of_statement (wrapped e)), h)
           | Inr (rows, s) \<Rightarrow> (Inr rows, h\<lparr>hd_store := s\<rparr>))"

definition Db_ping :: "'s handle \<Rightarrow> (tx_fault + nat list) \<times> 's handle" where
  "Db_ping = Db_query (\<lambda>s. Inr ([1], s))"

definition Db_close :: "'s handle \<Rightarrow> 's handle" where
  "Db_close h =
     (if hd_closed h then h else h\<lparr>hd_closed := True, hd_ended := Suc (hd_ended h)\<rparr>)"

subsection \<open>Transactions\<close>

datatype ('s, 'r) tx =
    Return 'r
  | Throw tx_fault
  | Ask "'s statement" "tx_fault + nat list \<Rightarrow> ('s, 'r) tx"

text \<open>After a failed statement the server refuses every other one until the transaction ends.\<close>

definition tx_query :: "'s statement \<Rightarrow> 's \<times> bool \<Rightarrow> (tx_fault + nat list) \<times> 's \<times> bool" where
  "tx_query st w =
     (let (s, failed) = w
      in if failed then (Inl Aborted_transaction, s, True)
         else case st s of
                Inl e \<Rightarrow> (Inl (Of_statement (wrapped e)), s, True)
              | Inr (rows, s') \<Rightarrow> (Inr rows, s', False))"

primrec run_tx :: "('s, 'r) tx \<Rightarrow> 's \<times> bool \<Rightarrow> (tx_fault + 'r) \<times> 's \<times> bool" where
  "run_tx (Return r) = (\<lambda>w. (Inr r, w))"
| "run_tx (Throw e) = (\<lambda>w. (Inl e, w))"
| "run_tx (Ask st k) = (\<lambda>w. case tx_query st w of (a, w') \<Rightarrow> run_tx (k a) w')"

text \<open>The error, if any, of each call; of a COMMIT also whether it took effect all the same.\<close>

record driver =
  dr_connect :: "tx_fault option"
  dr_begin :: "tx_fault option"
  dr_commit :: "(tx_fault \<times> bool) option"

definition sound_driver :: driver where
  "sound_driver = \<lparr>dr_connect = None, dr_begin = None, dr_commit = None\<rparr>"

text \<open>
  The part between \<open>BEGIN\<close> and \<open>ROLLBACK\<close>: the result and what is stored. The COMMIT of a transaction
  in which a statement failed is answered without an error and rolls back; whether a ROLLBACK
  succeeds makes no difference to what is stored.
\<close>

definition in_transaction :: "driver \<Rightarrow> ('s, 'r) tx \<Rightarrow> 's \<Rightarrow> (tx_fault + 'r) \<times> 's" where
  "in_transaction drv fn s =
     (case dr_begin drv of
        Some e \<Rightarrow> (Inl e, s)
      | None \<Rightarrow>
          (case run_tx fn (s, False) of
             (Inl e, _) \<Rightarrow> (Inl e, s)
           | (Inr r, s', failed) \<Rightarrow>
               (let stored = (if failed then s else s')
                in case dr_commit drv of
                     None \<Rightarrow> (Inr r, stored)
                   | Some (e, landed) \<Rightarrow> (Inl e, if landed then stored else s))))"

definition withTransaction :: "driver \<Rightarrow> ('s, 'r) tx \<Rightarrow> 's handle \<Rightarrow> (tx_fault + 'r) \<times> 's handle" where
  "withTransaction drv fn h =
     (case (if hd_closed h then Some Pool_ended else dr_connect drv) of
        Some e \<Rightarrow> (Inl e, h)
      | None \<Rightarrow>
          (let h1 = h\<lparr>hd_inUse := Suc (hd_inUse h)\<rparr>;
               (r, s) = in_transaction drv fn (hd_store h1);
               h2 = h1\<lparr>hd_store := s\<rparr>
           in (r, h2\<lparr>hd_inUse := hd_inUse h2 - 1\<rparr>)))"

subsection \<open>Error texts\<close>

text \<open>\<open>String\<close> of a thrown value that is no error is the value's own text.\<close>

definition errorMessage :: "(thrown \<Rightarrow> string) \<Rightarrow> thrown \<Rightarrow> string" where
  "errorMessage text_of e =
     (case e of
        Thrown_error x \<Rightarrow>
          (case pgErrorCode (unwrapCause e) of
             Some code \<Rightarrow> x_message x @ '' (pg code '' @ code @ '')''
           | None \<Rightarrow> x_message x)
      | _ \<Rightarrow> text_of e)"

subsection \<open>All or nothing\<close>

lemma transaction_stores:
  assumes "withTransaction drv fn h = (r, h')"
  shows "hd_store h' = hd_store h
    \<or> (\<exists>x s. run_tx fn (hd_store h, False) = (Inr x, s, False) \<and> hd_store h' = s)"
  using assms
  by (auto simp: withTransaction_def in_transaction_def Let_def split: option.splits if_splits prod.splits sum.splits)

lemma transaction_releases:
  "withTransaction drv fn h = (r, h') \<Longrightarrow>
     hd_inUse h' = hd_inUse h \<and> hd_closed h' = hd_closed h \<and> hd_ended h' = hd_ended h"
  by (auto simp: withTransaction_def Let_def split: option.splits if_splits prod.splits)

text \<open>A callback that lets every error of its statements through.\<close>

primrec lets_through :: "('s, 'r) tx \<Rightarrow> bool" where
  "lets_through (Return r) = True"
| "lets_through (Throw e) = True"
| "lets_through (Ask st k) = ((\<forall>e. k (Inl e) = Throw e) \<and> (\<forall>rows. lets_through (k (Inr rows))))"

lemma lets_through_failed:
  "lets_through fn \<Longrightarrow> run_tx fn (s, False) = (Inr x, s', failed) \<Longrightarrow> \<not> failed"
proof (induction fn arbitrary: s)
  case (Ask st k)
  show ?case
  proof (cases "st s")
    case (Inl e)
    with Ask.prems show ?thesis by (simp add: tx_query_def)
  next
    case (Inr p)
    then obtain rows s1 where "st s = Inr (rows, s1)" by (cases p) simp
    with Ask.prems Ask.IH [of "k (Inr rows)" s1] show ?thesis by (simp add: tx_query_def)
  qed
qed simp_all

lemma transaction_returned:
  assumes "lets_through fn" and "withTransaction drv fn h = (Inr x, h')"
  shows "run_tx fn (hd_store h, False) = (Inr x, hd_store h', False)"
  using assms(2) lets_through_failed [OF assms(1)]
  by (auto simp: withTransaction_def in_transaction_def Let_def split: option.splits if_splits prod.splits sum.splits)

text \<open>A callback that swallows an error is told of success, and nothing is stored.\<close>

lemma swallowed_error:
  assumes "st s = Inl e" and "h = new_handle s"
  shows "withTransaction sound_driver (Ask st (\<lambda>_. Return ())) h = (Inr (), h)"
  using assms
  by (simp add: withTransaction_def in_transaction_def sound_driver_def tx_query_def new_handle_def)

subsection \<open>The transaction of a migration\<close>

definition run_sql :: "(string \<Rightarrow> 's \<Rightarrow> 's option) \<Rightarrow> pg_error \<Rightarrow> migration \<Rightarrow> 's schema_db statement" where
  "run_sql apply_sql err m d =
     (case apply_sql (mg_sql m) (sd_schema d) of
        None \<Rightarrow> Inl err
      | Some s \<Rightarrow> Inr ([], d\<lparr>sd_schema := s\<rparr>))"

definition record_migration :: "migration \<Rightarrow> 's schema_db statement" where
  "record_migration m d =
     (if mg_version m \<in> am_version ` set (applied_of d) then Inl Unique_violation
      else Inr ([], d\<lparr>sd_applied := Some (applied_of d @
             [\<lparr>am_version = mg_version m, am_name = mg_name m, am_checksum = mg_checksum m\<rparr>])\<rparr>))"

definition migration_tx ::
  "(string \<Rightarrow> 's \<Rightarrow> 's option) \<Rightarrow> pg_error \<Rightarrow> migration \<Rightarrow> ('s schema_db, unit) tx" where
  "migration_tx apply_sql err m =
     Ask (run_sql apply_sql err m) (\<lambda>a. case a of
        Inl e \<Rightarrow> Throw e
      | Inr _ \<Rightarrow> Ask (record_migration m) (\<lambda>b. case b of Inl e \<Rightarrow> Throw e | Inr _ \<Rightarrow> Return ()))"

lemma migration_lets_through: "lets_through (migration_tx apply_sql err m)"
  by (simp add: migration_tx_def)

text \<open>\<open>apply_one\<close> of theory Migrate is this transaction.\<close>

lemma apply_one_is_transaction:
  "withTransaction sound_driver (migration_tx apply_sql err m) (new_handle d) =
     (case apply_one apply_sql m d of
        Some d' \<Rightarrow> (Inr (), new_handle d')
      | None \<Rightarrow> (Inl (Of_statement (if apply_sql (mg_sql m) (sd_schema d) = None then wrapped err
                 else Passed_through Unique_violation)), new_handle d))"
  by (simp add: withTransaction_def in_transaction_def sound_driver_def new_handle_def migration_tx_def tx_query_def
      run_sql_def record_migration_def apply_one_def applied_of_def wrapped_def split: option.splits)

text \<open>
  Nothing serialises two migration commands: both may try the same migrations, one transaction after
  the other in any order. Each version is applied once all the same, and the schema is what the
  recorded migrations make of it in their order.
\<close>

definition attempt_migration ::
  "(string \<Rightarrow> 's \<Rightarrow> 's option) \<Rightarrow> migration \<Rightarrow> 's schema_db \<Rightarrow> 's schema_db" where
  "attempt_migration apply_sql m d = coalesce (apply_one apply_sql m d) d"

lemma migrators_race:
  "\<exists>ks. set ks \<subseteq> set ms \<and> distinct (map mg_version ks)
     \<and> mg_version ` set ks \<inter> am_version ` set (applied_of d) = {}
     \<and> applied_of (fold (attempt_migration apply_sql) ms d) = applied_of d @
         map (\<lambda>m. \<lparr>am_version = mg_version m, am_name = mg_name m, am_checksum = mg_checksum m\<rparr>) ks
     \<and> fold (\<lambda>m s. Option.bind s (apply_sql (mg_sql m))) ks (Some (sd_schema d))
         = Some (sd_schema (fold (attempt_migration apply_sql) ms d))"
proof (induction ms arbitrary: d)
  case Nil
  then show ?case by (intro exI [of _ "[]"]) simp
next
  case (Cons m ms)
  show ?case
  proof (cases "apply_one apply_sql m d")
    case None
    then have "attempt_migration apply_sql m d = d" by (simp add: attempt_migration_def)
    with Cons.IH [of d] show ?thesis by auto
  next
    case (Some d1)
    then have s: "apply_sql (mg_sql m) (sd_schema d) = Some (sd_schema d1)"
      and fresh: "mg_version m \<notin> am_version ` set (applied_of d)"
      and a: "applied_of d1 = applied_of d @
        [\<lparr>am_version = mg_version m, am_name = mg_name m, am_checksum = mg_checksum m\<rparr>]"
      by (auto simp: apply_one_def applied_of_def split: option.splits if_splits)
    from Cons.IH [of d1] obtain ks where ks: "set ks \<subseteq> set ms" "distinct (map mg_version ks)"
      "mg_version ` set ks \<inter> am_version ` set (applied_of d1) = {}"
      "applied_of (fold (attempt_migration apply_sql) ms d1) = applied_of d1 @
         map (\<lambda>m. \<lparr>am_version = mg_version m, am_name = mg_name m, am_checksum = mg_checksum m\<rparr>) ks"
      "fold (\<lambda>m s. Option.bind s (apply_sql (mg_sql m))) ks (Some (sd_schema d1))
         = Some (sd_schema (fold (attempt_migration apply_sql) ms d1))" by blast
    from Some have "attempt_migration apply_sql m d = d1" by (simp add: attempt_migration_def)
    with ks fresh s a show ?thesis by (intro exI [of _ "m # ks"]) auto
  qed
qed

end
