(* ===== verification/Seed.thy ===== *)
theory Seed
  imports Dedup_Laws Batch_Laws Scheduler_Laws
begin

text \<open>
  packages/core/src/cli/seed.ts: the configuration, the jobs and the schedules a fresh installation
  is filled with. The calls follow one another with nobody else at the database; \<open>t k\<close> is the time
  (of the database and of the process) of the k-th of them. Its log lines are left out.
\<close>

definition QUEUES :: "string list" where
  "QUEUES = [''default'', ''email'', ''images'', ''reports'']"

text \<open>One row of the configuration: inserted, or its attempts and lease set.\<close>

definition seed_max_attempts :: "string \<Rightarrow> int" where
  "seed_max_attempts q = (if q = ''reports'' then 3 else 5)"

definition seed_lease_seconds :: "string \<Rightarrow> int" where
  "seed_lease_seconds q = (if q = ''reports'' then 300 else 30)"

definition upsert_config :: "instant \<Rightarrow> string \<Rightarrow> db \<Rightarrow> db" where
  "upsert_config now q d =
     d\<lparr>db_config :=
        (if q \<in> qc_queue ` set (db_config d)
         then upd_where (\<lambda>c. qc_queue c = q)
                (\<lambda>c. c\<lparr>qc_max_attempts := Some (seed_max_attempts q),
                      qc_lease_seconds := Some (seed_lease_seconds q), qc_updated_at := now\<rparr>) (db_config d)
         else db_config d @
           [(default_config now q False)
              \<lparr>qc_max_attempts := Some (seed_max_attempts q), qc_lease_seconds := Some (seed_lease_seconds q)\<rparr>])\<rparr>"

definition seed_config :: "(nat \<Rightarrow> instant) \<Rightarrow> db \<Rightarrow> db" where
  "seed_config t d = fold (\<lambda>(k, q). upsert_config (t k) q) (enumerate 0 QUEUES) d"

subsection \<open>The jobs\<close>

definition plain_options :: enqueue_options where
  "plain_options = \<lparr>o_priority = None, o_runAt = None, o_delaySeconds = None, o_maxAttempts = None,
     o_leaseSeconds = None, o_idempotencyKey = None, o_uniqueKey = None, o_metadata = None,
     o_traceContext = None\<rparr>"

definition email_items :: "batch_item list" where
  "email_items = map (\<lambda>i. \<lparr>bi_type = ''demo.email'',
     bi_payload = JObj [(''to'', JStr (''user'' @ show_nat i @ ''@example.com'')),
       (''subject'', JStr (''Welcome, user '' @ show_nat i)), (''body'', JStr ''Thanks for signing up.'')],
     bi_options = plain_options\<lparr>o_priority := Some (if i < 5 then 10 else 0)\<rparr>\<rparr>) [0..<40]"

definition flaky_items :: "batch_item list" where
  "flaky_items = replicate 8 \<lparr>bi_type = ''demo.flaky'',
     bi_payload = JObj [(''failUntilAttempt'', JNum ''3'')], bi_options = plain_options\<rparr>"

definition poison_items :: "batch_item list" where
  "poison_items = map (\<lambda>i. \<lparr>bi_type = ''demo.poison'',
     bi_payload = JObj [(''reason'', JStr (''unsupported format #'' @ show_nat i))],
     bi_options = plain_options\<rparr>) [0..<4]"

definition once_payload :: json where
  "once_payload = JObj [(''to'', JStr ''idempotent@example.com''), (''subject'', JStr ''Only once'')]"

definition once_options :: enqueue_options where
  "once_options = plain_options\<lparr>o_idempotencyKey := Some ''seed-demo-idempotent''\<rparr>"

text \<open>A single call, as its queue, type, payload and options.\<close>

type_synonym call = "string \<times> string \<times> json \<times> enqueue_options"

definition delayed_calls :: "call list" where
  "delayed_calls = map (\<lambda>i. (''reports'', ''demo.long'', JObj [(''seconds'', JNum ''20'')],
     plain_options\<lparr>o_delaySeconds := Some (of_nat i * 120), o_priority := Some (- 5)\<rparr>)) [1..<6]"

definition single_calls :: "call list" where
  "single_calls = delayed_calls @
     [(''images'', ''demo.long'', JObj [(''seconds'', JNum ''45'')], plain_options),
      (''images'', ''demo.throttled'', JObj [(''retryAfterSeconds'', JNum ''15'')], plain_options)]"

definition call_once :: "instant \<Rightarrow> call \<Rightarrow> client \<Rightarrow> db \<Rightarrow> (fault + enqueue_result) \<times> client \<times> db" where
  "call_once now c cl d = (case c of (q, ty, p, opts) \<Rightarrow> enqueue alone now now q ty p opts cl d)"

fun calls :: "(nat \<Rightarrow> instant) \<Rightarrow> nat \<Rightarrow> call list \<Rightarrow> client \<Rightarrow> db \<Rightarrow> (fault + unit) \<times> client \<times> db" where
  "calls t k [] cl d = (Inr (), cl, d)"
| "calls t k (c # cs) cl d =
     (case call_once (t k) c cl d of
        (Inl e, cl', d') \<Rightarrow> (Inl e, cl', d')
      | (Inr _, cl', d') \<Rightarrow> calls t (Suc k) cs cl' d')"

subsection \<open>The schedules\<close>

definition seed_payload :: "string \<Rightarrow> json" where
  "seed_payload ty =
     (if ty = ''demo.email''
      then JObj [(''to'', JStr ''digest@example.com''), (''subject'', JStr ''Your digest'')]
      else if ty = ''demo.long'' then JObj [(''seconds'', JNum ''20'')]
      else JObj [(''failUntilAttempt'', JNum ''2'')])"

definition seed_schedule :: "string \<Rightarrow> string \<Rightarrow> string \<Rightarrow> string \<Rightarrow> string \<Rightarrow> create_request" where
  "seed_schedule name q ty cron tz = \<lparr>cq_name = name, cq_queue = q, cq_type = ty,
     cq_payload = Some (seed_payload ty), cq_cron = cron, cq_timezone = Some tz,
     cq_catchupPolicy = None, cq_enabled = None\<rparr>"

definition seed_schedules :: "create_request list" where
  "seed_schedules =
     [seed_schedule ''nightly-report'' ''reports'' ''demo.long'' ''0 2 * * *'' ''UTC'',
      seed_schedule ''hourly-digest'' ''email'' ''demo.email'' ''0 * * * *'' ''Europe/London'',
      seed_schedule ''frequent-demo'' ''default'' ''demo.flaky'' ''*/5 * * * *'' ''UTC'']"

fun create_missing :: "croner \<Rightarrow> (nat \<Rightarrow> instant) \<Rightarrow> nat \<Rightarrow> create_request list \<Rightarrow> db \<Rightarrow> (fault + unit) \<times> db"
where
  "create_missing nextRun t k [] d = (Inr (), d)"
| "create_missing nextRun t k (s # ss) d =
     (if list_ex (\<lambda>x. vs_name x = cq_name s) (list_schedules d) then create_missing nextRun t (Suc k) ss d
      else case create_schedule nextRun (t k) (t k) s d of
             (Inl e, d') \<Rightarrow> (Inl e, d')
           | (Inr _, d') \<Rightarrow> create_missing nextRun t (Suc k) ss d')"

subsection \<open>The program\<close>

record seeded =
  sd_email :: nat
  sd_flaky :: nat
  sd_poison :: nat
  sd_idempotencyWorked :: bool
  sd_schedules :: nat

text \<open>The calls are numbered in groups: configuration, batches, single calls, the keyed pair, schedules.\<close>

definition seed :: "croner \<Rightarrow> (nat \<Rightarrow> instant) \<Rightarrow> db \<Rightarrow> (fault + seeded) \<times> db" where
  "seed nextRun t d =
     (let d0 = seed_config t d
      in case enqueueBatch alone (t 10) (t 10) ''email'' email_items new_client d0 of
           (Inl e, _, d1) \<Rightarrow> (Inl e, d1) | (Inr emails, cl1, d1) \<Rightarrow>
         case enqueueBatch alone (t 11) (t 11) ''default'' flaky_items cl1 d1 of
           (Inl e, _, d2) \<Rightarrow> (Inl e, d2) | (Inr flaky, cl2, d2) \<Rightarrow>
         case enqueueBatch alone (t 12) (t 12) ''default'' poison_items cl2 d2 of
           (Inl e, _, d3) \<Rightarrow> (Inl e, d3) | (Inr poison, cl3, d3) \<Rightarrow>
         case calls t 20 single_calls cl3 d3 of
           (Inl e, _, d4) \<Rightarrow> (Inl e, d4) | (Inr _, cl4, d4) \<Rightarrow>
         case enqueue alone (t 30) (t 30) ''default'' ''demo.email'' once_payload once_options cl4 d4 of
           (Inl e, _, d5) \<Rightarrow> (Inl e, d5) | (Inr once, cl5, d5) \<Rightarrow>
         case enqueue alone (t 31) (t 31) ''default'' ''demo.email'' once_payload once_options cl5 d5 of
           (Inl e, _, d6) \<Rightarrow> (Inl e, d6) | (Inr twice, cl6, d6) \<Rightarrow>
         case create_missing nextRun t 40 seed_schedules d6 of
           (Inl e, d7) \<Rightarrow> (Inl e, d7)
         | (Inr _, d7) \<Rightarrow>
             (Inr \<lparr>sd_email = length emails, sd_flaky = length flaky, sd_poison = length poison,
                  sd_idempotencyWorked = (er_id once = er_id twice \<and> er_deduplicated twice),
                  sd_schedules = length seed_schedules\<rparr>, d7))"

subsection \<open>What it leaves\<close>

lemma seed_ranges: "1 \<le> seed_max_attempts q \<and> seed_max_attempts q \<le> 1000 \<and> 0 < seed_lease_seconds q
    \<and> is_integer (seed_lease_seconds q)"
  by (simp add: seed_max_attempts_def seed_lease_seconds_def is_integer_def)

lemma config_inv:
  "db_inv d \<Longrightarrow> distinct (map qc_queue cs) \<Longrightarrow> \<forall>c \<in> set cs. config_checks c \<Longrightarrow> db_inv (d\<lparr>db_config := cs\<rparr>)"
  by (simp add: db_inv_def archive_ids_def)

lemma upsert_inv:
  assumes "db_inv d"
  shows "db_inv (upsert_config now q d)"
proof -
  from assms have old: "distinct (map qc_queue (db_config d))" "\<forall>c \<in> set (db_config d). config_checks c"
    by (simp_all add: db_inv_def)
  let ?f = "\<lambda>c. c\<lparr>qc_max_attempts := Some (seed_max_attempts q), qc_lease_seconds := Some (seed_lease_seconds q),
      qc_updated_at := now\<rparr>"
  have "map qc_queue (upd_where (\<lambda>c. qc_queue c = q) ?f (db_config d)) = map qc_queue (db_config d)"
    by (simp add: upd_where_def)
  moreover have "config_checks c \<Longrightarrow> config_checks (?f c)" for c
    using seed_ranges [of q] by (simp add: config_checks_def)
  with old(2) have "\<forall>c \<in> set (upd_where (\<lambda>c. qc_queue c = q) ?f (db_config d)). config_checks c"
    by (auto simp: upd_where_def)
  moreover have "config_checks ((default_config now q False)
      \<lparr>qc_max_attempts := Some (seed_max_attempts q), qc_lease_seconds := Some (seed_lease_seconds q)\<rparr>)"
    using seed_ranges [of q] by (simp add: config_checks_def default_config_def)
  ultimately show ?thesis
    using old unfolding upsert_config_def
    by (intro config_inv [OF assms]) (simp_all add: default_config_def)
qed

lemma fold_keeps: "(\<And>x d. x \<in> set xs \<Longrightarrow> P d \<Longrightarrow> P (f x d)) \<Longrightarrow> P d \<Longrightarrow> P (fold f xs d)"
  by (induction xs arbitrary: d) auto

lemma seed_config_inv: "db_inv d \<Longrightarrow> db_inv (seed_config t d)"
  unfolding seed_config_def by (rule fold_keeps [where P = db_inv]) (auto simp: upsert_inv)

lemma seed_submit_inv: "db_inv d \<Longrightarrow> submit alone now q row d = (r, d') \<Longrightarrow> db_inv d'"
  using insert.inv
  by (fastforce simp: submit_def resolveConflict_def query_def Let_def
      split: sum.splits list.splits fault.splits pg_error.splits option.splits prod.splits)

lemma enqueue_inv: "db_inv d \<Longrightarrow> enqueue alone now cnow q ty p opts cl d = (r, cl', d') \<Longrightarrow> db_inv d'"
  by (auto simp: enqueue_def Let_def seed_submit_inv split: sum.splits prod.splits)

lemma calls_inv: "db_inv d \<Longrightarrow> calls t k cs cl d = (r, cl', d') \<Longrightarrow> db_inv d'"
proof (induction cs arbitrary: k cl d)
  case (Cons c cs)
  obtain s cl1 d1 where c: "call_once (t k) c cl d = (s, cl1, d1)" by (metis prod_cases3)
  then have "db_inv d1" using enqueue_inv [OF Cons.prems(1)] by (cases c) (auto simp: call_once_def)
  with Cons.IH c Cons.prems(2) show ?case by (cases s) auto
qed simp

text \<open>The repeated call is always found out.\<close>

lemma items_unkeyed:
  "\<forall>it \<in> set email_items. o_uniqueKey (bi_options it) = None"
  "\<forall>it \<in> set flaky_items. o_uniqueKey (bi_options it) = None"
  "\<forall>it \<in> set poison_items. o_uniqueKey (bi_options it) = None"
  by (auto simp: email_items_def flaky_items_def poison_items_def plain_options_def)

lemma step_ok:
  "(case x of (Inl e, c, d) \<Rightarrow> (Inl e, d) | (Inr a, c, d) \<Rightarrow> f a c d) = (Inr s, d') \<Longrightarrow>
   \<exists>a c d. x = (Inr a, c, d) \<and> f a c d = (Inr s, d')"
  by (auto split: prod.splits sum.splits)

lemma last_ok:
  "(case x of (Inl e, d) \<Rightarrow> (Inl e, d) | (Inr a, d) \<Rightarrow> f a d) = (Inr s, d') \<Longrightarrow>
   \<exists>a d. x = (Inr a, d) \<and> f a d = (Inr s, d')"
  by (auto split: prod.splits sum.splits)

lemma seed_steps:
  assumes inv: "db_inv d" and ok: "seed nextRun t d = (Inr s, d')"
  obtains cl d4 once cl5 d5 twice cl6 d6 where
    "db_inv d4" "db_inv d6" "create_missing nextRun t 40 seed_schedules d6 = (Inr (), d')"
    "enqueue alone (t 30) (t 30) ''default'' ''demo.email'' once_payload once_options cl d4 = (Inr once, cl5, d5)"
    "enqueue alone (t 31) (t 31) ''default'' ''demo.email'' once_payload once_options cl5 d5 = (Inr twice, cl6, d6)"
    "sd_idempotencyWorked s \<longleftrightarrow> er_id once = er_id twice \<and> er_deduplicated twice"
    "sd_email s = 40" "sd_flaky s = 8" "sd_poison s = 4"
proof -
  have "\<exists>es cl1 d1 fs cl2 d2 ps cl3 d3 u cl4 d4 once cl5 d5 twice cl6 d6 w d7.
      enqueueBatch alone (t 10) (t 10) ''email'' email_items new_client (seed_config t d) = (Inr es, cl1, d1)
    \<and> enqueueBatch alone (t 11) (t 11) ''default'' flaky_items cl1 d1 = (Inr fs, cl2, d2)
    \<and> enqueueBatch alone (t 12) (t 12) ''default'' poison_items cl2 d2 = (Inr ps, cl3, d3)
    \<and> calls t 20 single_calls cl3 d3 = (Inr u, cl4, d4)
    \<and> enqueue alone (t 30) (t 30) ''default'' ''demo.email'' once_payload once_options cl4 d4 = (Inr once, cl5, d5)
    \<and> enqueue alone (t 31) (t 31) ''default'' ''demo.email'' once_payload once_options cl5 d5 = (Inr twice, cl6, d6)
    \<and> create_missing nextRun t 40 seed_schedules d6 = (Inr w, d7)
    \<and> (Inr \<lparr>sd_email = length es, sd_flaky = length fs, sd_poison = length ps,
         sd_idempotencyWorked = (er_id once = er_id twice \<and> er_deduplicated twice),
         sd_schedules = length seed_schedules\<rparr>, d7) = (Inr s :: fault + seeded, d')"
    using ok unfolding seed_def Let_def
    apply -
    apply (drule step_ok, elim exE conjE)+
    apply (drule last_ok, elim exE conjE)
    apply (intro exI conjI)
           apply assumption+
    done
  then obtain es cl1 d1 fs cl2 d2 ps cl3 d3 u cl4 d4 once cl5 d5 twice cl6 d6 w d7 where
    b: "enqueueBatch alone (t 10) (t 10) ''email'' email_items new_client (seed_config t d) = (Inr es, cl1, d1)"
      "enqueueBatch alone (t 11) (t 11) ''default'' flaky_items cl1 d1 = (Inr fs, cl2, d2)"
      "enqueueBatch alone (t 12) (t 12) ''default'' poison_items cl2 d2 = (Inr ps, cl3, d3)"
    and c: "calls t 20 single_calls cl3 d3 = (Inr u, cl4, d4)"
    and o: "enqueue alone (t 30) (t 30) ''default'' ''demo.email'' once_payload once_options cl4 d4 = (Inr once, cl5, d5)"
      "enqueue alone (t 31) (t 31) ''default'' ''demo.email'' once_payload once_options cl5 d5 = (Inr twice, cl6, d6)"
    and m7: "create_missing nextRun t 40 seed_schedules d6 = (Inr w, d7)"
    and s7: "(Inr \<lparr>sd_email = length es, sd_flaky = length fs, sd_poison = length ps,
         sd_idempotencyWorked = (er_id once = er_id twice \<and> er_deduplicated twice),
         sd_schedules = length seed_schedules\<rparr>, d7) = (Inr s :: fault + seeded, d')"
    by (elim exE conjE) (rule that)
  from s7 have s: "s = \<lparr>sd_email = length es, sd_flaky = length fs, sd_poison = length ps,
       sd_idempotencyWorked = (er_id once = er_id twice \<and> er_deduplicated twice), sd_schedules = length seed_schedules\<rparr>"
    and "d' = d7" by simp_all
  with m7 have m: "create_missing nextRun t 40 seed_schedules d6 = (Inr (), d')" by simp
  note B1 = enqueueBatch_aligned [OF seed_config_inv [OF inv] items_unkeyed(1) b(1)]
  note B2 = enqueueBatch_aligned [OF conjunct1 [OF B1] items_unkeyed(2) b(2)]
  note B3 = enqueueBatch_aligned [OF conjunct1 [OF B2] items_unkeyed(3) b(3)]
  have n: "length es = 40" "length fs = 8" "length ps = 4"
    using B1 B2 B3 by (auto simp: email_items_def flaky_items_def poison_items_def dest!: list_all2_lengthD)
  have i4: "db_inv d4" by (rule calls_inv [OF conjunct1 [OF B3] c])
  have i6: "db_inv d6" by (rule enqueue_inv [OF enqueue_inv [OF i4 o(1)] o(2)])
  show thesis by (rule that [OF i4 i6 m o]) (simp_all add: s n)
qed

lemma seed_repeat_found:
  assumes "db_inv d" and "seed nextRun t d = (Inr s, d')"
  shows "sd_idempotencyWorked s"
  using assms
proof (rule seed_steps)
  fix cl d4 once cl5 d5 twice cl6 d6
  assume inv: "db_inv d4"
    and o: "enqueue alone (t 30) (t 30) ''default'' ''demo.email'' once_payload once_options cl d4 = (Inr once, cl5, d5)"
      "enqueue alone (t 31) (t 31) ''default'' ''demo.email'' once_payload once_options cl5 d5 = (Inr twice, cl6, d6)"
    and s: "sd_idempotencyWorked s \<longleftrightarrow> er_id once = er_id twice \<and> er_deduplicated twice"
  have k: "o_idempotencyKey once_options = Some ''seed-demo-idempotent''" by (simp add: once_options_def)
  from enqueue_then_held [OF inv k o(1)] obtain j where j: "db_inv d5" "j \<in> set (db_jobs d5)"
    "j_queue j = ''default''" "j_idempotency_key j = Some ''seed-demo-idempotent''" "er_id once = Some (j_id j)" by blast
  from enqueue_held [OF j(1-4) k o(2)] j(5) s show ?thesis by simp
qed

text \<open>Every schedule exists exactly once, and creating them again changes nothing.\<close>

lemma list_schedules_names: "list_ex (\<lambda>x. vs_name x = n) (list_schedules d) \<longleftrightarrow> n \<in> s_name ` set (db_schedules d)"
  by (auto simp: list_ex_iff list_schedules_def listSchedules_def toSchedule_def)

lemma create_schedule_ok:
  assumes "create_schedule nextRun now cnow p d = (Inr v, d')"
  shows "s_name ` set (db_schedules d') = insert (cq_name p) (s_name ` set (db_schedules d))"
  using assms
  by (auto simp: create_schedule_def createSchedule_def new_schedule_def Let_def split: sum.splits list.splits if_splits)

lemma create_missing_names:
  "create_missing nextRun t k ss d = (Inr (), d') \<Longrightarrow>
   s_name ` set (db_schedules d') = s_name ` set (db_schedules d) \<union> cq_name ` set ss"
proof (induction ss arbitrary: k d)
  case (Cons s ss)
  show ?case
  proof (cases "cq_name s \<in> s_name ` set (db_schedules d)")
    case True
    with Cons show ?thesis by (auto simp: list_schedules_names)
  next
    case False
    with Cons.prems obtain v d1 where c: "create_schedule nextRun (t k) (t k) s d = (Inr v, d1)"
      and m: "create_missing nextRun t (Suc k) ss d1 = (Inr (), d')"
      by (auto simp: list_schedules_names split: sum.splits prod.splits)
    from create_schedule_ok [OF c] Cons.IH [OF m] show ?thesis by auto
  qed
qed simp

lemma create_missing_again:
  "cq_name ` set ss \<subseteq> s_name ` set (db_schedules d) \<Longrightarrow> create_missing nextRun t k ss d = (Inr (), d)"
  by (induction ss arbitrary: k) (simp_all add: list_schedules_names)

lemma seed_schedules_once:
  assumes "db_inv d" and "seed nextRun t d = (Inr s, d')"
  shows "cq_name ` set seed_schedules \<subseteq> s_name ` set (db_schedules d')
    \<and> create_missing nextRun' t' k seed_schedules d' = (Inr (), d')"
  using assms
proof (rule seed_steps)
  fix d6 assume "create_missing nextRun t 40 seed_schedules d6 = (Inr (), d')"
  from create_missing_names [OF this] show ?thesis by (simp add: create_missing_again)
qed

end
