(* ===== verification/State_Docs.thy ===== *)
theory State_Docs
  imports Client
begin

text \<open>
  The Markdown of packages/core/src/engine/state-machine.ts and packages/core/src/cli/gen-docs.ts:
  the tables of docs/state-machine.md, generated from the transition table. Bytes beyond ASCII are
  UTF-8.
\<close>

subsection \<open>The transitions\<close>

text \<open>No row of the table has the reason \<open>enqueue\<close>, so it has no description.\<close>

primrec describe :: "transition_reason \<Rightarrow> string" where
  "describe R_enqueue = []"
| "describe R_claim = ''A worker claimed the job; attempt is incremented in the same statement.''"
| "describe R_cancel = ''An operator cancelled a job that had not started.''"
| "describe R_succeed = ''The handler resolved and the owning worker recorded completion.''"
| "describe R_retry = ''The handler failed with attempts remaining; run_at set to a jittered backoff.''"
| "describe R_exhaust = ''The handler failed on the final permitted attempt.''"
| "describe R_non_retryable = ''The handler signalled a non-retryable failure; remaining attempts are skipped.''"
| "describe R_reap_retry = ''The lease expired with attempts remaining; the reaper recovered the job.''"
| "describe R_reap_exhaust = ''The lease expired on the final attempt; no worker survived to report.''"
| "describe R_cancel_ack = ''The worker acknowledged an operator cancellation request.''"
| "describe R_replay = ''An operator replayed a dead-lettered job; attempt resets to zero.''"
| "describe R_operator_retry = ''An operator moved run_at to now; does not consume an attempt.''"

definition backtick :: string where
  "backtick = [char_of (96 :: nat)]"

definition code_span :: "string \<Rightarrow> string" where
  "code_span s = backtick @ s @ backtick"

definition transition_row :: "transition \<Rightarrow> string" where
  "transition_row t = ''| '' @ code_span (state_name (t_from t)) @ '' | '' @ code_span (state_name (t_to t)) @ '' | ''
     @ code_span (reason_name (t_reason t)) @ '' | '' @ describe (t_reason t) @ '' |''"

definition toMarkdownTable :: string where
  "toMarkdownTable = join_lines
     ([''| From | To | Reason | Description |'', ''| ---- | -- | ------ | ----------- |'']
      @ map transition_row TRANSITIONS)"

subsection \<open>The states\<close>

definition yes_no :: "bool \<Rightarrow> string" where
  "yes_no b = (if b then ''yes'' else ''no'')"

definition state_row :: "job_state \<Rightarrow> string" where
  "state_row s = ''| '' @ code_span (state_name s) @ '' | '' @ yes_no (isClaimable s) @ '' | ''
     @ yes_no (s \<in> set TERMINAL_STATES) @ '' |''"

definition states_table :: string where
  "states_table = join_lines (map state_row JOB_STATES)"

definition arrow :: string where
  "arrow = map char_of [226 :: nat, 134, 146]"

fun join_commas :: "string list \<Rightarrow> string" where
  "join_commas [] = []"
| "join_commas [x] = x"
| "join_commas (x # xs) = x @ '', '' @ join_commas xs"

definition targets_line :: "job_state \<Rightarrow> string" where
  "targets_line s = ''- '' @ code_span (state_name s) @ '' '' @ arrow @ '' ''
     @ (if permittedTargets s \<noteq> [] then join_commas (map (code_span \<circ> state_name) (permittedTargets s))
        else ''_(terminal)_'')"

definition targets_list :: string where
  "targets_list = join_lines (map targets_line JOB_STATES)"

definition counts_line :: "string \<times> string \<times> string" where
  "counts_line = (show_nat (length TRANSITIONS), show_nat (length JOB_STATES), show_nat (length TERMINAL_STATES))"

subsection \<open>What the document says\<close>

text \<open>
  The two lists agree on every state but \<open>dead\<close>: the table calls it terminal, the list of targets
  gives it one.
\<close>

lemma terminal_told_twice:
  "s \<noteq> Dead \<Longrightarrow> s \<in> set TERMINAL_STATES \<longleftrightarrow> permittedTargets s = []"
  "Dead \<in> set TERMINAL_STATES \<and> permittedTargets Dead = [Available]"
  by (cases s) (simp_all add: machine_defs)

text \<open>A row stands in the table of transitions exactly for the triples the machine allows.\<close>

lemma transition_rows:
  "(s, s', r) \<in> set REASONS \<longleftrightarrow> (\<exists>t \<in> set TRANSITIONS. t_from t = s \<and> t_to t = s' \<and> t_reason t = r)"
  by (auto simp: REASONS_def)

lemma document_counts: "counts_line = (show_nat 11, show_nat 5, show_nat 3)"
proof -
  have "length TRANSITIONS = 11" "length JOB_STATES = 5" "length TERMINAL_STATES = 3"
    by (simp_all add: TRANSITIONS_def JOB_STATES_def TERMINAL_STATES_def)
  then show ?thesis by (simp only: counts_line_def)
qed

end
