(* ===== verification/Waiting.thy ===== *)
theory Waiting
  imports Loops Scheduler Observability
begin

text \<open>
  The waits between rounds. \<open>sleep\<close> of packages/core/src/db.ts, \<open>idleWait\<close> of
  packages/core/src/worker/pool.ts, the outer loops of engine/reaper.ts, engine/scheduler.ts and
  engine/retention.ts, and the order in which packages/server/src/main.ts and
  packages/worker/src/main.ts shut their parts down. Times are in milliseconds; a random number is
  an argument in [0, 1).
\<close>

subsection \<open>Sleeping\<close>

text \<open>
  When the promise of a sleep that begins at \<open>t0\<close> resolves. A signal that was aborted before is not
  noticed: its listener comes too late.
\<close>

definition sleep_until :: "rat \<Rightarrow> rat \<Rightarrow> rat option \<Rightarrow> rat" where
  "sleep_until t0 ms aborted =
     (if ms \<le> 0 then t0
      else case aborted of
             None \<Rightarrow> t0 + ms
           | Some a \<Rightarrow> if t0 \<le> a then min a (t0 + ms) else t0 + ms)"

lemma sleep_bounds: "t0 \<le> sleep_until t0 ms aborted \<and> sleep_until t0 ms aborted \<le> t0 + max 0 ms"
  by (auto simp: sleep_until_def split: option.split)

lemma sleep_aborted: "t0 \<le> a \<Longrightarrow> sleep_until t0 ms (Some a) \<le> a"
  by (simp add: sleep_until_def)

text \<open>Half the interval, and up to half of it again.\<close>

definition loop_wait :: "rat \<Rightarrow> rat \<Rightarrow> rat" where
  "loop_wait base r = base / 2 + r * (base / 2)"

lemma loop_wait_bounds: "0 < base \<Longrightarrow> 0 \<le> r \<Longrightarrow> r < 1 \<Longrightarrow> base / 2 \<le> loop_wait base r \<and> loop_wait base r < base"
  using mult_strict_right_mono [of r 1 base] by (simp add: loop_wait_def field_simps)

subsection \<open>An idle pool\<close>

text \<open>
  The wait begins at \<open>t0\<close>; a wake-up is its time with the random number of its stagger, in the order of
  their times. A wake-up while the pool does not wait finds no one to call.
\<close>

definition wake_up :: "rat \<Rightarrow> rat \<times> rat \<Rightarrow> rat \<Rightarrow> rat" where
  "wake_up t0 w end = (if t0 \<le> fst w \<and> fst w < end then min end (fst w + snd w * 50) else end)"

definition idleWait :: "rat \<Rightarrow> rat \<Rightarrow> rat \<Rightarrow> (rat \<times> rat) list \<Rightarrow> rat" where
  "idleWait base r t0 wakes = fold (wake_up t0) wakes (t0 + loop_wait base r)"

lemma wake_up_le: "wake_up t0 w e \<le> e"
  by (simp add: wake_up_def)

lemma fold_wake_le: "fold (wake_up t0) ws e \<le> e"
proof (induction ws arbitrary: e)
  case (Cons w ws)
  from Cons.IH [of "wake_up t0 w e"] wake_up_le [of t0 w e] show ?case by simp
qed simp

lemma fold_wake_ge: "t0 \<le> e \<Longrightarrow> list_all (\<lambda>w. 0 \<le> snd w) ws \<Longrightarrow> t0 \<le> fold (wake_up t0) ws e"
proof (induction ws arbitrary: e)
  case (Cons w ws)
  then have "t0 \<le> wake_up t0 w e" by (auto simp: wake_up_def intro: add_increasing2)
  with Cons show ?case by simp
qed simp

text \<open>
  The wait lasts at most the interval, and it ends within 50 milliseconds of a wake-up during it; one
  that came before it is lost.
\<close>

lemma idle_bounds:
  assumes "0 < base" and "0 \<le> r" "r < 1" and "list_all (\<lambda>w. 0 \<le> snd w) wakes"
  shows "t0 \<le> idleWait base r t0 wakes \<and> idleWait base r t0 wakes < t0 + base"
proof -
  note w = loop_wait_bounds [OF assms(1-3)]
  have "t0 \<le> t0 + loop_wait base r" using w assms(1) by simp
  from fold_wake_ge [OF this assms(4)] fold_wake_le [of t0 wakes "t0 + loop_wait base r"] w
  show ?thesis by (simp add: idleWait_def)
qed

lemma idle_woken:
  assumes "(t, q) \<in> set wakes" and "t0 \<le> t" and "0 \<le> q" and "q < 1"
  shows "idleWait base r t0 wakes < t + 50"
proof -
  have "fold (wake_up t0) ws e < t + 50" if "(t, q) \<in> set ws" for ws e
    using that
  proof (induction ws arbitrary: e)
    case (Cons w ws)
    show ?case
    proof (cases "w = (t, q)")
      case True
      have "wake_up t0 w e < t + 50" using True assms(2-4) by (auto simp: wake_up_def min_def)
      with fold_wake_le [of t0 ws "wake_up t0 w e"] show ?thesis by simp
    next
      case False
      with Cons show ?thesis by simp
    qed
  qed simp
  with assms(1) show ?thesis by (simp add: idleWait_def)
qed

lemma early_wake_lost: "\<forall>w \<in> set wakes. fst w < t0 \<Longrightarrow> idleWait base r t0 wakes = t0 + loop_wait base r"
proof -
  have "fold (wake_up t0) ws e = e" if "\<forall>w \<in> set ws. fst w < t0" for ws e
    using that by (induction ws) (auto simp: wake_up_def)
  then show "\<forall>w \<in> set wakes. fst w < t0 \<Longrightarrow> ?thesis" by (simp add: idleWait_def)
qed

text \<open>After an error of its loop the pool waits twice the interval, at most five seconds.\<close>

definition error_wait :: "rat \<Rightarrow> rat" where
  "error_wait pollIntervalMs = min 5000 (pollIntervalMs * 2)"

subsection \<open>The outer loops\<close>

text \<open>
  \<open>running n\<close> is what the flag says before the n-th round, \<open>pass n\<close> the round: an error is logged and
  the loop goes on. Fuel bounds the number of rounds looked at.
\<close>

fun service_loop :: "(nat \<Rightarrow> 'd \<Rightarrow> ('e + 'a) \<times> 'd) \<Rightarrow> (nat \<Rightarrow> bool) \<Rightarrow> nat \<Rightarrow> nat \<Rightarrow> 'd \<Rightarrow> 'd" where
  "service_loop pass running 0 n d = d"
| "service_loop pass running (Suc fuel) n d =
     (if running n then service_loop pass running fuel (Suc n) (snd (pass n d)) else d)"

text \<open>Until it is stopped every round takes place, whatever the others returned.\<close>

lemma service_loop_rounds:
  "(\<forall>k < m. running (n + k)) \<Longrightarrow> m \<le> fuel \<Longrightarrow> m < fuel \<longrightarrow> \<not> running (n + m) \<Longrightarrow>
     service_loop pass running fuel n d = fold (\<lambda>k d. snd (pass k d)) [n..<n + m] d"
proof (induction fuel arbitrary: m n d)
  case (Suc fuel)
  show ?case
  proof (cases m)
    case 0
    with Suc.prems(3) show ?thesis by simp
  next
    case (Suc l)
    then have "running n" and r: "\<forall>k < l. running (Suc n + k)" using Suc.prems(1) by force+
    moreover have "l \<le> fuel" "l < fuel \<longrightarrow> \<not> running (Suc n + l)" using Suc.prems(2,3) \<open>m = Suc l\<close> by simp_all
    moreover have "[n..<n + Suc l] = n # [Suc n..<Suc n + l]" by (simp add: upt_rec)
    ultimately show ?thesis using Suc.IH [OF r, of "snd (pass n d)"] \<open>m = Suc l\<close> by simp
  qed
qed simp

lemma service_loop_keeps:
  assumes "\<And>n d. P d \<Longrightarrow> P (snd (pass n d))" and "P d"
  shows "P (service_loop pass running fuel n d)"
  using assms(2) by (induction fuel arbitrary: n d) (simp_all add: assms(1))

subsection \<open>Database health\<close>

text \<open>The rows of the statistics views are a parameter.\<close>

record health_row =
  hr_table_name :: string
  hr_dead_tuples :: nat
  hr_last_vacuum_age_seconds :: int
  hr_total_bytes :: nat
  hr_index_bytes :: nat

type_synonym health_gauges = "string \<times> string \<Rightarrow> int option"

definition health_of :: "health_row \<Rightarrow> health_gauges \<Rightarrow> health_gauges" where
  "health_of row g =
     (let t = hr_table_name row
      in g((''jobq_db_dead_tuples'', t) \<mapsto> int (hr_dead_tuples row),
           (''jobq_db_last_autovacuum_age_seconds'', t) \<mapsto> hr_last_vacuum_age_seconds row,
           (''jobq_db_table_bytes'', t) \<mapsto> int (hr_total_bytes row),
           (''jobq_db_index_bytes'', t) \<mapsto> int (hr_index_bytes row)))"

definition reportHealth :: "health_row list \<Rightarrow> health_gauges \<Rightarrow> health_gauges" where
  "reportHealth rows g = fold health_of rows g"

lemma health_frame: "t \<notin> hr_table_name ` set rows \<Longrightarrow> reportHealth rows g (m, t) = g (m, t)"
  unfolding reportHealth_def by (induction rows arbitrary: g) (auto simp: health_of_def Let_def)

lemma health_reported:
  assumes "distinct (map hr_table_name rows)" and "row \<in> set rows"
  shows "reportHealth rows g (''jobq_db_dead_tuples'', hr_table_name row) = Some (int (hr_dead_tuples row))"
  using assms
proof (induction rows arbitrary: g)
  case (Cons x rows)
  show ?case
  proof (cases "row = x")
    case True
    with Cons.prems(1) health_frame [of "hr_table_name x" rows "health_of x g"]
    show ?thesis by (simp add: reportHealth_def) (simp add: health_of_def Let_def)
  next
    case False
    with Cons show ?thesis by (simp add: reportHealth_def)
  qed
qed simp

subsection \<open>Shutting down\<close>

datatype shutdown_part =
    Timers
  | Event_streams
  | Http_server
  | Worker_pool
  | Service_loops
  | Database_pool

definition server_shutdown :: "shutdown_part list" where
  "server_shutdown = [Timers, Event_streams, Http_server, Service_loops, Database_pool]"

definition worker_shutdown :: "shutdown_part list" where
  "worker_shutdown = [Worker_pool, Service_loops, Database_pool]"

text \<open>The parts that were stopped, and the exit code: an error ends the sequence.\<close>

fun shut_down :: "(shutdown_part \<Rightarrow> bool) \<Rightarrow> shutdown_part list \<Rightarrow> shutdown_part list \<times> nat" where
  "shut_down ok [] = ([], 0)"
| "shut_down ok (p # ps) = (if ok p then (let (ds, c) = shut_down ok ps in (p # ds, c)) else ([], 1))"

text \<open>The database is closed only when nothing that uses it is left, and then the exit code is 0.\<close>

lemma shutdown_order:
  "Database_pool \<in> set (fst (shut_down ok server_shutdown)) \<longleftrightarrow> snd (shut_down ok server_shutdown) = 0"
  "Database_pool \<in> set (fst (shut_down ok worker_shutdown)) \<longleftrightarrow> snd (shut_down ok worker_shutdown) = 0"
  "snd (shut_down ok ps) = 0 \<longleftrightarrow> list_all ok ps"
proof -
  show c: "snd (shut_down ok ps) = 0 \<longleftrightarrow> list_all ok ps" for ps
    by (induction ps) (auto split: prod.splits)
  show "Database_pool \<in> set (fst (shut_down ok server_shutdown)) \<longleftrightarrow> snd (shut_down ok server_shutdown) = 0"
    "Database_pool \<in> set (fst (shut_down ok worker_shutdown)) \<longleftrightarrow> snd (shut_down ok worker_shutdown) = 0"
    by (simp_all add: server_shutdown_def worker_shutdown_def)
qed

subsection \<open>Request logging\<close>

text \<open>packages/server/src/app.ts: what a finished request is logged at, and which are not logged.\<close>

definition request_log_level :: "bool \<Rightarrow> nat \<Rightarrow> string" where
  "request_log_level err statusCode =
     (if err \<or> 500 \<le> statusCode then ''error'' else if 400 \<le> statusCode then ''warn'' else ''info'')"

definition request_logged :: "string \<Rightarrow> bool" where
  "request_logged url \<longleftrightarrow> url \<noteq> ''/health'' \<and> url \<noteq> ''/ready''"

end
