(* ===== verification/Spec2Isabelle.thy ===== *)
theory Spec2Isabelle
  imports Service_Samples Delivery_Laws Runner_Laws Registry Metrics Listener Events Durability Handlers
    Harness_Samples Transactions Observability Seed State_Docs Bench_Laws Durability_Run Waiting
begin

text \<open>
  A verification of pgjobq, a durable job queue on PostgreSQL (packages/core, packages/server,
  packages/worker). Clients store jobs in a table; worker pools claim them by one statement that
  skips locked rows, run their handlers and report the outcome under a fence; a reaper recovers
  jobs whose lease ran out, a scheduler stores the occurrences of cron schedules, retention deletes
  or archives finished jobs, and an HTTP API gives access to all this. The only shared state is
  the database, and every effect on it is one SQL statement, so the development is built in layers
  on a model of the database.

  \<^bold>\<open>The database.\<close> Job_Types has the enumerations and rows (packages/core/src/types.ts,
  sql/rows.ts), Schema the tables with their CHECK constraints and partial unique indexes
  (packages/core/migrations/001_initial_schema.sql) as the record \<open>db\<close> with the invariant
  \<open>db_inv\<close>. A statement is a function from the database to an error or a result with the new
  database; a statement that violates a constraint changes nothing. Times are integers in
  microseconds; \<open>now\<close> is the clock of the database, \<open>cnow\<close> that of the process. \<open>locked\<close> is
  the set of rows other sessions have locked when a statement with SKIP LOCKED runs. smallint and
  integer columns are integers with their range checked, ids are natural numbers.

  \<^bold>\<open>The statements.\<close> One theory for each file of packages/core/src/sql/: Stmt_Claim, Stmt_Report,
  Stmt_Reap, Stmt_Enqueue, Stmt_Query, Stmt_Schedule, Stmt_Retention; Rows maps rows to views.
  State_Machine is engine/state-machine.ts. Lifecycle holds the abstract specification: the life of
  one job as an inductive step relation \<open>life_step\<close>, and the locale \<open>job_stmt\<close>, the contract of
  a statement (it keeps \<open>db_inv\<close>, moves every job by a permitted step, reuses no id), which every
  statement of the program interprets. The reports of a worker have the contracts \<open>fenced_report\<close>
  and \<open>final_report\<close> besides. System composes the statements into histories: an action is a
  statement with its parameters, whoever issues it, and \<open>reachable\<close> are the states a fresh
  database can come to by any actions in any order; this is the interleaving of all processes, since
  the database runs one statement at a time. Two further actions stand for the operators' own SQL
  on queue_config and for the server's table of keys.

  \<^bold>\<open>The engine.\<close> Errors is errors.ts (strings are UTF-8 bytes where the size counts), Db_Access is
  db.ts (error wrapping, waiting for the database), Backoff is engine/backoff.ts with the overflow of
  JavaScript numbers to infinity, Dates the calendar arithmetic of Date, Client is client.ts, Loops
  the rounds of engine/reaper.ts and engine/retention.ts, Scheduler engine/scheduler.ts, Registry,
  Runner, Pool and Listener the files of worker/, Metrics the bounded label of
  observability/metrics.ts, Config config.ts, Migrate migrate.ts, and Runtime the wiring of index.ts
  with the worker program and the migration command. Where an operation of these issues several
  statements, the parameter \<open>env n\<close> (for the pool \<open>others n\<close>) is whatever other sessions do
  before the n-th; \<open>alone\<close> is nobody. Events of a run (heartbeats, timeout, other sessions) come
  in any order as a list.

  \<^bold>\<open>Around the engine.\<close> Transactions is withTransaction of db.ts over an arbitrary driver, with
  the transaction of a migration; Waiting the sleeps, the wait of an idle pool, the outer loops, the
  health gauges and the order of the shutdowns; Observability the collectors, the gauges of the server
  and the options of the logger; State_Docs the documentation generated from the state machine
  (cli/gen-docs.ts) and Seed the command that fills a database (cli/seed.ts).

  \<^bold>\<open>The server.\<close> Auth, Events, Middleware, Schemas and Routes are the files of packages/server/src of
  those names, with the locale \<open>guarded_route\<close> as the contract every route interprets; App is
  app.ts and main.ts: the chain in front of the routes, the readiness probe, the start. OpenApi is the
  document of openapi.ts, compared with the routes that exist.

  \<^bold>\<open>The dashboard.\<close> Theories named Dashboard... hold packages/dashboard/src: Json the parser and
  printer of JSON the calls use, then the calls of api.ts with their URL encoding, the event stream
  as it comes in chunks, the views of App.tsx as functions of what their hooks keep, and the payload
  viewer of components.tsx.

  \<^bold>\<open>The programs around it.\<close> Handlers is packages/worker/src/handlers.ts. Chaos and Durability are
  bench/chaos: the side effects, the worker that is killed statement by statement, the kill test and
  the durability test, whose rounds are in Durability_Run. Bench is bench/harness/index.ts; its workers
  take turns in any order; Fresh_Batch is how a batch is stored whole. Smoke is cli/smoke.ts, section by
  section.

  \<^bold>\<open>Laws.\<close> Theories named ..._Laws prove what the components guarantee, Delivery_Laws what histories
  do to one job, Samples, Client_Samples, Service_Samples and Harness_Samples hold the concrete states
  the witnesses evaluate. This theory states the properties: ownership (a stale worker is shut out, a
  claim makes the only owner), the life of a job (permitted transitions, refinement of \<open>life_step\<close>,
  invariants of reachable states, no job lost), claiming and reporting, enqueueing and
  deduplication, administration, the loops, the scheduler, backoff and errors, start and shutdown,
  configuration and migrations, transactions, the API and the dashboard over it, and that the
  repository's own chaos tests, benchmark and smoke check end with all their checks met.

  \<^bold>\<open>Loops and fuel.\<close> The draining loops of the reaper and of retention, and the walk along the pages
  of a listing, have fuel and return an option; \<open>reaper_empties\<close>, \<open>retention_empties\<close> and
  \<open>listing_walk_complete\<close> show that one more round than there are full batches is enough fuel. The
  JSON parser has twice the length of its text and one as fuel, and \<open>parsers_agree\<close> shows that more
  changes nothing. The workers of the benchmark have five turns for each job and three for each
  worker, which \<open>bench_run_complete\<close> shows to be enough in any order. \<open>purge_loop\<close> and
  \<open>wait_loop\<close> count their bounded attempts as the code does. All other recursion is structural.

  \<^bold>\<open>Parameters.\<close> Code outside the repository is a parameter: croner (\<open>nextRun\<close>, of which the
  properties of the scheduler assume \<open>croner_law\<close>: the next occurrence is after the time asked from),
  Zod schemas as parsers, SHA-256 and random bytes, \<open>Math.random\<close>, the digest and the SQL of
  migrations, the driver's connections, the decision of the rate limiter, whether a socket is slow, how
  the network cuts a stream, the rows of the statistics views, the conversion of a string to a number.

  \<^bold>\<open>Not modelled.\<close> The wire protocol and connection pool of the driver; the inside of prom-client and
  of pino; query plans (ANALYZE, EXPLAIN) and table sizes; security headers and the description page;
  the coercion of query strings by Zod; the markup and styles of the dashboard; spawning processes and
  printing; the claim plan and the pool in cli/smoke.ts; the server's cli/api-smoke.ts, which sends requests to a
  live server and prints whether the answers are the ones expected.
\<close>

section \<open>Ownership\<close>

text \<open>
  C1. A worker whose fence (job, worker, attempt) was valid and stopped being valid is shut out
  for good: whatever statements any sessions issue afterwards, short of a replay of a dead job,
  each of its reports is rejected and changes nothing.
\<close>

theorem stale_worker_shut_out:
  assumes "reachable d" and "owned d p"
    and "\<not> list_ex is_replay as" and "\<not> owned (exec_all as d) p" and "\<not> list_ex is_replay bs"
  shows "let e = exec_all bs (exec_all as d)
    in completeJob now p e = Inr ([], e) \<and> failJob now q p e = Inr ([], e)
     \<and> heartbeatJob now secs p e = Inr ([], e) \<and> acknowledgeCancellation now p e = Inr ([], e)
     \<and> releaseJob now p e = Inr ([], e)"
proof -
  note inv = reachable_inv [OF \<open>reachable d\<close>]
  let ?e = "exec_all bs (exec_all as d)"
  from owned_or_spent [OF inv assms(2,3)] assms(4) have "spent (exec_all as d) p" by blast
  from spent_forever [OF exec_all_inv [OF inv] this assms(5)] have "\<not> owned ?e p"
    by (rule spent_not_owned)
  moreover have "db_inv ?e" by (intro exec_all_inv inv)
  ultimately show ?thesis
    by (simp add: complete.rejected failing.rejected heartbeat.rejected ack.rejected release.rejected)
qed

lemma stale_worker_shut_out_witness:
  "let e = exec_all [Do_claim 3 {} sample_claim] (exec_all [Do_complete 2 sample_fence] db_claimed)
   in completeJob 4 sample_fence e = Inr ([], e)"
proof -
  have "\<not> owned (exec_all [Do_complete 2 sample_fence] db_claimed) sample_fence"
    using complete_surrenders [OF inv_claimed claimed_owned] by simp
  from stale_worker_shut_out [OF reachable_claimed claimed_owned _ this,
      where bs = "[Do_claim 3 {} sample_claim]" and now = 4]
  show ?thesis by (simp add: is_replay_def Let_def)
qed



section \<open>The life of a job\<close>

text \<open>
  C3. Whatever statement runs, a job whose state changes takes a transition the state machine
  permits, and one for which the transition table has the reason of that statement; the only
  exception is a worker's release, which has no reason in the table.
\<close>

theorem every_change_permitted:
  assumes "reachable d" and "job_at d i = Some j" and "job_at (exec a d) i = Some j'"
    and "j_state j \<noteq> j_state j'"
  shows "canTransition (j_state j) (j_state j')
    \<and> ((\<exists>l \<in> labels_of a. \<exists>r. reason_of l = Some r \<and> (j_state j, j_state j', r) \<in> set REASONS)
       \<or> (\<exists>now p. a = Do_release now p))"
proof -
  from step_change [OF reachable_inv [OF assms(1)] assms(2-4)] obtain l where
    l: "l \<in> labels_of a" "canTransition (j_state j) (j_state j')"
      "\<forall>r. reason_of l = Some r \<longrightarrow> (j_state j, j_state j', r) \<in> set REASONS"
      "reason_of l = None \<longrightarrow> (\<exists>w k. l = L_release w k)" by (elim bexE conjE) (rule that)
  show ?thesis
  proof (cases "reason_of l")
    case None
    with l(1,4) release_label have "\<exists>now p. a = Do_release now p" by blast
    with l(2) show ?thesis by blast
  next
    case (Some r)
    with l show ?thesis by blast
  qed
qed

lemma every_change_permitted_witness: "canTransition (j_state job_enqueued) (j_state job_claimed)"
proof -
  have "job_at (exec (Do_claim 1 {} sample_claim) db_enqueued) 1 = Some job_claimed"
    using claimed_row by (simp add: db_claimed_def)
  moreover have "job_at db_enqueued 1 = Some job_enqueued" by (simp add: db_enqueued_eq)
  ultimately show ?thesis
    using every_change_permitted [OF reachable_enqueued, of 1 job_enqueued "Do_claim 1 {} sample_claim" job_claimed]
    by simp
qed

text \<open>
  C4. The tables refine the abstract life of a job: every statement moves every job by one step
  of \<open>life_step\<close> that is among the statement's labels.
\<close>

theorem statements_refine_life:
  assumes "reachable d"
  shows "\<exists>l \<in> labels_of a. life_step (life_at d i) l (life_at (exec a d) i)"
  by (rule exec_refines [OF reachable_inv [OF assms]])

lemma statements_refine_life_witness:
  "\<exists>l \<in> {L_stutter, L_claim ''w''}.
     life_step (life_at db_enqueued 1) l (life_at (exec (Do_claim 1 {} sample_claim) db_enqueued) 1)"
  using statements_refine_life [OF reachable_enqueued, of "Do_claim 1 {} sample_claim" 1]
  by (simp add: sample_claim_def)

text \<open>
  C5. In every state a fresh database can come to, ids are unique and never reused (not by an
  archived row either), a running job has a lease and a worker, attempts stay within the maximum,
  and no two jobs share an idempotency key, nor two active ones a unique key.
\<close>

theorem reachable_sound:
  assumes "reachable d"
  shows "distinct (map j_id (db_jobs d)) \<and> set (archive_ids d) \<inter> j_id ` set (db_jobs d) = {}
    \<and> (\<forall>j \<in> set (db_jobs d). j_id j < db_job_seq d \<and> 0 \<le> j_attempt j \<and> j_attempt j \<le> j_max_attempts j
        \<and> (j_state j = Running \<longrightarrow> j_lease_expires_at j \<noteq> None \<and> j_worker_id j \<noteq> None)
        \<and> (isTerminal (j_state j) \<longrightarrow> j_finished_at j \<noteq> None))
    \<and> (\<forall>j \<in> set (db_jobs d). \<forall>k \<in> set (db_jobs d). j_queue j = j_queue k \<and>
        (j_idempotency_key j \<noteq> None \<and> j_idempotency_key j = j_idempotency_key k
         \<or> j_unique_key j \<noteq> None \<and> j_unique_key j = j_unique_key k
           \<and> active_state (j_state j) \<and> active_state (j_state k)) \<longrightarrow> j = k)"
proof -
  note inv = reachable_inv [OF assms]
  have checks: "\<forall>j \<in> set (db_jobs d). job_checks j" and seq: "\<forall>j \<in> set (db_jobs d). j_id j < db_job_seq d"
    using inv by (simp_all add: db_inv_def)
  have fin: "isTerminal s = terminal_state s" for s
    by (cases s) (simp_all add: machine_defs)
  have ix: "unique_on idem_slot (db_jobs d)" "unique_on active_slot (db_jobs d)"
    using inv by (simp_all add: db_inv_def index_ok_def)
  have "j = k" if jk: "j \<in> set (db_jobs d)" "k \<in> set (db_jobs d)" "j_queue j = j_queue k"
    and "j_idempotency_key j \<noteq> None \<and> j_idempotency_key j = j_idempotency_key k
         \<or> j_unique_key j \<noteq> None \<and> j_unique_key j = j_unique_key k
           \<and> active_state (j_state j) \<and> active_state (j_state k)" for j k
    using that(4)
  proof
    assume "j_idempotency_key j \<noteq> None \<and> j_idempotency_key j = j_idempotency_key k"
    then obtain x where "j_idempotency_key j = Some x" "j_idempotency_key k = Some x"
      by (metis not_None_eq)
    with jk(3) have "idem_slot j = Some (j_queue j, x)" "idem_slot k = Some (j_queue j, x)"
      by (simp_all add: idem_slot_def)
    then show ?thesis by (rule unique_onD [OF ix(1) jk(1,2)])
  next
    assume "j_unique_key j \<noteq> None \<and> j_unique_key j = j_unique_key k
           \<and> active_state (j_state j) \<and> active_state (j_state k)"
    then obtain x where "j_unique_key j = Some x" "j_unique_key k = Some x"
      and "active_state (j_state j)" "active_state (j_state k)"
      by (metis not_None_eq)
    with jk(3) have "active_slot j = Some (j_queue j, x)" "active_slot k = Some (j_queue j, x)"
      by (simp_all add: active_slot_def)
    then show ?thesis by (rule unique_onD [OF ix(2) jk(1,2)])
  qed
  with checks seq fin inv show ?thesis by (auto simp: db_inv_def job_checks_def)
qed

lemma reachable_sound_witness: "distinct (map j_id (db_jobs db_claimed))"
  using reachable_sound [OF reachable_claimed] by (rule conjunct1)

text \<open>
  C6. No job is lost: a job that is there before a statement and not after it was removed by a
  purge of its queue and state, or by a retention pass whose window for it has passed.
\<close>

theorem no_job_lost:
  assumes "reachable d" and "job_at d i = Some j" and "job_at (exec a d) i = None"
  shows "(\<exists>locked states n. a = Do_purge locked (j_queue j) states n \<and> j_state j \<in> set states)
    \<or> (\<exists>now locked p. (a = Do_prune now locked p \<or> a = Do_archive now locked p)
         \<and> isTerminal (j_state j)
         \<and> (\<exists>t. j_finished_at j = Some t \<and> t < now - retain_window p d j))"
proof -
  note past_retention_iff [simp]
  from removed_why [OF reachable_inv [OF assms(1)] assms(2,3)] show ?thesis by (auto simp: may_remove_def)
qed

lemma no_job_lost_witness:
  "\<exists>locked states n. Do_purge {} ''q'' [Available] 10 = Do_purge locked (j_queue job_enqueued) states n
     \<and> j_state job_enqueued \<in> set states"
proof -
  have "purge_victims {} ''q'' [Available] 10 db_enqueued = [1]"
    by (simp add: purge_victims_def pick_def order_limit_def db_enqueued_eq)
  then have "job_at (exec (Do_purge {} ''q'' [Available] 10) db_enqueued) 1 = None"
    by (simp add: commit_def purge_bounded [OF inv_enqueued]) (simp add: db_enqueued_eq)
  moreover have "job_at db_enqueued 1 = Some job_enqueued" by (simp add: db_enqueued_eq)
  ultimately show ?thesis
    using no_job_lost [OF reachable_enqueued, of 1 job_enqueued "Do_purge {} ''q'' [Available] 10"] by simp
qed

text \<open>
  A running job becomes cancelled only when its cancellation was requested, and only by the
  acknowledgement of the worker that owns it.
\<close>

theorem running_cancelled_on_request:
  assumes "reachable d" and "job_at d i = Some j" and "j_state j = Running"
    and "job_at (exec a d) i = Some j'" and "j_state j' = Cancelled"
  shows "j_cancel_requested_at j \<noteq> None \<and> (\<exists>now p. a = Do_ack now p \<and> owns p j)"
  using running_to_cancelled [OF reachable_inv [OF assms(1)] assms(2-5)] by blast

lemma running_cancelled_on_request_witness:
  "j_cancel_requested_at (request_row 2 job_claimed) \<noteq> None"
proof -
  from acknowledge_lands [OF inv_requested requested_at_fence requested_owns requested_pending, of 3]
  obtain d' where a: "acknowledgeCancellation 3 sample_fence db_requested = Inr ([f_id sample_fence], d')"
    and rep: "reported sample_fence (ack_row 3) db_requested d'" by blast
  have "job_at (exec (Do_ack 3 sample_fence) db_requested) (f_id sample_fence)
      = Some (ack_row 3 (request_row 2 job_claimed))"
    using rep requested_at_fence by (simp add: commit_def a reported_def)
  from running_cancelled_on_request [OF reachable_samples(3) requested_at_fence _ this]
  show ?thesis by (simp add: row_defs)
qed

text \<open>
  Short of a replay, a job's attempt count is the number of times it was claimed: one
  statement raises it by one exactly when it makes the job run, and never beyond the maximum.
\<close>

theorem attempt_counts_claims:
  assumes "reachable d" and "\<not> is_replay a"
    and "job_at d i = Some j" and "job_at (exec a d) i = Some j'"
  shows "j_attempt j' = (if j_state j \<noteq> Running \<and> j_state j' = Running then j_attempt j + 1 else j_attempt j)
    \<and> j_attempt j' \<le> j_max_attempts j' \<and> j_max_attempts j' = j_max_attempts j"
  by (rule step_attempt [OF reachable_inv [OF assms(1)] assms(2-4)])

lemma attempt_counts_claims_witness: "j_attempt job_claimed = j_attempt job_enqueued + 1"
proof -
  have "job_at (exec (Do_claim 1 {} sample_claim) db_enqueued) 1 = Some job_claimed"
    using claimed_row by (simp add: db_claimed_def)
  moreover have "job_at db_enqueued 1 = Some job_enqueued" by (simp add: db_enqueued_eq)
  moreover have "\<not> is_replay (Do_claim 1 {} sample_claim)" by (simp add: is_replay_def)
  ultimately show ?thesis
    using attempt_counts_claims [OF reachable_enqueued, of "Do_claim 1 {} sample_claim" 1 job_enqueued job_claimed]
    by simp
qed

section \<open>Claiming and reporting\<close>

text \<open>
  C7. A claim takes as many eligible jobs as its limit allows, in the order of priority, due time
  and id (no eligible job it leaves comes before one it takes), makes each of them run on its next
  attempt, and leaves every other job as it was.
\<close>

theorem claim_takes_the_first:
  assumes "reachable d" and "claimJobs now locked p d = Inr (cs, d')"
  shows "length cs = min (cp_limit p) (length (filter (eligible now locked (cp_queue p) d) (db_jobs d)))
    \<and> (\<forall>c \<in> set cs. \<exists>j j'. job_at d (c_id c) = Some j \<and> job_at d' (c_id c) = Some j'
         \<and> j_queue j = cp_queue p \<and> j_state j = Available \<and> j_run_at j \<le> now
         \<and> \<not> queue_paused d (cp_queue p) \<and> c_id c \<notin> locked
         \<and> j_state j' = Running \<and> j_attempt j' = j_attempt j + 1 \<and> j_worker_id j' = Some (cp_workerId p)
         \<and> j_lease_expires_at j' = Some (now + us_per_second * j_lease_seconds j)
         \<and> (\<forall>k \<in> set (db_jobs d). eligible now locked (cp_queue p) d k \<and> j_id k \<notin> c_id ` set cs \<longrightarrow>
              (- j_priority j, j_run_at j, j_id j) \<le> (- j_priority k, j_run_at k, j_id k)))
    \<and> (\<forall>i. i \<notin> c_id ` set cs \<longrightarrow> job_at d' i = job_at d i)"
proof -
  note inv = reachable_inv [OF assms(1)]
  from assms(2) obtain rs where rs: "claim_with claim_order now locked p d = Inr (rs, d')"
    and cs: "cs = map toClaimedJob rs"
    by (auto simp: claimJobs_def returning_Inr)
  have ids: "c_id ` set cs = j_id ` set rs" by (simp add: cs image_image toClaimedJob_def)
  have "\<exists>j j'. job_at d (c_id c) = Some j \<and> job_at d' (c_id c) = Some j'
      \<and> j_queue j = cp_queue p \<and> j_state j = Available \<and> j_run_at j \<le> now
      \<and> \<not> queue_paused d (cp_queue p) \<and> c_id c \<notin> locked
      \<and> j_state j' = Running \<and> j_attempt j' = j_attempt j + 1 \<and> j_worker_id j' = Some (cp_workerId p)
      \<and> j_lease_expires_at j' = Some (now + us_per_second * j_lease_seconds j)
      \<and> (\<forall>k \<in> set (db_jobs d). eligible now locked (cp_queue p) d k \<and> j_id k \<notin> c_id ` set cs \<longrightarrow>
           (- j_priority j, j_run_at j, j_id j) \<le> (- j_priority k, j_run_at k, j_id k))" if "c \<in> set cs" for c
  proof -
    from that cs obtain r where r: "r \<in> set rs" "c_id c = j_id r" by (auto simp: toClaimedJob_def)
    from claim_with_row [OF inv rs r(1)] obtain j where
      j: "job_at d (j_id r) = Some j" "eligible now locked (cp_queue p) d j"
        "r = claim_row now (cp_workerId p) j" "job_at d' (j_id r) = Some r" by blast
    from claim_with_order [OF inv rs r(1)] j(1)
    have first: "\<forall>k \<in> set (db_jobs d). eligible now locked (cp_queue p) d k \<and> j_id k \<notin> c_id ` set cs \<longrightarrow>
        (- j_priority j, j_run_at j, j_id j) \<le> (- j_priority k, j_run_at k, j_id k)"
      unfolding ids by (auto simp: claim_order_def)
    have "j_id j = c_id c" using row_of_SomeD [OF j(1)] r(2) by simp
    with j(2) have before: "j_queue j = cp_queue p" "j_state j = Available" "j_run_at j \<le> now"
      "\<not> queue_paused d (cp_queue p)" "c_id c \<notin> locked"
      by (auto simp: eligible_def)
    have after: "j_state r = Running" "j_attempt r = j_attempt j + 1" "j_worker_id r = Some (cp_workerId p)"
      "j_lease_expires_at r = Some (now + us_per_second * j_lease_seconds j)"
      unfolding j(3) by (simp_all add: claim_row_def)
    show ?thesis
      by (rule exI [of _ j], rule exI [of _ r], intro conjI)
        (fact j(1) [folded r(2)] j(4) [folded r(2)] before after first)+
  qed
  moreover have "\<forall>i. i \<notin> c_id ` set cs \<longrightarrow> job_at d' i = job_at d i"
    using claim_with_frame [OF inv rs] ids by simp
  moreover have "length cs = min (cp_limit p)
      (length (filter (eligible now locked (cp_queue p) d) (db_jobs d)))"
    using claim_with_count [OF inv rs] cs by simp
  ultimately show ?thesis by blast
qed

lemma claim_takes_the_first_witness:
  "length [toClaimedJob job_claimed] =
     min (cp_limit sample_claim) (length (filter (eligible 1 {} (cp_queue sample_claim) db_enqueued) (db_jobs db_enqueued)))"
  using claim_takes_the_first [OF reachable_enqueued claim_enqueued] by (rule conjunct1)

text \<open>
  C8. A claim fails exactly when one of the jobs it would take has used up its attempts, and then
  with the violation of the table's check.
\<close>

theorem claim_fails_iff:
  assumes "reachable d"
  shows "claimJobs now locked p d = Inl e \<longleftrightarrow> e = Check_violation
    \<and> (\<exists>j \<in> set (db_jobs d). j_id j \<in> set (claim_candidates claim_order now locked p d)
         \<and> j_attempt j = j_max_attempts j)"
  unfolding claimJobs_def returning_Inl claim_with_cases [OF reachable_inv [OF assms]] by auto

lemma claim_fails_iff_witness:
  "\<not> (\<exists>j \<in> set (db_jobs db_claimed). j_id j \<in> set (claim_candidates claim_order 2 {} sample_claim db_claimed)
     \<and> j_attempt j = j_max_attempts j)"
  using claim_fails_iff [OF reachable_claimed, of 2 "{}" sample_claim Check_violation] claim_claimed
  by (metis old.sum.distinct(2))

text \<open>
  A release on the last attempt leaves a row that no claim can take: from then on, every
  claim of the queue with room for all its jobs fails as a whole.
\<close>

theorem released_last_attempt_blocks_claims:
  assumes "reachable d" and "job_at d (f_id p) = Some j" and "owns p j"
    and "j_attempt j = j_max_attempts j" and "releaseJob now p d = Inr (ids, d')"
    and "now \<le> now'" and "cp_queue c = j_queue j" and "\<not> queue_paused d' (j_queue j)"
    and "length (db_jobs d') \<le> cp_limit c"
  shows "claimJobs now' {} c d' = Inl Check_violation"
proof -
  note inv = reachable_inv [OF assms(1)]
  from releaseJob_lands [OF inv assms(2,3), of now] assms(5) have "reported p (release_row now) d d'"
    by auto
  then have inv': "db_inv d'" and at: "job_at d' (f_id p) = Some (release_row now j)"
    using assms(2) by (auto simp: reported_def)
  let ?r = "release_row now j"
  have r: "?r \<in> set (db_jobs d')" "j_attempt ?r = j_max_attempts ?r"
    using db_inv_jobD [OF inv' at] assms(4) by (simp_all add: row_defs)
  have "eligible now' {} (cp_queue c) d' ?r"
    using assms(6-8) by (simp add: eligible_def row_defs)
  moreover have "length (filter (eligible now' {} (cp_queue c) d') (db_jobs d')) \<le> cp_limit c"
    using assms(9) length_filter_le order_trans by blast
  ultimately have "j_id ?r \<in> set (claim_candidates claim_order now' {} c d')"
    using r(1) by (simp add: claim_candidates_def pick_all)
  with r have "\<exists>k \<in> set (db_jobs d'). j_id k \<in> set (claim_candidates claim_order now' {} c d')
      \<and> j_attempt k = j_max_attempts k" by blast
  then show ?thesis
    by (simp add: claimJobs_def returning_Inl claim_with_cases [OF inv'])
qed

lemma released_last_attempt_blocks_claims_witness:
  "\<exists>ids d'. releaseJob 2 sample_fence db_claimed = Inr (ids, d')
     \<and> claimJobs 3 {} sample_claim d' = Inl Check_violation"
proof -
  let ?d = "db_claimed\<lparr>db_jobs := [release_row 2 job_claimed]\<rparr>"
  from releaseJob_lands [OF inv_claimed claimed_at_fence claimed_owns, of 2] obtain d' where
    rel: "releaseJob 2 sample_fence db_claimed = Inr ([f_id sample_fence], d')" by blast
  then have "d' = ?d"
    using claimed_owns
    by (auto simp: releaseJob_def returning_Inr db_claimed_eq dest!: update_jobs_InrD(2))
  then have "\<not> queue_paused d' (j_queue job_claimed)" "length (db_jobs d') \<le> cp_limit sample_claim"
    by (simp_all add: queue_paused_def db_claimed_eq db_enqueued_eq empty_db_def sample_claim_def)
  with released_last_attempt_blocks_claims [OF reachable_claimed claimed_at_fence claimed_owns _ rel, of 3 sample_claim]
  have "claimJobs 3 {} sample_claim d' = Inl Check_violation" by (simp add: sample_claim_def)
  with rel show ?thesis by blast
qed

text \<open>
  The owner's completion is accepted, makes exactly its own job succeed, and is accepted once:
  repeated, it changes nothing.
\<close>

theorem completion_lands_once:
  assumes "reachable d" and "owned d p"
  shows "\<exists>j' d'. completeJob now p d = Inr ([f_id p], d') \<and> job_at d' (f_id p) = Some j'
    \<and> j_state j' = Succeeded \<and> j_finished_at j' = Some now
    \<and> j_worker_id j' = None \<and> j_lease_expires_at j' = None
    \<and> (\<forall>k. k \<noteq> f_id p \<longrightarrow> job_at d' k = job_at d k)
    \<and> completeJob now' p d' = Inr ([], d')"
proof -
  note inv = reachable_inv [OF assms(1)]
  from assms(2) obtain j where j: "job_at d (f_id p) = Some j" "owns p j" by (rule ownedE)
  from completeJob_lands [OF inv j, of now] obtain d' where
    c: "completeJob now p d = Inr ([f_id p], d')" and rep: "reported p (complete_row now) d d'" by blast
  have "db_inv d'" using rep by (simp add: reported_def)
  with complete.surrenders [OF inv c] have "completeJob now' p d' = Inr ([], d')"
    by (rule complete.rejected [rotated])
  with j(1) c rep show ?thesis by (auto simp: reported_def row_defs)
qed

lemma completion_lands_once_witness:
  "\<exists>d'. completeJob 2 sample_fence db_claimed = Inr ([1], d') \<and> completeJob 3 sample_fence d' = Inr ([], d')"
  using completion_lands_once [OF reachable_claimed claimed_owned, of 2 3] by (auto simp: sample_fence_def)

text \<open>
  C9. The owner's failure report is accepted: the job is dead when the error is not retryable or
  the attempts are used up, and otherwise available again no earlier than the delay allows; the
  error is recorded, and the history stays within its bound.
\<close>

theorem failure_outcome:
  assumes "reachable d" and "owned d p" and "0 \<le> fp_retryDelaySeconds q"
  shows "\<exists>j j' d'. job_at d (f_id p) = Some j \<and> job_at d' (f_id p) = Some j'
    \<and> failJob now q p d = Inr ([fail_returning j'], d')
    \<and> j_state j' = (if fp_nonRetryable q \<or> j_attempt j = j_max_attempts j then Dead else Available)
    \<and> j_dead_reason j' = (if fp_nonRetryable q then Some Non_retryable_error
         else if j_attempt j = j_max_attempts j then Some Attempts_exhausted else None)
    \<and> (j_state j' = Available \<longrightarrow> now \<le> j_run_at j') \<and> last (j_errors j') = fp_error q
    \<and> (1 \<le> fp_maxErrorHistory q \<and> int (length (j_errors j)) \<le> fp_maxErrorHistory q
         \<longrightarrow> int (length (j_errors j')) \<le> fp_maxErrorHistory q)
    \<and> (\<forall>k. k \<noteq> f_id p \<longrightarrow> job_at d' k = job_at d k)"
proof -
  note inv = reachable_inv [OF assms(1)]
  from assms(2) obtain j where j: "job_at d (f_id p) = Some j" "owns p j" by (rule ownedE)
  from failJob_lands [OF inv j, of now q] obtain d' where
    f: "failJob now q p d = Inr ([fail_returning (fail_row now q j)], d')"
    and rep: "reported p (fail_row now q) d d'" by blast
  let ?j' = "fail_row now q j"
  have "j_attempt j \<le> j_max_attempts j" using db_inv_jobD [OF inv j(1)] by (simp add: job_checks_def)
  then have full: "(j_attempt j \<ge> j_max_attempts j) = (j_attempt j = j_max_attempts j)" by linarith
  have "j_state ?j' = (if fp_nonRetryable q \<or> j_attempt j = j_max_attempts j then Dead else Available)"
    and "j_dead_reason ?j' = (if fp_nonRetryable q then Some Non_retryable_error
         else if j_attempt j = j_max_attempts j then Some Attempts_exhausted else None)"
    and "j_state ?j' = Available \<longrightarrow> now \<le> j_run_at ?j'"
    and "j_errors ?j' = push_error (fp_maxErrorHistory q) (fp_error q) (j_errors j)"
    using full make_interval_secs_nonneg [OF assms(3)] by (auto simp: row_defs)
  with j(1) f rep show ?thesis
    using push_error_bound push_error_last unfolding reported_def
    by (intro exI [of _ j] exI [of _ ?j'] exI [of _ d']) auto
qed

lemma failure_outcome_witness:
  "\<exists>j' d'. failJob 2 sample_fail sample_fence db_claimed = Inr ([fail_returning j'], d') \<and> j_state j' = Dead"
  using failure_outcome [OF reachable_claimed claimed_owned, of sample_fail 2] claimed_at_fence
  by (auto simp: sample_fail_def)

section \<open>A worker's run\<close>



text \<open>
  When the handler has settled and no one else interferes, the delivery is recorded exactly
  when its fence still holds; otherwise the table is left as it is and the run says so.
\<close>

theorem settled_iff_owned:
  assumes "reachable d" and "settle alone now cnow rand opts job res s d = (r, d')"
    and "\<forall>e. res = Threw e \<longrightarrow> \<not> instance_of OwnershipLostError e"
  shows "if owned d (token_of (ro_workerId opts) job)
    then \<exists>out. r = Inr out \<and> out \<noteq> O_ownership_lost
    else r = Inr O_ownership_lost \<and> d' = d"
  using settle_alone [OF reachable_inv [OF assms(1)] assms(2)] assms(3) by simp

lemma settled_iff_owned_witness:
  "\<exists>out. fst (settle alone 2 2 0 \<lparr>ro_workerId = ''w'', ro_heartbeatFraction = 1 / 2,
      ro_backoff = \<lparr>b_initialMs = 1, b_multiplier = 2, b_maxMs = 10, b_jitter = Full\<rparr>,
      ro_maxErrorHistory = 5, ro_maxErrorTextBytes = 100\<rparr> (toClaimedJob job_claimed) Returned run_start
      db_claimed) = Inr out \<and> out \<noteq> O_ownership_lost"
proof -
  let ?o = "\<lparr>ro_workerId = ''w'', ro_heartbeatFraction = 1 / 2,
      ro_backoff = \<lparr>b_initialMs = 1, b_multiplier = 2, b_maxMs = 10, b_jitter = Full\<rparr>,
      ro_maxErrorHistory = 5, ro_maxErrorTextBytes = 100\<rparr>"
  have "token_of (ro_workerId ?o) (toClaimedJob job_claimed) = sample_fence"
    by (simp add: token_of_def toClaimedJob_def sample_fence_def)
  with settled_iff_owned [OF reachable_claimed, of 2 2 0 ?o "toClaimedJob job_claimed" Returned run_start]
    claimed_owned
  show ?thesis by (metis handler_result.distinct(1) prod.collapse)
qed

section \<open>The client\<close>

text \<open>
  C11. Enqueueing with an idempotency key is idempotent: repeating the call gives back the same
  job and stores nothing, and so does every later call with that key, whatever its payload and
  options, that is accepted at all.
\<close>

theorem enqueue_idempotent:
  assumes "reachable d" and "o_idempotencyKey opts = Some k"
    and "enqueue alone now cnow q ty payload opts cl d = (Inr r, cl', d')"
  shows "enqueue alone now' cnow q ty payload opts cl' d' =
      (Inr \<lparr>er_id = er_id r, er_deduplicated = True\<rparr>, cl', d'\<lparr>db_job_seq := Suc (db_job_seq d')\<rparr>)
    \<and> (\<forall>cnow' ty' payload' opts' cl2 r2 cl3 d2. o_idempotencyKey opts' = Some k \<and>
        enqueue alone now' cnow' q ty' payload' opts' cl2 d' = (Inr r2, cl3, d2) \<longrightarrow>
        er_id r2 = er_id r \<and> er_deduplicated r2 \<and> db_jobs d2 = db_jobs d')"
proof -
  from enqueue_then_held [OF reachable_inv [OF assms(1)] assms(2,3)] obtain j where
    j: "db_inv d'" "j \<in> set (db_jobs d')" "j_queue j = q" "j_idempotency_key j = Some k"
      "er_id r = Some (j_id j)"
    and again: "enqueue alone now' cnow q ty payload opts cl' d' =
        (Inr \<lparr>er_id = er_id r, er_deduplicated = True\<rparr>, cl', d'\<lparr>db_job_seq := Suc (db_job_seq d')\<rparr>)"
    by blast
  have "er_id r2 = er_id r \<and> er_deduplicated r2 \<and> db_jobs d2 = db_jobs d'"
    if "o_idempotencyKey opts' = Some k"
      and "enqueue alone now' cnow' q ty' payload' opts' cl2 d' = (Inr r2, cl3, d2)"
    for cnow' ty' payload' opts' cl2 r2 cl3 d2
    using enqueue_held [OF j(1-4) that] j(5) by simp
  with again show ?thesis by blast
qed

lemma enqueue_idempotent_witness:
  "fst (enqueue alone 7 0 ''q'' ''t'' JNull (keyed_options (Some ''k'') None) cached_client
      (db_keyed (Some ''k'') None)) = Inr \<lparr>er_id = Some 1, er_deduplicated = True\<rparr>"
proof -
  have "o_idempotencyKey (keyed_options (Some ''k'') None) = Some ''k''" by (simp add: keyed_options_def)
  from enqueue_idempotent [OF reachable.Start this enqueue_keyed, of 7] show ?thesis by simp
qed

text \<open>
  A unique key that a job of the queue holds while it is available or running cannot be
  enqueued again: the call fails, stores nothing, and a well-formed one names the holder.
\<close>

theorem unique_key_refused:
  assumes "reachable d" and "j \<in> set (db_jobs d)" and "j_queue j = q" and "j_unique_key j = Some u"
    and "j_state j = Available \<or> j_state j = Running"
    and "o_idempotencyKey opts = None" and "o_uniqueKey opts = Some u"
  shows "\<exists>e cl' d'. enqueue alone now cnow q ty payload opts cl d = (Inl e, cl', d')
    \<and> db_jobs d' = db_jobs d
    \<and> (validateName q = Inr () \<and> validateName ty = Inr ()
       \<and> (\<exists>row. fst (buildRow cnow q ty payload opts cl d) = Inr row \<and> admissible now row)
       \<longrightarrow> e = Fault ConflictError (About_existing (j_id j)))"
proof -
  have "active_state (j_state j)" using assms(5) by auto
  from enqueue_unique [OF reachable_inv [OF assms(1)] assms(2-4) this assms(6,7)] show ?thesis .
qed

lemma unique_key_refused_witness:
  "fst (enqueue alone 7 0 ''q'' ''t'' JNull (keyed_options None (Some ''u'')) new_client
      (db_keyed None (Some ''u''))) = Inl (Fault ConflictError (About_existing 1))"
proof -
  let ?j = "new_job 0 (keyed_row None (Some ''u'')) 1" and ?d = "db_keyed None (Some ''u'')"
  have j: "?j \<in> set (db_jobs ?d)" "j_queue ?j = ''q''" "j_unique_key ?j = Some ''u''"
    "j_state ?j = Available \<or> j_state ?j = Running"
    by (simp_all add: keyed_jobs keyed_row_def)
  have keys: "o_idempotencyKey (keyed_options None (Some ''u'')) = None"
    "o_uniqueKey (keyed_options None (Some ''u'')) = Some ''u''" by (simp_all add: keyed_options_def)
  from unique_key_refused [OF reachable_keyed j keys, of 7 0 "''t''" JNull new_client]
    build_keyed [OF keyed_config, of None "Some ''u''"] keyed_admissible sample_names
  show ?thesis by auto
qed

text \<open>
  C12. While no item of a batch has a unique key, the n-th result of an accepted batch names the
  job of the n-th item: the holder of its idempotency key, or the newly stored job with its type
  and payload.
\<close>

theorem batch_results_aligned:
  assumes "reachable d" and "\<forall>it \<in> set items. o_uniqueKey (bi_options it) = None"
    and "enqueueBatch alone now cnow q items cl d = (Inr rs, cl', d')"
  shows "length rs = length items \<and> (\<forall>n < length items. \<exists>j. er_id (rs ! n) = Some (j_id j)
    \<and> job_at d' (j_id j) = Some j \<and> j_queue j = q
    \<and> (case o_idempotencyKey (bi_options (items ! n)) of
         Some k \<Rightarrow> j_idempotency_key j = Some k
       | None \<Rightarrow> j_type j = bi_type (items ! n) \<and> j_payload j = bi_payload (items ! n)
                 \<and> \<not> er_deduplicated (rs ! n)))"
  using enqueueBatch_aligned [OF reachable_inv [OF assms(1)] assms(2,3)]
  by (simp add: list_all2_conv_all_nth item_result_def)

lemma batch_results_aligned_witness:
  "\<exists>rs cl' d'. enqueueBatch alone 0 0 ''q'' [sample_item None, sample_item (Some ''k'')] new_client empty_db
     = (Inr rs, cl', d') \<and> length rs = 2"
proof -
  from batch_two obtain rs cl' d' where b: "enqueueBatch alone 0 0 ''q'' [sample_item None, sample_item (Some ''k'')]
      new_client empty_db = (Inr rs, cl', d')" by blast
  have "\<forall>it \<in> set [sample_item None, sample_item (Some ''k'')]. o_uniqueKey (bi_options it) = None"
    by (simp add: sample_item_def keyed_options_def)
  from batch_results_aligned [OF reachable.Start this b] b show ?thesis by simp
qed

text \<open>
  C13. A cancellation does what the job's state allows: an available job is cancelled at once, a
  running one is flagged for its worker, a finished one is refused with the transitions it has;
  no other job changes.
\<close>

theorem cancel_by_state:
  assumes "reachable d" and "Client.cancel alone now i actor d = (r, d')"
  shows "r = (case job_at d i of
        None \<Rightarrow> Inl (Fault JobNotFoundError (About_job i))
      | Some j \<Rightarrow>
          if j_state j = Available then Inr \<lparr>cr_state = Cancelled, cr_acknowledged = True\<rparr>
          else if j_state j = Running then Inr \<lparr>cr_state = Running, cr_acknowledged = False\<rparr>
          else Inl (Fault InvalidTransitionError (About_transition (j_state j) Cancelled
                 (permittedTargets (j_state j)))))
    \<and> (\<forall>k. job_at d' k = (if k = i then map_option (\<lambda>j.
          if j_state j = Available
          then j\<lparr>j_state := Cancelled, j_finished_at := Some now, j_updated_at := now\<rparr>
          else if j_state j = Running
          then j\<lparr>j_cancel_requested_at := Some (coalesce (j_cancel_requested_at j) now), j_updated_at := now\<rparr>
          else j) (job_at d i) else job_at d k))"
proof -
  note S = cancel_spec [OF reachable_inv [OF assms(1)] assms(2)]
  have "after_cancel now j = (if j_state j = Available then cancel_row now j
          else if j_state j = Running then request_row now j else j)" for j
    by (cases "j_state j") (simp_all add: after_cancel_def)
  then have f: "after_cancel now = (\<lambda>j. if j_state j = Available then cancel_row now j
          else if j_state j = Running then request_row now j else j)" by blast
  have "cancel_outcome i (job_at d i) = (case job_at d i of
        None \<Rightarrow> Inl (Fault JobNotFoundError (About_job i))
      | Some j \<Rightarrow>
          if j_state j = Available then Inr \<lparr>cr_state = Cancelled, cr_acknowledged = True\<rparr>
          else if j_state j = Running then Inr \<lparr>cr_state = Running, cr_acknowledged = False\<rparr>
          else Inl (Fault InvalidTransitionError (About_transition (j_state j) Cancelled
                 (permittedTargets (j_state j)))))"
    by (simp add: cancel_outcome_def split: option.split job_state.split)
  with S(1) S(2) [unfolded f cancel_row_def request_row_def] show ?thesis by blast
qed

lemma cancel_by_state_witness:
  "fst (Client.cancel alone 2 1 ''a'' db_claimed) = Inr \<lparr>cr_state = Running, cr_acknowledged = False\<rparr>"
  using cancel_by_state [OF reachable_claimed surjective_pairing, of 2 1 "''a''"] claimed_row
  by (simp del: One_nat_def)

text \<open>
  C14. While no one else is at work, a purge whose confirmation repeats the name of the queue
  deletes the jobs of the queue in the given states, all of them unless its batches are used up,
  says how many, and keeps every other job; with a wrong confirmation or no state it is refused
  and deletes nothing.
\<close>

theorem purge_exact:
  assumes "reachable d" and "validateName q = Inr ()"
    and "purge alone (\<lambda>_. {}) now q states confirm b batches actor d = (r, d')"
  shows "if confirm \<noteq> q \<or> states = [] then r = Inl (Fault ValidationError No_details) \<and> d' = d
    else let m = length (filter (purgeable q states) (db_jobs d))
      in r = Inr (min (batches * b) m)
       \<and> length (filter (purgeable q states) (db_jobs d')) = m - batches * b
       \<and> filter (\<lambda>j. \<not> purgeable q states j) (db_jobs d') = filter (\<lambda>j. \<not> purgeable q states j) (db_jobs d)"
proof (cases "confirm \<noteq> q \<or> states = []")
  case True
  with assms(2,3) show ?thesis by (auto simp: purge_def split: if_splits)
next
  case False
  from purge_loop_spec [OF reachable_inv [OF assms(1)], of q states b 0 batches 0] obtain d1 where
    "purge_loop alone (\<lambda>_. {}) q states b 0 batches 0 d =
      (Inr (min (batches * b) (length (filter (purgeable q states) (db_jobs d)))), d1)"
    "length (filter (purgeable q states) (db_jobs d1)) = length (filter (purgeable q states) (db_jobs d)) - batches * b"
    "filter (\<lambda>j. \<not> purgeable q states j) (db_jobs d1) = filter (\<lambda>j. \<not> purgeable q states j) (db_jobs d)"
    by auto
  with False assms(2,3) show ?thesis by (auto simp: purge_def Let_def)
qed

lemma purge_exact_witness:
  "fst (purge alone (\<lambda>_. {}) 3 ''q'' [Available] ''q'' 10 2 ''a'' db_enqueued) = Inr 1"
proof -
  from purge_exact [OF reachable_enqueued sample_names(1) surjective_pairing,
      where now = 3 and states = "[Available]" and confirm = "''q''" and b = 10 and batches = 2 and actor = "''a''"]
  show ?thesis by (simp add: purgeable_def db_enqueued_eq)
qed

text \<open>
  C15. A bulk replay splits the ids it is given into the dead jobs, which become available with a
  fresh attempt count, and the rest, which it reports as skipped and leaves alone, as it does every
  other job.
\<close>

theorem replay_partition:
  assumes "reachable d" and "replayMany alone now is actor d = (Inr r, d')"
  shows "set (rs_replayed r) = {i \<in> set is. \<exists>j. job_at d i = Some j \<and> j_state j = Dead}
    \<and> set (rs_skipped r) = set is - set (rs_replayed r)
    \<and> (\<forall>i. job_at d' i = map_option (\<lambda>j. if i \<in> set (rs_replayed r)
          then j\<lparr>j_state := Available, j_attempt := 0, j_dead_reason := None, j_run_at := now,
                  j_finished_at := None, j_started_at := None, j_updated_at := now\<rparr>
          else j) (job_at d i))"
  using replayMany_spec [OF reachable_inv [OF assms(1)] assms(2)]
    replayMany_jobs [OF reachable_inv [OF assms(1)] assms(2), unfolded replay_row_def] by blast

lemma replay_partition_witness:
  "\<exists>r d'. replayMany alone 3 [1, 2] ''a'' db_dead = (Inr r, d') \<and> set (rs_replayed r) = {1} \<and> set (rs_skipped r) = {2}"
proof -
  obtain r d' where run: "replayMany alone 3 [1, 2] ''a'' db_dead = (Inr r, d')"
    and "set (rs_replayed r) = {1}"
    by (simp add: replayMany_def replay_dead del: One_nat_def)
  with replay_partition [OF reachable_samples(1) run] show ?thesis by auto
qed

text \<open>
  C16. Reading the pages of a listing one after the other, by the cursor each gives for the next,
  visits every matching job exactly once, newest first, and comes to an end.
\<close>

theorem listing_walk_complete:
  assumes "reachable d" and "permitted_caller Scope_read (Some q) rec" and "name_schema q"
    and "listJobsQuerySchema qry"
    and "length (filter (list_match (params_of q qry)) (db_jobs d)) < fuel * nat (lq_limit qry)"
  shows "\<exists>js. walk fuel rec q qry d = Some (map (serializeJob \<circ> toJob) js)
    \<and> set js = {j \<in> set (db_jobs d). j_queue j = q \<and> lq_state qry \<in> {None, Some (j_state j)}
        \<and> lq_type qry \<in> {None, Some (j_type j)} \<and> (\<forall>t. lq_from qry = Some t \<longrightarrow> t \<le> j_enqueued_at j)
        \<and> (\<forall>t. lq_to qry = Some t \<longrightarrow> j_enqueued_at j \<le> t) \<and> (\<forall>i. lq_cursor qry = Some i \<longrightarrow> j_id j < i)}
    \<and> distinct (map j_id js) \<and> sorted_wrt (\<lambda>i k. k < i) (map j_id js)"
proof -
  let ?fs = "filter (list_match (params_of q qry)) (db_jobs d)"
  note inv = reachable_inv [OF assms(1)]
  have dist: "distinct (map j_id ?fs)" using db_inv_distinct [OF inv] by (simp add: distinct_map_filter)
  have newest: "sorted_wrt (\<lambda>i k. k < i) (map j_id (sort_key id_desc ?fs))"
    using sort_id_desc [OF dist] by (simp add: sorted_wrt_map)
  moreover have "distinct (map j_id (sort_key id_desc ?fs))"
    using dist by (metis distinct_map distinct_sort set_sort)
  moreover have "set (sort_key id_desc ?fs) = {j \<in> set (db_jobs d). j_queue j = q \<and> lq_state qry \<in> {None, Some (j_state j)}
        \<and> lq_type qry \<in> {None, Some (j_type j)} \<and> (\<forall>t. lq_from qry = Some t \<longrightarrow> t \<le> j_enqueued_at j)
        \<and> (\<forall>t. lq_to qry = Some t \<longrightarrow> j_enqueued_at j \<le> t) \<and> (\<forall>i. lq_cursor qry = Some i \<longrightarrow> j_id j < i)}"
    by (simp add: list_match_params)
  ultimately show ?thesis
    using walk_pages [OF assms(2-4) inv assms(5)] by blast
qed

lemma listing_walk_complete_witness:
  "\<exists>js. walk 2 (Some reader) ''q'' first_page db_enqueued = Some (map (serializeJob \<circ> toJob) js)
    \<and> set js = {job_enqueued}"
proof -
  have "permitted_caller Scope_read (Some ''q'') (Some reader)" "name_schema ''q''" "listJobsQuerySchema first_page"
    by (simp_all add: permitted_caller_def authorizes_iff reader_def name_schema_iff sample_names
        listJobsQuerySchema_def first_page_def)
  moreover have "length (filter (list_match (params_of ''q'' first_page)) (db_jobs db_enqueued))
      < 2 * nat (lq_limit first_page)"
    by (simp add: db_enqueued_eq first_page_def)
  ultimately obtain js where
    "walk 2 (Some reader) ''q'' first_page db_enqueued = Some (map (serializeJob \<circ> toJob) js)"
    "set js = {j \<in> set (db_jobs db_enqueued). j_queue j = ''q''}"
    using listing_walk_complete [OF reachable_enqueued, of "''q''" "Some reader" first_page 2]
    by (auto simp: first_page_def)
  moreover have "{j \<in> set (db_jobs db_enqueued). j_queue j = ''q''} = {job_enqueued}"
    by (auto simp: db_enqueued_eq)
  ultimately show ?thesis by auto
qed

section \<open>Background loops\<close>

text \<open>
  C17. A round of the reaper that no one disturbs comes to an end, recovers every job whose lease
  has expired, and reports how many those were.
\<close>

theorem reaper_empties:
  assumes "reachable d" and "0 < batchMax" and "countOverdueLeases now d < fuel * batchMax"
  shows "\<exists>d'. reaper_round (\<lambda>_. now) (\<lambda>_. {}) rand b (\<lambda>_. True) batchMax fuel d
      = Some (Inr (length (filter (\<lambda>j. j_state j = Running \<and> (\<exists>t. j_lease_expires_at j = Some t \<and> t < now))
          (db_jobs d))), d')
    \<and> (\<forall>j \<in> set (db_jobs d'). \<forall>t. j_state j = Running \<and> j_lease_expires_at j = Some t \<longrightarrow> now \<le> t)"
proof -
  have expired: "lease_expired now {} = (\<lambda>j. j_state j = Running \<and> (\<exists>t. j_lease_expires_at j = Some t \<and> t < now))"
    by (auto simp: lease_expired_def fun_eq_iff split: option.splits)
  from overdue.drain_empties [OF reachable_inv [OF assms(1)] assms(2,3), of rand b 0 0] show ?thesis
    by (auto simp: reaper_round_def countOverdueLeases_def expired filter_empty_conv not_less)
qed

lemma reaper_empties_witness:
  "\<exists>d'. reaper_round (\<lambda>_. 40000000) (\<lambda>_. {}) (\<lambda>_. 0) sample_backoff (\<lambda>_. True) 1 2 db_claimed
     = Some (Inr 1, d')"
proof -
  have "j_state job_claimed = Running \<and> j_lease_expires_at job_claimed = Some 30000001"
    by (simp add: job_claimed_def claim_row_def job_enqueued_def us_per_second_def new_job_def sample_row_def)
  moreover have "countOverdueLeases 40000000 db_claimed \<le> 1"
    by (simp add: countOverdueLeases_def db_claimed_eq)
  ultimately show ?thesis
    using reaper_empties [OF reachable_claimed, of 1 40000000 2 "\<lambda>_. 0" sample_backoff]
    by (auto simp: db_claimed_eq)
qed

text \<open>
  C18. The reaper touches no job whose lease is still valid: a row it changes was running past its
  lease, loses its worker, and becomes available after the delay with its attempts intact, or dead
  when they are used up.
\<close>

theorem reap_only_expired:
  assumes "reachable d" and "reapExpiredLeases now locked p d = Inr (rs, d')" and "job_at d i = Some j"
  shows "\<exists>j'. job_at d' i = Some j' \<and> (j' = j \<or> j_state j = Running
    \<and> (\<exists>t. j_lease_expires_at j = Some t \<and> t < now) \<and> i \<notin> locked
    \<and> j_worker_id j' = None \<and> j_lease_expires_at j' = None \<and> j_attempt j' = j_attempt j
    \<and> (if j_attempt j < j_max_attempts j
       then j_state j' = Available \<and> j_run_at j' = now + make_interval_secs (rp_retryDelaySeconds p)
       else j_state j' = Dead \<and> j_dead_reason j' = Some Lease_expired \<and> j_finished_at j' = Some now))"
proof -
  note inv = reachable_inv [OF assms(1)]
  let ?I = "set (expired_ids now locked (rp_limit p) d)" and ?f = "reap_row now (rp_retryDelaySeconds p)"
  have "db_jobs d' = upd_where (\<lambda>j. j_id j \<in> ?I) ?f (db_jobs d)"
    using assms(2) reap_lands [OF inv] by auto
  then have at: "job_at d' i = Some (if j_id j \<in> ?I then ?f j else j)"
    using assms(3) keeps_identityD [OF reap_row_keeps] by (simp add: row_of_upd_where)
  have "lease_expired now locked j" if "j_id j \<in> ?I"
    using expired_ids_expired [OF inv] row_of_SomeD [OF assms(3)] that by blast
  then have "j_state j = Running \<and> (\<exists>t. j_lease_expires_at j = Some t \<and> t < now) \<and> i \<notin> locked"
    if "j_id j \<in> ?I"
    using that row_of_SomeD [OF assms(3)] by (auto simp: lease_expired_def split: option.splits)
  with at show ?thesis by (cases "j_id j \<in> ?I") (auto simp: reap_row_def)
qed

lemma reap_only_expired_witness:
  "\<exists>rs d' j'. reapExpiredLeases 40000000 {} \<lparr>rp_limit = 1, rp_retryDelaySeconds = 5\<rparr> db_claimed = Inr (rs, d')
     \<and> job_at d' 1 = Some j' \<and> (j' = job_claimed \<or> j_state j' = Dead)"
proof -
  let ?p = "\<lparr>rp_limit = 1, rp_retryDelaySeconds = 5\<rparr>"
  obtain rs d' where r: "reapExpiredLeases 40000000 {} ?p db_claimed = Inr (rs, d')"
    using reap_lands [OF inv_claimed] by blast
  from reap_only_expired [OF reachable_claimed r claimed_row] obtain j' where
    "job_at d' 1 = Some j'" "j' = job_claimed \<or> j_state j' = Dead" by (auto simp del: One_nat_def)
  with r show ?thesis by blast
qed

text \<open>
  C19. A round of retention that no one disturbs comes to an end and deletes exactly the finished
  jobs whose retention window has passed.
\<close>

theorem retention_empties:
  assumes "reachable d" and "\<not> ret_archive opts" and "0 < ret_batchMax opts"
    and "length (filter (past_retention now {} (prune_params_of opts) d) (db_jobs d)) < fuel * ret_batchMax opts"
  shows "\<exists>d'. retention_round (\<lambda>_. now) (\<lambda>_. {}) opts (\<lambda>_. True) fuel d
      = Some (Inr (length (db_jobs d) - length (db_jobs d')), d')
    \<and> db_jobs d' = filter (\<lambda>j. \<not> (isTerminal (j_state j)
        \<and> (\<exists>t. j_finished_at j = Some t \<and> t < now - retain_window (prune_params_of opts) d j))) (db_jobs d)"
proof -
  let ?P = "past_retention now {} (prune_params_of opts) d"
  obtain d' where r: "retention_round (\<lambda>_. now) (\<lambda>_. {}) opts (\<lambda>_. True) fuel d
      = Some (Inr (length (filter ?P (db_jobs d))), d')"
    and js: "db_jobs d' = filter (\<lambda>j. \<not> ?P j) (db_jobs d)"
    using retention_round_exact [OF reachable_inv [OF assms(1)] assms(2-4)] by blast
  have "length (filter ?P (db_jobs d)) = length (db_jobs d) - length (db_jobs d')"
    using sum_length_filter_compl [of ?P "db_jobs d"] unfolding js by linarith
  with r js show ?thesis by (intro exI [of _ d']) (simp add: past_retention_iff)
qed

lemma retention_empties_witness:
  "\<exists>d'. retention_round (\<lambda>_. 40) (\<lambda>_. {}) sample_retention (\<lambda>_. True) 2 db_dead = Some (Inr 1, d')
     \<and> db_jobs d' = []"
proof -
  have "past_retention 40 {} (prune_params_of sample_retention) db_dead job_dead"
    by (simp add: past_retention_def retain_window_def sample_retention_def job_dead_def row_defs sample_fail_def
        db_dead_eq db_claimed_eq db_enqueued_eq empty_db_def)
  moreover have "db_jobs db_dead = [job_dead]" by (simp add: db_dead_eq job_dead_def)
  moreover have "\<not> ret_archive sample_retention" "ret_batchMax sample_retention = 1"
    by (simp_all add: sample_retention_def)
  ultimately show ?thesis
    using retention_empties [OF reachable_samples(1), of sample_retention 40 2]
    by (auto simp: past_retention_iff)
qed

text \<open>
  Archiving moves finished jobs and loses none: jobs and archive together hold the same rows
  as before, a row that moved was past its window, is stamped with the time of the move, and a
  partition covers that day.
\<close>

theorem archive_moves:
  assumes "reachable d" and "archiveTerminalJobs now locked p d = Inr (rs, d')"
  shows "set (db_jobs d') \<union> ar_job ` set (db_archive d') = set (db_jobs d) \<union> ar_job ` set (db_archive d)
    \<and> length (db_jobs d') + length (db_archive d') = length (db_jobs d) + length (db_archive d)
    \<and> (\<forall>j \<in> set (db_jobs d) - set (db_jobs d'). isTerminal (j_state j)
        \<and> (\<exists>t. j_finished_at j = Some t \<and> t < now - retain_window p d j)
        \<and> \<lparr>ar_job = j, ar_archived_at = now\<rparr> \<in> set (db_archive d')
        \<and> (\<exists>q \<in> set (db_partitions d). covers q (day_of now)))"
proof -
  note inv = reachable_inv [OF assms(1)] and D = archive_InrD [OF assms(2)]
  let ?V = "set (retention_victims now locked p d)"
  have "past_retention now locked p d j \<and> \<lparr>ar_job = j, ar_archived_at = now\<rparr> \<in> set (db_archive d')
      \<and> (\<exists>q \<in> set (db_partitions d). covers q (day_of now))"
    if j: "j \<in> set (db_jobs d) - set (db_jobs d')" for j
  proof -
    from j D(2) have v: "j \<in> set (db_jobs d)" "j_id j \<in> ?V" by auto
    then have "rs \<noteq> []" by (auto simp: D(1) filter_empty_conv)
    with assms(2) have "list_ex (\<lambda>q. covers q (day_of now)) (db_partitions d)"
      by (cases rs) (auto dest: archive_covered)
    with v D(2) retention_victim_past [OF inv v] show ?thesis by (auto simp: list_ex_iff)
  qed
  with archive_conserves [OF assms(2)] show ?thesis unfolding past_retention_iff by blast
qed

lemma archive_moves_witness:
  "\<exists>rs d'. archiveTerminalJobs 40 {} (prune_params_of sample_retention) db_archiving = Inr (rs, d')
     \<and> length (db_jobs d') + length (db_archive d') = 1"
proof -
  from archive_sample obtain rs d' where
    a: "archiveTerminalJobs 40 {} (prune_params_of sample_retention) db_archiving = Inr (rs, d')" by blast
  have "length (db_jobs db_archiving) + length (db_archive db_archiving) = 1"
    by (simp add: archiving_eq db_dead_eq db_claimed_eq db_enqueued_eq empty_db_def)
  with archive_moves [OF reachable_archiving a] a show ?thesis by auto
qed

text \<open>
  C20. A tick of the scheduler takes as many due schedules as its limit allows, stores at most one
  job for each, and leaves every one of them with a next run after the start of the tick, so that
  no occurrence is taken again; it relies on croner giving times after the one it is asked from.
\<close>

theorem tick_moves_schedules:
  assumes "reachable d" and "croner_law nextRun" and "\<forall>m. t0 \<le> clock m"
  shows "\<exists>r d'. tick nextRun alone now clock locked n d = (Inr r, d')
    \<and> tr_processed r = min n (length (filter (schedule_due now locked) (db_schedules d)))
    \<and> tr_created r + tr_deduplicated r \<le> tr_processed r
    \<and> (\<forall>i \<in> set (due_ids now locked n d). \<exists>s'. schedule_at d' i = Some s' \<and> t0 < s_next_run_at s')"
  using tick_spec [OF reachable_inv [OF assms(1)] assms(2,3)] by blast

lemma tick_moves_schedules_witness:
  "\<exists>r d'. tick every_minute alone 9 (\<lambda>_. 9) {} 5 db_scheduled = (Inr r, d') \<and> tr_processed r = 1"
proof -
  have "schedule_due 9 {} sample_schedule" by (simp add: schedule_due_def sample_schedule_def)
  with tick_moves_schedules [OF reachable_scheduled every_minute_law, of 9 "\<lambda>_. 9" 9 "{}" 5]
  show ?thesis by (auto simp: scheduled_rows)
qed



text \<open>
  Distinct occurrences have distinct idempotency keys: up to the year 9999, two keys agree
  only for the same schedule and the same planned millisecond.
\<close>

theorem occurrence_keys_distinct:
  assumes "0 \<le> s" and "0 \<le> t" and "u_year (utc_of (nat (s div us_per_ms))) < 10000"
    and "u_year (utc_of (nat (t div us_per_ms))) < 10000"
  shows "occurrenceKey i s = occurrenceKey k t \<longleftrightarrow> i = k \<and> s div us_per_ms = t div us_per_ms"
proof
  show "i = k \<and> s div us_per_ms = t div us_per_ms" if "occurrenceKey i s = occurrenceKey k t"
    by (rule occurrenceKey_inj [OF that assms])
qed (simp add: occurrenceKey_def)

lemma occurrence_keys_distinct_witness: "occurrenceKey 1 0 \<noteq> occurrenceKey 1 60000000"
  using occurrence_keys_distinct [of 0 60000000 1 1] minute_utc by (simp add: us_per_ms_def epoch_utc)

section \<open>Bounds and errors\<close>

text \<open>
  C22. The retry delay is the exponential one, capped: the base delay of an attempt is the initial
  delay times a power of the multiplier, the maximum once that overflows or exceeds it, it never
  decreases with the attempt, and the jittered delay is a non-negative number of milliseconds that
  stays within the maximum and, for equal jitter, at or above half of the base.
\<close>

theorem backoff_exponential:
  assumes "1 \<le> a" and "a \<le> b" and "0 < b_initialMs opts" and "1 \<le> b_multiplier opts"
    and "0 < b_maxMs opts" and "0 \<le> r" and "r < 1"
  shows "baseDelayMs a opts =
      (let growth = b_multiplier opts ^ nat (a - 1)
       in if js_overflow \<le> growth \<or> js_overflow \<le> b_initialMs opts * growth then b_maxMs opts
          else min (b_maxMs opts) (b_initialMs opts * growth))
    \<and> baseDelayMs a opts \<le> baseDelayMs b opts
    \<and> 0 \<le> nextDelayMs r a opts \<and> nextDelayMs r a opts \<le> round (b_maxMs opts)
    \<and> (b_jitter opts = Equal \<longrightarrow> round (baseDelayMs a opts / 2) \<le> nextDelayMs r a opts)"
proof -
  have "0 < b_multiplier opts ^ nat (a - 1)" using assms(4) by simp
  then have base: "0 < baseDelayMs a opts"
    unfolding baseDelay_value [OF assms(1,3,4)] using assms(3,5) by (simp add: min_def)
  have "0 \<le> round (b_maxMs opts)" using assms(5) by (intro round_nonneg) simp
  with nextDelayMs_bounds [OF assms(6,7), of a opts] have "0 \<le> nextDelayMs r a opts"
    "nextDelayMs r a opts \<le> round (b_maxMs opts)" by simp_all
  with baseDelay_value [OF assms(1,3,4)] baseDelayMs_mono [OF assms(1-4)]
    equal_jitter_floor [OF assms(6) _ base] show ?thesis by (simp add: Let_def)
qed

lemma backoff_exponential_witness: "nextDelayMs (1 / 2) 3 sample_backoff \<le> 1000"
  using backoff_exponential [of 3 4 sample_backoff "1 / 2"] by (simp add: sample_backoff_def)

text \<open>
  C23. Whatever a handler throws is recorded within bounds: the name within 256 bytes, message and
  stack within the configured number of bytes or the 14 of the truncation marker, text that fits is
  kept as it is, and truncation never leaves a broken character behind.
\<close>

theorem recorded_error_bounded:
  shows "let z = normalizeError now e attempt kind n; (name, message, stack) = error_parts e
    in length (z_name z) \<le> 256 \<and> length (z_message z) \<le> max n 14 \<and> length (z_stack z) \<le> max n 14
     \<and> (length message \<le> n \<longrightarrow> z_message z = message) \<and> (length stack \<le> n \<longrightarrow> z_stack z = stack)
     \<and> (utf8 message \<longrightarrow> utf8 (z_message z)) \<and> (utf8 stack \<longrightarrow> utf8 (z_stack z))
     \<and> (utf8 name \<longrightarrow> utf8 (z_name z))"
  using truncate_text_bound [of _ 256] truncate_text_bound [of _ n]
  by (auto simp: normalizeError_def truncate_text_within truncate_text_wf split: prod.split)

lemma recorded_error_bounded_witness:
  "z_message (normalizeError 0 (Thrown_string ''boom'') 1 Handler_error 100) = ''boom''"
  using recorded_error_bounded [of 0 "Thrown_string ''boom''" 1 Handler_error 100]
  by (simp add: error_parts_def Let_def)

text \<open>
  C24. The runtime starts behind two gates: within 30 pings the database has answered, all earlier
  pings having failed in a transient way, and the schema is current (unless the check is skipped);
  then every component runs. Otherwise the start fails with the reason, and nothing was started.
\<close>

theorem startup_gates:
  assumes "\<not> rt_started rt" and "runtime_start digest dir ping sd rt = (r, sd', rt')"
  shows "case r of
      Inr _ \<Rightarrow> (\<exists>k. 1 \<le> k \<and> k \<le> 30 \<and> ping k = None \<and> transient_until ping 1 k)
        \<and> (op_skipSchemaCheck (rt_options rt) \<and> sd' = sd
           \<or> (\<exists>v. assertSchemaCurrent digest dir sd = (Inr v, sd')))
        \<and> rt_started rt' \<and> all_running rt'
    | Inl (No_database (Not_transient k e)) \<Rightarrow> rt' = rt \<and> 1 \<le> k \<and> k \<le> 30 \<and> ping k = Some e
        \<and> transient_until ping 1 k \<and> \<not> isTransientDbError (unwrapCause e)
    | Inl (No_database (Unreachable k e)) \<Rightarrow> rt' = rt \<and> k = 30 \<and> transient_until ping 1 31
    | Inl (No_database (Connected k)) \<Rightarrow> False
    | Inl (Wrong_schema e) \<Rightarrow> rt' = rt \<and> assertSchemaCurrent digest dir sd = (Inl e, sd')"
  using runtime_start_cases [OF assms(1), where digest = digest and dir = dir and ping = ping and sd = sd]
    wait_loop_spec [where ping = ping and a = 1 and n = 30 and le = Thrown_undefined]
  by (auto simp: assms(2) waitForDatabase_def split: sum.splits start_error.splits wait_result.splits)

lemma startup_gates_witness:
  "fst (runtime_start (\<lambda>s. s) sample_migrations (\<lambda>_. Some Thrown_undefined) blank_schema sample_runtime) \<noteq> Inr ()"
proof
  obtain r sd' rt' where s: "runtime_start (\<lambda>s. s) sample_migrations (\<lambda>_. Some Thrown_undefined)
      blank_schema sample_runtime = (r, sd', rt')" by (metis prod_cases3)
  assume "fst (runtime_start (\<lambda>s. s) sample_migrations (\<lambda>_. Some Thrown_undefined) blank_schema sample_runtime) = Inr ()"
  with s have "r = Inr ()" by simp
  with startup_gates [OF sample_runtime_idle s] show False by simp
qed

section \<open>Worker, configuration, migrations\<close>

text \<open>
  C25. A worker pool keeps within its concurrency, whatever happens while it awaits: as long as no
  job in flight comes to wait for a claim again, after a claiming turn no more handlers execute than
  the pool allows, none of them for a job that could be handed out again, no job executes twice in
  it, and a handler that ends frees its slot; a full or stopped pool claims nothing.
\<close>

theorem pool_within_concurrency:
  assumes "pool_ok p d" and "others_ok others" and "claim_turn others now cnow locked p d = (r, p', d')"
  shows "length (po_deliveries p') \<le> po_concurrency p \<and> distinct (map c_id (po_deliveries p'))
    \<and> (\<forall>job \<in> set (po_deliveries p'). \<not> waiting d' (c_id job)) \<and> pool_ok p' d'
    \<and> (\<forall>out. \<forall>n < length (po_deliveries p'). pool_ok (finish out n p') d'
         \<and> free_slots (finish out n p') = Suc (free_slots p'))
    \<and> (\<not> po_running p \<or> length (po_deliveries p) = po_concurrency p \<longrightarrow> p' = p \<and> d' = d)"
proof -
  have E: "pool_ok p' d'" and c: "po_concurrency p' = po_concurrency p"
    using claim_turn_ok [OF assms(2,1,3)] by simp_all
  then have S: "slots_exact p'" and L: "length (po_inFlight p') \<le> po_concurrency p'"
    by (simp_all add: pool_ok_def)
  then have ids: "po_inFlight p' = map c_id (po_deliveries p')" "distinct (map c_id (po_deliveries p'))"
    by (simp_all add: slots_exact_def)
  have "free_slots (finish out n p') = Suc (free_slots p')" if n: "n < length (po_deliveries p')" for out n
  proof -
    have "length (po_inFlight (finish out n p')) = length (po_deliveries (finish out n p'))"
      using finish_exact [OF S, of out n] by (simp add: slots_exact_def)
    moreover have "length (po_deliveries (finish out n p')) = length (po_deliveries p') - 1"
      using n by (simp add: finish_def Let_def)
    ultimately show ?thesis using n L ids by (simp add: free_slots_def)
  qed
  moreover have "p' = p \<and> d' = d" if "\<not> po_running p \<or> length (po_deliveries p) = po_concurrency p"
  proof -
    have "length (po_inFlight p) = length (po_deliveries p)"
      using assms(1) by (simp add: pool_ok_def slots_exact_def)
    with that have "\<not> po_running p \<or> free_slots p = 0" by (auto simp: free_slots_def)
    from claim_turn_idle [OF this] assms(3) show ?thesis by simp
  qed
  ultimately show ?thesis using E L c ids finish_ok [OF E] by (auto simp: pool_ok_def)
qed

lemma pool_within_concurrency_witness:
  "length (po_deliveries (fst (snd (claim_turn (\<lambda>n (p, d). (finish None n p, d)) (\<lambda>_. 1) (\<lambda>_. 0) (\<lambda>_. {})
     sample_pool db_enqueued)))) \<le> 1"
proof -
  have "pool_ok sample_pool db_enqueued"
    using sample_pool_exact inv_enqueued by (simp add: pool_ok_def)
  moreover obtain r p' d' where "claim_turn (\<lambda>n (p, d). (finish None n p, d)) (\<lambda>_. 1) (\<lambda>_. 0) (\<lambda>_. {})
      sample_pool db_enqueued = (r, p', d')" by (metis prod_cases3)
  ultimately show ?thesis
    using pool_within_concurrency [OF _ others_ok_finish [where out = "\<lambda>_. None" and which = "\<lambda>n. n"],
        of sample_pool db_enqueued "\<lambda>_. 1" "\<lambda>_. 0" "\<lambda>_. {}" r p' d'] by simp
qed

text \<open>
  C26. A shutdown hands the jobs back: when the grace period has passed undisturbed, every job whose
  delivery in the pool still owns it is available at once, with its attempts as they are and no
  longer owned, and every other job is as before.
\<close>

theorem shutdown_releases:
  assumes "reachable d" and "slots_exact p" and "po_running p"
    and "Pool.stop (\<lambda>_ s. s) (\<lambda>_. now) True p d = (p', d')"
  shows "\<not> po_running p'
    \<and> (\<forall>job \<in> set (po_deliveries p). owned d (token_of (ro_workerId (po_options p)) job) \<longrightarrow>
        (\<exists>j j'. job_at d (c_id job) = Some j \<and> job_at d' (c_id job) = Some j'
          \<and> j_state j' = Available \<and> j_run_at j' = now \<and> j_attempt j' = j_attempt j
          \<and> \<not> owned d' (token_of (ro_workerId (po_options p)) job)))
    \<and> (\<forall>k. (\<forall>job \<in> set (po_deliveries p). c_id job = k \<longrightarrow> \<not> owned d (token_of (ro_workerId (po_options p)) job)) \<longrightarrow>
        job_at d' k = job_at d k)"
proof -
  let ?tok = "token_of (ro_workerId (po_options p))"
  note S = stop_releases [OF reachable_inv [OF assms(1)] assms(3,2,4)]
  have own: "owned d (?tok job) \<longleftrightarrow> (\<exists>j. job_at d (c_id job) = Some j \<and> owns (?tok job) j)" for job
    by (auto simp: owned_def token_of_def split: option.splits)
  have "\<exists>j j'. job_at d (c_id job) = Some j \<and> job_at d' (c_id job) = Some j'
      \<and> j_state j' = Available \<and> j_run_at j' = now \<and> j_attempt j' = j_attempt j \<and> \<not> owned d' (?tok job)"
    if mem: "job \<in> set (po_deliveries p)" and held: "owned d (?tok job)" for job
  proof -
    obtain j where j: "job_at d (c_id job) = Some j" "owns (?tok job) j" using held own by blast
    with mem S(1) have at: "job_at d' (c_id job) = Some (release_row now j)" by auto
    moreover have "\<not> owned d' (?tok job)"
      using at final_rows_gone(4) by (auto simp: owned_def token_of_def)
    ultimately show ?thesis using j(1) by (auto simp: release_row_def)
  qed
  moreover have "job_at d' k = job_at d k"
    if "\<forall>job \<in> set (po_deliveries p). c_id job = k \<longrightarrow> \<not> owned d (?tok job)" for k
  proof (cases "job_at d k")
    case (Some j)
    then have "j_id j = k" by (auto dest: row_of_SomeD)
    then have id: "owns (?tok job) j \<Longrightarrow> c_id job = k" for job
      by (simp add: owns_def token_of_def)
    from id that own Some have "\<not> (\<exists>job \<in> set (po_deliveries p). owns (?tok job) j)" by blast
    with S(1) [of k] Some show ?thesis by simp
  qed (simp add: S(1))
  ultimately show ?thesis using S(2) by blast
qed

lemma shutdown_releases_witness:
  "\<exists>j. job_at (snd (Pool.stop (\<lambda>_ s. s) (\<lambda>_. 5) True busy_pool db_claimed)) 1 = Some j \<and> j_state j = Available"
proof -
  have d: "po_deliveries busy_pool = [toClaimedJob job_claimed]" "po_running busy_pool"
    "ro_workerId (po_options busy_pool) = ''w''"
    by (simp_all add: busy_pool_def spawn_def sample_runner_def)
  have t: "token_of ''w'' (toClaimedJob job_claimed) = sample_fence" by (rule token_claimed)
  then have c: "c_id (toClaimedJob job_claimed) = 1" by (simp add: token_of_def sample_fence_def)
  from shutdown_releases [OF reachable_claimed busy_pool_exact d(2) surjective_pairing, of 5] claimed_owned
  show ?thesis unfolding d(1,3) by (auto simp: t c simp del: One_nat_def)
qed

text \<open>
  A configuration is accepted exactly when every variable parses and the combinations are
  sound: the pool bounds are in order, the worker's concurrency fits the pool, the heartbeat beats
  within the lease, and in production payloads are not logged and the API key is long and no
  placeholder; every accepted number is within its range.
\<close>

theorem config_accepted:
  "loadConfig num env = Inr c \<longleftrightarrow>
     configSchema num env = ([], c) \<and> config_ranges c
     \<and> cf_dbPoolMin c \<le> cf_dbPoolMax c \<and> cf_backoffInitialMs c \<le> cf_backoffMaxMs c
     \<and> cf_workerConcurrency c \<le> cf_dbPoolMax c * 10
     \<and> (cf_nodeEnv c \<noteq> Production \<or> \<not> cf_logPayloads c
        \<and> (\<exists>k. cf_apiBootstrapKey c = Some k \<and> 32 \<le> length k \<and> \<not> looks_placeholder k))"
proof
  assume l: "loadConfig num env = Inr c"
  note I = loadConfig_Inr [OF l]
  from I(3) I show "configSchema num env = ([], c) \<and> config_ranges c
     \<and> cf_dbPoolMin c \<le> cf_dbPoolMax c \<and> cf_backoffInitialMs c \<le> cf_backoffMaxMs c
     \<and> cf_workerConcurrency c \<le> cf_dbPoolMax c * 10
     \<and> (cf_nodeEnv c \<noteq> Production \<or> \<not> cf_logPayloads c
        \<and> (\<exists>k. cf_apiBootstrapKey c = Some k \<and> 32 \<le> length k \<and> \<not> looks_placeholder k))"
    by (auto simp: validateCrossField_none)
next
  assume r: "configSchema num env = ([], c) \<and> config_ranges c
     \<and> cf_dbPoolMin c \<le> cf_dbPoolMax c \<and> cf_backoffInitialMs c \<le> cf_backoffMaxMs c
     \<and> cf_workerConcurrency c \<le> cf_dbPoolMax c * 10
     \<and> (cf_nodeEnv c \<noteq> Production \<or> \<not> cf_logPayloads c
        \<and> (\<exists>k. cf_apiBootstrapKey c = Some k \<and> 32 \<le> length k \<and> \<not> looks_placeholder k))"
  then have "1 \<le> cf_defaultLeaseSeconds c" "cf_workerHeartbeatFraction c \<le> 9 / 10"
    by (simp_all add: config_ranges_def)
  then have "of_int (cf_defaultLeaseSeconds c) * 1000 * cf_workerHeartbeatFraction c
      < of_int (cf_defaultLeaseSeconds c) * 1000"
    by simp
  with r have "validateCrossField c = []" by (auto simp: validateCrossField_none)
  with r show "loadConfig num env = Inr c" by (simp add: loadConfig_def)
qed

lemma config_accepted_witness:
  "\<exists>c. loadConfig (\<lambda>_. None) sample_environ = Inr c \<and> cf_workerConcurrency c \<le> cf_dbPoolMax c * 10"
proof -
  obtain c where "configSchema (\<lambda>_. None) sample_environ = ([], c)" "cf_nodeEnv c = Development"
    "cf_dbPoolMin c = 0" "cf_dbPoolMax c = 10" "cf_backoffInitialMs c = 1000" "cf_backoffMaxMs c = 3600000"
    "cf_workerConcurrency c = 10"
    by (simp add: configSchema_def Let_def field_def sample_environ_def)
  moreover from this have "config_ranges c" using configSchema_ranges [of "\<lambda>_. None" sample_environ] by simp
  ultimately show ?thesis using config_accepted [of "\<lambda>_. None" sample_environ c] by auto
qed



section \<open>The API\<close>









section \<open>The harnesses and the demo handlers\<close>



text \<open>
  C33. The kill test passes in both its modes: on a database where no other lease is over and the
  queue is not paused, with three statements before the kill, a reaper after the lease and a second
  claim after the backoff, every one of its sixteen checks holds.
\<close>

theorem kill_test_passes:
  assumes "reachable (ch_db s)" and "\<not> queue_paused (ch_db s) (chaos_queue mode)"
    and "\<forall>k \<in> set (db_jobs (ch_db s)).
      like (chaos_queue mode @ ''%'') (j_queue k) \<or> \<not> lease_expired (st_reap t) {} k"
    and "3 \<le> st_steps t" and "st_enqueue t \<le> st_victim t"
    and "st_victim t + us_per_second * LEASE_SECONDS < st_reap t" and "st_reap t + us_per_ms \<le> st_claim t"
  shows "\<exists>s'. runScenario mode t new_client s = (Inr (replicate 16 True), s')"
  by (rule scenario_passes [OF reachable_inv [OF assms(1)] assms(2-7)])

lemma kill_test_passes_witness:
  "\<exists>s'. runScenario Idempotent
     \<lparr>st_enqueue = 0, st_victim = 1, st_steps = 3, st_reap = 4000000, st_claim = 4002000, st_complete = 5000000\<rparr>
     new_client \<lparr>ch_db = db_enqueued, ch_execution = [], ch_effect = []\<rparr> = (Inr (replicate 16 True), s')"
  by (rule kill_test_passes)
    (use reachable_enqueued in \<open>simp_all add: db_enqueued_eq empty_db_def queue_paused_def lease_expired_def
      us_per_second_def us_per_ms_def LEASE_SECONDS_def\<close>)

text \<open>
  C34. The durability test passes. On a database where the queue is not paused and no other queue has
  running jobs, whatever the workers of its rounds do before they are killed (each claim at least a
  lease before the drain begins), with time enough for the drain: all jobs are acknowledged, each
  ends finished, none is stranded or dead, and each effect is applied exactly once. Whether a round
  made progress and whether a job was delivered again depends on the moments of the kills.
\<close>

theorem durability_test_passes:
  assumes "reachable (ch_db s)" and "\<not> queue_paused (ch_db s) DURABILITY_QUEUE"
    and "\<forall>j \<in> set (db_jobs (ch_db s)). j_state j = Running \<longrightarrow> j_queue j = DURABILITY_QUEUE"
    and "list_all (\<lambda>r. steps_before T (fst r) \<and> steps_before T (snd r)) rounds" and "te \<le> T" and "T \<le> now 0"
    and "\<forall>k. now k + us_per_ms \<le> now (Suc k)" and "TOTAL_JOBS + 1 < budget"
  shows "\<exists>progress s'. durability_main te rounds now budget s =
      (Inr (True # progress @ [True, True, True, True, 0 < redelivered (ch_db s'), True]), s')
    \<and> length progress = length rounds"
  by (rule durability_passes [OF reachable_inv [OF assms(1)] assms(2-8)])

lemma durability_test_passes_witness:
  "\<exists>progress s'. durability_main 0 [([(1, {}), (2, {}), (3, {}), (4, {})], [(5, {})]), ([(6, {})], []), ([], [])]
      (\<lambda>k. 9000000 + int k * us_per_ms) 200 \<lparr>ch_db = empty_db, ch_execution = [], ch_effect = []\<rparr> =
      (Inr (True # progress @ [True, True, True, True, 0 < redelivered (ch_db s'), True]), s')
    \<and> length progress = 3"
proof -
  let ?s = "\<lparr>ch_db = empty_db, ch_execution = [], ch_effect = []\<rparr>"
  let ?rounds = "[([(1, {}), (2, {}), (3, {}), (4, {})], [(5, {})]), ([(6, {})], []), ([], [])]"
  let ?now = "\<lambda>k. 9000000 + int k * us_per_ms"
  have "list_all (\<lambda>r. steps_before 9000000 (fst r) \<and> steps_before 9000000 (snd r)) ?rounds"
    by (simp add: steps_before_def us_per_second_def durability_lease_def)
  moreover have "\<forall>k. ?now k + us_per_ms \<le> ?now (Suc k)" by (simp add: distrib_right)
  ultimately show ?thesis
    using durability_test_passes [of ?s 9000000 ?rounds 0 ?now 200] reachable.intros(1)
    by (simp add: empty_db_def queue_paused_def TOTAL_JOBS_def numeral_3_eq_3)
qed

text \<open>
  C35. The benchmark measures what it says. On a database without jobs of its queue, whatever the order
  of the workers' steps and in either lock mode, provided that nobody else locks rows and that each
  worker gets its turn often enough (five turns for each job and three for each worker): seeding stores
  the jobs it is asked for, every worker returns, and the jobs counted as drained, the sizes of the
  batches and the waits measured are those of all the jobs, each completed once.
\<close>

theorem bench_run_complete:
  assumes "reachable d" and "\<forall>j \<in> set (db_jobs d). j_queue j \<noteq> br_queue r" and "\<not> queue_paused d (br_queue r)"
    and "\<forall>k. t k \<le> T" and "0 < br_batch r" and "0 < br_concurrency r"
    and "\<forall>es \<in> set turns. full_turn r es \<and> (\<forall>e \<in> set es. bench_event_ok T e)"
    and "5 * count + 3 * br_concurrency r \<le> length turns"
  shows "\<exists>d1 s. seed_bench t (br_queue r) count payloadBytes d = (Inr (), d1)
    \<and> bench_drain r (concat turns) d1 = (replicate (br_concurrency r) Worker_done, s)
    \<and> bn_drained s = count \<and> bn_batchTotal s = count \<and> length (bn_waitDurations s) = count
    \<and> jobs_in (bn_db s) (br_queue r) Succeeded = count
    \<and> jobs_in (bn_db s) (br_queue r) Available = 0 \<and> jobs_in (bn_db s) (br_queue r) Running = 0
    \<and> 0 < bn_emptyClaims s \<and> length (bn_claimDurations s) = bn_batches s + bn_emptyClaims s"
  by (rule bench_run_whole [OF reachable_inv [OF assms(1)] assms(2-8)])

lemma bench_run_complete_witness:
  "\<exists>d1 s. seed_bench (\<lambda>_. 0) ''bench_1'' 4 200 empty_db = (Inr (), d1)
    \<and> bench_drain \<lparr>br_queue = ''bench_1'', br_concurrency = 2, br_batch = 3, br_mode = ''for_update''\<rparr>
        (concat (replicate 26 [bench_turn 0 7, bench_turn 1 8])) d1 = (replicate 2 Worker_done, s)
    \<and> bn_drained s = 4"
  using bench_run_complete [of empty_db "\<lparr>br_queue = ''bench_1'', br_concurrency = 2, br_batch = 3, br_mode = ''for_update''\<rparr>"
      "\<lambda>_. 0" 0 "replicate 26 [bench_turn 0 7, bench_turn 1 8]" 4 200] reachable.intros(1)
  by (auto simp: empty_db_def queue_paused_def full_turn_def bench_event_ok_def bench_turn_def less_2_cases_iff)



text \<open>
  The last phase of the durability test ends and settles the queue: when every worker is gone and
  its leases are over, the drain with as many iterations as there are jobs and two more returns with
  every job finished and none lost.
\<close>

theorem drain_settles_all:
  assumes "settling (now 0) (ch_db s)" and "\<forall>k. now k + us_per_ms \<le> now (Suc k)"
    and "queue_size (ch_db s) = TOTAL_JOBS" and "TOTAL_JOBS + 1 < budget"
  shows "\<exists>s'. drainRemaining now budget 0 s = (Inr (), s')
    \<and> (\<forall>j \<in> set (db_jobs (ch_db s')). j_queue j = DURABILITY_QUEUE \<longrightarrow> terminal_state (j_state j))
    \<and> queue_size (ch_db s') = TOTAL_JOBS"
proof -
  have "waiting_jobs (ch_db s) \<le> TOTAL_JOBS"
    using terminal_and_waiting [of "ch_db s"] assms(3) by linarith
  with assms(4) have "waiting_jobs (ch_db s) + (if running_jobs (ch_db s) = 0 then 0 else 1) < budget" by simp
  from drain_settles [OF assms(1-3) this] show ?thesis by (simp add: none_waiting)
qed

lemma drain_settles_all_witness:
  "\<exists>s'. drainRemaining (\<lambda>k. int k * us_per_ms) 200 0 \<lparr>ch_db = db_filled 150, ch_execution = [], ch_effect = []\<rparr>
       = (Inr (), s') \<and> queue_size (ch_db s') = 150"
  using drain_settles_all [of "\<lambda>k. int k * us_per_ms" "\<lparr>ch_db = db_filled 150, ch_execution = [], ch_effect = []\<rparr>" 200]
  by (auto simp: filled_settling filled_sizes TOTAL_JOBS_def distrib_right)

text \<open>
  C38. One undisturbed delivery of a demo job by its owner: a payload that does not parse, an unknown
  type and a poison job are dead at once; a flaky job before its attempt and a throttled job on its
  first come back unless the attempts are used up; all else succeeds.
\<close>

theorem demo_outcome:
  assumes "db_inv d" and "job_at d (c_id job) = Some j" and "owns (token_of (ro_workerId opts) job) j"
    and "createDemoRegistry email (undisturbed job) eff = Inr reg"
  shows "\<exists>d' j'. run_job alone now cnow rand opts reg job [] d =
      (Inr (case j_state j' of Succeeded \<Rightarrow> O_succeeded | Dead \<Rightarrow> O_dead | _ \<Rightarrow> O_retried), d')
    \<and> job_at d' (c_id job) = Some j'
    \<and> j_state j' =
        (case parse reg (c_type job) (c_payload job) of
           Inl _ \<Rightarrow> Dead
         | Inr p \<Rightarrow>
             if c_type job = ''demo.poison'' then Dead
             else if c_type job = ''demo.flaky'' \<and> c_attempt job < int_of_field ''failUntilAttempt'' p
                \<or> c_type job = ''demo.throttled'' \<and> c_attempt job < 2
             then (if j_attempt j = j_max_attempts j then Dead else Available)
             else Succeeded)"
  using demo_delivery [OF assms(1-4), of now cnow rand] by blast

lemma demo_outcome_witness:
  "\<exists>reg d' j'. createDemoRegistry (\<lambda>_. True) (undisturbed (toClaimedJob flaky_job)) [] = Inr reg
    \<and> run_job alone 2 0 0 sample_runner reg (toClaimedJob flaky_job) [] (db_enqueued\<lparr>db_jobs := [flaky_job]\<rparr>)
        = (Inr O_retried, d')
    \<and> job_at d' 1 = Some j' \<and> j_state j' = Available"
proof -
  obtain reg where reg: "createDemoRegistry (\<lambda>_. True) (undisturbed (toClaimedJob flaky_job)) [] = Inr reg"
    using demo_registered by blast
  have "int_of_field ''failUntilAttempt'' (JObj [(''failUntilAttempt'', JNum ''3'')]) = 3"
    by (simp add: int_of_field_def json_field_def three_value)
  with demo_outcome [OF flaky_inv _ _ reg, of flaky_job sample_runner 2 0 0] flaky_parsed [OF reg]
  show ?thesis by (auto simp: reg)
qed

section \<open>The dashboard\<close>





text \<open>
  The payload viewer hides secrets: at most eight levels below the top, the value of a member
  whose name looks sensitive is redacted.
\<close>

theorem secrets_hidden:
  assumes "inside d (PayloadView j) (JObj fs)" and "d \<le> 8" and "(k, v) \<in> set fs" and "sensitive k"
  shows "v = JStr ''[redacted]''"
  using redact_hides [of d 0] assms by (simp add: PayloadView_def)

lemma secrets_hidden_witness:
  "\<exists>fs v. PayloadView sample_secret = JObj [(''user'', JObj fs)] \<and> (''Password'', v) \<in> set fs
     \<and> v = JStr ''[redacted]''"
proof -
  obtain v where v: "PayloadView sample_secret = JObj [(''user'', JObj [(''Password'', v)])]"
    by (simp add: PayloadView_def sample_secret_def password_sensitive)
  have "inside 1 (PayloadView sample_secret) (JObj [(''Password'', v)])"
    unfolding v by (auto intro!: inside.intros)
  from secrets_hidden [OF this _ _ password_sensitive(1), of v] v show ?thesis by auto
qed



text \<open>
  Whatever the user and the stream did before, a bulk replay is sent only on confirmation, and
  only for jobs the user ticked, or selected as a page, while they were shown.
\<close>

theorem replay_only_picked:
  assumes "ui_run es (load st) = (u, ds)" and "ui_step data e u = (u', cs)" and "ReplayMany ids \<in> set cs"
  shows "set ids \<subseteq> picked es \<and> distinct ids \<and> ids \<noteq> [] \<and> e = Replay_selected True"
  by (rule replay_picked [OF assms])

lemma replay_only_picked_witness:
  "ui_step no_data (Replay_selected True) (fst (ui_run dlq_history (load (setApiKey ''k'' (\<lambda>_. None)))))
     = (fst (ui_run dlq_history (load (setApiKey ''k'' (\<lambda>_. None)))), [ReplayMany [''1'']])
   \<and> {''1''} \<subseteq> picked dlq_history"
proof -
  let ?u = "fst (ui_run dlq_history (load (setApiKey ''k'' (\<lambda>_. None))))"
  have s: "ui_step no_data (Replay_selected True) ?u = (?u, [ReplayMany [''1'']])"
    by (simp add: dlq_history_run ui_step_def view_step_def dlq_step_def)
  from replay_only_picked [OF prod.collapse [symmetric] s] show ?thesis using s by simp
qed

end
